(* ===== verification/Wrela_Prelude.thy ===== *)
theory Wrela_Prelude
  imports Main "HOL-Library.Word"
begin

text \<open>
  The shared library of the development: names for Go's fixed-width integers, the little-endian
  byte layout of \<open>encoding/binary\<close>, in-range writes into a byte buffer, and the interfaces that
  several components provide: a fixed-width byte codec, a round-up-to-alignment routine and a
  transition system with an invariant.
\<close>

unbundle bit_operations_syntax

section \<open>Types and collections\<close>

type_synonym byte = "8 word"
type_synonym u16 = "16 word"
type_synonym u32 = "32 word"
type_synonym u64 = "64 word"
type_synonym bytes = "byte list"

named_theorems buffer_simps \<open>reading and measuring byte buffers\<close>
named_theorems align_simps \<open>unfolding the round-up routines\<close>

text \<open>Every fixed-width value is below its modulus.\<close>

lemma unat_u64_less [simp]: "unat (w :: u64) < 18446744073709551616"
  using unsigned_less [where 'a = nat and w = w] by simp

lemma unat_u32_less [simp]: "unat (w :: u32) < 4294967296"
  using unsigned_less [where 'a = nat and w = w] by simp

lemma unat_u16_less [simp]: "unat (w :: u16) < 65536"
  using unsigned_less [where 'a = nat and w = w] by simp

lemma unat_byte_less [simp]: "unat (w :: byte) < 256"
  using unsigned_less [where 'a = nat and w = w] by simp

lemma unat_of_nat_u64: "n < 2 ^ 64 \<Longrightarrow> unat (of_nat n :: u64) = n"
  by (simp only: unsigned_of_nat) (simp add: take_bit_nat_eq_self)

lemma unat_of_nat_u32: "n < 2 ^ 32 \<Longrightarrow> unat (of_nat n :: u32) = n"
  by (simp only: unsigned_of_nat) (simp add: take_bit_nat_eq_self)

lemma unat_of_nat_u16: "n < 2 ^ 16 \<Longrightarrow> unat (of_nat n :: u16) = n"
  by (simp only: unsigned_of_nat) (simp add: take_bit_nat_eq_self)

lemma unat_add_u64:
  "unat (a :: u64) + unat b < 18446744073709551616 \<Longrightarrow> unat (a + b) = unat a + unat b"
  by (simp add: unat_word_ariths)

lemma unat_add_u64_wrap:
  assumes "18446744073709551616 \<le> unat (a :: u64) + unat b"
  shows "unat (a + b) = unat a + unat b - 18446744073709551616"
proof -
  have "unat a + unat b - 18446744073709551616 < 18446744073709551616"
    using unat_u64_less [of a] unat_u64_less [of b] by linarith
  with assms show ?thesis by (simp add: unat_word_ariths le_mod_geq)
qed

section \<open>Little-endian bytes\<close>

text \<open>Go's \<open>binary.LittleEndian.PutUint16/32/64\<close> produce these bytes, lowest first.\<close>

definition le_bytes :: "nat \<Rightarrow> 'a::len word \<Rightarrow> bytes" where
  "le_bytes n w = map (\<lambda>i. ucast (drop_bit (8 * i) w)) [0..<n]"

primrec le_word :: "bytes \<Rightarrow> 'a::len word" where
  "le_word [] = 0"
| "le_word (b # bs) = ucast b OR push_bit 8 (le_word bs)"

definition PutUint16 :: "u16 \<Rightarrow> bytes" where
  "PutUint16 = le_bytes 2"

definition PutUint32 :: "u32 \<Rightarrow> bytes" where
  "PutUint32 = le_bytes 4"

definition PutUint64 :: "u64 \<Rightarrow> bytes" where
  "PutUint64 = le_bytes 8"

text \<open>The matching readers want exactly their width, as the fixed-width slices of the code do.\<close>

definition le_read :: "nat \<Rightarrow> bytes \<Rightarrow> 'a::len word option" where
  "le_read n bs = (if length bs = n then Some (le_word bs) else None)"

lemma length_le_bytes [simp, buffer_simps]: "length (le_bytes n w) = n"
  by (simp add: le_bytes_def)

lemma le_bytes_0 [simp]: "le_bytes 0 w = []"
  by (simp add: le_bytes_def)

lemma le_bytes_Suc: "le_bytes (Suc n) w = ucast w # le_bytes n (drop_bit 8 w)"
proof -
  have "map (\<lambda>i. ucast (drop_bit (8 * i) w)) (map Suc [0..<n]) =
        map (\<lambda>i. (ucast (drop_bit (8 * i) (drop_bit 8 w)) :: byte)) [0..<n]"
    by (simp add: drop_bit_drop_bit comp_def add.commute)
  then show ?thesis
    by (simp add: le_bytes_def upt_conv_Cons map_Suc_upt [symmetric] del: upt_Suc map_map)
qed

lemma length_PutUint [simp, buffer_simps]:
  "length (PutUint16 a) = 2" "length (PutUint32 b) = 4" "length (PutUint64 c) = 8"
  by (simp_all add: PutUint16_def PutUint32_def PutUint64_def)

lemma low_byte_split:
  fixes w :: "'a::len word"
  shows "ucast (ucast w :: byte) OR push_bit 8 (take_bit m (drop_bit 8 w)) = take_bit (m + 8) w"
  by (rule bit_word_eqI)
    (auto simp: bit_simps not_le less_diff_conv2)

lemma le_word_le_bytes_take: "le_word (le_bytes n w) = take_bit (8 * n) w"
proof (induction n arbitrary: w)
  case 0
  then show ?case by simp
next
  case (Suc n)
  have "le_word (le_bytes (Suc n) w) =
        ucast (ucast w :: byte) OR push_bit 8 (take_bit (8 * n) (drop_bit 8 w))"
    by (simp add: le_bytes_Suc Suc.IH)
  also have "\<dots> = take_bit (8 * n + 8) w"
    by (rule low_byte_split)
  finally show ?case by (simp add: add.commute)
qed

lemma le_word_le_bytes:
  fixes w :: "'a::len word"
  assumes "LENGTH('a) \<le> 8 * n"
  shows "le_word (le_bytes n w) = w"
  using assms by (simp add: le_word_le_bytes_take take_bit_word_eq_self)

lemma le_bytes_le_word:
  assumes "8 * length bs \<le> LENGTH('a::len)"
  shows "le_bytes (length bs) (le_word bs :: 'a word) = bs"
  using assms
proof (induction bs)
  case Nil
  then show ?case by simp
next
  case (Cons b bs)
  let ?w = "le_word bs :: 'a word"
  from Cons.prems have len: "8 + 8 * length bs \<le> LENGTH('a)" by simp
  have small: "take_bit (8 * length bs) ?w = ?w"
  proof -
    have "le_word (le_bytes (length bs) ?w) = take_bit (8 * length bs) ?w"
      by (rule le_word_le_bytes_take)
    moreover have "le_bytes (length bs) ?w = bs"
      using Cons by simp
    ultimately show ?thesis by simp
  qed
  have bound: "\<not> bit ?w (8 * length bs + n)" for n
    by (metis bit_take_bit_iff not_add_less1 small)
  have low: "ucast (ucast b OR push_bit 8 ?w) = b"
    using len by (intro bit_word_eqI) (auto simp: bit_simps)
  have high: "drop_bit 8 (ucast b OR push_bit 8 ?w) = ?w"
  proof (rule bit_word_eqI)
    fix n assume "n < LENGTH('a)"
    show "bit (drop_bit 8 (ucast b OR push_bit 8 ?w)) n = bit ?w n"
    proof (cases "n < 8 * length bs")
      case True
      with len show ?thesis by (auto simp: bit_simps dest: bit_imp_le_length)
    next
      case False
      then obtain k where "n = 8 * length bs + k" by (metis le_add_diff_inverse not_le)
      with bound show ?thesis by (auto simp: bit_simps dest: bit_imp_le_length)
    qed
  qed
  from Cons low high show ?case by (simp add: le_bytes_Suc)
qed

section \<open>Writing into a byte buffer\<close>

text \<open>
  Go's \<open>copy(dst[off:], bs)\<close> and the \<open>Put\<close> routines replace a run of bytes in place. A run
  that does not fit makes the slice expression panic: \<open>write_at\<close> returns None there, and
  \<open>write_all\<close> performs a sequence of writes in order.
\<close>

definition overwrite :: "nat \<Rightarrow> bytes \<Rightarrow> bytes \<Rightarrow> bytes" where
  "overwrite off bs dst = take off dst @ bs @ drop (off + length bs) dst"

definition write_at :: "nat \<Rightarrow> bytes \<Rightarrow> bytes \<Rightarrow> bytes option" where
  "write_at off bs dst =
     (if off + length bs \<le> length dst then Some (overwrite off bs dst) else None)"

fun write_all :: "(nat \<times> bytes) list \<Rightarrow> bytes \<Rightarrow> bytes option" where
  "write_all [] dst = Some dst"
| "write_all ((off, bs) # ws) dst =
     (case write_at off bs dst of None \<Rightarrow> None | Some dst' \<Rightarrow> write_all ws dst')"

definition read_at :: "nat \<Rightarrow> nat \<Rightarrow> bytes \<Rightarrow> bytes" where
  "read_at off n dst = take n (drop off dst)"

lemma length_overwrite [simp, buffer_simps]:
  "off + length bs \<le> length dst \<Longrightarrow> length (overwrite off bs dst) = length dst"
  by (simp add: overwrite_def)

lemma length_read_at [buffer_simps]:
  "off + n \<le> length dst \<Longrightarrow> length (read_at off n dst) = n"
  by (simp add: read_at_def)

lemma read_overwrite_same:
  "off + length bs \<le> length dst \<Longrightarrow> read_at off (length bs) (overwrite off bs dst) = bs"
  by (simp add: read_at_def overwrite_def)

lemma nth_overwrite:
  assumes "off + length bs \<le> length dst" and "i < length dst"
  shows "overwrite off bs dst ! i =
    (if off \<le> i \<and> i < off + length bs then bs ! (i - off) else dst ! i)"
  using assms by (auto simp: overwrite_def nth_append min_def)

lemma read_at_eqI:
  assumes "off + n \<le> length xs" and "off + n \<le> length ys"
    and "\<And>i. off \<le> i \<Longrightarrow> i < off + n \<Longrightarrow> xs ! i = ys ! i"
  shows "read_at off n xs = read_at off n ys"
  using assms by (intro nth_equalityI) (auto simp: read_at_def)

lemma read_overwrite_other:
  assumes "off + length bs \<le> length dst" and "i + n \<le> off \<or> off + length bs \<le> i"
    and "i + n \<le> length dst"
  shows "read_at i n (overwrite off bs dst) = read_at i n dst"
  using assms by (intro read_at_eqI) (auto simp: nth_overwrite)

lemma write_at_Some:
  "write_at off bs dst = Some dst' \<longleftrightarrow>
     off + length bs \<le> length dst \<and> dst' = overwrite off bs dst"
  by (auto simp: write_at_def)

lemma write_all_append:
  "write_all (us @ ws) dst = (case write_all us dst of None \<Rightarrow> None | Some dst' \<Rightarrow> write_all ws dst')"
  by (induction us dst rule: write_all.induct) (auto split: option.splits)

lemma write_all_in_range:
  assumes "\<And>off bs. (off, bs) \<in> set ws \<Longrightarrow> off + length bs \<le> length dst"
  shows "write_all ws dst = Some (fold (\<lambda>(off, bs). overwrite off bs) ws dst)"
    and "length (fold (\<lambda>(off, bs). overwrite off bs) ws dst) = length dst"
proof -
  have "write_all ws dst = Some (fold (\<lambda>(off, bs). overwrite off bs) ws dst) \<and>
        length (fold (\<lambda>(off, bs). overwrite off bs) ws dst) = length dst"
    using assms
  proof (induction ws arbitrary: dst)
    case Nil
    then show ?case by simp
  next
    case (Cons w ws)
    obtain off bs where w: "w = (off, bs)" by (cases w)
    have fits: "off + length bs \<le> length dst" using Cons.prems w by auto
    have "\<And>o' b'. (o', b') \<in> set ws \<Longrightarrow> o' + length b' \<le> length (overwrite off bs dst)"
      using Cons.prems fits by auto
    from Cons.IH [OF this] fits show ?case by (simp add: w write_at_def)
  qed
  then show "write_all ws dst = Some (fold (\<lambda>(off, bs). overwrite off bs) ws dst)"
    and "length (fold (\<lambda>(off, bs). overwrite off bs) ws dst) = length dst"
    by auto
qed

lemma write_all_length: "write_all ws dst = Some dst' \<Longrightarrow> length dst' = length dst"
  by (induction ws dst rule: write_all.induct) (auto simp: write_at_Some split: option.splits)

text \<open>A region that no later write touches keeps its bytes.\<close>

lemma write_all_read_other:
  assumes "write_all ws dst = Some dst'" and "i + n \<le> length dst"
    and "\<And>off bs. (off, bs) \<in> set ws \<Longrightarrow> i + n \<le> off \<or> off + length bs \<le> i"
  shows "read_at i n dst' = read_at i n dst"
  using assms
proof (induction ws dst rule: write_all.induct)
  case (2 off bs ws dst)
  then obtain d where d: "write_at off bs dst = Some d" and rest: "write_all ws d = Some dst'"
    by (auto split: option.splits)
  from d have len: "off + length bs \<le> length dst" "d = overwrite off bs dst"
    by (auto simp: write_at_Some)
  have "read_at i n dst' = read_at i n d"
    using "2.IH" [OF d rest] "2.prems" len by auto
  also have "\<dots> = read_at i n dst"
    using "2.prems"(2) "2.prems"(3) [of off bs] len by (simp add: read_overwrite_other)
  finally show ?case .
qed simp

text \<open>A write survives when the ones after it are elsewhere.\<close>

lemma write_all_read:
  assumes "write_all (us @ (off, bs) # ws) dst = Some dst'"
    and "\<And>o' b'. (o', b') \<in> set ws \<Longrightarrow> off + length bs \<le> o' \<or> o' + length b' \<le> off"
  shows "read_at off (length bs) dst' = bs"
proof -
  from assms(1) obtain d e where d: "write_all us dst = Some d" and e: "write_at off bs d = Some e"
    and r: "write_all ws e = Some dst'"
    by (auto simp: write_all_append split: option.splits)
  from e have fits: "off + length bs \<le> length d" "e = overwrite off bs d"
    by (auto simp: write_at_Some)
  have "read_at off (length bs) dst' = read_at off (length bs) e"
    using write_all_read_other [OF r, of off "length bs"] assms(2) fits by auto
  with fits show ?thesis by (simp add: read_overwrite_same)
qed

text \<open>In a set of stores that are apart from each other every one can be read back.\<close>

definition apart :: "nat \<times> bytes \<Rightarrow> nat \<times> bytes \<Rightarrow> bool" where
  "apart = (\<lambda>(o1, b1) (o2, b2). o1 + length b1 \<le> o2 \<or> o2 + length b2 \<le> o1)"

definition inside :: "nat \<Rightarrow> nat \<Rightarrow> (nat \<times> bytes) list \<Rightarrow> bool" where
  "inside lo hi ws \<longleftrightarrow> list_all (\<lambda>(o1, b1). lo \<le> o1 \<and> o1 + length b1 \<le> hi) ws"

lemma write_all_member:
  assumes "write_all ws dst = Some dst'" and "(off, bs) \<in> set ws"
    and "\<And>w. w \<in> set ws \<Longrightarrow> w \<noteq> (off, bs) \<Longrightarrow> apart (off, bs) w"
  shows "read_at off (length bs) dst' = bs"
proof -
  from split_list_last [OF assms(2)] obtain us vs where ws: "ws = us @ (off, bs) # vs" "(off, bs) \<notin> set vs" by blast
  show ?thesis
  proof (rule write_all_read [OF assms(1) [unfolded ws(1)]])
    fix o1 b1 assume "(o1, b1) \<in> set vs"
    with ws assms(3) [of "(o1, b1)"] show "off + length bs \<le> o1 \<or> o1 + length b1 \<le> off"
      by (auto simp: apart_def)
  qed
qed

lemma inside_apart:
  "inside lo hi ws \<Longrightarrow> w \<in> set ws \<Longrightarrow> off + length bs \<le> lo \<or> hi \<le> off \<Longrightarrow> apart (off, bs) w"
  by (cases w) (auto simp: inside_def apart_def list_all_iff intro: le_trans)

lemma inside_append [simp]: "inside lo hi (us @ ws) \<longleftrightarrow> inside lo hi us \<and> inside lo hi ws"
  by (simp add: inside_def)

lemma inside_mono: "inside lo hi ws \<Longrightarrow> lo' \<le> lo \<Longrightarrow> hi \<le> hi' \<Longrightarrow> inside lo' hi' ws"
  unfolding inside_def by (erule list.pred_mono_strong) auto

lemma inside_write_all: "inside lo (length dst) ws \<Longrightarrow> \<exists>out. write_all ws dst = Some out"
  using write_all_in_range(1) [of ws dst] by (fastforce simp: inside_def list_all_iff)

section \<open>Interface: a fixed-width byte codec\<close>

text \<open>
  What a client of an on-disk or in-image format relies on: every value takes the same number of
  bytes and the reader inverts the writer. Fields can then be packed back to back and split again.
\<close>

locale byte_codec =
  fixes valid :: "'a \<Rightarrow> bool" and enc :: "'a \<Rightarrow> bytes" and dec :: "bytes \<Rightarrow> 'a option" and width :: nat
  assumes enc_width: "valid x \<Longrightarrow> length (enc x) = width"
    and dec_enc: "valid x \<Longrightarrow> dec (enc x) = Some x"
begin

lemma enc_inject: "valid x \<Longrightarrow> valid y \<Longrightarrow> enc x = enc y \<longleftrightarrow> x = y"
  by (metis dec_enc option.inject)

lemma enc_append_inject:
  "valid x \<Longrightarrow> valid y \<Longrightarrow> enc x @ r = enc y @ s \<longleftrightarrow> x = y \<and> r = s"
  by (metis append_eq_append_conv enc_inject enc_width)

lemma length_concat_enc: "list_all valid xs \<Longrightarrow> length (concat (map enc xs)) = length xs * width"
  by (induction xs) (auto simp: enc_width)

fun dec_all :: "nat \<Rightarrow> bytes \<Rightarrow> 'a list option" where
  "dec_all 0 bs = Some []"
| "dec_all (Suc n) bs =
     (case dec (take width bs) of None \<Rightarrow> None
      | Some x \<Rightarrow> map_option (Cons x) (dec_all n (drop width bs)))"

lemma dec_all_concat:
  "list_all valid xs \<Longrightarrow> dec_all (length xs) (concat (map enc xs) @ rest) = Some xs"
  by (induction xs) (simp_all add: enc_width dec_enc)

lemma concat_enc_inject:
  assumes "list_all valid xs" and "list_all valid ys"
    and "length xs = length ys" and "concat (map enc xs) = concat (map enc ys)"
  shows "xs = ys"
  by (metis append_Nil2 assms dec_all_concat option.inject)

end

interpretation le16: byte_codec "\<lambda>_. True" PutUint16 "le_read 2" 2
  by unfold_locales (simp_all add: PutUint16_def le_read_def le_word_le_bytes)

interpretation le32: byte_codec "\<lambda>_. True" PutUint32 "le_read 4" 4
  by unfold_locales (simp_all add: PutUint32_def le_read_def le_word_le_bytes)

interpretation le64: byte_codec "\<lambda>_. True" PutUint64 "le_read 8" 8
  by unfold_locales (simp_all add: PutUint64_def le_read_def le_word_le_bytes)

section \<open>Interface: rounding up to an alignment\<close>

text \<open>
  Three packages carry a routine of their own that rounds an offset up. What their clients use is
  the same contract, on the inputs the routine supports (\<open>ok\<close>): the result is a multiple of the
  alignment, not below the offset, and less than one alignment above it.
\<close>

locale aligner =
  fixes up :: "nat \<Rightarrow> nat \<Rightarrow> nat" and ok :: "nat \<Rightarrow> nat \<Rightarrow> bool"
  assumes up_ge: "ok v a \<Longrightarrow> v \<le> up v a"
    and up_dvd: "ok v a \<Longrightarrow> a dvd up v a"
    and up_less: "ok v a \<Longrightarrow> up v a < v + a"
begin

lemma up_id: "ok v a \<Longrightarrow> a dvd v \<Longrightarrow> up v a = v"
proof -
  assume ok: "ok v a" and dvd: "a dvd v"
  from dvd up_dvd [OF ok] have "a dvd up v a - v" by (rule dvd_diff_nat [rotated])
  moreover have "up v a - v < a" using up_less [OF ok] up_ge [OF ok] by linarith
  ultimately have "up v a - v = 0" by (meson dvd_imp_le not_le zero_less_iff_neq_zero)
  with up_ge [OF ok] show ?thesis by simp
qed

text \<open>The contract leaves no freedom: it determines the routine.\<close>

lemma up_eq: "ok v a \<Longrightarrow> up v a = (v + a - 1) div a * a"
proof -
  assume ok: "ok v a"
  from up_less [OF ok] up_ge [OF ok] have a: "0 < a" by linarith
  from up_dvd [OF ok] obtain k where k: "up v a = a * k" ..
  have "k = (v + a - 1) div a"
  proof (rule div_nat_eqI [symmetric])
    show "a * k \<le> v + a - 1" using up_less [OF ok] k by simp
    show "v + a - 1 < a * Suc k" using up_ge [OF ok] k a by simp
  qed
  with k show ?thesis by simp
qed

end

lemma aligners_agree:
  assumes "aligner f okf" and "aligner g okg" and "okf v a" and "okg v a"
  shows "f v a = g v a"
  using aligner.up_eq [OF assms(1,3)] aligner.up_eq [OF assms(2,4)] by simp


text \<open>The 64-bit routines clear the low bits after adding the alignment less one.\<close>

lemma unat_clear_low_bits:
  fixes w :: "'a::len word"
  shows "unat (w AND NOT (mask k)) = unat w div 2 ^ k * 2 ^ k"
proof -
  have "w AND NOT (mask k) = push_bit k (drop_bit k w)"
    by (rule bit_word_eqI) (auto simp: bit_simps not_le)
  moreover have "unat (push_bit k (drop_bit k w)) = push_bit k (unat w div 2 ^ k) mod 2 ^ LENGTH('a)"
    by (simp add: unsigned_push_bit_eq unsigned_drop_bit_eq take_bit_eq_mod drop_bit_eq_div [where 'a = nat])
  moreover have "unat w div 2 ^ k * 2 ^ k < 2 ^ LENGTH('a)"
    by (meson div_times_less_eq_dividend le_less_trans unsigned_less)
  ultimately show ?thesis by (simp add: push_bit_eq_mult)
qed

lemma unat_mask_up:
  fixes v a :: u64
  assumes a: "unat a = 2 ^ k" and fits: "unat v + unat a \<le> 2 ^ 64"
  shows "unat ((v + a - 1) AND NOT (a - 1)) = (unat v + unat a - 1) div unat a * unat a"
proof -
  have k: "k < 64"
  proof (rule ccontr)
    assume "\<not> k < 64"
    then have "(2::nat) ^ 64 \<le> 2 ^ k" by (intro power_increasing) auto
    with a unat_u64_less [of a] show False by simp
  qed
  have a_eq: "a = 2 ^ k"
  proof -
    have "a = of_nat (unat a)" by simp
    also have "\<dots> = 2 ^ k" by (simp only: a of_nat_power of_nat_numeral)
    finally show ?thesis .
  qed
  have mask: "a - 1 = mask k" by (simp add: a_eq mask_eq_decr_exp)
  have "unat (v + (a - 1)) = unat v + (unat a - 1)"
  proof -
    have "1 \<le> a" using a by (simp add: word_le_nat_alt)
    then have "unat (a - 1) = unat a - 1" by (simp add: unat_sub)
    moreover have "unat v + (unat a - 1) < 2 ^ 64" using fits a by simp
    ultimately show ?thesis by (simp add: unat_word_ariths)
  qed
  then have "unat (v + a - 1) = unat v + unat a - 1" using a by (simp add: add_diff_eq)
  with a show ?thesis by (simp add: mask unat_clear_low_bits)
qed

text \<open>The alignments the masking routines support, on sums that do not wrap.\<close>

definition mask_up_ok :: "nat \<Rightarrow> nat \<Rightarrow> bool" where
  "mask_up_ok v a \<longleftrightarrow> (\<exists>k<64. a = 2 ^ k) \<and> v + a \<le> 2 ^ 64"

definition mask_up :: "u64 \<Rightarrow> u64 \<Rightarrow> u64" where
  "mask_up v a = (v + a - 1) AND NOT (a - 1)"

lemma mask_up_eq:
  assumes "mask_up_ok v a"
  shows "unat (mask_up (of_nat v) (of_nat a)) = (v + a - 1) div a * a"
proof -
  from assms obtain k where k: "k < 64" "a = 2 ^ k" and fits: "v + a \<le> 2 ^ 64" by (auto simp: mask_up_ok_def)
  have "a < 2 ^ 64" unfolding k(2) by (intro power_strict_increasing k(1)) simp
  then have ua: "unat (of_nat a :: u64) = a" by (rule unat_of_nat_u64)
  have "0 < a" using k(2) by simp
  with fits have "v < 2 ^ 64" by linarith
  then have uv: "unat (of_nat v :: u64) = v" by (rule unat_of_nat_u64)
  have "unat (of_nat a :: u64) = 2 ^ k" "unat (of_nat v :: u64) + unat (of_nat a :: u64) \<le> 2 ^ 64"
    using ua uv k(2) fits by simp_all
  from unat_mask_up [OF this] show ?thesis unfolding mask_up_def ua uv .
qed

lemma mask_up_aligner: "aligner (\<lambda>v a. unat (mask_up (of_nat v) (of_nat a))) mask_up_ok"
proof
  fix v a assume ok: "mask_up_ok v a"
  then have a: "0 < a" by (auto simp: mask_up_ok_def)
  let ?k = "(v + a - 1) div a"
  note eq = mask_up_eq [OF ok]
  have "v + a - 1 = ?k * a + (v + a - 1) mod a" by simp
  moreover have "(v + a - 1) mod a < a" using a by simp
  ultimately have le: "v \<le> ?k * a" using a by linarith
  have ge: "?k * a \<le> v + a - 1" by simp
  show "v \<le> unat (mask_up (of_nat v) (of_nat a))" using le unfolding eq .
  show "a dvd unat (mask_up (of_nat v) (of_nat a))" unfolding eq by simp
  show "unat (mask_up (of_nat v) (of_nat a)) < v + a" using ge a unfolding eq by linarith
qed

section \<open>Interface: a transition system with an invariant\<close>

text \<open>
  Several components are driven by a sequence of calls in an order the component does not choose.
  Each gives its step relation, its initial states and an invariant; what the clients use is that
  the invariant holds after any sequence of steps.
\<close>

locale transition_invariant =
  fixes init :: "'s \<Rightarrow> bool" and step :: "'s \<Rightarrow> 's \<Rightarrow> bool" and inv :: "'s \<Rightarrow> bool"
  assumes init_inv: "init s \<Longrightarrow> inv s"
    and step_inv: "inv s \<Longrightarrow> step s t \<Longrightarrow> inv t"
begin

lemma steps_inv: "step\<^sup>*\<^sup>* s t \<Longrightarrow> inv s \<Longrightarrow> inv t"
  by (induction rule: rtranclp_induct) (auto intro: step_inv)

lemma reachable_inv: "init s \<Longrightarrow> step\<^sup>*\<^sup>* s t \<Longrightarrow> inv t"
  using steps_inv init_inv by blast

text \<open>A quantity that no step lowers from a state with the invariant is never lowered.\<close>

lemma steps_mono:
  fixes f :: "'s \<Rightarrow> 'b::preorder"
  assumes mono: "\<And>s t. inv s \<Longrightarrow> step s t \<Longrightarrow> f s \<le> f t"
    and "step\<^sup>*\<^sup>* s t" and "inv s"
  shows "f s \<le> f t"
  using assms(2,3)
proof (induction rule: rtranclp_induct)
  case (step y z)
  then have "f y \<le> f z" using steps_inv mono by blast
  with step show ?case using order_trans by blast
qed simp

end

end
