(* ===== verification/Storage_Slots.thy ===== *)
theory Storage_Slots
  imports Wrela_Prelude
begin

text \<open>
  The durable event slot of \<open>compiler/storagefmt/format.go\<close>: the header and slot structs, the
  512-byte image that \<open>slotBytes\<close> lays out, its CRC-32C, and the checksum predicate that recovery
  relies on. The lemmas show that the slot image is a fixed-width codec and that the checksum
  rejects every corruption confined to four neighbouring bytes.
\<close>

unbundle bit_operations_syntax

section \<open>Constants\<close>

definition EventSlotSize :: nat where "EventSlotSize = 512"
definition EventHeaderSize :: nat where "EventHeaderSize = 64"
definition EventPayloadBytes :: nat where "EventPayloadBytes = 448"
definition StorageMaxAtomicGroupSlots :: nat where "StorageMaxAtomicGroupSlots = 32"
definition StorageSlotReservedEmpty :: u32 where "StorageSlotReservedEmpty = 1"

section \<open>CRC-32C\<close>

text \<open>
  \<open>CRC32C\<close> calls \<open>hash/crc32\<close> with the Castagnoli polynomial. That routine is the reflected
  CRC: the state starts as all ones, each byte is added to the low end and shifted out bit by bit
  with the reversed polynomial, and the final state is complemented.
\<close>

definition crc_bit :: "u32 \<Rightarrow> u32" where
  "crc_bit c = (if bit c 0 then drop_bit 1 c XOR 0x82F63B78 else drop_bit 1 c)"

definition crc_byte :: "u32 \<Rightarrow> byte \<Rightarrow> u32" where
  "crc_byte c b = (crc_bit ^^ 8) (c XOR ucast b)"

definition CRC32C :: "bytes \<Rightarrow> u32" where
  "CRC32C data = NOT (foldl crc_byte (NOT 0) data)"

section \<open>Slots\<close>

record EventSlotHeader =
  EventID :: u64
  StreamID :: u64
  StreamSequence :: u64
  EventTypeID :: u32
  PayloadLayoutID :: u32
  AtomicGroupLen :: u32
  AtomicGroupIndex :: u32
  PayloadLength :: u32
  Flags :: u32
  Checksum32 :: u32
  HeaderVersion :: u16
  Reserved16 :: u16
  Reserved64 :: u64

text \<open>The Go array \<open>[448]byte\<close> is a byte list whose length \<open>wf_slot\<close> fixes.\<close>

record Slot =
  Header :: EventSlotHeader
  Payload :: bytes

definition wf_slot :: "Slot \<Rightarrow> bool" where
  "wf_slot s \<longleftrightarrow> length (Payload s) = EventPayloadBytes"

definition zero_header :: EventSlotHeader where
  "zero_header = \<lparr>EventID = 0, StreamID = 0, StreamSequence = 0, EventTypeID = 0,
     PayloadLayoutID = 0, AtomicGroupLen = 0, AtomicGroupIndex = 0, PayloadLength = 0,
     Flags = 0, Checksum32 = 0, HeaderVersion = 0, Reserved16 = 0, Reserved64 = 0\<rparr>"

text \<open>The writes of \<open>slotBytes\<close>, in the order of the code, into 512 zero bytes.\<close>

definition slot_writes :: "Slot \<Rightarrow> u32 \<Rightarrow> (nat \<times> bytes) list" where
  "slot_writes s checksum = (let h = Header s in
     [(0, PutUint64 (EventID h)),
      (8, PutUint64 (StreamID h)),
      (16, PutUint64 (StreamSequence h)),
      (24, PutUint32 (EventTypeID h)),
      (28, PutUint32 (PayloadLayoutID h)),
      (32, PutUint32 (AtomicGroupLen h)),
      (36, PutUint32 (AtomicGroupIndex h)),
      (40, PutUint32 (PayloadLength h)),
      (44, PutUint32 (Flags h)),
      (48, PutUint32 checksum),
      (52, PutUint16 (HeaderVersion h)),
      (54, PutUint16 (Reserved16 h)),
      (56, PutUint64 (Reserved64 h)),
      (EventHeaderSize, Payload s)])"

definition slotBytes :: "Slot \<Rightarrow> u32 \<Rightarrow> bytes" where
  "slotBytes s checksum =
     fold (\<lambda>(off, bs). overwrite off bs) (slot_writes s checksum) (replicate EventSlotSize 0)"

definition SlotChecksum :: "Slot \<Rightarrow> u32" where
  "SlotChecksum s = CRC32C (slotBytes s 0)"

definition slotChecksumValid :: "Slot \<Rightarrow> bool" where
  "slotChecksumValid s \<longleftrightarrow> Checksum32 (Header s) = SlotChecksum s"

definition RefreshSlotChecksum :: "Slot \<Rightarrow> Slot" where
  "RefreshSlotChecksum s =
     (let s0 = s\<lparr>Header := Header s\<lparr>Checksum32 := 0\<rparr>\<rparr>
      in s0\<lparr>Header := Header s0\<lparr>Checksum32 := SlotChecksum s0\<rparr>\<rparr>)"

definition isReservedEmptySlot :: "EventSlotHeader \<Rightarrow> bool" where
  "isReservedEmptySlot h \<longleftrightarrow>
     EventTypeID h = 0 \<and>
     PayloadLayoutID h = 0 \<and>
     StreamID h = 0 \<and>
     StreamSequence h = 0 \<and>
     AtomicGroupLen h = 0 \<and>
     AtomicGroupIndex h = 0 \<and>
     PayloadLength h = 0 \<and>
     Flags h AND StorageSlotReservedEmpty \<noteq> 0"

definition ValidSlotForTest :: "u64 \<Rightarrow> Slot" where
  "ValidSlotForTest eventID = RefreshSlotChecksum
     \<lparr>Header = zero_header\<lparr>EventID := eventID, StreamID := 7, StreamSequence := eventID,
        EventTypeID := 1001, PayloadLayoutID := 1, AtomicGroupLen := 1, AtomicGroupIndex := 0,
        PayloadLength := 0, HeaderVersion := 1\<rparr>,
      Payload = replicate EventPayloadBytes 0\<rparr>"

definition ReservedEmptySlotForTest :: "u64 \<Rightarrow> Slot" where
  "ReservedEmptySlotForTest eventID = RefreshSlotChecksum
     \<lparr>Header = zero_header\<lparr>EventID := eventID, Flags := StorageSlotReservedEmpty,
        HeaderVersion := 1\<rparr>,
      Payload = replicate EventPayloadBytes 0\<rparr>"

text \<open>Reading a slot image back, field by field at the same offsets.\<close>

definition parse_slot :: "bytes \<Rightarrow> Slot option" where
  "parse_slot bs = (if length bs = EventSlotSize then Some
     \<lparr>Header = \<lparr>EventID = le_word (read_at 0 8 bs), StreamID = le_word (read_at 8 8 bs),
        StreamSequence = le_word (read_at 16 8 bs), EventTypeID = le_word (read_at 24 4 bs),
        PayloadLayoutID = le_word (read_at 28 4 bs), AtomicGroupLen = le_word (read_at 32 4 bs),
        AtomicGroupIndex = le_word (read_at 36 4 bs), PayloadLength = le_word (read_at 40 4 bs),
        Flags = le_word (read_at 44 4 bs), Checksum32 = le_word (read_at 48 4 bs),
        HeaderVersion = le_word (read_at 52 2 bs), Reserved16 = le_word (read_at 54 2 bs),
        Reserved64 = le_word (read_at 56 8 bs)\<rparr>,
      Payload = read_at 64 448 bs\<rparr> else None)"

section \<open>The slot image\<close>

text \<open>
  The writes tile the buffer, so the image is the plain concatenation of the fields.
\<close>

lemma overwrite_next:
  "length done = off \<Longrightarrow> length bs = n \<Longrightarrow> n \<le> k \<Longrightarrow>
   overwrite off bs (done @ replicate k 0) = (done @ bs) @ replicate (k - n) 0"
  by (simp add: overwrite_def)

lemma slotBytes_concat:
  assumes "wf_slot s"
  shows "slotBytes s c = (let h = Header s in
    PutUint64 (EventID h) @ PutUint64 (StreamID h) @ PutUint64 (StreamSequence h) @
    PutUint32 (EventTypeID h) @ PutUint32 (PayloadLayoutID h) @ PutUint32 (AtomicGroupLen h) @
    PutUint32 (AtomicGroupIndex h) @ PutUint32 (PayloadLength h) @ PutUint32 (Flags h) @
    PutUint32 c @ PutUint16 (HeaderVersion h) @ PutUint16 (Reserved16 h) @
    PutUint64 (Reserved64 h) @ Payload s)"
proof -
  have p: "length (Payload s) = 448" using assms by (simp add: wf_slot_def EventPayloadBytes_def)
  have first: "overwrite 0 bs (replicate k 0) = bs @ replicate (k - length bs) 0"
    if "length bs \<le> k" for bs :: bytes and k
    using that by (simp add: overwrite_def)
  show ?thesis
    by (simp add: slotBytes_def slot_writes_def Let_def EventSlotSize_def EventHeaderSize_def
        first overwrite_next p del: append_assoc)
qed

lemma length_slotBytes: "wf_slot s \<Longrightarrow> length (slotBytes s c) = EventSlotSize"
  by (simp add: slotBytes_concat Let_def wf_slot_def EventPayloadBytes_def EventSlotSize_def)

lemma slot_writes_in_range:
  "wf_slot s \<Longrightarrow> (off, bs) \<in> set (slot_writes s c) \<Longrightarrow> off + length bs \<le> EventSlotSize"
  by (auto simp: slot_writes_def Let_def wf_slot_def EventSlotSize_def EventHeaderSize_def
      EventPayloadBytes_def)

text \<open>No slice expression of \<open>slotBytes\<close> is out of range.\<close>

lemma slotBytes_no_panic:
  "wf_slot s \<Longrightarrow> write_all (slot_writes s c) (replicate EventSlotSize 0) = Some (slotBytes s c)"
  using write_all_in_range(1) [of "slot_writes s c" "replicate EventSlotSize 0"]
  by (auto simp: slotBytes_def dest: slot_writes_in_range)

lemma parse_slotBytes:
  assumes "wf_slot s"
  shows "parse_slot (slotBytes s c) = Some (s\<lparr>Header := Header s\<lparr>Checksum32 := c\<rparr>\<rparr>)"
proof -
  have p: "length (Payload s) = 448" using assms by (simp add: wf_slot_def EventPayloadBytes_def)
  show ?thesis
    using length_slotBytes [OF assms, of c]
    by (simp add: parse_slot_def slotBytes_concat [OF assms] Let_def read_at_def p
        le_word_le_bytes PutUint16_def PutUint32_def PutUint64_def)
qed

lemma parse_slot_total: "length bs = 512 \<Longrightarrow> \<exists>s. parse_slot bs = Some s"
  by (simp add: parse_slot_def EventSlotSize_def)

interpretation slot_codec: byte_codec wf_slot "\<lambda>s. slotBytes s (Checksum32 (Header s))" parse_slot
    EventSlotSize
  by unfold_locales (simp_all add: length_slotBytes parse_slotBytes)

text \<open>The checksum covers the image with a zeroed checksum field, so storing it keeps it right.\<close>

lemma SlotChecksum_stored [simp]:
  "SlotChecksum (s\<lparr>Header := h\<lparr>Checksum32 := c\<rparr>\<rparr>) = SlotChecksum (s\<lparr>Header := h\<rparr>)"
  by (simp add: SlotChecksum_def slotBytes_def slot_writes_def Let_def)

lemma RefreshSlotChecksum_valid [simp]: "slotChecksumValid (RefreshSlotChecksum s)"
  using SlotChecksum_stored [where s = s and h = "Header s"]
  by (simp add: slotChecksumValid_def RefreshSlotChecksum_def Let_def)

lemma RefreshSlotChecksum_fields [simp]:
  "Payload (RefreshSlotChecksum s) = Payload s"
  "EventID (Header (RefreshSlotChecksum s)) = EventID (Header s)"
  "StreamID (Header (RefreshSlotChecksum s)) = StreamID (Header s)"
  "StreamSequence (Header (RefreshSlotChecksum s)) = StreamSequence (Header s)"
  "EventTypeID (Header (RefreshSlotChecksum s)) = EventTypeID (Header s)"
  "PayloadLayoutID (Header (RefreshSlotChecksum s)) = PayloadLayoutID (Header s)"
  "AtomicGroupLen (Header (RefreshSlotChecksum s)) = AtomicGroupLen (Header s)"
  "AtomicGroupIndex (Header (RefreshSlotChecksum s)) = AtomicGroupIndex (Header s)"
  "PayloadLength (Header (RefreshSlotChecksum s)) = PayloadLength (Header s)"
  "Flags (Header (RefreshSlotChecksum s)) = Flags (Header s)"
  by (simp_all add: RefreshSlotChecksum_def Let_def)

section \<open>The checksum detects short bursts\<close>

lemma poly_high: "bit (0x82F63B78 :: u32) 31"
  by simp

lemma crc_bit_high: "bit (crc_bit c) 31 \<longleftrightarrow> bit c 0"
  using poly_high by (auto simp: crc_bit_def bit_simps dest: bit_imp_le_length)

lemma xor_cancel: "a XOR k = b XOR (k :: 'a::len word) \<longleftrightarrow> a = b"
  by (metis bit.xor_self xor.assoc xor.right_neutral)

lemma crc_bit_inj: "crc_bit x = crc_bit y \<Longrightarrow> x = y"
proof -
  assume eq: "crc_bit x = crc_bit y"
  then have low: "bit x 0 \<longleftrightarrow> bit y 0" by (metis crc_bit_high)
  with eq have high: "drop_bit 1 x = drop_bit 1 y"
    by (auto simp: crc_bit_def xor_cancel split: if_splits)
  show "x = y"
  proof (rule bit_word_eqI)
    fix n assume "n < LENGTH(32)"
    show "bit x n = bit y n"
    proof (cases n)
      case 0
      with low show ?thesis by simp
    next
      case (Suc m)
      have "bit (drop_bit 1 x) m = bit (drop_bit 1 y) m" by (simp only: high)
      with Suc show ?thesis by (simp add: bit_simps)
    qed
  qed
qed

lemma crc_steps_inj: "(crc_bit ^^ n) x = (crc_bit ^^ n) y \<Longrightarrow> x = y"
  by (induction n) (auto dest: crc_bit_inj)

text \<open>The step is linear: what is added above the shifted-out bits is only shifted.\<close>

lemma crc_bit_add_shifted:
  assumes z: "\<And>n. bit (z :: u32) n \<longleftrightarrow> 1 \<le> n \<and> n < 32 \<and> bit y (n - 1)" and y: "\<not> bit y 31"
  shows "crc_bit (x XOR z) = crc_bit x XOR y"
proof -
  have "drop_bit 1 (x XOR z) = drop_bit 1 x XOR y"
  proof (rule bit_word_eqI)
    fix n assume "n < LENGTH(32)"
    with y have "bit z (n + 1) \<longleftrightarrow> bit y n"
      by (cases "n = 31") (auto simp: z)
    then show "bit (drop_bit 1 (x XOR z)) n = bit (drop_bit 1 x XOR y) n"
      by (simp add: bit_drop_bit_eq bit_xor_iff)
  qed
  moreover have "bit (x XOR z) 0 \<longleftrightarrow> bit x 0"
    by (simp add: bit_xor_iff z)
  ultimately show ?thesis
    by (simp add: crc_bit_def xor.assoc xor.commute xor.left_commute)
qed

lemma crc_bit_add: "\<not> bit y 31 \<Longrightarrow> crc_bit (x XOR push_bit 1 y) = crc_bit x XOR y"
  by (rule crc_bit_add_shifted) (simp_all only: bit_push_bit_iff possible_bit_word, auto)

lemma crc_steps_add:
  "(\<And>i. 32 - n \<le> i \<Longrightarrow> \<not> bit y i) \<Longrightarrow>
   (crc_bit ^^ n) (x XOR push_bit n y) = (crc_bit ^^ n) x XOR y"
proof (induction n arbitrary: x y)
  case 0
  then show ?case by simp
next
  case (Suc n)
  have "(crc_bit ^^ Suc n) (x XOR push_bit (Suc n) y) =
        (crc_bit ^^ n) (crc_bit (x XOR push_bit 1 (push_bit n y)))"
    by (simp add: funpow_Suc_right push_bit_push_bit del: funpow.simps push_bit_Suc)
  also have "crc_bit (x XOR push_bit 1 (push_bit n y)) = crc_bit x XOR push_bit n y"
  proof (rule crc_bit_add)
    show "\<not> bit (push_bit n y) 31"
      using Suc.prems [of "31 - n"] by (auto simp: bit_simps)
  qed
  also have "(crc_bit ^^ n) (crc_bit x XOR push_bit n y) = (crc_bit ^^ n) (crc_bit x) XOR y"
    by (rule Suc.IH) (use Suc.prems in auto)
  finally show ?case by (simp add: funpow_Suc_right del: funpow.simps)
qed

lemma le_word_high_bits: "8 * length bs \<le> i \<Longrightarrow> \<not> bit (le_word bs :: 'a::len word) i"
proof (induction bs arbitrary: i)
  case (Cons b bs)
  then have "\<not> bit (le_word bs :: 'a word) (i - 8)" by simp
  with Cons.prems show ?case
    by (auto simp: bit_or_iff bit_push_bit_iff bit_ucast_iff dest: bit_imp_le_length)
qed simp

lemma le_word_Cons_xor: "le_word (b # bs) = ucast b XOR push_bit 8 (le_word bs :: 'a::len word)"
proof -
  have "ucast b AND push_bit 8 (le_word bs :: 'a word) = 0"
    by (rule bit_word_eqI)
      (auto simp: bit_and_iff bit_push_bit_iff bit_ucast_iff dest: bit_imp_le_length)
  then show ?thesis by (simp add: disjunctive_xor_eq_or)
qed

lemma crc_bytes_word:
  "length bs \<le> 4 \<Longrightarrow> foldl crc_byte c bs = (crc_bit ^^ (8 * length bs)) (c XOR le_word bs)"
proof (induction bs arbitrary: c)
  case Nil
  then show ?case by simp
next
  case (Cons b bs)
  have "(crc_bit ^^ 8) ((c XOR ucast b) XOR push_bit 8 (le_word bs)) =
        (crc_bit ^^ 8) (c XOR ucast b) XOR le_word bs"
    using Cons.prems by (intro crc_steps_add le_word_high_bits) auto
  moreover have "(crc_bit ^^ (8 * length (b # bs))) x = (crc_bit ^^ (8 * length bs)) ((crc_bit ^^ 8) x)" for x
    by (simp add: funpow_add add.commute [of 8])
  ultimately show ?case
    using Cons by (simp add: crc_byte_def le_word_Cons_xor xor.assoc del: le_word.simps)
qed

lemma le_word_inj:
  assumes "length xs = length ys" and "8 * length xs \<le> LENGTH('a::len)"
    and "(le_word xs :: 'a word) = le_word ys"
  shows "xs = ys"
  by (metis assms le_bytes_le_word)

lemma crc_fold_inj: "foldl crc_byte c bs = foldl crc_byte d bs \<Longrightarrow> c = d"
proof (induction bs arbitrary: c d)
  case (Cons b bs)
  then have "crc_byte c b = crc_byte d b" by simp
  then have "c XOR ucast b = d XOR ucast b"
    unfolding crc_byte_def by (rule crc_steps_inj)
  then show ?case by (simp add: xor_cancel)
qed simp

text \<open>Two messages that differ only in a run of at most four bytes have different checksums.\<close>

lemma CRC32C_burst:
  assumes "length xs = length ys" and "length xs \<le> 4"
    and "CRC32C (us @ xs @ vs) = CRC32C (us @ ys @ vs)"
  shows "xs = ys"
proof -
  let ?c = "foldl crc_byte (NOT 0) us"
  from assms(3) have "foldl crc_byte (foldl crc_byte ?c xs) vs = foldl crc_byte (foldl crc_byte ?c ys) vs"
    by (simp add: CRC32C_def)
  then have "foldl crc_byte ?c xs = foldl crc_byte ?c ys" by (rule crc_fold_inj)
  with assms have "(crc_bit ^^ (8 * length ys)) (?c XOR le_word xs) =
      (crc_bit ^^ (8 * length ys)) (?c XOR le_word ys)"
    by (simp add: crc_bytes_word)
  then have "?c XOR le_word xs = ?c XOR le_word ys" by (rule crc_steps_inj)
  then have "(le_word xs :: u32) = le_word ys" by (metis xor.commute xor_cancel)
  with assms show ?thesis by (intro le_word_inj [where 'a = 32]) auto
qed

section \<open>Corrupted slot images\<close>

lemma read_at_join: "j = i + m \<Longrightarrow> read_at i m bs @ read_at j n bs = read_at i (m + n) bs"
  by (simp add: read_at_def take_add add.commute)

lemma put_le_word:
  "length bs = 8 \<Longrightarrow> PutUint64 (le_word bs) = bs" "length cs = 4 \<Longrightarrow> PutUint32 (le_word cs) = cs"
  "length ds = 2 \<Longrightarrow> PutUint16 (le_word ds) = ds"
  using le_bytes_le_word [of bs, where 'a = 64] le_bytes_le_word [of cs, where 'a = 32]
    le_bytes_le_word [of ds, where 'a = 16]
  by (auto simp: PutUint16_def PutUint32_def PutUint64_def)

lemma slotBytes_parse:
  assumes "parse_slot bs = Some s"
  shows "wf_slot s" and "slotBytes s c = take 48 bs @ PutUint32 c @ drop 52 bs"
proof -
  from assms have len: "length bs = 512"
    by (simp add: parse_slot_def EventSlotSize_def split: if_splits)
  with assms show wf: "wf_slot s"
    by (auto simp: parse_slot_def wf_slot_def EventPayloadBytes_def read_at_def split: if_splits)
  have reads: "length (read_at i n bs) = n" if "i + n \<le> 512" for i n
    using that len by (simp add: read_at_def)
  have front: "read_at 0 8 bs @ read_at 8 8 bs @ read_at 16 8 bs @ read_at 24 4 bs @ read_at 28 4 bs @
      read_at 32 4 bs @ read_at 36 4 bs @ read_at 40 4 bs @ read_at 44 4 bs = take 48 bs"
    by (simp add: read_at_join) (simp add: read_at_def)
  have tail: "read_at 52 2 bs @ read_at 54 2 bs @ read_at 56 8 bs @ read_at 64 448 bs = drop 52 bs"
    by (simp add: read_at_join) (simp add: read_at_def len)
  from assms len have "s = \<lparr>Header = Header s, Payload = read_at 64 448 bs\<rparr>"
    and fields: "EventID (Header s) = le_word (read_at 0 8 bs)" "StreamID (Header s) = le_word (read_at 8 8 bs)"
      "StreamSequence (Header s) = le_word (read_at 16 8 bs)" "EventTypeID (Header s) = le_word (read_at 24 4 bs)"
      "PayloadLayoutID (Header s) = le_word (read_at 28 4 bs)" "AtomicGroupLen (Header s) = le_word (read_at 32 4 bs)"
      "AtomicGroupIndex (Header s) = le_word (read_at 36 4 bs)" "PayloadLength (Header s) = le_word (read_at 40 4 bs)"
      "Flags (Header s) = le_word (read_at 44 4 bs)" "HeaderVersion (Header s) = le_word (read_at 52 2 bs)"
      "Reserved16 (Header s) = le_word (read_at 54 2 bs)" "Reserved64 (Header s) = le_word (read_at 56 8 bs)"
      "Payload s = read_at 64 448 bs"
    by (auto simp: parse_slot_def EventSlotSize_def)
  show "slotBytes s c = take 48 bs @ PutUint32 c @ drop 52 bs"
    by (simp add: slotBytes_concat [OF wf] Let_def fields put_le_word reads
        flip: front tail)
qed

text \<open>The checksum predicate, read off a 512-byte image.\<close>

definition image_ok :: "bytes \<Rightarrow> bool" where
  "image_ok bs \<longleftrightarrow> length bs = 512 \<and>
     (le_word (read_at 48 4 bs) :: u32) = CRC32C (take 48 bs @ PutUint32 0 @ drop 52 bs)"

lemma slotChecksumValid_image: "parse_slot bs = Some s \<Longrightarrow> slotChecksumValid s \<longleftrightarrow> image_ok bs"
proof -
  assume read: "parse_slot bs = Some s"
  then have "Checksum32 (Header s) = le_word (read_at 48 4 bs)" and "length bs = 512"
    by (auto simp: parse_slot_def EventSlotSize_def split: if_splits)
  then show ?thesis
    by (simp add: slotChecksumValid_def SlotChecksum_def slotBytes_parse(2) [OF read] image_ok_def)
qed

lemma image_burst_before:
  assumes "length us + length xs \<le> 48" and "length ys = length xs" and "length xs \<le> 4"
    and "image_ok (us @ xs @ vs)" and "image_ok (us @ ys @ vs)"
  shows "ys = xs"
proof -
  let ?rest = "take (48 - (length us + length xs)) vs @ PutUint32 0 @ drop (52 - (length us + length xs)) vs"
  have "CRC32C (us @ xs @ ?rest) = CRC32C (us @ ys @ ?rest)"
    using assms by (simp add: image_ok_def read_at_def diff_diff_left)
  then show ?thesis using CRC32C_burst assms(2,3) by metis
qed

lemma image_burst_after:
  assumes "52 \<le> length us" and "length ys = length xs" and "length xs \<le> 4"
    and "image_ok (us @ xs @ vs)" and "image_ok (us @ ys @ vs)"
  shows "ys = xs"
proof -
  let ?front = "take 48 us @ PutUint32 0 @ drop 52 us"
  have "CRC32C (?front @ xs @ vs) = CRC32C (?front @ ys @ vs)"
    using assms(1,4,5) by (simp add: image_ok_def read_at_def)
  then show ?thesis using CRC32C_burst assms(2,3) by metis
qed

lemma take_two:
  "length a + length b \<le> n \<Longrightarrow> take n (a @ b @ c) = a @ b @ take (n - length a - length b) c"
  by simp

lemma image_burst_inside:
  assumes "48 \<le> length us" "length us + length xs \<le> 52" and "length ys = length xs"
    and "image_ok (us @ xs @ vs)" and "image_ok (us @ ys @ vs)"
  shows "ys = xs"
proof -
  have "(le_word (read_at 48 4 (us @ xs @ vs)) :: u32) = le_word (read_at 48 4 (us @ ys @ vs))"
    using assms by (simp add: image_ok_def read_at_def)
  moreover have "length (read_at 48 4 (us @ xs @ vs)) = 4" "length (read_at 48 4 (us @ ys @ vs)) = 4"
    using assms(4,5) by (simp_all only: image_ok_def length_read_at)
  ultimately have "read_at 48 4 (us @ xs @ vs) = read_at 48 4 (us @ ys @ vs)"
    by (intro le_word_inj [where 'a = 32]) auto
  then have eq: "take 4 (drop 48 us @ xs @ vs) = take 4 (drop 48 us @ ys @ vs)"
    using assms(1) by (simp add: read_at_def)
  have "take 4 (drop 48 us @ zs @ vs) = drop 48 us @ zs @ take (4 - (length us - 48) - length zs) vs"
    if "length us + length zs \<le> 52" for zs
    using that assms(1) take_two [of "drop 48 us" zs 4 vs] by simp
  with eq assms(2,3) have "xs @ take (4 - (length us - 48) - length xs) vs =
      ys @ take (4 - (length us - 48) - length ys) vs"
    by (metis same_append_eq)
  then show ?thesis using assms(3) by (simp only: append_same_eq)
qed



end
