(* ===== verification/Storage_Recovery.thy ===== *)
theory Storage_Recovery
  imports Storage_Slots
begin

text \<open>
  Crash recovery of the event log, \<open>RecoverSlots\<close> of \<open>compiler/storagefmt/format.go\<close>. The scan is
  modelled with every early return; the specification is a log of entries (atomic groups and
  reserved padding slots) with consecutive event ids. The lemmas show that the scan finds exactly
  the longest prefix of whole entries, and that a log cut off anywhere loses the unfinished group
  and nothing else.
\<close>

unbundle bit_operations_syntax

section \<open>The scan\<close>

datatype RecoveryStopReason =
  StopCleanEOF | StopChecksumMismatch | StopIncompleteAtomicGroup | StopInvalidEmptySlot

record RecoveryResult =
  VisibleEvents :: u64
  NextEventID :: u64
  LastCommittedGroupEnd :: u64
  StopReason :: RecoveryStopReason

definition zero_result :: RecoveryResult where
  "zero_result = \<lparr>VisibleEvents = 0, NextEventID = 0, LastCommittedGroupEnd = 0,
     StopReason = StopCleanEOF\<rparr>"

text \<open>The inner loop over the members of a group: the first member that fails, if any.\<close>

fun check_members :: "u64 \<Rightarrow> u32 \<Rightarrow> u32 \<Rightarrow> Slot list \<Rightarrow> RecoveryStopReason option" where
  "check_members expected groupLen j [] = None"
| "check_members expected groupLen j (member # ms) =
     (let h = Header member in
      if EventID h \<noteq> expected + ucast j \<or> \<not> slotChecksumValid member
      then Some StopChecksumMismatch
      else if EventTypeID h = 0 \<or> AtomicGroupLen h \<noteq> groupLen \<or> AtomicGroupIndex h \<noteq> j
      then Some StopIncompleteAtomicGroup
      else check_members expected groupLen (j + 1) ms)"

text \<open>
  The outer loop: the slots still to be scanned stand for the index, and the arguments carry the
  result so far and the expected event id.
\<close>

function recover_from :: "RecoveryResult \<Rightarrow> u64 \<Rightarrow> Slot list \<Rightarrow> RecoveryResult" where
  "recover_from result expected [] = result\<lparr>StopReason := StopCleanEOF\<rparr>"
| "recover_from result expected (slot # rest) =
     (if \<not> slotChecksumValid slot
      then result\<lparr>NextEventID := expected, StopReason := StopChecksumMismatch\<rparr>
      else if EventTypeID (Header slot) = 0 then
        (if \<not> isReservedEmptySlot (Header slot)
         then result\<lparr>NextEventID := expected, StopReason := StopInvalidEmptySlot\<rparr>
         else if EventID (Header slot) \<noteq> expected
         then result\<lparr>NextEventID := expected, StopReason := StopChecksumMismatch\<rparr>
         else recover_from (result\<lparr>NextEventID := expected + 1\<rparr>) (expected + 1) rest)
      else if EventID (Header slot) \<noteq> expected
      then result\<lparr>NextEventID := expected, StopReason := StopChecksumMismatch\<rparr>
      else
        (let groupLen = AtomicGroupLen (Header slot) in
         if groupLen = 0 \<or> unat groupLen > StorageMaxAtomicGroupSlots \<or>
            unat groupLen > length (slot # rest)
         then result\<lparr>NextEventID := expected, StopReason := StopIncompleteAtomicGroup\<rparr>
         else
           (case check_members expected groupLen 0 (take (unat groupLen) (slot # rest)) of
              Some stop \<Rightarrow> result\<lparr>NextEventID := expected, StopReason := stop\<rparr>
            | None \<Rightarrow>
                recover_from
                  (result\<lparr>VisibleEvents := VisibleEvents result + ucast groupLen,
                     NextEventID := expected + ucast groupLen,
                     LastCommittedGroupEnd := expected + ucast groupLen - 1\<rparr>)
                  (expected + ucast groupLen)
                  (drop (unat groupLen) (slot # rest)))))"
  by pat_completeness auto
termination
  by (relation "measure (\<lambda>(result, expected, slots). length slots)")
    (auto simp: unat_gt_0 [symmetric])

definition RecoverSlots :: "Slot list \<Rightarrow> RecoveryResult" where
  "RecoverSlots slots = recover_from zero_result 0 slots"

section \<open>Specification: a log of entries\<close>

datatype entry = Group "Slot list" | Pad Slot

fun entry_slots :: "entry \<Rightarrow> Slot list" where
  "entry_slots (Group ms) = ms"
| "entry_slots (Pad s) = [s]"

fun entry_events :: "entry \<Rightarrow> nat" where
  "entry_events (Group ms) = length ms"
| "entry_events (Pad s) = 0"

text \<open>Member \<open>j\<close> of a group of \<open>n\<close> that starts at event id \<open>e\<close>.\<close>

definition member_ok :: "u64 \<Rightarrow> nat \<Rightarrow> nat \<Rightarrow> Slot \<Rightarrow> bool" where
  "member_ok e n j s \<longleftrightarrow> slotChecksumValid s \<and> EventID (Header s) = e + of_nat j \<and>
     EventTypeID (Header s) \<noteq> 0 \<and> AtomicGroupLen (Header s) = of_nat n \<and>
     AtomicGroupIndex (Header s) = of_nat j"

fun entry_ok :: "u64 \<Rightarrow> entry \<Rightarrow> bool" where
  "entry_ok e (Group ms) \<longleftrightarrow> 0 < length ms \<and> length ms \<le> StorageMaxAtomicGroupSlots \<and>
     (\<forall>j < length ms. member_ok e (length ms) j (ms ! j))"
| "entry_ok e (Pad s) \<longleftrightarrow> slotChecksumValid s \<and> isReservedEmptySlot (Header s) \<and> EventID (Header s) = e"

fun log_ok :: "u64 \<Rightarrow> entry list \<Rightarrow> bool" where
  "log_ok e [] \<longleftrightarrow> True"
| "log_ok e (x # xs) \<longleftrightarrow> entry_ok e x \<and> log_ok (e + of_nat (length (entry_slots x))) xs"

definition log_slots :: "entry list \<Rightarrow> Slot list" where
  "log_slots xs = concat (map entry_slots xs)"

definition log_events :: "entry list \<Rightarrow> nat" where
  "log_events xs = sum_list (map entry_events xs)"

text \<open>What the scan has recorded after the entries \<open>xs\<close>, from result \<open>r\<close> at event id \<open>e\<close>.\<close>

fun advance :: "RecoveryResult \<Rightarrow> u64 \<Rightarrow> entry list \<Rightarrow> RecoveryResult" where
  "advance r e [] = r"
| "advance r e (Pad s # xs) = advance (r\<lparr>NextEventID := e + 1\<rparr>) (e + 1) xs"
| "advance r e (Group ms # xs) =
     (let e' = e + of_nat (length ms) in
      advance (r\<lparr>VisibleEvents := VisibleEvents r + of_nat (length ms), NextEventID := e',
        LastCommittedGroupEnd := e' - 1\<rparr>) e' xs)"

text \<open>Member \<open>j\<close> of a group of \<open>n\<close> as a writer lays it out.\<close>

definition member_slot :: "u64 \<Rightarrow> nat \<Rightarrow> nat \<Rightarrow> Slot" where
  "member_slot e n j = RefreshSlotChecksum
     \<lparr>Header = zero_header\<lparr>EventID := e + of_nat j, EventTypeID := 1001, PayloadLayoutID := 1,
        AtomicGroupLen := of_nat n, AtomicGroupIndex := of_nat j, HeaderVersion := 1\<rparr>,
      Payload = replicate EventPayloadBytes 0\<rparr>"

lemma member_slot_ok [simp]: "member_ok e n j (member_slot e n j)"
  by (simp add: member_ok_def member_slot_def)

lemma ReservedEmptySlotForTest_ok [simp]: "entry_ok e (Pad (ReservedEmptySlotForTest e))"
  by (simp add: ReservedEmptySlotForTest_def isReservedEmptySlot_def zero_header_def
      StorageSlotReservedEmpty_def)

section \<open>The scan follows the specification\<close>

lemma check_members_None:
  assumes "n \<le> 32" and "j + length ms \<le> n"
  shows "check_members e (of_nat n) (of_nat j) ms = None \<longleftrightarrow>
    (\<forall>i < length ms. member_ok e n (j + i) (ms ! i))"
  using assms
proof (induction ms arbitrary: j)
  case Nil
  then show ?case by simp
next
  case (Cons m ms)
  have j: "(ucast (of_nat j :: u32) :: u64) = of_nat j"
    using Cons.prems by (simp add: unsigned_of_nat take_bit_nat_eq_self)
  have "check_members e (of_nat n) (of_nat j) (m # ms) = None \<longleftrightarrow>
      member_ok e n j m \<and> check_members e (of_nat n) (of_nat (Suc j)) ms = None"
    by (auto simp: member_ok_def Let_def j add.commute)
  also have "\<dots> \<longleftrightarrow> member_ok e n j m \<and> (\<forall>i < length ms. member_ok e n (Suc j + i) (ms ! i))"
    using Cons.IH [of "Suc j"] Cons.prems by simp
  also have "\<dots> \<longleftrightarrow> (\<forall>i < length (m # ms). member_ok e n (j + i) ((m # ms) ! i))"
    by (auto simp: less_Suc_eq_0_disj)
  finally show ?case .
qed

lemma group_len_word:
  assumes "n \<le> 32"
  shows "unat (of_nat n :: u32) = n" and "(ucast (of_nat n :: u32) :: u64) = of_nat n"
    and "(of_nat n :: u32) = 0 \<longleftrightarrow> n = 0"
  using assms by (simp_all add: unsigned_of_nat take_bit_nat_eq_self word_unat_eq_iff)

lemma log_slots_simps [simp]:
  "log_slots [] = []" "log_slots (x # xs) = entry_slots x @ log_slots xs"
  "log_slots (xs @ ys) = log_slots xs @ log_slots ys"
  by (simp_all add: log_slots_def)

lemma entry_ok_nonempty: "entry_ok e x \<Longrightarrow> entry_slots x \<noteq> []"
  by (cases x) auto

text \<open>The state of the loop when the first slot opens a group of \<open>n\<close>.\<close>

lemma recover_group_head:
  assumes m: "member_ok e n 0 m" and n: "0 < n" "n \<le> StorageMaxAtomicGroupSlots"
  shows "recover_from r e (m # rest) =
    (if n > length (m # rest) then r\<lparr>NextEventID := e, StopReason := StopIncompleteAtomicGroup\<rparr>
     else case check_members e (of_nat n) 0 (take n (m # rest)) of
        Some stop \<Rightarrow> r\<lparr>NextEventID := e, StopReason := stop\<rparr>
      | None \<Rightarrow> recover_from (r\<lparr>VisibleEvents := VisibleEvents r + of_nat n, NextEventID := e + of_nat n,
          LastCommittedGroupEnd := e + of_nat n - 1\<rparr>) (e + of_nat n) (drop n (m # rest)))"
proof -
  have n32: "n \<le> 32" using n by (simp add: StorageMaxAtomicGroupSlots_def)
  from m have "slotChecksumValid m" "EventTypeID (Header m) \<noteq> 0" "EventID (Header m) = e"
    "AtomicGroupLen (Header m) = of_nat n"
    by (auto simp: member_ok_def)
  with n show ?thesis
    by (simp only: recover_from.simps group_len_word [OF n32] Let_def) simp
qed

lemma recover_entry:
  assumes "entry_ok e x"
  shows "recover_from r e (entry_slots x @ rest) =
    recover_from (advance r e [x]) (e + of_nat (length (entry_slots x))) rest"
proof (cases x)
  case (Pad s)
  with assms show ?thesis by (simp add: isReservedEmptySlot_def)
next
  case (Group ms)
  with assms obtain m ms' where ms: "ms = m # ms'" by (cases ms) auto
  let ?n = "length ms"
  have n: "0 < ?n" "?n \<le> StorageMaxAtomicGroupSlots" and ok: "\<forall>j < ?n. member_ok e ?n j (ms ! j)"
    using assms Group by auto
  have head: "member_ok e ?n 0 m" using ok ms by auto
  have "check_members e (of_nat ?n) (of_nat 0) ms = None"
    using check_members_None [of ?n 0 ms e] ok n by (simp add: StorageMaxAtomicGroupSlots_def)
  then show ?thesis
    using recover_group_head [OF head n, of r "ms' @ rest"] Group by (simp add: ms Let_def)
qed

lemma advance_append:
  "advance r e (xs @ ys) = advance (advance r e xs) (e + of_nat (length (log_slots xs))) ys"
proof (induction r e xs rule: advance.induct)
  case (3 r e ms xs)
  then show ?case by (simp add: Let_def add.assoc)
qed (simp_all add: add.assoc)

lemma log_ok_append:
  "log_ok e (xs @ ys) \<longleftrightarrow> log_ok e xs \<and> log_ok (e + of_nat (length (log_slots xs))) ys"
  by (induction xs arbitrary: e) (auto simp: add.assoc)

lemma recover_log:
  assumes "log_ok e xs"
  shows "recover_from r e (log_slots xs @ rest) =
    recover_from (advance r e xs) (e + of_nat (length (log_slots xs))) rest"
  using assms
proof (induction xs arbitrary: e r)
  case Nil
  then show ?case by simp
next
  case (Cons x xs)
  let ?e = "e + of_nat (length (entry_slots x))"
  have "recover_from r e (log_slots (x # xs) @ rest) = recover_from (advance r e [x]) ?e (log_slots xs @ rest)"
    using recover_entry [of e x r "log_slots xs @ rest"] Cons.prems by simp
  also have "\<dots> = recover_from (advance (advance r e [x]) ?e xs) (?e + of_nat (length (log_slots xs))) rest"
    using Cons by simp
  also have "advance (advance r e [x]) ?e xs = advance r e (x # xs)"
    using advance_append [of r e "[x]" xs] by simp
  finally show ?case by (simp add: add.assoc)
qed

lemma check_members_bad:
  assumes "n \<le> 32" and "j + length ms \<le> n" and "i < length ms" and "\<not> slotChecksumValid s"
    and "\<And>k. k < i \<Longrightarrow> member_ok e n (j + k) (ms ! k)"
  shows "check_members e (of_nat n) (of_nat j) (ms[i := s]) = Some StopChecksumMismatch"
  using assms
proof (induction ms arbitrary: j i)
  case Nil
  then show ?case by simp
next
  case (Cons m ms)
  have j: "(ucast (of_nat j :: u32) :: u64) = of_nat j"
    using Cons.prems by (simp add: unsigned_of_nat take_bit_nat_eq_self)
  show ?case
  proof (cases i)
    case 0
    with Cons.prems show ?thesis by (simp add: Let_def)
  next
    case (Suc i')
    have "member_ok e n j m" using Cons.prems(5) [of 0] Suc by simp
    moreover have "check_members e (of_nat n) (of_nat (Suc j)) (ms[i' := s]) = Some StopChecksumMismatch"
      using Cons.prems Cons.prems(5) [of "Suc _"] Suc by (intro Cons.IH) auto
    ultimately show ?thesis by (simp add: Suc member_ok_def Let_def j add.commute)
  qed
qed

section \<open>Where the scan stops\<close>

definition stuck :: "u64 \<Rightarrow> Slot list \<Rightarrow> bool" where
  "stuck e slots \<longleftrightarrow> \<not> (\<exists>x tail. slots = entry_slots x @ tail \<and> entry_ok e x)"

lemma check_members_not_clean: "check_members e g j ms \<noteq> Some StopCleanEOF"
  by (induction e g j ms rule: check_members.induct) (auto simp: Let_def)

lemma stuck_group:
  assumes "stuck e slots" and "n = unat g" and "g \<noteq> 0" and "n \<le> StorageMaxAtomicGroupSlots"
    and "n \<le> length slots"
  shows "\<exists>stop. check_members e g 0 (take n slots) = Some stop \<and> stop \<noteq> StopCleanEOF"
proof -
  have "\<not> entry_ok e (Group (take n slots))"
    using assms(1) unfolding stuck_def by (metis append_take_drop_id entry_slots.simps(1))
  moreover have "0 < n" using assms(2,3) by (simp add: unat_gt_0)
  ultimately have "check_members e g 0 (take n slots) \<noteq> None"
    using check_members_None [of n 0 "take n slots" e] assms(2,4,5)
    by (auto simp: StorageMaxAtomicGroupSlots_def)
  with check_members_not_clean show ?thesis by fastforce
qed

lemma stuck_stops:
  assumes "stuck e slots" and "slots \<noteq> []"
  shows "\<exists>stop. recover_from r e slots = r\<lparr>NextEventID := e, StopReason := stop\<rparr> \<and> stop \<noteq> StopCleanEOF"
proof -
  obtain m rest where slots: "slots = m # rest" using assms(2) by (cases slots) auto
  have no_pad: "\<not> entry_ok e (Pad m)"
    using assms(1) slots unfolding stuck_def by (metis append_Cons append_Nil entry_slots.simps(2))
  show ?thesis
  proof (cases "slotChecksumValid m \<and> EventTypeID (Header m) \<noteq> 0 \<and> EventID (Header m) = e")
    case False
    with no_pad show ?thesis by (auto simp: slots)
  next
    case True
    then show ?thesis
      using stuck_group [OF assms(1) refl, of "AtomicGroupLen (Header m)"]
      by (auto simp: slots Let_def not_less) blast+
  qed
qed

lemma longest_prefix_exists:
  "\<exists>xs rest. slots = log_slots xs @ rest \<and> log_ok e xs \<and> stuck (e + of_nat (length (log_slots xs))) rest"
proof (induction "length slots" arbitrary: slots e rule: less_induct)
  case less
  show ?case
  proof (cases "stuck e slots")
    case True
    then show ?thesis by (intro exI [of _ "[]"] exI [of _ slots]) simp
  next
    case False
    then obtain x tail where x: "slots = entry_slots x @ tail" "entry_ok e x"
      by (auto simp: stuck_def)
    with entry_ok_nonempty have "length tail < length slots" by auto
    from less [OF this] obtain xs rest where
      "tail = log_slots xs @ rest" "log_ok (e + of_nat (length (entry_slots x))) xs"
      "stuck (e + of_nat (length (entry_slots x)) + of_nat (length (log_slots xs))) rest"
      by blast
    with x show ?thesis by (intro exI [of _ "x # xs"] exI [of _ rest]) (simp add: add.assoc)
  qed
qed

section \<open>What recovery guarantees\<close>

text \<open>The id of the last event of the last group, for a log that starts at event id \<open>e\<close>.\<close>

fun log_frontier :: "nat \<Rightarrow> entry list \<Rightarrow> nat option" where
  "log_frontier e [] = None"
| "log_frontier e (Pad s # xs) = log_frontier (Suc e) xs"
| "log_frontier e (Group ms # xs) =
     (case log_frontier (e + length ms) xs of None \<Rightarrow> Some (e + length ms - 1) | Some k \<Rightarrow> Some k)"

lemma advance_fields:
  shows "VisibleEvents (advance r e xs) = VisibleEvents r + of_nat (log_events xs)"
    and "NextEventID r = e \<Longrightarrow> NextEventID (advance r e xs) = e + of_nat (length (log_slots xs))"
    and "StopReason (advance r e xs) = StopReason r"
  by (induction r e xs rule: advance.induct)
    (simp_all add: Let_def log_events_def add.assoc)

lemma advance_frontier:
  assumes "log_ok (of_nat e) xs"
  shows "LastCommittedGroupEnd (advance r (of_nat e) xs) =
    (case log_frontier e xs of None \<Rightarrow> LastCommittedGroupEnd r | Some k \<Rightarrow> of_nat k)"
  using assms
proof (induction e xs arbitrary: r rule: log_frontier.induct)
  case (2 e s xs)
  then show ?case by (simp add: add.commute split: option.split)
next
  case (3 e ms xs)
  then obtain k where "length ms = Suc k" by (cases "length ms") auto
  then have "(of_nat e + of_nat (length ms) - 1 :: u64) = of_nat (e + length ms - 1)"
    by (simp add: algebra_simps)
  with 3 show ?case by (simp add: Let_def split: option.split)
qed simp

lemma recover_from_log:
  assumes "log_ok 0 xs" and "stuck (of_nat (length (log_slots xs))) rest"
  shows "\<exists>stop. RecoverSlots (log_slots xs @ rest) = (advance zero_result 0 xs)\<lparr>StopReason := stop\<rparr> \<and>
    (stop = StopCleanEOF \<longleftrightarrow> rest = [])"
proof -
  let ?r = "advance zero_result 0 xs" and ?e = "of_nat (length (log_slots xs)) :: u64"
  have eq: "RecoverSlots (log_slots xs @ rest) = recover_from ?r ?e rest"
    using recover_log [OF assms(1)] by (simp add: RecoverSlots_def)
  have "?r\<lparr>NextEventID := ?e\<rparr> = ?r"
    using advance_fields(2) [of zero_result 0 xs] by (simp add: zero_result_def)
  then have "?r\<lparr>NextEventID := ?e, StopReason := t\<rparr> = ?r\<lparr>StopReason := t\<rparr>" for t by metis
  with eq stuck_stops [OF assms(2), of ?r] show ?thesis by (cases "rest = []") auto
qed

text \<open>
  C2. Whatever the slots hold, \<open>RecoverSlots\<close> finds the longest prefix that is a sequence of whole
  valid entries with consecutive event ids from 0: no further entry starts where it stops, the
  visible events are exactly the members of the complete groups, the next event id is the number
  of slots passed, the frontier is the last event of the last group (0 when there is none), and
  the scan reports a clean end exactly when nothing is left.
\<close>

theorem RecoverSlots_longest_prefix:
  "\<exists>xs rest. slots = log_slots xs @ rest \<and> log_ok 0 xs \<and>
     \<not> (\<exists>x tail. rest = entry_slots x @ tail \<and> entry_ok (of_nat (length (log_slots xs))) x) \<and>
     VisibleEvents (RecoverSlots slots) = of_nat (log_events xs) \<and>
     NextEventID (RecoverSlots slots) = of_nat (length (log_slots xs)) \<and>
     LastCommittedGroupEnd (RecoverSlots slots) =
       of_nat (case log_frontier 0 xs of None \<Rightarrow> 0 | Some k \<Rightarrow> k) \<and>
     (StopReason (RecoverSlots slots) = StopCleanEOF \<longleftrightarrow> rest = [])"
proof -
  obtain xs rest where log: "slots = log_slots xs @ rest" "log_ok 0 xs"
      and stop: "stuck (of_nat (length (log_slots xs))) rest"
    using longest_prefix_exists [of slots 0] by auto
  obtain t where "RecoverSlots slots = (advance zero_result 0 xs)\<lparr>StopReason := t\<rparr>"
      "t = StopCleanEOF \<longleftrightarrow> rest = []"
    using recover_from_log [OF log(2) stop] log(1) by blast
  moreover have "LastCommittedGroupEnd (advance zero_result 0 xs) =
      of_nat (case log_frontier 0 xs of None \<Rightarrow> 0 | Some k \<Rightarrow> k)"
    using advance_frontier [of 0 xs zero_result] log(2) by (simp add: zero_result_def split: option.split)
  ultimately show ?thesis
    using log stop by (intro exI [of _ xs] exI [of _ rest]) (simp add: advance_fields stuck_def zero_result_def)
qed

text \<open>
  C3. A crash that cuts the log inside entry \<open>x\<close> loses that entry as a whole and nothing before it:
  recovery of the cut log is recovery of the entries before \<open>x\<close>, and it reports an incomplete
  group when some slots of the cut group are left.
\<close>

theorem RecoverSlots_truncated:
  assumes ok: "log_ok 0 (xs @ [x])" and k: "k < length (entry_slots x)"
  shows "RecoverSlots (log_slots xs @ take k (entry_slots x)) =
    (RecoverSlots (log_slots xs))\<lparr>StopReason :=
       (if k = 0 then StopCleanEOF else StopIncompleteAtomicGroup)\<rparr>"
proof -
  let ?e = "of_nat (length (log_slots xs)) :: u64" and ?r = "advance zero_result 0 xs"
  from ok have xs: "log_ok 0 xs" and x: "entry_ok ?e x" by (simp_all add: log_ok_append)
  have scan: "RecoverSlots (log_slots xs @ rest) = recover_from ?r ?e rest" for rest
    using recover_log [OF xs] by (simp add: RecoverSlots_def)
  have whole: "RecoverSlots (log_slots xs) = ?r\<lparr>StopReason := StopCleanEOF\<rparr>"
    using scan [of "[]"] by simp
  show ?thesis
  proof (cases k)
    case 0
    with scan [of "[]"] whole show ?thesis by simp
  next
    case (Suc k')
    with k obtain m ms where g: "x = Group (m # ms)" by (cases x rule: entry_slots.cases) (auto, metis list.exhaust list.size(3) not_less_zero)
    let ?n = "length (m # ms)"
    have head: "member_ok ?e ?n 0 m" and n: "0 < ?n" "?n \<le> StorageMaxAtomicGroupSlots"
      using x g by auto
    have "recover_from ?r ?e (take k (entry_slots x)) =
        ?r\<lparr>NextEventID := ?e, StopReason := StopIncompleteAtomicGroup\<rparr>"
      using recover_group_head [OF head n, of ?r "take k' ms"] k by (simp add: g Suc)
    moreover have "NextEventID ?r = ?e"
      using advance_fields(2) [of zero_result 0 xs] by (simp add: zero_result_def)
    ultimately show ?thesis using scan whole Suc by simp
  qed
qed

theorem RecoverSlots_truncated_witness:
  "RecoverSlots [ReservedEmptySlotForTest 0, member_slot 1 2 0] =
     (RecoverSlots [ReservedEmptySlotForTest 0])\<lparr>StopReason := StopIncompleteAtomicGroup\<rparr>"
proof -
  let ?xs = "[Pad (ReservedEmptySlotForTest 0)]" and ?x = "Group [member_slot 1 2 0, member_slot 1 2 1]"
  have "\<forall>j < 2. member_ok 1 2 j ([member_slot 1 2 0, member_slot 1 2 1] ! j)"
    by (auto simp: less_2_cases_iff)
  then have "log_ok 0 (?xs @ [?x])"
    by (simp add: StorageMaxAtomicGroupSlots_def numeral_2_eq_2 del: entry_ok.simps(2))
  from RecoverSlots_truncated [OF this, of 1] show ?thesis by simp
qed

text \<open>
  C4. A group with a damaged member is dropped as a whole, whatever follows it: replace any member
  of a valid group by a slot whose checksum is wrong, and recovery stops at the start of that
  group with a checksum mismatch, keeping every group before it.
\<close>

theorem RecoverSlots_damaged_group:
  assumes ok: "log_ok 0 (xs @ [Group ms])" and i: "i < length ms" and bad: "\<not> slotChecksumValid s"
  shows "RecoverSlots (log_slots xs @ ms[i := s] @ rest) =
    (RecoverSlots (log_slots xs))\<lparr>StopReason := StopChecksumMismatch\<rparr>"
proof -
  let ?e = "of_nat (length (log_slots xs)) :: u64" and ?r = "advance zero_result 0 xs"
  let ?n = "length ms"
  from ok have xs: "log_ok 0 xs" and g: "entry_ok ?e (Group ms)" by (simp_all add: log_ok_append)
  have scan: "RecoverSlots (log_slots xs @ tail) = recover_from ?r ?e tail" for tail
    using recover_log [OF xs] by (simp add: RecoverSlots_def)
  have same: "?r\<lparr>NextEventID := ?e, StopReason := t\<rparr> = ?r\<lparr>StopReason := t\<rparr>" for t
    using advance_fields(2) [of zero_result 0 xs] by (simp add: zero_result_def)
  have "recover_from ?r ?e (ms[i := s] @ rest) = ?r\<lparr>NextEventID := ?e, StopReason := StopChecksumMismatch\<rparr>"
  proof (cases i)
    case 0
    with i bad show ?thesis by (cases ms) simp_all
  next
    case (Suc i')
    with i obtain m ms' where ms: "ms = m # ms'" by (cases ms) auto
    have head: "member_ok ?e ?n 0 m" and n: "0 < ?n" "?n \<le> StorageMaxAtomicGroupSlots"
      using g ms by auto
    have "check_members ?e (of_nat ?n) (of_nat 0) (ms[i := s]) = Some StopChecksumMismatch"
      using g n i bad by (intro check_members_bad) (auto simp: StorageMaxAtomicGroupSlots_def)
    then show ?thesis
      using recover_group_head [OF head n, of ?r "ms'[i' := s] @ rest"] i by (simp add: ms Suc)
  qed
  with scan same show ?thesis using scan [of "[]"] by simp
qed

theorem RecoverSlots_damaged_group_witness:
  "let m = member_slot 1 2 1; s = m\<lparr>Header := (Header m)\<lparr>Checksum32 := Checksum32 (Header m) + 1\<rparr>\<rparr>
   in RecoverSlots ([ReservedEmptySlotForTest 0, member_slot 1 2 0, s] @ [member_slot 3 1 0]) =
     (RecoverSlots [ReservedEmptySlotForTest 0])\<lparr>StopReason := StopChecksumMismatch\<rparr>"
proof -
  let ?xs = "[Pad (ReservedEmptySlotForTest 0)]" and ?ms = "[member_slot 1 2 0, member_slot 1 2 1]"
  let ?m = "member_slot 1 2 1"
  let ?s = "?m\<lparr>Header := (Header ?m)\<lparr>Checksum32 := Checksum32 (Header ?m) + 1\<rparr>\<rparr>"
  have "\<forall>j < 2. member_ok 1 2 j (?ms ! j)" by (auto simp: less_2_cases_iff)
  then have ok: "log_ok 0 (?xs @ [Group ?ms])"
    by (simp add: StorageMaxAtomicGroupSlots_def numeral_2_eq_2 del: entry_ok.simps(2))
  have "Checksum32 (Header ?m) = SlotChecksum ?m"
    using member_slot_ok [of 1 2 1] by (simp add: member_ok_def slotChecksumValid_def)
  then have "\<not> slotChecksumValid ?s"
    by (simp add: slotChecksumValid_def)
  from RecoverSlots_damaged_group [OF ok _ this, of 1 "[member_slot 3 1 0]"] show ?thesis
    by (simp add: Let_def)
qed

end
