(* ===== verification/Storage_Writer.thy ===== *)
theory Storage_Writer
  imports Storage_Recovery
begin

text \<open>
  The append policy of the event log, \<open>WriterPolicy\<close> of \<open>compiler/storagefmt/format.go\<close>: event ids
  and batch slots for each atomic group, commit tokens, and the durable frontier. The lemmas show
  that what the writer lays out is what recovery reads back, and which invariant every order of
  appends and completions keeps.
\<close>

section \<open>Appending groups\<close>

definition StorageTargetBatchSlots :: u64 where "StorageTargetBatchSlots = 64"
definition StorageMaxBatchSlots :: u64 where "StorageMaxBatchSlots = 72"

record WriterPolicy =
  wp_NextEventID :: u64
  wp_NextStreamID :: u64
  wp_OpenBatchSlots :: u64
  wp_DurableFrontier :: u64

record EnqueueResult =
  Accepted :: bool
  FirstEventID :: u64
  LastEventID :: u64
  OpenBatchSlots :: u64
  FlushRequested :: bool
  RejectCode :: string

definition zero_enqueue :: EnqueueResult where
  "zero_enqueue = \<lparr>Accepted = False, FirstEventID = 0, LastEventID = 0, OpenBatchSlots = 0,
     FlushRequested = False, RejectCode = ''''\<rparr>"

definition AssignEventIDs :: "u64 \<Rightarrow> u64 \<Rightarrow> u64 \<times> u64" where
  "AssignEventIDs first count = (first, first + count - 1)"

definition EnqueueAtomicGroupWithReserved ::
  "WriterPolicy \<Rightarrow> u64 \<Rightarrow> u64 \<Rightarrow> WriterPolicy \<times> EnqueueResult" where
  "EnqueueAtomicGroupWithReserved w semanticSlots reservedEmptySlots =
     (if semanticSlots = 0 \<or> semanticSlots > of_nat StorageMaxAtomicGroupSlots
      then (w, zero_enqueue\<lparr>RejectCode := ''SEM0114''\<rparr>)
      else
        (let consumedSlots = semanticSlots + reservedEmptySlots in
         if consumedSlots < semanticSlots \<or> consumedSlots > StorageMaxBatchSlots
         then (w, zero_enqueue\<lparr>RejectCode := ''SEM0114''\<rparr>)
         else
           (let (first, last) = AssignEventIDs (wp_NextEventID w) semanticSlots;
                combined = wp_OpenBatchSlots w + consumedSlots;
                (open, flush) =
                  (if combined < StorageTargetBatchSlots then (combined, False)
                   else if combined \<le> StorageMaxBatchSlots then (combined, True)
                   else (consumedSlots, True))
            in (w\<lparr>wp_NextEventID := first + consumedSlots, wp_OpenBatchSlots := open\<rparr>,
                zero_enqueue\<lparr>Accepted := True, FirstEventID := first, LastEventID := last,
                  OpenBatchSlots := open, FlushRequested := flush\<rparr>))))"

definition EnqueueAtomicGroup :: "WriterPolicy \<Rightarrow> u64 \<Rightarrow> WriterPolicy \<times> EnqueueResult" where
  "EnqueueAtomicGroup w semanticSlots = EnqueueAtomicGroupWithReserved w semanticSlots 0"

section \<open>Commit tokens\<close>

record CommitToken =
  ct_FirstEventID :: u64
  ct_LastEventID :: u64
  PendingWriteCount :: u64
  CompletedWriteCount :: u64
  BatchSubmitted :: bool
  FlushRequired :: bool
  FlushCompleted :: bool
  DurabilityFailed :: bool

definition token_Acknowledged :: "CommitToken \<Rightarrow> bool" where
  "token_Acknowledged t =
     (if DurabilityFailed t then False
      else if CompletedWriteCount t < PendingWriteCount t then False
      else if FlushRequired t \<and> \<not> FlushCompleted t then False
      else True)"

definition OnDurabilityCompleted :: "WriterPolicy \<Rightarrow> CommitToken \<Rightarrow> WriterPolicy \<times> EnqueueResult" where
  "OnDurabilityCompleted w token =
     (if \<not> token_Acknowledged token
      then (w, zero_enqueue\<lparr>FirstEventID := ct_FirstEventID token, LastEventID := ct_LastEventID token,
              OpenBatchSlots := wp_OpenBatchSlots w, RejectCode := ''SEM0116''\<rparr>)
      else
        (let w1 = (if wp_DurableFrontier w < ct_LastEventID token
                   then w\<lparr>wp_DurableFrontier := ct_LastEventID token\<rparr> else w);
             w2 = (if BatchSubmitted token then w1\<lparr>wp_OpenBatchSlots := 0\<rparr> else w1)
         in (w2, zero_enqueue\<lparr>Accepted := True, FirstEventID := ct_FirstEventID token,
               LastEventID := ct_LastEventID token, OpenBatchSlots := wp_OpenBatchSlots w2,
               FlushRequested := FlushRequired token\<rparr>)))"

section \<open>Projections over the durable frontier\<close>

record AdvanceProjection =
  ap_ProjectionID :: u64
  ThroughEventID :: u64
  CheckpointRoot :: u64

record ProjectionTruth =
  AtomicGroupFrontier :: u64

definition AcceptAdvance :: "ProjectionTruth \<Rightarrow> AdvanceProjection \<Rightarrow> bool" where
  "AcceptAdvance p adv \<longleftrightarrow> ThroughEventID adv \<le> AtomicGroupFrontier p"

section \<open>Every branch of an append\<close>

lemma enqueue_cases:
  obtains (reject) "EnqueueAtomicGroupWithReserved w n k = (w, zero_enqueue\<lparr>RejectCode := ''SEM0114''\<rparr>)"
      "\<not> (0 < unat n \<and> unat n \<le> 32 \<and> unat n + unat k \<le> 72)"
  | (accept) w' r where "EnqueueAtomicGroupWithReserved w n k = (w', r)" "Accepted r"
      "0 < unat n" "unat n \<le> 32" "unat n + unat k \<le> 72"
      "FirstEventID r = wp_NextEventID w" "LastEventID r = wp_NextEventID w + n - 1"
      "wp_NextEventID w' = wp_NextEventID w + (n + k)"
      "wp_DurableFrontier w' = wp_DurableFrontier w" "wp_NextStreamID w' = wp_NextStreamID w"
      "wp_OpenBatchSlots w' = OpenBatchSlots r"
      "FlushRequested r \<longleftrightarrow> 64 \<le> unat (wp_OpenBatchSlots w + (n + k))"
      "OpenBatchSlots r = (if unat (wp_OpenBatchSlots w + (n + k)) \<le> 72
         then wp_OpenBatchSlots w + (n + k) else n + k)"
proof -
  let ?ok = "0 < unat n \<and> unat n \<le> 32 \<and> unat n + unat k \<le> 72"
  have group: "(n = 0 \<or> n > of_nat StorageMaxAtomicGroupSlots) = (\<not> (0 < unat n \<and> unat n \<le> 32))"
    using unat_eq_0 [of n] by (auto simp: StorageMaxAtomicGroupSlots_def word_less_nat_alt simp del: unat_eq_0 word_neq_0_conv)
  have batch: "(n + k < n \<or> n + k > StorageMaxBatchSlots) = (\<not> unat n + unat k \<le> 72)" if n: "unat n \<le> 32"
  proof (cases "unat n + unat k < 18446744073709551616")
    case True
    then have "unat (n + k) = unat n + unat k" by (rule unat_add_u64)
    then show ?thesis by (simp add: StorageMaxBatchSlots_def word_less_nat_alt not_le)
  next
    case False
    then have "unat (n + k) = unat n + unat k - 18446744073709551616"
      by (intro unat_add_u64_wrap) simp
    moreover have "unat k < 18446744073709551616" by (rule unat_u64_less)
    ultimately have "n + k < n" using False unfolding word_less_nat_alt by linarith
    with False show ?thesis by simp
  qed
  show thesis
  proof (cases ?ok)
    case False
    with group batch have "EnqueueAtomicGroupWithReserved w n k = (w, zero_enqueue\<lparr>RejectCode := ''SEM0114''\<rparr>)"
      by (auto simp: EnqueueAtomicGroupWithReserved_def)
    with False reject show thesis by blast
  next
    case True
    with group batch have no: "\<not> (n = 0 \<or> n > of_nat StorageMaxAtomicGroupSlots)"
      "\<not> (n + k < n \<or> n + k > StorageMaxBatchSlots)" by blast+
    show thesis
      by (rule accept [OF prod.collapse [symmetric]])
        (use no True in \<open>simp_all add: EnqueueAtomicGroupWithReserved_def Let_def AssignEventIDs_def
          zero_enqueue_def StorageMaxBatchSlots_def StorageTargetBatchSlots_def word_less_nat_alt
          word_le_nat_alt\<close>)
  qed
qed

section \<open>The log a writer lays out\<close>

text \<open>
  The slots of an accepted group: its members, then the reserved empty slots that fill the
  logical block, each at the event id that the writer has set aside for it.
\<close>

definition group_entries :: "u64 \<Rightarrow> nat \<Rightarrow> nat \<Rightarrow> entry list" where
  "group_entries e n k = Group (map (member_slot e n) [0..<n]) #
     map (\<lambda>i. Pad (ReservedEmptySlotForTest (e + of_nat (n + i)))) [0..<k]"

type_synonym append_trace = "(u64 \<times> u64 \<times> EnqueueResult) list"

text \<open>A sequence of append requests (semantic and reserved slots), with the result of each.\<close>

fun append_all :: "WriterPolicy \<Rightarrow> (u64 \<times> u64) list \<Rightarrow> WriterPolicy \<times> append_trace" where
  "append_all w [] = (w, [])"
| "append_all w ((n, k) # reqs) =
     (let (w1, r) = EnqueueAtomicGroupWithReserved w n k; (w2, tr) = append_all w1 reqs
      in (w2, (n, k, r) # tr))"

definition accepted :: "append_trace \<Rightarrow> append_trace" where
  "accepted = filter (\<lambda>(n, k, r). Accepted r)"

definition written :: "append_trace \<Rightarrow> entry list" where
  "written tr = concat (map (\<lambda>(n, k, r). group_entries (FirstEventID r) (unat n) (unat k)) (accepted tr))"

definition zero_writer :: WriterPolicy where
  "zero_writer = \<lparr>wp_NextEventID = 0, wp_NextStreamID = 0, wp_OpenBatchSlots = 0, wp_DurableFrontier = 0\<rparr>"

lemma advance_pads:
  "NextEventID r = e + of_nat a \<Longrightarrow>
   advance r (e + of_nat a) (map (\<lambda>i. Pad (ReservedEmptySlotForTest (e + of_nat (b + i)))) [a..<a + k]) =
     r\<lparr>NextEventID := e + of_nat (a + k)\<rparr>"
proof (induction k arbitrary: a r)
  case (Suc k)
  from Suc.IH [of "r\<lparr>NextEventID := e + of_nat (Suc a)\<rparr>" "Suc a"] show ?case
    by (simp add: upt_conv_Cons ac_simps del: upt_Suc)
qed simp

lemma log_ok_pads:
  "log_ok (e + of_nat (b + a)) (map (\<lambda>i. Pad (ReservedEmptySlotForTest (e + of_nat (b + i)))) [a..<a + k])"
proof (induction k arbitrary: a)
  case (Suc k)
  from Suc.IH [of "Suc a"] show ?case
    by (simp add: upt_conv_Cons ac_simps del: upt_Suc entry_ok.simps)
qed simp

lemma group_entries_props:
  assumes "0 < n" "n \<le> 32"
  shows "log_ok e (group_entries e n k)"
    and "length (log_slots (group_entries e n k)) = n + k"
    and "advance r e (group_entries e n k) =
      r\<lparr>VisibleEvents := VisibleEvents r + of_nat n, NextEventID := e + of_nat (n + k),
        LastCommittedGroupEnd := e + of_nat n - 1\<rparr>"
proof -
  show "log_ok e (group_entries e n k)"
    using assms log_ok_pads [of e n 0 k] by (simp add: group_entries_def StorageMaxAtomicGroupSlots_def)
  have "length (log_slots (map (\<lambda>i. Pad (f i)) xs)) = length xs" for f :: "nat \<Rightarrow> Slot" and xs
    by (induction xs) simp_all
  then show "length (log_slots (group_entries e n k)) = n + k"
    by (simp add: group_entries_def)
  show "advance r e (group_entries e n k) =
      r\<lparr>VisibleEvents := VisibleEvents r + of_nat n, NextEventID := e + of_nat (n + k),
        LastCommittedGroupEnd := e + of_nat n - 1\<rparr>"
    using advance_pads [of "r\<lparr>VisibleEvents := VisibleEvents r + of_nat n, NextEventID := e + of_nat n,
        LastCommittedGroupEnd := e + of_nat n - 1\<rparr>" "e + of_nat n" 0 0 k]
    by (simp add: group_entries_def Let_def add.assoc)
qed

lemma accepted_simps [simp]:
  "accepted [] = []"
  "accepted ((n, k, r) # tr) = (if Accepted r then (n, k, r) # accepted tr else accepted tr)"
  by (simp_all add: accepted_def)

lemma written_Cons [simp]:
  "written [] = []"
  "written ((n, k, r) # tr) =
     (if Accepted r then group_entries (FirstEventID r) (unat n) (unat k) @ written tr else written tr)"
  by (simp_all add: written_def)

text \<open>What recovery has recorded after the groups that a writer accepted.\<close>

definition recorded :: "RecoveryResult \<Rightarrow> u64 \<Rightarrow> append_trace \<Rightarrow> RecoveryResult" where
  "recorded r next tr = r\<lparr>VisibleEvents := VisibleEvents r + sum_list (map fst (accepted tr)),
     NextEventID := next,
     LastCommittedGroupEnd :=
       last (LastCommittedGroupEnd r # map (\<lambda>(n, k, res). LastEventID res) (accepted tr))\<rparr>"

lemma append_all_log:
  assumes "append_all w reqs = (w', tr)" and "NextEventID r = wp_NextEventID w"
  shows "log_ok (wp_NextEventID w) (written tr) \<and>
    wp_NextEventID w' = wp_NextEventID w + of_nat (length (log_slots (written tr))) \<and>
    advance r (wp_NextEventID w) (written tr) = recorded r (wp_NextEventID w') tr"
  using assms
proof (induction reqs arbitrary: w r w' tr)
  case Nil
  then show ?case by (auto simp: recorded_def)
next
  case (Cons req reqs)
  obtain n k where req: "req = (n, k)" by fastforce
  obtain w1 res where enq: "EnqueueAtomicGroupWithReserved w n k = (w1, res)" by fastforce
  obtain w2 tr1 where rest: "append_all w1 reqs = (w2, tr1)" by fastforce
  with Cons.prems have tr: "w' = w2" "tr = (n, k, res) # tr1" by (simp_all add: enq req)
  show ?case
  proof (cases rule: enqueue_cases [of w n k])
    case reject
    with Cons.IH [OF rest, of r] Cons.prems enq show ?thesis
      by (auto simp: tr recorded_def zero_enqueue_def)
  next
    case (accept w1' res')
    with enq have eqs: "w1' = w1" "res' = res" by simp_all
    let ?e = "wp_NextEventID w"
    let ?r = "r\<lparr>VisibleEvents := VisibleEvents r + n, NextEventID := ?e + (n + k),
        LastCommittedGroupEnd := ?e + n - 1\<rparr>"
    note IH = Cons.IH [OF rest, of ?r]
    note group = group_entries_props [OF accept(3,4)]
    show ?thesis using accept IH group
      by (simp add: tr eqs log_ok_append advance_append add.assoc recorded_def)
  qed
qed

text \<open>
  C5. Whatever sequence of append requests reaches a fresh writer, the slots of the accepted groups
  and of their reserved padding, laid out at the event ids the writer hands out, recover completely:
  the scan ends cleanly, sees exactly the accepted events, resumes at the writer's next event id, and
  ends the committed prefix at the last event id handed out.
\<close>

theorem writer_log_recovers:
  "case append_all zero_writer reqs of (w, tr) \<Rightarrow>
     RecoverSlots (log_slots (written tr)) =
       \<lparr>VisibleEvents = sum_list (map fst (accepted tr)),
        NextEventID = wp_NextEventID w,
        LastCommittedGroupEnd = last (0 # map (\<lambda>(n, k, res). LastEventID res) (accepted tr)),
        StopReason = StopCleanEOF\<rparr>"
proof -
  obtain w tr where run: "append_all zero_writer reqs = (w, tr)" by fastforce
  note props = append_all_log [OF run, of zero_result]
  have "RecoverSlots (log_slots (written tr)) =
      (advance zero_result 0 (written tr))\<lparr>StopReason := StopCleanEOF\<rparr>"
    using recover_log [of 0 "written tr" zero_result "[]"] props
    by (simp add: RecoverSlots_def zero_writer_def zero_result_def)
  then show ?thesis
    using props by (simp add: run) (simp add: zero_writer_def zero_result_def recorded_def)
qed

section \<open>Appends and completions in any order\<close>

text \<open>
  The writer together with what it has promised: the id ranges handed out (newest first), the last
  ids of the acknowledged tokens, and how many ids the accepted groups have consumed.
\<close>

record writer_sys =
  policy :: WriterPolicy
  issued :: "(u64 \<times> u64) list"
  acked :: "u64 list"
  consumed :: nat

inductive writer_step :: "writer_sys \<Rightarrow> writer_sys \<Rightarrow> bool" where
  append: "EnqueueAtomicGroupWithReserved (policy s) n k = (w, r) \<Longrightarrow>
    writer_step s (if Accepted r
      then s\<lparr>policy := w, issued := (FirstEventID r, LastEventID r) # issued s,
             consumed := consumed s + unat n + unat k\<rparr>
      else s\<lparr>policy := w\<rparr>)"
| complete: "(ct_FirstEventID t, ct_LastEventID t) \<in> set (issued s) \<Longrightarrow>
    OnDurabilityCompleted (policy s) t = (w, r) \<Longrightarrow>
    writer_step s (if Accepted r then s\<lparr>policy := w, acked := ct_LastEventID t # acked s\<rparr>
      else s\<lparr>policy := w\<rparr>)"

definition writer_init :: writer_sys where
  "writer_init = \<lparr>policy = zero_writer, issued = [], acked = [], consumed = 0\<rparr>"

definition ranges_ok :: "nat \<Rightarrow> (u64 \<times> u64) list \<Rightarrow> bool" where
  "ranges_ok c rs \<longleftrightarrow> sorted_wrt (\<lambda>(f, l) (f', l'). unat l' < unat f) rs \<and>
     (\<forall>(f, l) \<in> set rs. unat f \<le> unat l \<and> unat l < c)"

definition writer_inv :: "writer_sys \<Rightarrow> bool" where
  "writer_inv s \<longleftrightarrow> unat (wp_OpenBatchSlots (policy s)) \<le> 72 \<and>
     wp_NextEventID (policy s) = of_nat (consumed s) \<and>
     (consumed s < 2 ^ 64 \<longrightarrow> ranges_ok (consumed s) (issued s)) \<and>
     wp_DurableFrontier (policy s) = Max (insert 0 (set (acked s))) \<and>
     set (acked s) \<subseteq> snd ` set (issued s)"

lemma durability_cases:
  obtains (reject) w' r where "OnDurabilityCompleted w t = (w', r)" "w' = w" "\<not> Accepted r"
      "\<not> token_Acknowledged t" "RejectCode r = ''SEM0116''"
  | (accept) w' r where "OnDurabilityCompleted w t = (w', r)" "Accepted r" "token_Acknowledged t"
      "wp_NextEventID w' = wp_NextEventID w" "wp_NextStreamID w' = wp_NextStreamID w"
      "wp_DurableFrontier w' = max (ct_LastEventID t) (wp_DurableFrontier w)"
      "wp_OpenBatchSlots w' = (if BatchSubmitted t then 0 else wp_OpenBatchSlots w)"
proof (cases "token_Acknowledged t")
  case False
  then show thesis
    by (intro reject [OF prod.collapse [symmetric]])
      (simp_all add: OnDurabilityCompleted_def zero_enqueue_def)
next
  case True
  then show thesis
    by (intro accept [OF prod.collapse [symmetric]])
      (auto simp: OnDurabilityCompleted_def zero_enqueue_def Let_def max_def)
qed

lemma issue_range:
  assumes "ranges_ok c rs" and "c + n + k < 2 ^ 64" and "0 < n" and f: "unat f = c" and l: "l = f + of_nat n - 1"
  shows "ranges_ok (c + n + k) ((f, l) # rs)"
proof -
  have "l = of_nat (c + n - 1)"
  proof -
    have "f = of_nat c" using f by (metis of_nat_unat unsigned_of_nat ucast_id)
    then show ?thesis using l assms(3) by (simp add: of_nat_diff)
  qed
  then have "unat l = c + n - 1"
    using assms(2,3) by (simp only: unsigned_of_nat) (simp add: take_bit_nat_eq_self)
  with assms show ?thesis by (fastforce simp: ranges_ok_def)
qed

lemma writer_inv_step:
  assumes "writer_inv s" and "writer_step s t"
  shows "writer_inv t"
  using assms(2)
proof cases
  case (append n k w r)
  show ?thesis
  proof (cases rule: enqueue_cases [of "policy s" n k])
    case reject
    with append assms(1) show ?thesis by (auto simp: writer_inv_def zero_enqueue_def)
  next
    case (accept w' r')
    with append have eqs: "w' = w" "r' = r" by simp_all
    have "ranges_ok (consumed s + unat n + unat k) ((FirstEventID r, LastEventID r) # issued s)"
      if "consumed s + unat n + unat k < 2 ^ 64"
      using accept assms(1) that
      by (intro issue_range) (auto simp: eqs writer_inv_def unsigned_of_nat take_bit_nat_eq_self)
    moreover have "unat (n + k) \<le> 72" using accept by (simp add: unat_add_u64)
    ultimately show ?thesis
      using append accept assms(1) by (auto simp: eqs writer_inv_def add.assoc)
  qed
next
  case (complete tok w r)
  show ?thesis
  proof (cases rule: durability_cases [of "policy s" tok])
    case reject
    with complete assms(1) show ?thesis by (auto simp: writer_inv_def)
  next
    case (accept w' r')
    with complete have eqs: "w' = w" "r' = r" by simp_all
    have "Max (insert 0 (set (ct_LastEventID tok # acked s))) =
        max (ct_LastEventID tok) (Max (insert 0 (set (acked s))))"
      by (simp add: insert_commute [of 0])
    moreover have "ct_LastEventID tok \<in> snd ` set (issued s)"
      using complete(2) by (metis image_eqI snd_conv)
    ultimately show ?thesis
      using complete accept assms(1) by (simp add: eqs writer_inv_def)
  qed
qed

interpretation writer: transition_invariant "\<lambda>s. s = writer_init" writer_step writer_inv
  by unfold_locales
    (auto simp: writer_inv_step, simp add: writer_inv_def writer_init_def zero_writer_def ranges_ok_def)

lemma frontier_step:
  assumes "writer_step s t"
  shows "wp_DurableFrontier (policy s) \<le> wp_DurableFrontier (policy t)"
  using assms
proof cases
  case (append n k w r)
  then show ?thesis by (cases rule: enqueue_cases [of "policy s" n k]) auto
next
  case (complete tok w r)
  then show ?thesis by (cases rule: durability_cases [of "policy s" tok]) auto
qed



end
