(* ===== verification/Storage_Extents.thy ===== *)
theory Storage_Extents
  imports Wrela_Prelude
begin

text \<open>
  The block allocator of the blob region, \<open>FreeExtentList\<close> of \<open>compiler/storagefmt/format.go\<close>:
  first-fit allocation from a sorted list of free extents, and a release that sorts, coalesces and
  cuts the list at its capacity. The list refines a set of free block numbers. The lemmas show that
  allocation fails only when no run of that many free blocks exists, and that extents handed out
  never overlap each other or the free blocks.
\<close>

section \<open>The allocator\<close>

record Extent =
  StartLBA :: u64
  BlockCount :: u64

definition zero_extent :: Extent where
  "zero_extent = \<lparr>StartLBA = 0, BlockCount = 0\<rparr>"

record FreeExtentList =
  capacity :: u64
  extents :: "Extent list"

definition NewFreeExtentList :: "u64 \<Rightarrow> FreeExtentList" where
  "NewFreeExtentList cap = \<lparr>capacity = cap, extents = []\<rparr>"

text \<open>The loop of \<open>Allocate\<close>: the first extent that is large enough is cut or removed.\<close>

fun allocate_from :: "u64 \<Rightarrow> Extent list \<Rightarrow> (Extent \<times> Extent list) option" where
  "allocate_from blockCount [] = None"
| "allocate_from blockCount (extent # es) =
     (if BlockCount extent < blockCount
      then map_option (\<lambda>(a, es'). (a, extent # es')) (allocate_from blockCount es)
      else
        (let allocated = \<lparr>StartLBA = StartLBA extent, BlockCount = blockCount\<rparr> in
         if BlockCount extent = blockCount then Some (allocated, es)
         else Some (allocated, extent\<lparr>StartLBA := StartLBA extent + blockCount,
                     BlockCount := BlockCount extent - blockCount\<rparr> # es)))"

definition Allocate :: "FreeExtentList \<Rightarrow> u64 \<Rightarrow> Extent \<times> FreeExtentList" where
  "Allocate l blockCount =
     (if blockCount = 0 then (zero_extent, l)
      else case allocate_from blockCount (extents l) of
             None \<Rightarrow> (zero_extent, l)
           | Some (allocated, es) \<Rightarrow> (allocated, l\<lparr>extents := es\<rparr>))"

text \<open>One round of the coalescing loop of \<open>Free\<close>.\<close>

definition coalesce_step :: "Extent list \<Rightarrow> Extent \<Rightarrow> Extent list" where
  "coalesce_step coalesced current =
     (if coalesced = [] then [current]
      else
        (let lst = last coalesced in
         if StartLBA lst + BlockCount lst = StartLBA current
         then butlast coalesced @ [lst\<lparr>BlockCount := BlockCount lst + BlockCount current\<rparr>]
         else coalesced @ [current]))"

definition Free :: "FreeExtentList \<Rightarrow> Extent \<Rightarrow> FreeExtentList" where
  "Free l extent =
     (if BlockCount extent = 0 \<or> capacity l = 0 then l
      else
        (let sorted_extents = sort_key StartLBA (extents l @ [extent]);
             coalesced = foldl coalesce_step [] sorted_extents
         in l\<lparr>extents := (if length coalesced > unat (capacity l)
                         then take (unat (capacity l)) coalesced else coalesced)\<rparr>))"

definition Extents :: "FreeExtentList \<Rightarrow> Extent list" where
  "Extents l = extents l"

section \<open>Specification: a set of free blocks\<close>

definition ext_start :: "Extent \<Rightarrow> nat" where "ext_start e = unat (StartLBA e)"
definition ext_end :: "Extent \<Rightarrow> nat" where "ext_end e = unat (StartLBA e) + unat (BlockCount e)"

definition blocks :: "Extent \<Rightarrow> nat set" where
  "blocks e = {ext_start e ..< ext_end e}"

text \<open>An extent that holds some blocks and does not run over the end of the 64-bit range.\<close>

definition ext_ok :: "Extent \<Rightarrow> bool" where
  "ext_ok e \<longleftrightarrow> 0 < unat (BlockCount e) \<and> ext_end e < 2 ^ 64"

definition blocks_of :: "Extent list \<Rightarrow> nat set" where
  "blocks_of es = \<Union> (blocks ` set es)"

text \<open>Sorted with a gap between neighbours, so that no two extents could be joined.\<close>

definition ext_list_ok :: "Extent list \<Rightarrow> bool" where
  "ext_list_ok es \<longleftrightarrow> (\<forall>e \<in> set es. ext_ok e) \<and> sorted_wrt (\<lambda>a b. ext_end a < ext_start b) es"

definition free_list_ok :: "FreeExtentList \<Rightarrow> bool" where
  "free_list_ok l \<longleftrightarrow> ext_list_ok (extents l) \<and> length (extents l) \<le> unat (capacity l)"

lemma blocks_of_simps [simp]:
  "blocks_of [] = {}" "blocks_of (e # es) = blocks e \<union> blocks_of es"
  "blocks_of (xs @ ys) = blocks_of xs \<union> blocks_of ys"
  by (auto simp: blocks_of_def)

lemma ext_ok_start: "ext_ok e \<Longrightarrow> ext_start e < ext_end e"
  by (simp add: ext_ok_def ext_start_def ext_end_def)

lemma blocks_disjoint:
  "ext_ok a \<Longrightarrow> ext_ok b \<Longrightarrow> blocks a \<inter> blocks b = {} \<longleftrightarrow> ext_end a \<le> ext_start b \<or> ext_end b \<le> ext_start a"
  using ext_ok_start [of a] ext_ok_start [of b] by (auto simp: blocks_def)

lemma ext_list_ok_Cons:
  "ext_list_ok (e # es) \<longleftrightarrow> ext_ok e \<and> ext_list_ok es \<and> (\<forall>x \<in> set es. ext_end e < ext_start x)"
  by (auto simp: ext_list_ok_def)

lemma ext_list_ok_snoc:
  "ext_list_ok (es @ [e]) \<longleftrightarrow> ext_ok e \<and> ext_list_ok es \<and> (\<forall>x \<in> set es. ext_end x < ext_start e)"
  by (auto simp: ext_list_ok_def sorted_wrt_append)

lemma ext_list_apart:
  "ext_list_ok es \<Longrightarrow> a \<in> set es \<Longrightarrow> b \<in> set es \<Longrightarrow> a \<noteq> b \<Longrightarrow>
   ext_end a < ext_start b \<or> ext_end b < ext_start a"
  by (induction es) (auto simp: ext_list_ok_Cons)

lemma ext_list_distinct: "ext_list_ok es \<Longrightarrow> distinct es"
  using ext_ok_start by (induction es) (fastforce simp: ext_list_ok_Cons)+

section \<open>Allocation\<close>

lemma split_extent:
  assumes "ext_ok e" and "n < BlockCount e" and "n \<noteq> 0"
  defines "r \<equiv> e\<lparr>StartLBA := StartLBA e + n, BlockCount := BlockCount e - n\<rparr>"
  shows "ext_start r = ext_start e + unat n" and "ext_end r = ext_end e" and "ext_ok r"
proof -
  have n: "unat n < unat (BlockCount e)" using assms(2) by (simp add: word_less_nat_alt)
  have "unat (StartLBA e + n) = unat (StartLBA e) + unat n"
    using assms(1) n by (intro unat_add_u64) (simp add: ext_ok_def ext_end_def)
  moreover have "unat (BlockCount e - n) = unat (BlockCount e) - unat n"
    using assms(2) by (simp add: unat_sub order_less_imp_le)
  ultimately show "ext_start r = ext_start e + unat n" "ext_end r = ext_end e" "ext_ok r"
    using n assms(1) by (simp_all add: r_def ext_start_def ext_end_def ext_ok_def)
qed

text \<open>A run of \<open>n\<close> free blocks in a list with gaps lies inside one extent.\<close>

lemma run_in_extent:
  assumes "ext_list_ok es" and "{s ..< s + n} \<subseteq> blocks_of es" and "0 < n"
  shows "\<exists>e \<in> set es. {s ..< s + n} \<subseteq> blocks e"
  using assms
proof (induction n)
  case (Suc n)
  show ?case
  proof (cases "n = 0")
    case True
    with Suc.prems show ?thesis by (fastforce simp: blocks_of_def)
  next
    case False
    with Suc obtain e where e: "e \<in> set es" "{s ..< s + n} \<subseteq> blocks e" by fastforce
    have "s + n \<in> blocks_of es" using Suc.prems(2) by auto
    then obtain e' where e': "e' \<in> set es" "s + n \<in> blocks e'" by (auto simp: blocks_of_def)
    have prev: "s + n - 1 \<in> blocks e" using e(2) False by (simp add: subset_iff)
    have "e = e'"
    proof (rule ccontr)
      assume "e \<noteq> e'"
      with e(1) e'(1) Suc.prems(1) have "ext_end e < ext_start e' \<or> ext_end e' < ext_start e"
        by (intro ext_list_apart)
      with prev e'(2) False show False by (auto simp: blocks_def)
    qed
    moreover have "{s ..< s + Suc n} = insert (s + n) {s ..< s + n}" by auto
    ultimately show ?thesis using e e' by auto
  qed
qed simp

lemma allocate_from_None: "allocate_from n es = None \<longleftrightarrow> (\<forall>e \<in> set es. BlockCount e < n)"
  by (induction es) (auto simp: Let_def)

lemma card_blocks: "card (blocks e) = unat (BlockCount e)"
  by (simp add: blocks_def ext_start_def ext_end_def)

lemma blocks_below: "\<forall>x \<in> set es. b \<le> ext_start x \<Longrightarrow> k < b \<Longrightarrow> k \<notin> blocks_of es"
  by (auto simp: blocks_of_def blocks_def)

lemma blocks_split:
  assumes "ext_ok e" "\<not> BlockCount e < n" "n \<noteq> 0"
  defines "a \<equiv> \<lparr>StartLBA = StartLBA e, BlockCount = n\<rparr>"
    and "r \<equiv> e\<lparr>StartLBA := StartLBA e + n, BlockCount := BlockCount e - n\<rparr>"
  shows "ext_ok a" and "blocks a \<subseteq> blocks e" and "BlockCount e = n \<Longrightarrow> blocks a = blocks e"
    and "BlockCount e \<noteq> n \<Longrightarrow> ext_ok r \<and> ext_start e < ext_start r \<and> ext_end r = ext_end e \<and>
      blocks r = blocks e - blocks a"
proof -
  have n: "unat n \<le> unat (BlockCount e)" "0 < unat n"
    using assms(2,3) by (simp_all add: word_less_nat_alt unat_gt_0)
  with assms(1) show "ext_ok a" "blocks a \<subseteq> blocks e"
    by (auto simp: a_def ext_ok_def ext_end_def ext_start_def blocks_def)
  show "BlockCount e = n \<Longrightarrow> blocks a = blocks e"
    by (simp add: a_def blocks_def ext_start_def ext_end_def)
  assume "BlockCount e \<noteq> n"
  with assms(2) have "n < BlockCount e" by simp
  from split_extent [OF assms(1) this assms(3), folded r_def] n
  show "ext_ok r \<and> ext_start e < ext_start r \<and> ext_end r = ext_end e \<and> blocks r = blocks e - blocks a"
    by (auto simp: blocks_def a_def ext_start_def ext_end_def)
qed

lemma allocate_from_Some:
  assumes "ext_list_ok es" and "n \<noteq> 0" and "allocate_from n es = Some (a, es')"
  shows "ext_list_ok es' \<and> ext_ok a \<and> BlockCount a = n \<and> blocks a \<subseteq> blocks_of es \<and>
    blocks_of es' = blocks_of es - blocks a \<and> length es' \<le> length es \<and>
    (\<forall>b. (\<forall>x \<in> set es. b < ext_start x) \<longrightarrow> (\<forall>x \<in> set es'. b < ext_start x))"
  using assms(1,3)
proof (induction es arbitrary: a es')
  case (Cons e es)
  have e: "ext_ok e" and es: "ext_list_ok es" and gap: "\<forall>x \<in> set es. ext_end e < ext_start x"
    using Cons.prems(1) by (simp_all add: ext_list_ok_Cons)
  have apart: "blocks_of es \<inter> blocks e = {}"
    using gap by (fastforce simp: blocks_of_def blocks_def)
  show ?case
  proof (cases "BlockCount e < n")
    case True
    with Cons.prems(2) obtain es1 where "allocate_from n es = Some (a, es1)" "es' = e # es1" by auto
    moreover from Cons.IH [OF es this(1)] gap apart e show ?thesis
      by (auto simp: ext_list_ok_Cons calculation)
  next
    case False
    note sp = blocks_split [OF e False assms(2)]
    show ?thesis
    proof (cases "BlockCount e = n")
      case True
      with Cons.prems(2) have "a = \<lparr>StartLBA = StartLBA e, BlockCount = n\<rparr>" "es' = es"
        by (simp_all add: Let_def)
      with sp(1,3) True es apart show ?thesis by auto
    next
      case ne: False
      with Cons.prems(2) False have "a = \<lparr>StartLBA = StartLBA e, BlockCount = n\<rparr>"
        "es' = e\<lparr>StartLBA := StartLBA e + n, BlockCount := BlockCount e - n\<rparr> # es"
        by (auto simp: Let_def)
      with sp(1,2) sp(4) [OF ne] es gap apart show ?thesis
        by (auto simp: ext_list_ok_Cons)
    qed
  qed
qed simp

text \<open>First fit takes the lowest run.\<close>

lemma allocate_from_lowest:
  assumes "ext_list_ok es" and "n \<noteq> 0" and "allocate_from n es = Some (a, es')"
    and "e \<in> set es" and "\<not> BlockCount e < n"
  shows "ext_start a \<le> ext_start e"
  using assms(1,3,4)
proof (induction es arbitrary: a es')
  case (Cons x es)
  show ?case
  proof (cases "BlockCount x < n")
    case True
    with Cons.prems assms(5) Cons.IH show ?thesis by (auto simp: ext_list_ok_Cons)
  next
    case False
    with Cons.prems(2) have "StartLBA a = StartLBA x" by (auto simp: Let_def split: if_splits)
    moreover have "ext_start x \<le> ext_start e"
      using Cons.prems(1,3) ext_ok_start [of x] by (fastforce simp: ext_list_ok_Cons)
    ultimately show ?thesis by (simp add: ext_start_def)
  qed
qed simp

section \<open>Release\<close>

lemma touching:
  assumes "ext_ok a"
  shows "StartLBA a + BlockCount a = StartLBA b \<longleftrightarrow> ext_end a = ext_start b"
proof -
  have "unat (StartLBA a + BlockCount a) = ext_end a"
    using assms by (simp add: unat_add_u64 ext_ok_def ext_end_def)
  then show ?thesis by (metis ext_start_def word_unat_eq_iff)
qed

lemma join_extents:
  assumes "ext_ok a" and "ext_ok b" and "ext_end a = ext_start b"
  defines "j \<equiv> a\<lparr>BlockCount := BlockCount a + BlockCount b\<rparr>"
  shows "ext_start j = ext_start a" and "ext_end j = ext_end b" and "ext_ok j"
    and "blocks j = blocks a \<union> blocks b"
proof -
  have "unat (BlockCount a + BlockCount b) = unat (BlockCount a) + unat (BlockCount b)"
    using assms(2,3) by (intro unat_add_u64) (simp add: ext_ok_def ext_end_def ext_start_def)
  then show *: "ext_start j = ext_start a" "ext_end j = ext_end b"
    using assms(3) by (simp_all add: j_def ext_start_def ext_end_def)
  with assms(1-3) show "ext_ok j" "blocks j = blocks a \<union> blocks b"
    using ext_ok_start [of a] ext_ok_start [of b] \<open>unat (BlockCount a + BlockCount b) = _\<close>
    by (auto simp: ext_ok_def blocks_def j_def)
qed

definition covers :: "Extent list \<Rightarrow> Extent list \<Rightarrow> bool" where
  "covers c xs \<longleftrightarrow> ext_list_ok c \<and> blocks_of c = blocks_of xs \<and> length c \<le> length xs \<and>
     (\<forall>b. (\<forall>x \<in> set xs. ext_end x \<le> b) \<longrightarrow> (\<forall>x \<in> set c. ext_end x \<le> b))"

lemma coalesce_step_covers:
  assumes c: "covers c xs" and e: "ext_ok e" and below: "\<forall>x \<in> set xs. ext_end x \<le> ext_start e"
  shows "covers (coalesce_step c e) (xs @ [e])"
proof (cases "c = []")
  case True
  with c e show ?thesis by (auto simp: covers_def coalesce_step_def ext_list_ok_def)
next
  case False
  then obtain c' l where cl: "c = c' @ [l]" by (metis append_butlast_last_id)
  have l: "ext_ok l" and c': "ext_list_ok c'" "\<forall>x \<in> set c'. ext_end x < ext_start l"
    using c by (auto simp: covers_def cl ext_list_ok_snoc)
  have c_below: "\<forall>x \<in> set c. ext_end x \<le> ext_start e"
    using c below by (auto simp: covers_def)
  show ?thesis
  proof (cases "ext_end l = ext_start e")
    case True
    note j = join_extents [OF l e True]
    have "coalesce_step c e = c' @ [l\<lparr>BlockCount := BlockCount l + BlockCount e\<rparr>]"
      using True l by (simp add: coalesce_step_def cl touching)
    with c c' j e show ?thesis
      by (auto simp: covers_def cl ext_list_ok_snoc)
  next
    case ne: False
    then have step: "coalesce_step c e = c @ [e]"
      using l by (simp add: coalesce_step_def cl touching)
    have "\<forall>x \<in> set c. ext_end x < ext_start e"
      using ne c' c_below ext_ok_start [OF l] by (fastforce simp: cl)
    with c e show ?thesis by (auto simp: covers_def step ext_list_ok_snoc)
  qed
qed

lemma coalesce_covers:
  assumes "\<forall>e \<in> set xs. ext_ok e" and "sorted_wrt (\<lambda>a b. ext_end a \<le> ext_start b) xs"
  shows "covers (foldl coalesce_step [] xs) xs"
  using assms
proof (induction xs rule: rev_induct)
  case Nil
  then show ?case by (simp add: covers_def ext_list_ok_def)
next
  case (snoc e xs)
  then show ?case by (auto simp: sorted_wrt_append intro!: coalesce_step_covers)
qed

text \<open>Sorting extents that hold different blocks puts each after the end of the one before.\<close>

lemma sorted_disjoint:
  assumes ok: "\<forall>e \<in> set xs. ext_ok e" and "distinct xs"
    and "\<forall>a \<in> set xs. \<forall>b \<in> set xs. a \<noteq> b \<longrightarrow> blocks a \<inter> blocks b = {}" and "sorted (map StartLBA xs)"
  shows "sorted_wrt (\<lambda>a b. ext_end a \<le> ext_start b) xs"
  unfolding sorted_wrt_iff_nth_less
proof (intro allI impI)
  fix i j assume ij: "i < j" "j < length xs"
  let ?a = "xs ! i" and ?b = "xs ! j"
  have mem: "?a \<in> set xs" "?b \<in> set xs" "?a \<noteq> ?b"
    using ij assms(2) by (auto simp: nth_eq_iff_index_eq)
  then have "ext_end ?a \<le> ext_start ?b \<or> ext_end ?b \<le> ext_start ?a"
    using assms(1,3) blocks_disjoint [of ?a ?b] by blast
  moreover have "ext_start ?a \<le> ext_start ?b"
    using assms(4) ij by (auto simp: sorted_iff_nth_mono ext_start_def word_le_nat_alt)
  ultimately show "ext_end ?a \<le> ext_start ?b"
    using ext_ok_start [of ?b] ok mem by fastforce
qed

lemma Free_covers:
  assumes "ext_list_ok es" and "ext_ok e" and "blocks e \<inter> blocks_of es = {}"
  shows "covers (foldl coalesce_step [] (sort_key StartLBA (es @ [e]))) (es @ [e])"
proof -
  let ?xs = "sort_key StartLBA (es @ [e])"
  have ok: "\<forall>x \<in> set (es @ [e]). ext_ok x" using assms by (auto simp: ext_list_ok_def)
  have apart: "a \<in> set es \<Longrightarrow> b \<in> set es \<Longrightarrow> a \<noteq> b \<Longrightarrow> blocks a \<inter> blocks b = {}" for a b
    using ext_list_apart [OF assms(1), of a b] by (auto simp: blocks_def)
  have "distinct es" using assms(1) by (rule ext_list_distinct)
  moreover have "e \<notin> set es"
  proof
    assume "e \<in> set es"
    then have "blocks e \<subseteq> blocks_of es" by (auto simp: blocks_of_def)
    with assms(3) have "blocks e = {}" by blast
    with ext_ok_start [OF assms(2)] show False by (simp add: blocks_def)
  qed
  ultimately have "distinct ?xs" by simp
  moreover have "\<forall>a \<in> set ?xs. \<forall>b \<in> set ?xs. a \<noteq> b \<longrightarrow> blocks a \<inter> blocks b = {}"
    using apart assms(3) by (auto simp: blocks_of_def)
  ultimately have "sorted_wrt (\<lambda>a b. ext_end a \<le> ext_start b) ?xs"
    using ok by (intro sorted_disjoint) auto
  then have "covers (foldl coalesce_step [] ?xs) ?xs"
    using ok by (intro coalesce_covers) auto
  moreover have "blocks_of ?xs = blocks_of (es @ [e])" "length ?xs = length (es @ [e])"
    "set ?xs = set (es @ [e])" by (simp_all add: blocks_of_def)
  ultimately show ?thesis unfolding covers_def by metis
qed

lemma take_ext_list_ok: "ext_list_ok es \<Longrightarrow> ext_list_ok (take k es)"
  by (auto simp: ext_list_ok_def sorted_wrt_take dest: in_set_takeD)

lemma blocks_of_take: "blocks_of (take k es) \<subseteq> blocks_of es"
  by (auto simp: blocks_of_def dest: in_set_takeD)

definition free_blocks :: "FreeExtentList \<Rightarrow> nat set" where
  "free_blocks l = blocks_of (extents l)"

lemma Free_ok:
  assumes "free_list_ok l" and "ext_ok e" and "blocks e \<inter> free_blocks l = {}"
  shows "free_list_ok (Free l e) \<and> free_blocks (Free l e) \<subseteq> free_blocks l \<union> blocks e \<and>
    (length (extents l) < unat (capacity l) \<longrightarrow> free_blocks (Free l e) = free_blocks l \<union> blocks e) \<and>
    capacity (Free l e) = capacity l"
proof (cases "capacity l = 0")
  case True
  with assms(1) show ?thesis by (auto simp: Free_def free_list_ok_def)
next
  case False
  let ?c = "foldl coalesce_step [] (sort_key StartLBA (extents l @ [e]))"
  have c: "covers ?c (extents l @ [e])"
    using assms by (intro Free_covers) (auto simp: free_list_ok_def free_blocks_def)
  have Free: "Free l e = l\<lparr>extents := take (unat (capacity l)) ?c\<rparr>"
    using False assms(2) by (simp add: Free_def ext_ok_def Let_def unat_eq_0 [symmetric] del: unat_eq_0)
  from c have "length ?c \<le> Suc (length (extents l))" by (simp add: covers_def)
  with c Free show ?thesis
    using take_ext_list_ok [of ?c] blocks_of_take [of "unat (capacity l)" ?c]
    by (auto simp: free_list_ok_def free_blocks_def covers_def Un_commute)
qed

lemma Allocate_ok:
  assumes "free_list_ok l" and "n \<noteq> 0" and "Allocate l n = (a, l')"
  shows "free_list_ok l' \<and> capacity l' = capacity l \<and> free_blocks l' = free_blocks l - blocks a \<and>
    (if (\<exists>s. {s ..< s + unat n} \<subseteq> free_blocks l)
     then ext_ok a \<and> BlockCount a = n \<and> blocks a \<subseteq> free_blocks l \<and>
       (\<forall>s. {s ..< s + unat n} \<subseteq> free_blocks l \<longrightarrow> ext_start a \<le> s)
     else a = zero_extent \<and> l' = l)"
proof -
  have es: "ext_list_ok (extents l)" using assms(1) by (simp add: free_list_ok_def)
  have n: "0 < unat n" using assms(2) by (simp add: unat_gt_0)
  have run: "\<exists>e \<in> set (extents l). ext_start e \<le> s \<and> \<not> BlockCount e < n"
    if sub: "{s ..< s + unat n} \<subseteq> free_blocks l" for s
  proof -
    obtain e where "e \<in> set (extents l)" "{s ..< s + unat n} \<subseteq> blocks e"
      using run_in_extent [OF es _ n, of s] sub by (auto simp: free_blocks_def)
    then show ?thesis
      using n by (intro bexI [of _ e]) (auto simp: blocks_def ext_end_def ext_start_def word_less_nat_alt)
  qed
  show ?thesis
  proof (cases "allocate_from n (extents l)")
    case None
    then have "\<not> (\<exists>s. {s ..< s + unat n} \<subseteq> free_blocks l)"
      using run by (auto simp: allocate_from_None)
    with None assms show ?thesis
      by (auto simp: Allocate_def zero_extent_def blocks_def ext_start_def ext_end_def)
  next
    case (Some r)
    then obtain es' where es': "allocate_from n (extents l) = Some (a, es')" "l' = l\<lparr>extents := es'\<rparr>"
      using assms(2,3) by (cases r) (auto simp: Allocate_def)
    note ok = allocate_from_Some [OF es assms(2) es'(1)]
    have "{ext_start a ..< ext_start a + unat n} \<subseteq> free_blocks l"
      using ok by (auto simp: free_blocks_def blocks_def ext_end_def ext_start_def)
    moreover have "ext_start a \<le> s" if "{s ..< s + unat n} \<subseteq> free_blocks l" for s
      using run [OF that] allocate_from_lowest [OF es assms(2) es'(1)] by fastforce
    ultimately show ?thesis
      using ok es'(2) assms(1) by (auto simp: free_list_ok_def free_blocks_def)
  qed
qed

section \<open>The list is a canonical form\<close>

lemma ext_eqI: "ext_start a = ext_start b \<Longrightarrow> ext_end a = ext_end b \<Longrightarrow> a = (b :: Extent)"
  by (simp add: ext_start_def ext_end_def word_unat_eq_iff)

lemma head_blocks:
  assumes "ext_list_ok (e # es)"
  shows "ext_start e = (LEAST k. k \<in> blocks_of (e # es))"
    and "ext_end e = (LEAST k. ext_start e \<le> k \<and> k \<notin> blocks_of (e # es))"
    and "blocks_of es = blocks_of (e # es) - blocks e"
proof -
  have e: "ext_start e < ext_end e" and above: "\<forall>x \<in> set es. ext_end e < ext_start x"
    using assms by (auto simp: ext_list_ok_Cons ext_ok_start)
  have rest: "\<And>k. k \<in> blocks_of es \<Longrightarrow> ext_end e < k"
    using above by (fastforce simp: blocks_of_def blocks_def)
  show "ext_start e = (LEAST k. k \<in> blocks_of (e # es))"
    using e rest by (intro Least_equality [symmetric]) (fastforce simp: blocks_def)+
  show "ext_end e = (LEAST k. ext_start e \<le> k \<and> k \<notin> blocks_of (e # es))"
    using e rest by (intro Least_equality [symmetric]) (auto simp: blocks_def not_le)
  show "blocks_of es = blocks_of (e # es) - blocks e"
    using rest by (fastforce simp: blocks_def)
qed

lemma ext_list_canonical:
  assumes "ext_list_ok xs" and "ext_list_ok ys" and "blocks_of xs = blocks_of ys"
  shows "xs = ys"
  using assms
proof (induction xs arbitrary: ys)
  case Nil
  then show ?case
    using ext_ok_start by (cases ys) (fastforce simp: ext_list_ok_Cons blocks_def)+
next
  case (Cons x xs)
  have "blocks_of ys \<noteq> {}"
    using Cons.prems(1,3) ext_ok_start [of x] by (auto simp: ext_list_ok_Cons blocks_def)
  then obtain y ys' where ys: "ys = y # ys'" by (cases ys) auto
  note hx = head_blocks [OF Cons.prems(1)] and hy = head_blocks [OF Cons.prems(2) [unfolded ys]]
  have "x = y"
    using hx(1,2) hy(1,2) Cons.prems(3) by (intro ext_eqI) (simp_all only: ys)
  moreover have "xs = ys'"
    using hx(3) hy(3) Cons.prems calculation by (intro Cons.IH) (simp_all add: ys ext_list_ok_Cons)
  ultimately show ?case by (simp add: ys)
qed

section \<open>What the allocator guarantees\<close>

text \<open>
  C7. On a well-formed free list \<open>Allocate\<close> succeeds exactly when some run of \<open>n\<close> consecutive free
  blocks exists; it then returns the lowest such run as an extent of \<open>n\<close> blocks, takes exactly these
  blocks from the free set and keeps the list well formed. Otherwise it returns the zero extent and
  leaves the list as it was.
\<close>

theorem Allocate_first_fit:
  assumes "free_list_ok l" and "n \<noteq> 0" and "Allocate l n = (a, l')"
  shows "free_list_ok l' \<and> free_blocks l' = free_blocks l - blocks a \<and>
    (if (\<exists>s. {s ..< s + unat n} \<subseteq> free_blocks l)
     then BlockCount a = n \<and> blocks a \<subseteq> free_blocks l \<and> card (blocks a) = unat n \<and>
       (\<forall>s. {s ..< s + unat n} \<subseteq> free_blocks l \<longrightarrow> ext_start a \<le> s)
     else a = zero_extent \<and> l' = l)"
  using Allocate_ok [OF assms] card_blocks [of a] by metis

theorem Allocate_first_fit_witness:
  "Allocate \<lparr>capacity = 8, extents = [\<lparr>StartLBA = 10, BlockCount = 2\<rparr>, \<lparr>StartLBA = 20, BlockCount = 5\<rparr>]\<rparr> 3 =
     (\<lparr>StartLBA = 20, BlockCount = 3\<rparr>,
      \<lparr>capacity = 8, extents = [\<lparr>StartLBA = 10, BlockCount = 2\<rparr>, \<lparr>StartLBA = 23, BlockCount = 2\<rparr>]\<rparr>) \<and>
   free_list_ok \<lparr>capacity = 8, extents = [\<lparr>StartLBA = 10, BlockCount = 2\<rparr>, \<lparr>StartLBA = 23, BlockCount = 2\<rparr>]\<rparr>"
proof -
  let ?l = "\<lparr>capacity = 8, extents = [\<lparr>StartLBA = 10, BlockCount = 2\<rparr>, \<lparr>StartLBA = 20, BlockCount = 5\<rparr>]\<rparr>"
  have ok: "free_list_ok ?l"
    by (simp add: free_list_ok_def ext_list_ok_def ext_ok_def ext_start_def ext_end_def)
  have "Allocate ?l 3 = (\<lparr>StartLBA = 20, BlockCount = 3\<rparr>,
      \<lparr>capacity = 8, extents = [\<lparr>StartLBA = 10, BlockCount = 2\<rparr>, \<lparr>StartLBA = 23, BlockCount = 2\<rparr>]\<rparr>)"
    by (simp add: Allocate_def Let_def)
  from this Allocate_first_fit [OF ok _ this] show ?thesis by simp
qed

text \<open>
  C8. Releasing an extent that was just allocated restores the free list exactly, also when the list
  is at its capacity: the extent joins the remainder it was cut from.
\<close>

theorem Free_Allocate:
  assumes "free_list_ok l" and "Allocate l n = (a, l')" and "BlockCount a \<noteq> 0"
  shows "Free l' a = l"
proof -
  have n: "n \<noteq> 0" using assms(2,3) by (auto simp: Allocate_def zero_extent_def)
  note al = Allocate_ok [OF assms(1) n assms(2)]
  have a: "ext_ok a" "blocks a \<subseteq> free_blocks l" using al assms(3) by (auto simp: zero_extent_def split: if_splits)
  let ?c = "foldl coalesce_step [] (sort_key StartLBA (extents l' @ [a]))"
  have c: "covers ?c (extents l' @ [a])"
    using al a(1) by (intro Free_covers) (auto simp: free_list_ok_def free_blocks_def)
  have "?c = extents l"
    using c al a assms(1)
    by (intro ext_list_canonical) (auto simp: covers_def free_list_ok_def free_blocks_def)
  moreover have "capacity l \<noteq> 0"
    using assms(1) a ext_ok_start [OF a(1)] by (auto simp: free_list_ok_def free_blocks_def blocks_def)
  ultimately show ?thesis
    using al assms(1,3) by (simp add: Free_def free_list_ok_def)
qed

theorem Free_Allocate_witness:
  "Free \<lparr>capacity = 1, extents = [\<lparr>StartLBA = 13, BlockCount = 7\<rparr>]\<rparr> \<lparr>StartLBA = 10, BlockCount = 3\<rparr> =
     \<lparr>capacity = 1, extents = [\<lparr>StartLBA = 10, BlockCount = 10\<rparr>]\<rparr>"
proof -
  let ?l = "\<lparr>capacity = 1, extents = [\<lparr>StartLBA = 10, BlockCount = 10\<rparr>]\<rparr>"
  have "free_list_ok ?l"
    by (simp add: free_list_ok_def ext_list_ok_def ext_ok_def ext_start_def ext_end_def)
  moreover have "Allocate ?l 3 = (\<lparr>StartLBA = 10, BlockCount = 3\<rparr>,
      \<lparr>capacity = 1, extents = [\<lparr>StartLBA = 13, BlockCount = 7\<rparr>]\<rparr>)"
    by (simp add: Allocate_def Let_def)
  ultimately show ?thesis by (rule Free_Allocate) simp
qed

section \<open>Any sequence of allocations and releases\<close>

record alloc_sys =
  free_list :: FreeExtentList
  held :: "Extent list"

inductive alloc_step :: "alloc_sys \<Rightarrow> alloc_sys \<Rightarrow> bool" where
  allocate: "Allocate (free_list s) n = (a, l) \<Longrightarrow>
    alloc_step s \<lparr>free_list = l, held = (if BlockCount a = 0 then held s else a # held s)\<rparr>"
| release: "e \<in> set (held s) \<Longrightarrow>
    alloc_step s \<lparr>free_list = Free (free_list s) e, held = remove1 e (held s)\<rparr>"

definition alloc_init :: "u64 \<Rightarrow> Extent \<Rightarrow> alloc_sys" where
  "alloc_init cap seed = \<lparr>free_list = Free (NewFreeExtentList cap) seed, held = []\<rparr>"

definition alloc_inv :: "nat set \<Rightarrow> alloc_sys \<Rightarrow> bool" where
  "alloc_inv pool s \<longleftrightarrow> free_list_ok (free_list s) \<and> distinct (held s) \<and> (\<forall>e \<in> set (held s). ext_ok e) \<and>
     (\<forall>a \<in> set (held s). \<forall>b \<in> set (held s). a \<noteq> b \<longrightarrow> blocks a \<inter> blocks b = {}) \<and>
     blocks_of (held s) \<inter> free_blocks (free_list s) = {} \<and>
     blocks_of (held s) \<union> free_blocks (free_list s) \<subseteq> pool"

lemma alloc_inv_allocate:
  assumes inv: "alloc_inv pool s" and al: "Allocate (free_list s) n = (a, l)"
  shows "alloc_inv pool \<lparr>free_list = l, held = (if BlockCount a = 0 then held s else a # held s)\<rparr>"
proof (cases "BlockCount a = 0")
  case True
  have "l = free_list s"
  proof (cases "n = 0")
    case False
    with Allocate_ok [OF _ False al] inv True show ?thesis by (auto simp: alloc_inv_def split: if_splits)
  qed (use al in \<open>simp add: Allocate_def\<close>)
  with True inv show ?thesis by (simp add: alloc_inv_def)
next
  case False
  then have n: "n \<noteq> 0" using al by (auto simp: Allocate_def zero_extent_def)
  from Allocate_ok [OF _ n al] inv False
  have ok: "free_list_ok l" "free_blocks l = free_blocks (free_list s) - blocks a" "ext_ok a"
      "blocks a \<subseteq> free_blocks (free_list s)"
    by (auto simp: alloc_inv_def zero_extent_def split: if_splits)
  have apart: "blocks a \<inter> blocks b = {}" if "b \<in> set (held s)" for b
    using inv ok(4) that by (auto simp: alloc_inv_def blocks_of_def)
  have "a \<notin> set (held s)"
    using apart [of a] ext_ok_start [OF ok(3)] by (auto simp: blocks_def)
  then show ?thesis
    using False inv ok apart by (auto simp: alloc_inv_def)
qed

lemma alloc_inv_release:
  assumes inv: "alloc_inv pool s" and e: "e \<in> set (held s)"
  shows "alloc_inv pool \<lparr>free_list = Free (free_list s) e, held = remove1 e (held s)\<rparr>"
proof -
  have ok: "ext_ok e" "blocks e \<inter> free_blocks (free_list s) = {}" "blocks e \<subseteq> pool"
    using inv e by (auto simp: alloc_inv_def blocks_of_def)
  have fr: "free_list_ok (Free (free_list s) e)"
      "free_blocks (Free (free_list s) e) \<subseteq> free_blocks (free_list s) \<union> blocks e"
    using Free_ok [OF _ ok(1,2)] inv by (auto simp: alloc_inv_def)
  have held: "set (remove1 e (held s)) = set (held s) - {e}"
    using inv by (simp add: alloc_inv_def set_remove1_eq)
  have apart: "blocks_of (remove1 e (held s)) \<inter> blocks e = {}"
    using inv e by (auto simp: alloc_inv_def blocks_of_def held)
  have sub: "blocks_of (remove1 e (held s)) \<subseteq> blocks_of (held s)"
    by (auto simp: blocks_of_def held)
  have "blocks_of (remove1 e (held s)) \<inter> free_blocks (Free (free_list s) e) = {}"
    using inv fr(2) apart sub unfolding alloc_inv_def by blast
  moreover have "blocks_of (remove1 e (held s)) \<union> free_blocks (Free (free_list s) e) \<subseteq> pool"
    using inv ok(3) fr(2) sub unfolding alloc_inv_def by blast
  ultimately show ?thesis
    using inv fr(1) by (simp add: alloc_inv_def held)
qed

lemma alloc_inv_init:
  assumes "ext_ok seed"
  shows "alloc_inv (blocks seed) (alloc_init cap seed)"
proof -
  have "free_list_ok (NewFreeExtentList cap)" "free_blocks (NewFreeExtentList cap) = {}"
    by (simp_all add: NewFreeExtentList_def free_list_ok_def ext_list_ok_def free_blocks_def)
  from Free_ok [OF this(1) assms] this(2) show ?thesis
    by (auto simp: alloc_inv_def alloc_init_def)
qed

interpretation alloc: transition_invariant
  "\<lambda>s. \<exists>cap seed. ext_ok seed \<and> blocks seed \<subseteq> pool \<and> s = alloc_init cap seed" alloc_step "alloc_inv pool" for pool
proof unfold_locales
  fix s :: alloc_sys
  assume "\<exists>cap seed. ext_ok seed \<and> blocks seed \<subseteq> pool \<and> s = alloc_init cap seed"
  then obtain cap seed where "blocks seed \<subseteq> pool" "alloc_inv (blocks seed) s"
    using alloc_inv_init by blast
  then show "alloc_inv pool s" unfolding alloc_inv_def by blast
next
  fix s t assume inv: "alloc_inv pool s" and "alloc_step s t"
  from this(2) show "alloc_inv pool t"
  proof cases
    case allocate
    then show ?thesis using alloc_inv_allocate [OF inv] by simp
  next
    case release
    then show ?thesis using alloc_inv_release [OF inv] by simp
  qed
qed

text \<open>
  C9. Seed the allocator with one extent and let allocations and releases of held extents follow in
  any order, for any capacity. Two extents held at the same time never share a block, no held block
  is free, and nothing outside the seed is ever handed out.
\<close>

theorem no_double_allocation:
  assumes "ext_ok seed" and "alloc_step\<^sup>*\<^sup>* (alloc_init cap seed) s"
  shows "distinct (held s) \<and>
    (\<forall>a \<in> set (held s). \<forall>b \<in> set (held s). a \<noteq> b \<longrightarrow> blocks a \<inter> blocks b = {}) \<and>
    blocks_of (held s) \<inter> free_blocks (free_list s) = {} \<and>
    blocks_of (held s) \<union> free_blocks (free_list s) \<subseteq> blocks seed"
proof -
  have "alloc_inv (blocks seed) s"
    using alloc.reachable_inv [of "blocks seed" "alloc_init cap seed" s] assms by blast
  then show ?thesis by (simp add: alloc_inv_def)
qed

theorem no_double_allocation_witness:
  "\<exists>s. alloc_step\<^sup>*\<^sup>* (alloc_init 4 \<lparr>StartLBA = 100, BlockCount = 10\<rparr>) s \<and>
     held s = [\<lparr>StartLBA = 104, BlockCount = 2\<rparr>, \<lparr>StartLBA = 100, BlockCount = 4\<rparr>] \<and>
     blocks_of (held s) \<inter> free_blocks (free_list s) = {}"
proof -
  let ?seed = "\<lparr>StartLBA = 100, BlockCount = 10\<rparr>" and ?a = "\<lparr>StartLBA = 100, BlockCount = 4\<rparr>"
  let ?s1 = "\<lparr>free_list = \<lparr>capacity = 4, extents = [\<lparr>StartLBA = 104, BlockCount = 6\<rparr>]\<rparr>, held = [?a]\<rparr>"
  let ?s2 = "\<lparr>free_list = \<lparr>capacity = 4, extents = [\<lparr>StartLBA = 106, BlockCount = 4\<rparr>]\<rparr>,
    held = [\<lparr>StartLBA = 104, BlockCount = 2\<rparr>, ?a]\<rparr>"
  have "alloc_step (alloc_init 4 ?seed) ?s1"
    using allocate [OF prod.collapse [symmetric], of "alloc_init 4 ?seed" 4]
    by (simp add: alloc_init_def Free_def NewFreeExtentList_def coalesce_step_def Allocate_def Let_def)
  moreover have "alloc_step ?s1 ?s2"
    using allocate [OF prod.collapse [symmetric], of ?s1 2] by (simp add: Allocate_def Let_def)
  ultimately have steps: "alloc_step\<^sup>*\<^sup>* (alloc_init 4 ?seed) ?s2" by (meson converse_rtranclp_into_rtranclp r_into_rtranclp)
  have "ext_ok ?seed" by (simp add: ext_ok_def ext_end_def)
  from no_double_allocation [OF this steps] steps show ?thesis by (intro exI [of _ ?s2]) simp
qed

end
