(* ===== verification/Storage_Regions.thy ===== *)
theory Storage_Regions
  imports Storage_Slots "HOL-Library.Multiset"
begin

text \<open>
  The static layout of the storage disk in \<open>compiler/storagefmt/format.go\<close>: superblock selection,
  the region map and its validation, and the packing of a batch into logical blocks. The lemmas
  show that the validator accepts exactly the maps of nonempty, disjoint regions inside the disk,
  and that a torn superblock copy never shadows the other copy.
\<close>

section \<open>Superblocks\<close>

datatype StorageError = ErrNoValidSuperblock | ErrRegionOverlap

record Superblock =
  Generation :: u64
  sb_Checksum32 :: u32

definition SuperblockChecksum :: "u64 \<Rightarrow> u32" where
  "SuperblockChecksum generation = CRC32C (PutUint64 generation)"

definition Superblock_Valid :: "Superblock \<Rightarrow> bool" where
  "Superblock_Valid s \<longleftrightarrow> sb_Checksum32 s = SuperblockChecksum (Generation s)"

definition ChooseSuperblock :: "Superblock \<Rightarrow> Superblock \<Rightarrow> StorageError + Superblock" where
  "ChooseSuperblock a b =
     (let av = Superblock_Valid a; bv = Superblock_Valid b in
      if av \<and> bv \<and> Generation b > Generation a then Inr b
      else if av then Inr a
      else if bv then Inr b
      else Inl ErrNoValidSuperblock)"

section \<open>Regions\<close>

definition StorageDiskBytes :: u64 where "StorageDiskBytes = 4 * 1024 * 1024 * 1024"

record Region =
  Name :: string
  Offset :: u64
  Size :: u64

text \<open>The loop of \<open>ValidateRegions\<close> over the sorted copy; \<open>None\<close> is Go's nil error.\<close>

fun validate_from :: "u64 \<Rightarrow> Region list \<Rightarrow> StorageError option" where
  "validate_from prevEnd [] = None"
| "validate_from prevEnd (region # rs) =
     (if Size region = 0 \<or> Offset region < prevEnd then Some ErrRegionOverlap
      else
        (let end = Offset region + Size region in
         if end < Offset region \<or> end > StorageDiskBytes then Some ErrRegionOverlap
         else validate_from end rs))"

definition ValidateRegions :: "Region list \<Rightarrow> StorageError option" where
  "ValidateRegions regions = validate_from 0 (sort_key Offset regions)"

definition DefaultRegions :: "Region list" where
  "DefaultRegions =
    [\<lparr>Name = ''superblock copies'', Offset = 0, Size = 8192\<rparr>,
     \<lparr>Name = ''region map'', Offset = 8192, Size = 1048576\<rparr>,
     \<lparr>Name = ''hot event slot region'', Offset = 1056768, Size = 536870912\<rparr>,
     \<lparr>Name = ''segment map'', Offset = 537927680, Size = 67108864\<rparr>,
     \<lparr>Name = ''sealed segment extents'', Offset = 605036544, Size = 536870912\<rparr>,
     \<lparr>Name = ''stream directory and cache chunks'', Offset = 1141907456, Size = 268435456\<rparr>,
     \<lparr>Name = ''blob extents'', Offset = 1410342912, Size = 1610612736\<rparr>,
     \<lparr>Name = ''blob manifests and key metadata'', Offset = 3020955648, Size = 268435456\<rparr>,
     \<lparr>Name = ''projection storage'', Offset = 3289391104, Size = 536870912\<rparr>,
     \<lparr>Name = ''maintenance metadata'', Offset = 3826262016, Size = 268435456\<rparr>,
     \<lparr>Name = ''reserved tail'', Offset = 4094697472, Size = 72159232\<rparr>]"

section \<open>Batch packing\<close>

record BatchPacking =
  SemanticSlots :: u64
  ReservedEmptySlots :: u64
  TotalSlotPositions :: u64

definition FinishBatch :: "u64 \<Rightarrow> u64 \<Rightarrow> BatchPacking" where
  "FinishBatch activeLBASize semanticSlots =
     (let slotsPerLBA = activeLBASize div of_nat EventSlotSize;
          remainder = semanticSlots mod slotsPerLBA;
          totalSlotPositions =
            (if slotsPerLBA > 0 \<and> remainder \<noteq> 0
             then semanticSlots + (slotsPerLBA - remainder) else semanticSlots)
      in \<lparr>SemanticSlots = semanticSlots,
          ReservedEmptySlots = totalSlotPositions - semanticSlots,
          TotalSlotPositions = totalSlotPositions\<rparr>)"

section \<open>Superblock selection\<close>

text \<open>
  C10. A superblock copy whose generation was torn in at most four neighbouring bytes fails its
  checksum, so the choice falls on the other copy, whichever of the two it is and however large the
  torn generation reads.
\<close>

theorem torn_superblock_ignored:
  assumes "Superblock_Valid good"
    and "Superblock_Valid old" and "PutUint64 (Generation old) = us @ xs @ vs"
    and "length ys = length xs" and "length xs \<le> 4" and "ys \<noteq> xs"
    and "PutUint64 (Generation torn) = us @ ys @ vs" and "sb_Checksum32 torn = sb_Checksum32 old"
  shows "ChooseSuperblock good torn = Inr good \<and> ChooseSuperblock torn good = Inr good"
proof -
  have "\<not> Superblock_Valid torn"
    using assms CRC32C_burst [of ys xs us vs] by (auto simp: Superblock_Valid_def SuperblockChecksum_def)
  with assms(1) show ?thesis by (simp add: ChooseSuperblock_def)
qed

theorem torn_superblock_ignored_witness:
  "let old = \<lparr>Generation = 2, sb_Checksum32 = SuperblockChecksum 2\<rparr>;
       good = \<lparr>Generation = 1, sb_Checksum32 = SuperblockChecksum 1\<rparr>;
       torn = old\<lparr>Generation := 0x102\<rparr>
   in ChooseSuperblock good torn = Inr good \<and> ChooseSuperblock torn good = Inr good"
proof -
  let ?old = "\<lparr>Generation = 2, sb_Checksum32 = SuperblockChecksum 2\<rparr>"
  let ?good = "\<lparr>Generation = 1, sb_Checksum32 = SuperblockChecksum 1\<rparr>"
  have old: "PutUint64 2 = [2] @ [0] @ replicate 6 0" by code_simp
  have torn: "PutUint64 0x102 = [2] @ [1] @ replicate 6 0" by code_simp
  show ?thesis
    using torn_superblock_ignored [of ?good ?old "[2]" "[0]" "replicate 6 0" "[1]" "?old\<lparr>Generation := 0x102\<rparr>"]
      old torn by (simp add: Superblock_Valid_def Let_def)
qed

text \<open>The choice is a valid copy of the highest valid generation, if there is one.\<close>

lemma ChooseSuperblock_spec:
  "case ChooseSuperblock a b of
     Inl e \<Rightarrow> e = ErrNoValidSuperblock \<and> \<not> Superblock_Valid a \<and> \<not> Superblock_Valid b
   | Inr s \<Rightarrow> s \<in> {a, b} \<and> Superblock_Valid s \<and>
       (\<forall>t \<in> {a, b}. Superblock_Valid t \<longrightarrow> Generation t \<le> Generation s)"
  by (auto simp: ChooseSuperblock_def Let_def)

section \<open>Region maps\<close>

lemma sorted_wrt_permute:
  assumes "symp R" and "mset xs = mset ys" and "sorted_wrt R xs"
  shows "sorted_wrt R ys"
  using assms(2,3)
proof (induction xs arbitrary: ys)
  case (Cons x xs)
  then have "x \<in> set ys" by (metis list.set_intros(1) set_mset_mset)
  then obtain us vs where ys: "ys = us @ x # vs" by (meson split_list)
  with Cons.prems(1) have "mset xs = mset (us @ vs)" by simp
  from Cons.IH [OF this] mset_eq_setD [OF this] Cons.prems(2) assms(1) show ?case
    by (auto simp: ys sorted_wrt_append dest: sympD)
qed simp

definition region_bytes :: "Region \<Rightarrow> nat set" where
  "region_bytes r = {unat (Offset r) ..< unat (Offset r) + unat (Size r)}"

definition region_ok :: "Region \<Rightarrow> bool" where
  "region_ok r \<longleftrightarrow> 0 < unat (Size r) \<and> unat (Offset r) + unat (Size r) \<le> 4294967296"

lemma region_step:
  "validate_from p (r # rs) = None \<longleftrightarrow>
     region_ok r \<and> p \<le> Offset r \<and> validate_from (Offset r + Size r) rs = None"
proof -
  have size: "Size r = 0 \<longleftrightarrow> \<not> 0 < unat (Size r)" by (metis unat_eq_0 neq0_conv)
  show ?thesis
  proof (cases "unat (Offset r) + unat (Size r) < 18446744073709551616")
    case True
    then have "unat (Offset r + Size r) = unat (Offset r) + unat (Size r)" by (rule unat_add_u64)
    then show ?thesis
      using size by (auto simp: region_ok_def Let_def word_less_nat_alt word_le_nat_alt StorageDiskBytes_def)
  next
    case False
    then have "unat (Offset r + Size r) < unat (Offset r)"
      using unat_add_u64_wrap [of "Offset r" "Size r"] unat_u64_less [of "Size r"]
        unat_u64_less [of "Offset r"] by linarith
    with False show ?thesis by (auto simp: region_ok_def Let_def word_less_nat_alt)
  qed
qed

lemma validate_from_sorted:
  "validate_from p rs = None \<longleftrightarrow> (\<forall>r \<in> set rs. region_ok r \<and> unat p \<le> unat (Offset r)) \<and>
     sorted_wrt (\<lambda>a b. unat (Offset a) + unat (Size a) \<le> unat (Offset b)) rs"
proof (induction rs arbitrary: p)
  case (Cons r rs)
  have add: "region_ok r \<Longrightarrow> unat (Offset r + Size r) = unat (Offset r) + unat (Size r)"
    by (simp add: region_ok_def unat_add_u64)
  show ?case
    unfolding region_step Cons.IH word_le_nat_alt
    using add by (auto simp: region_ok_def)
qed simp

text \<open>
  C11. \<open>ValidateRegions\<close> accepts a region map exactly when every region is nonempty and ends within
  the 4 GiB disk, computed without wrap-around, and no two entries of the map share a byte.
\<close>

theorem ValidateRegions_iff:
  "ValidateRegions regions = None \<longleftrightarrow>
     (\<forall>r \<in> set regions. 0 < unat (Size r) \<and> unat (Offset r) + unat (Size r) \<le> 4294967296) \<and>
     sorted_wrt (\<lambda>a b. region_bytes a \<inter> region_bytes b = {}) regions"
proof -
  let ?R = "\<lambda>a b. region_bytes a \<inter> region_bytes b = {}" and ?xs = "sort_key Offset regions"
  have sym: "symp ?R" by (auto simp: symp_def)
  have "sorted_wrt ?R regions \<longleftrightarrow> sorted_wrt ?R ?xs"
    using sorted_wrt_permute [OF sym, of regions ?xs] sorted_wrt_permute [OF sym, of ?xs regions] by auto
  moreover have "sorted_wrt ?R ?xs \<longleftrightarrow>
      sorted_wrt (\<lambda>a b. unat (Offset a) + unat (Size a) \<le> unat (Offset b)) ?xs"
    if ok: "\<forall>r \<in> set regions. region_ok r"
  proof -
    have "?R (?xs ! i) (?xs ! j) \<longleftrightarrow>
        unat (Offset (?xs ! i)) + unat (Size (?xs ! i)) \<le> unat (Offset (?xs ! j))"
      if ij: "i < j" "j < length ?xs" for i j
    proof -
      have mem: "?xs ! i \<in> set regions" "?xs ! j \<in> set regions" using ij by (metis less_trans nth_mem set_sort)+
      have "Offset (?xs ! i) \<le> Offset (?xs ! j)"
        using sorted_nth_mono [OF sorted_sort_key, of i j Offset regions] ij by simp
      with ok mem show ?thesis by (fastforce simp: region_bytes_def region_ok_def word_le_nat_alt)
    qed
    then show ?thesis by (auto simp: sorted_wrt_iff_nth_less)
  qed
  ultimately show ?thesis
    unfolding ValidateRegions_def validate_from_sorted by (auto simp: region_ok_def)
qed

text \<open>The map the compiler writes is valid, and its regions follow each other without a gap.\<close>

lemma DefaultRegions_valid: "ValidateRegions DefaultRegions = None"
  by code_simp

theorem ValidateRegions_iff_witness:
  "sorted_wrt (\<lambda>a b. region_bytes a \<inter> region_bytes b = {}) DefaultRegions"
  using ValidateRegions_iff [of DefaultRegions] DefaultRegions_valid by blast

lemma DefaultRegions_contiguous:
  "map (\<lambda>r. Offset r + Size r) (butlast DefaultRegions) = map Offset (tl DefaultRegions)"
  by code_simp

section \<open>Batch packing fills whole logical blocks\<close>

lemma FinishBatch_total:
  assumes a: "0 < a" "a * 512 < 2 ^ 64" and v: "v + a \<le> 2 ^ 64" "v < 2 ^ 64"
  shows "unat (TotalSlotPositions (FinishBatch (of_nat (a * 512)) (of_nat v))) =
    (if v mod a = 0 then v else v + (a - v mod a))"
proof -
  have per: "(of_nat (a * 512) :: u64) div of_nat EventSlotSize = of_nat a"
    using a by (simp add: word_unat_eq_iff unat_div EventSlotSize_def unsigned_of_nat
        take_bit_nat_eq_self del: of_nat_mult)
  have ua: "unat (of_nat a :: u64) = a" and uv: "unat (of_nat v :: u64) = v"
    using a v by (simp_all add: unsigned_of_nat take_bit_nat_eq_self)
  have um: "unat ((of_nat v :: u64) mod of_nat a) = v mod a" by (simp add: unat_mod ua uv)
  have pos: "(0 :: u64) < of_nat a" using a ua by (simp add: word_less_nat_alt)
  have m: "v mod a < a" using a by simp
  have "unat ((of_nat v :: u64) + (of_nat a - of_nat v mod of_nat a)) = v + (a - v mod a)" if "v mod a \<noteq> 0"
  proof -
    have "(of_nat v :: u64) mod of_nat a \<le> of_nat a" using m by (simp add: word_le_nat_alt um ua)
    then have "unat ((of_nat a :: u64) - of_nat v mod of_nat a) = a - v mod a"
      by (simp add: unat_sub ua um)
    with v(1) that m show ?thesis by (subst unat_add_u64) (simp_all add: uv)
  qed
  moreover have "(of_nat v :: u64) mod of_nat a = 0 \<longleftrightarrow> v mod a = 0"
    using um by (metis unat_eq_0)
  ultimately show ?thesis
    unfolding FinishBatch_def Let_def per using pos by (simp add: uv)
qed

text \<open>The batch is the semantic slots rounded up to the slots of a logical block.\<close>

interpretation batch: aligner
  "\<lambda>v a. unat (TotalSlotPositions (FinishBatch (of_nat (a * 512)) (of_nat v)))"
  "\<lambda>v a. 0 < a \<and> a * 512 < 2 ^ 64 \<and> v + a \<le> 2 ^ 64 \<and> v < 2 ^ 64"
proof unfold_locales
  fix v a :: nat
  assume ok: "0 < a \<and> a * 512 < 2 ^ 64 \<and> v + a \<le> 2 ^ 64 \<and> v < 2 ^ 64"
  let ?up = "unat (TotalSlotPositions (FinishBatch (of_nat (a * 512)) (of_nat v)))"
  have eq: "?up = (if v mod a = 0 then v else v + (a - v mod a))"
    using ok by (intro FinishBatch_total) auto
  have less: "v mod a < a" using ok by simp
  show "v \<le> ?up" unfolding eq by simp
  show "?up < v + a" using ok less unfolding eq by simp
  have "v + (a - v mod a) = a * (v div a + 1)" 
    using less mult_div_mod_eq [of a v] by (simp only: distrib_left)
  then show "a dvd ?up" unfolding eq by auto
qed

end
