(* ===== verification/Storage_Views.thy ===== *)
theory Storage_Views
  imports Storage_Extents Storage_Writer Storage_Regions "HOL-Library.Sublist"
begin

text \<open>
  The read side of \<open>compiler/storagefmt/format.go\<close>: blob relocation, the directory projection, the
  orphan collector, packed segments with their sparse index, and the stream directory. The lemmas
  show that a packed segment loses nothing but padding, that projections of different files do not
  interfere, and that competing relocations are serialised by the version check.
\<close>

section \<open>Blob references\<close>

record BlobRef =
  BlobID :: u64
  br_StartLBA :: u64
  br_BlockCount :: u64

definition BlobRefForExtent :: "u64 \<Rightarrow> u64 \<Rightarrow> BlobRef" where
  "BlobRefForExtent startLBA blockCount =
     \<lparr>BlobID = 0, br_StartLBA = startLBA, br_BlockCount = blockCount\<rparr>"

record BlobTruth =
  Version :: u64
  Ref :: BlobRef

record RelocateBlobProposal =
  rp_BlobID :: u64
  OldRef :: BlobRef
  NewRef :: BlobRef
  ObservedVersion :: u64

definition AcceptRelocate :: "BlobTruth \<Rightarrow> RelocateBlobProposal \<Rightarrow> bool \<times> BlobTruth" where
  "AcceptRelocate t proposal =
     (if rp_BlobID proposal \<noteq> BlobID (Ref t) then (False, t)
      else if OldRef proposal \<noteq> Ref t then (False, t)
      else if ObservedVersion proposal \<noteq> Version t then (False, t)
      else (True, t\<lparr>Ref := NewRef proposal, Version := Version t + 1\<rparr>))"

text \<open>The pointer argument of \<open>AcceptRelocateBlob\<close> may be nil.\<close>

definition AcceptRelocateBlob ::
  "WriterPolicy \<Rightarrow> BlobTruth option \<Rightarrow> RelocateBlobProposal \<Rightarrow> EnqueueResult \<times> BlobTruth option" where
  "AcceptRelocateBlob w truth proposal =
     (let reject = zero_enqueue\<lparr>OpenBatchSlots := wp_OpenBatchSlots w, RejectCode := ''SEM0118''\<rparr> in
      case truth of
        None \<Rightarrow> (reject, None)
      | Some t \<Rightarrow>
          (case AcceptRelocate t proposal of
             (False, t') \<Rightarrow> (reject, Some t')
           | (True, t') \<Rightarrow>
               (zero_enqueue\<lparr>Accepted := True, OpenBatchSlots := wp_OpenBatchSlots w\<rparr>, Some t')))"

section \<open>The directory projection\<close>

record CommittedGroup =
  cg_LastEventID :: u64

record Event =
  TypeID :: u32
  FileID :: u64
  ParentID :: u64
  NameRef :: u64
  ev_BlobRef :: BlobRef
  ev_StreamSequence :: u64

record FileState =
  CurrentBlobRef :: BlobRef
  fs_NameRef :: u64
  fs_ParentID :: u64
  Deleted :: bool
  fs_StreamSequence :: u64

definition zero_file :: FileState where
  "zero_file = \<lparr>CurrentBlobRef = \<lparr>BlobID = 0, br_StartLBA = 0, br_BlockCount = 0\<rparr>, fs_NameRef = 0,
     fs_ParentID = 0, Deleted = False, fs_StreamSequence = 0\<rparr>"

record DirectoryProjection =
  Files :: "u64 \<rightharpoonup> FileState"
  Watermark :: u64

text \<open>One round of the event loop: reading an absent key gives the zero state.\<close>

definition apply_event :: "Event \<Rightarrow> (u64 \<rightharpoonup> FileState) \<Rightarrow> (u64 \<rightharpoonup> FileState)" where
  "apply_event event files =
     (let state = (case files (FileID event) of None \<Rightarrow> zero_file | Some s \<Rightarrow> s) in
      if TypeID event = 1001 then
        files(FileID event \<mapsto> state\<lparr>fs_ParentID := ParentID event, fs_NameRef := NameRef event,
          CurrentBlobRef := ev_BlobRef event, Deleted := False,
          fs_StreamSequence := ev_StreamSequence event\<rparr>)
      else if TypeID event = 1002 then
        files(FileID event \<mapsto> state\<lparr>fs_ParentID := ParentID event, fs_NameRef := NameRef event,
          fs_StreamSequence := ev_StreamSequence event\<rparr>)
      else if TypeID event = 1003 then
        files(FileID event \<mapsto> state\<lparr>CurrentBlobRef := ev_BlobRef event,
          fs_StreamSequence := ev_StreamSequence event\<rparr>)
      else if TypeID event = 1004 then
        files(FileID event \<mapsto> state\<lparr>Deleted := True, fs_StreamSequence := ev_StreamSequence event\<rparr>)
      else files)"

definition ApplyGroup :: "DirectoryProjection \<Rightarrow> CommittedGroup \<Rightarrow> Event list \<Rightarrow> DirectoryProjection" where
  "ApplyGroup p grp events =
     p\<lparr>Files := fold apply_event events (Files p), Watermark := cg_LastEventID grp\<rparr>"

section \<open>The orphan collector\<close>

record OrphanCollector =
  allocated :: "Extent list"
  acknowledgedRefs :: "Extent set"

definition ref_extent :: "BlobRef \<Rightarrow> Extent" where
  "ref_extent ref = \<lparr>StartLBA = br_StartLBA ref, BlockCount = br_BlockCount ref\<rparr>"

definition NewOrphanCollector :: "Extent list \<Rightarrow> OrphanCollector" where
  "NewOrphanCollector es = \<lparr>allocated = es, acknowledgedRefs = {}\<rparr>"

definition MarkAcknowledged :: "BlobRef \<Rightarrow> OrphanCollector \<Rightarrow> OrphanCollector" where
  "MarkAcknowledged ref c = c\<lparr>acknowledgedRefs := insert (ref_extent ref) (acknowledgedRefs c)\<rparr>"

definition MarkUnacknowledged :: "BlobRef \<Rightarrow> OrphanCollector \<Rightarrow> OrphanCollector" where
  "MarkUnacknowledged ref c = c\<lparr>acknowledgedRefs := acknowledgedRefs c - {ref_extent ref}\<rparr>"

definition Reclaimable :: "OrphanCollector \<Rightarrow> Extent list" where
  "Reclaimable c = filter (\<lambda>extent. extent \<notin> acknowledgedRefs c) (allocated c)"

section \<open>Segments\<close>

record EventSegment =
  es_FirstEventID :: u64
  es_LastEventID :: u64
  State :: byte
  ZoneStartLBA :: u64
  ZoneBlockCount :: u64

definition zero_segment :: EventSegment where
  "zero_segment = \<lparr>es_FirstEventID = 0, es_LastEventID = 0, State = 0, ZoneStartLBA = 0, ZoneBlockCount = 0\<rparr>"

fun FindSegmentForEventID :: "EventSegment list \<Rightarrow> u64 \<Rightarrow> EventSegment \<times> bool" where
  "FindSegmentForEventID [] eventID = (zero_segment, False)"
| "FindSegmentForEventID (segment # segments) eventID =
     (if eventID \<ge> es_FirstEventID segment \<and> eventID \<le> es_LastEventID segment then (segment, True)
      else FindSegmentForEventID segments eventID)"

record SegmentIndexEntry =
  EventIDDelta :: u64
  ByteOffset :: u64

record PackedSegment =
  BaseEventID :: u64
  Bytes :: bytes
  Index :: "SegmentIndexEntry list"

text \<open>One round of the packing loop.\<close>

definition pack_slot :: "u64 \<Rightarrow> u64 \<Rightarrow> PackedSegment \<Rightarrow> Slot \<Rightarrow> PackedSegment" where
  "pack_slot baseEventID stride packed slot =
     (let payloadLength =
            (if unat (PayloadLength (Header slot)) > EventPayloadBytes then EventPayloadBytes
             else unat (PayloadLength (Header slot)));
          delta = EventID (Header slot) - baseEventID;
          packed' =
            (if delta mod stride = 0
             then packed\<lparr>Index := Index packed @
                    [\<lparr>EventIDDelta = delta, ByteOffset = of_nat (length (Bytes packed))\<rparr>]\<rparr>
             else packed);
          raw = slotBytes slot (Checksum32 (Header slot))
      in packed'\<lparr>Bytes := Bytes packed' @ take (EventHeaderSize + payloadLength) raw\<rparr>)"

definition PackSlots :: "Slot list \<Rightarrow> u64 \<Rightarrow> PackedSegment" where
  "PackSlots slots stride =
     (case slots of
        [] \<Rightarrow> \<lparr>BaseEventID = 0, Bytes = [], Index = []\<rparr>
      | s # _ \<Rightarrow>
          (let baseEventID = EventID (Header s) in
           foldl (pack_slot baseEventID (if stride = 0 then 1 else stride))
             \<lparr>BaseEventID = baseEventID, Bytes = [], Index = []\<rparr> slots))"

section \<open>The stream directory\<close>

record StreamDirectory =
  NextStreamID :: u64

definition EntryOffset :: "StreamDirectory \<Rightarrow> u64 \<Rightarrow> u64" where
  "EntryOffset d streamID = streamID * 32"

definition stream_Exists :: "StreamDirectory \<Rightarrow> u64 \<Rightarrow> bool" where
  "stream_Exists d streamID \<longleftrightarrow> streamID < NextStreamID d"

definition AllocateStreamID :: "StreamDirectory \<Rightarrow> u64 \<times> StreamDirectory" where
  "AllocateStreamID d = (NextStreamID d, d\<lparr>NextStreamID := NextStreamID d + 1\<rparr>)"

record StreamDirectoryEntry =
  LatestSequence :: u64
  LatestEventID :: u64
  LatestCheckpointRef :: u64
  de_Flags :: u64

definition ExpectsSequence :: "StreamDirectoryEntry \<Rightarrow> u64 \<Rightarrow> bool" where
  "ExpectsSequence e sequence \<longleftrightarrow> sequence = LatestSequence e + 1"

record StreamCheckpoint =
  CurrentLayoutID :: u64
  StateLayoutID :: u64

definition checkpoint_Applies :: "StreamCheckpoint \<Rightarrow> bool" where
  "checkpoint_Applies c \<longleftrightarrow> StateLayoutID c = CurrentLayoutID c"

record StreamDirectoryCache =
  Hits :: u64
  Misses :: u64

definition RecordHit :: "StreamDirectoryCache \<Rightarrow> StreamDirectoryCache" where
  "RecordHit c = c\<lparr>Hits := Hits c + 1\<rparr>"

definition RecordMiss :: "StreamDirectoryCache \<Rightarrow> StreamDirectoryCache" where
  "RecordMiss c = c\<lparr>Misses := Misses c + 1\<rparr>"

definition HitRateX1000 :: "StreamDirectoryCache \<Rightarrow> u64" where
  "HitRateX1000 c =
     (let total = Hits c + Misses c in if total = 0 then 0 else Hits c * 1000 div total)"

section \<open>Packed segments lose only padding\<close>

text \<open>Reading a packed segment back: each header says how much payload follows it.\<close>

definition stored_payload :: "Slot \<Rightarrow> nat" where
  "stored_payload s = min 448 (unat (PayloadLength (Header s)))"

function unpack_slots :: "bytes \<Rightarrow> Slot option list" where
  "unpack_slots bs =
     (let n = min 448 (unat (le_word (read_at 40 4 bs) :: u32)) in
      if length bs < 64 + n then []
      else parse_slot (take (64 + n) bs @ replicate (448 - n) 0) # unpack_slots (drop (64 + n) bs))"
  by pat_completeness auto
termination by (relation "measure length") (auto simp: Let_def)

declare unpack_slots.simps [simp del]

text \<open>A slot with the payload beyond its stated length cleared.\<close>

definition strip_slot :: "Slot \<Rightarrow> Slot" where
  "strip_slot s = s\<lparr>Payload := take (stored_payload s) (Payload s) @ replicate (448 - stored_payload s) 0\<rparr>"

definition slot_image :: "Slot \<Rightarrow> bytes" where
  "slot_image s = take (64 + stored_payload s) (slotBytes s (Checksum32 (Header s)))"

fun index_from :: "u64 \<Rightarrow> u64 \<Rightarrow> nat \<Rightarrow> Slot list \<Rightarrow> SegmentIndexEntry list" where
  "index_from b stride n [] = []"
| "index_from b stride n (s # ss) =
     (if (EventID (Header s) - b) mod stride = 0
      then [\<lparr>EventIDDelta = EventID (Header s) - b, ByteOffset = of_nat n\<rparr>] else []) @
     index_from b stride (n + length (slot_image s)) ss"

lemma pack_slots_fold:
  "foldl (pack_slot b stride) P ss =
     P\<lparr>Bytes := Bytes P @ concat (map slot_image ss), Index := Index P @ index_from b stride (length (Bytes P)) ss\<rparr>"
proof (induction ss arbitrary: P)
  case (Cons s ss)
  have "(if unat (PayloadLength (Header s)) > EventPayloadBytes then EventPayloadBytes
      else unat (PayloadLength (Header s))) = stored_payload s"
    by (simp add: stored_payload_def EventPayloadBytes_def)
  then have "pack_slot b stride P s = P\<lparr>Bytes := Bytes P @ slot_image s,
      Index := Index P @ (if (EventID (Header s) - b) mod stride = 0
        then [\<lparr>EventIDDelta = EventID (Header s) - b, ByteOffset = of_nat (length (Bytes P))\<rparr>] else [])\<rparr>"
    unfolding pack_slot_def by (simp add: Let_def slot_image_def EventHeaderSize_def)
  then show ?case by (simp add: Cons.IH)
qed simp

lemma strip_slot_simps [simp]:
  "Header (strip_slot s) = Header s" "wf_slot s \<Longrightarrow> wf_slot (strip_slot s)"
  by (simp_all add: strip_slot_def wf_slot_def EventPayloadBytes_def stored_payload_def)

lemma unpack_image:
  assumes "wf_slot s"
  shows "unpack_slots (slot_image s @ rest) = Some (strip_slot s) # unpack_slots rest"
    and "length (slot_image s) = 64 + stored_payload s"
proof -
  let ?n = "stored_payload s" and ?c = "Checksum32 (Header s)"
  have p: "length (Payload s) = 448" using assms by (simp add: wf_slot_def EventPayloadBytes_def)
  have n: "?n \<le> 448" by (simp add: stored_payload_def)
  have len: "length (slotBytes s ?c) = 512" using length_slotBytes [OF assms] by (simp add: EventSlotSize_def)
  then show image: "length (slot_image s) = 64 + ?n" using n by (simp add: slot_image_def)
  have "read_at 40 4 (slot_image s @ rest) = PutUint32 (PayloadLength (Header s))"
    using n unfolding slot_image_def slotBytes_concat [OF assms] Let_def
    by (simp add: read_at_def take_append drop_append)
  then have field: "min 448 (unat (le_word (read_at 40 4 (slot_image s @ rest)) :: u32)) = ?n"
    by (simp add: stored_payload_def PutUint32_def le_word_le_bytes)
  have "slot_image s @ replicate (448 - ?n) 0 = slotBytes (strip_slot s) ?c"
    unfolding slot_image_def slotBytes_concat [OF assms] slotBytes_concat [OF strip_slot_simps(2) [OF assms]] Let_def
    using n p by (simp add: strip_slot_def take_append)
  moreover have "parse_slot (slotBytes (strip_slot s) ?c) = Some (strip_slot s)"
    using assms by (simp add: parse_slotBytes)
  ultimately show "unpack_slots (slot_image s @ rest) = Some (strip_slot s) # unpack_slots rest"
    by (subst unpack_slots.simps) (simp add: field image Let_def)
qed

lemma unpack_images:
  "\<forall>s \<in> set ss. wf_slot s \<Longrightarrow> unpack_slots (concat (map slot_image ss)) = map (Some \<circ> strip_slot) ss"
proof (induction ss)
  case Nil
  then show ?case by (subst unpack_slots.simps) (simp add: Let_def)
next
  case (Cons s ss)
  then show ?case by (simp add: unpack_image)
qed

lemma index_deltas:
  "map EventIDDelta (index_from b stride n ss) =
     filter (\<lambda>d. d mod stride = 0) (map (\<lambda>s. EventID (Header s) - b) ss)"
  by (induction ss arbitrary: n) simp_all

lemma index_entry:
  "e \<in> set (index_from b stride n ss) \<Longrightarrow>
   \<exists>i < length ss. EventIDDelta e = EventID (Header (ss ! i)) - b \<and>
     ByteOffset e = of_nat (n + length (concat (map slot_image (take i ss))))"
proof (induction ss arbitrary: n)
  case (Cons s ss)
  show ?case
  proof (cases "e \<in> set (index_from b stride (n + length (slot_image s)) ss)")
    case True
    from Cons.IH [OF this] obtain i where "i < length ss" "EventIDDelta e = EventID (Header (ss ! i)) - b"
        "ByteOffset e = of_nat (n + length (slot_image s) + length (concat (map slot_image (take i ss))))"
      by blast
    then show ?thesis by (intro exI [of _ "Suc i"]) (simp add: add.assoc)
  next
    case False
    with Cons.prems show ?thesis by (intro exI [of _ 0]) (auto split: if_splits)
  qed
qed simp

lemma images_length: "\<forall>s \<in> set ss. wf_slot s \<Longrightarrow> length (concat (map slot_image ss)) \<le> 512 * length ss"
  by (induction ss) (auto simp: unpack_image(2) stored_payload_def)

lemma PackSlots_eq:
  assumes "slots \<noteq> []"
  shows "PackSlots slots stride = (let b = EventID (Header (hd slots)) in
    \<lparr>BaseEventID = b, Bytes = concat (map slot_image slots),
     Index = index_from b (if stride = 0 then 1 else stride) 0 slots\<rparr>)"
  using assms by (cases slots) (simp_all only: PackSlots_def pack_slots_fold Let_def list.case list.sel, simp_all)

text \<open>
  C12. Packing a run of slots into a segment loses nothing but the payload beyond each slot's stated
  length: reading the packed bytes back gives every slot in order. The index lists exactly the slots
  whose distance from the base id is a multiple of the stride, and reading from the byte offset of an
  entry gives the log from that slot on.
\<close>

theorem PackSlots_unpack:
  assumes "\<forall>s \<in> set slots. wf_slot s" and "512 * length slots < 2 ^ 64" and "slots \<noteq> []"
  shows "let P = PackSlots slots stride in
    unpack_slots (Bytes P) = map (Some \<circ> strip_slot) slots \<and>
    map EventIDDelta (Index P) = filter (\<lambda>d. d mod (if stride = 0 then 1 else stride) = 0)
      (map (\<lambda>s. EventID (Header s) - BaseEventID P) slots) \<and>
    (\<forall>e \<in> set (Index P). \<exists>i < length slots. EventID (Header (slots ! i)) = BaseEventID P + EventIDDelta e \<and>
       unpack_slots (drop (unat (ByteOffset e)) (Bytes P)) = map (Some \<circ> strip_slot) (drop i slots))"
proof -
  let ?b = "EventID (Header (hd slots))" and ?st = "if stride = 0 then 1 else stride"
  have entry: "\<exists>i < length slots. EventID (Header (slots ! i)) = ?b + EventIDDelta e \<and>
      unpack_slots (drop (unat (ByteOffset e)) (concat (map slot_image slots))) =
        map (Some \<circ> strip_slot) (drop i slots)"
    if "e \<in> set (index_from ?b ?st 0 slots)" for e
  proof -
    obtain i where i: "i < length slots" "EventIDDelta e = EventID (Header (slots ! i)) - ?b"
        "ByteOffset e = of_nat (length (concat (map slot_image (take i slots))))"
      using index_entry [OF \<open>e \<in> _\<close>] by auto
    have "length (concat (map slot_image (take i slots))) \<le> 512 * length (take i slots)"
      using assms(1) by (intro images_length) (auto dest: in_set_takeD)
    also have "\<dots> < 2 ^ 64" using assms(2) i(1) by simp
    finally have off: "unat (ByteOffset e) = length (concat (map slot_image (take i slots)))"
      using i(3) by (simp add: unsigned_of_nat take_bit_nat_eq_self)
    have "concat (map slot_image slots) =
        concat (map slot_image (take i slots)) @ concat (map slot_image (drop i slots))"
      by (metis append_take_drop_id concat_append map_append)
    then have "drop (unat (ByteOffset e)) (concat (map slot_image slots)) = concat (map slot_image (drop i slots))"
      by (simp add: off)
    moreover have "\<forall>s \<in> set (drop i slots). wf_slot s" using assms(1) by (auto dest: in_set_dropD)
    ultimately show ?thesis using i unpack_images by auto
  qed
  show ?thesis
    using entry unpack_images [OF assms(1)] by (simp add: PackSlots_eq [OF assms(3)] index_deltas Let_def)
qed

theorem PackSlots_unpack_witness:
  "unpack_slots (Bytes (PackSlots [ValidSlotForTest 7, ValidSlotForTest 8] 2)) =
     [Some (strip_slot (ValidSlotForTest 7)), Some (strip_slot (ValidSlotForTest 8))]"
proof -
  have "\<forall>s \<in> set [ValidSlotForTest 7, ValidSlotForTest 8]. wf_slot s"
    by (simp add: wf_slot_def ValidSlotForTest_def)
  from PackSlots_unpack [OF this, of 2] show ?thesis by (simp add: Let_def)
qed

section \<open>The directory projection\<close>

definition last_such :: "(Event \<Rightarrow> bool) \<Rightarrow> Event list \<Rightarrow> Event option" where
  "last_such P es = (if filter P es = [] then None else Some (last (filter P es)))"

lemma last_such_snoc [simp]:
  "last_such P [] = None" "last_such P (es @ [e]) = (if P e then Some e else last_such P es)"
  by (simp_all add: last_such_def)

text \<open>The value of a field: that of the last event of the file that writes it, else the old one.\<close>

definition field_of :: "u64 \<Rightarrow> u32 set \<Rightarrow> (Event \<Rightarrow> 'a) \<Rightarrow> 'a \<Rightarrow> Event list \<Rightarrow> 'a" where
  "field_of f types get old es =
     (case last_such (\<lambda>e. FileID e = f \<and> TypeID e \<in> types) es of None \<Rightarrow> old | Some e \<Rightarrow> get e)"

lemma field_of_snoc [simp]:
  "field_of f types get old [] = old"
  "field_of f types get old (es @ [e]) =
     (if FileID e = f \<and> TypeID e \<in> types then get e else field_of f types get old es)"
  by (simp_all add: field_of_def)

lemma field_of_unwritten:
  "\<not> (\<exists>e \<in> set es. FileID e = f \<and> TypeID e \<in> types) \<Longrightarrow> field_of f types get old es = old"
  by (auto simp: field_of_def last_such_def filter_empty_conv)

definition projected :: "u64 \<Rightarrow> FileState \<Rightarrow> Event list \<Rightarrow> FileState" where
  "projected f old es =
     \<lparr>CurrentBlobRef = field_of f {1001, 1003} ev_BlobRef (CurrentBlobRef old) es,
      fs_NameRef = field_of f {1001, 1002} NameRef (fs_NameRef old) es,
      fs_ParentID = field_of f {1001, 1002} ParentID (fs_ParentID old) es,
      Deleted = field_of f {1001, 1004} (\<lambda>e. TypeID e = 1004) (Deleted old) es,
      fs_StreamSequence = field_of f {1001, 1002, 1003, 1004} ev_StreamSequence (fs_StreamSequence old) es\<rparr>"

lemma apply_event_other:
  "\<not> (FileID e = f \<and> TypeID e \<in> {1001, 1002, 1003, 1004}) \<Longrightarrow> apply_event e files f = files f"
  by (auto simp: apply_event_def Let_def)

lemma apply_event_same:
  assumes "FileID e = f" "TypeID e \<in> {1001, 1002, 1003, 1004}"
    and "(case files f of None \<Rightarrow> zero_file | Some s \<Rightarrow> s) = projected f old es"
  shows "apply_event e files f = Some (projected f old (es @ [e]))"
  using assms by (auto simp: apply_event_def Let_def) (simp_all add: projected_def)

text \<open>
  C13. The state of a file after a committed group is, field by field, what the last event of that
  file in the group that writes the field says, and the earlier state where no event writes it;
  events of other files and of unknown types never touch it, and a file appears only when a known
  event names it. The watermark moves to the last event of the group.
\<close>

theorem ApplyGroup_last_writer:
  "Watermark (ApplyGroup p grp events) = cg_LastEventID grp \<and>
   Files (ApplyGroup p grp events) f =
     (if \<exists>e \<in> set events. FileID e = f \<and> TypeID e \<in> {1001, 1002, 1003, 1004}
      then Some (projected f (case Files p f of None \<Rightarrow> zero_file | Some s \<Rightarrow> s) events)
      else Files p f)"
proof -
  let ?known = "{1001, 1002, 1003, 1004} :: u32 set"
  let ?old = "case Files p f of None \<Rightarrow> zero_file | Some s \<Rightarrow> s"
  have "fold apply_event events (Files p) f =
      (if \<exists>e \<in> set events. FileID e = f \<and> TypeID e \<in> ?known then Some (projected f ?old events) else Files p f)"
  proof (induction events rule: rev_induct)
    case (snoc e es)
    have state: "(case fold apply_event es (Files p) f of None \<Rightarrow> zero_file | Some s \<Rightarrow> s) = projected f ?old es"
    proof (cases "\<exists>e \<in> set es. FileID e = f \<and> TypeID e \<in> ?known")
      case False
      then have "projected f ?old es = ?old" by (simp add: projected_def field_of_unwritten)
      with False show ?thesis by (simp add: snoc)
    qed (simp add: snoc)
    show ?case
    proof (cases "FileID e = f \<and> TypeID e \<in> ?known")
      case True
      with apply_event_same [where files = "fold apply_event es (Files p)", OF _ _ state]
      show ?thesis by auto
    next
      case False
      then have "fold apply_event (es @ [e]) (Files p) f = fold apply_event es (Files p) f"
        by (simp add: apply_event_other)
      moreover have "projected f ?old (es @ [e]) = projected f ?old es"
        using False by (auto simp: projected_def)
      ultimately show ?thesis using False snoc by auto
    qed
  qed simp
  then show ?thesis by (simp add: ApplyGroup_def)
qed

text \<open>An empty directory in which file 5 is created, renamed and deleted while file 6 is created.\<close>

theorem ApplyGroup_last_writer_witness:
  "let b = BlobRefForExtent 40 2; p = \<lparr>Files = Map.empty, Watermark = 0\<rparr>;
       ev = (\<lambda>t f n q. \<lparr>TypeID = t, FileID = f, ParentID = 1, NameRef = n, ev_BlobRef = b, ev_StreamSequence = q\<rparr>)
   in Files (ApplyGroup p \<lparr>cg_LastEventID = 9\<rparr> [ev 1001 5 70 1, ev 1001 6 80 1, ev 1002 5 71 2, ev 1004 5 0 3]) 5 =
     Some \<lparr>CurrentBlobRef = b, fs_NameRef = 71, fs_ParentID = 1, Deleted = True, fs_StreamSequence = 3\<rparr>"
  unfolding Let_def using ApplyGroup_last_writer
  by (simp add: projected_def field_of_def last_such_def zero_file_def)

section \<open>Competing relocations\<close>

fun relocate_all :: "BlobTruth \<Rightarrow> RelocateBlobProposal list \<Rightarrow> BlobTruth \<times> RelocateBlobProposal list" where
  "relocate_all t [] = (t, [])"
| "relocate_all t (q # qs) =
     (case AcceptRelocate t q of
        (True, t') \<Rightarrow> (let (t'', acc) = relocate_all t' qs in (t'', q # acc))
      | (False, t') \<Rightarrow> relocate_all t' qs)"

text \<open>
  C14. Whatever proposals arrive, the accepted ones form a chain: each names as its old reference the
  one the previous accepted proposal installed (the first the original one) and observed exactly the
  version it found, so of two proposals that observed the same version at most one is taken until
  the 64-bit version wraps. The blob ends at the last accepted reference, with one version per step.
\<close>

theorem relocations_serialised:
  "case relocate_all t qs of (t', acc) \<Rightarrow>
     map OldRef acc = butlast (Ref t # map NewRef acc) \<and>
     Ref t' = last (Ref t # map NewRef acc) \<and>
     map ObservedVersion acc = map (\<lambda>i. Version t + of_nat i) [0..<length acc] \<and>
     Version t' = Version t + of_nat (length acc) \<and> subseq acc qs"
proof (induction qs arbitrary: t)
  case (Cons q qs)
  obtain b t1 where rel: "AcceptRelocate t q = (b, t1)" by fastforce
  obtain t2 acc where rest: "relocate_all t1 qs = (t2, acc)" by fastforce
  show ?case
  proof (cases b)
    case True
    with rel have "OldRef q = Ref t" "ObservedVersion q = Version t"
      "t1 = t\<lparr>Ref := NewRef q, Version := Version t + 1\<rparr>"
      by (auto simp: AcceptRelocate_def split: if_splits)
    moreover have "map (\<lambda>i. v + of_nat i) [0..<Suc n] = v # map (\<lambda>i. v + 1 + of_nat i) [0..<n]"
      for v :: u64 and n
    proof -
      have "[0..<Suc n] = 0 # map Suc [0..<n]" by (simp add: upt_conv_Cons map_Suc_upt del: upt_Suc)
      then show ?thesis by (simp add: add.assoc del: upt_Suc)
    qed
    ultimately show ?thesis
      using Cons.IH [of t1] rel rest True by (simp add: add.assoc)
  next
    case False
    with rel have "t1 = t" by (auto simp: AcceptRelocate_def split: if_splits)
    with Cons.IH [of t1] rel rest False show ?thesis by auto
  qed
qed simp

section \<open>Orphans\<close>

datatype mark = Ack BlobRef | Unack BlobRef

fun mark_extent :: "mark \<Rightarrow> Extent" where
  "mark_extent (Ack r) = ref_extent r"
| "mark_extent (Unack r) = ref_extent r"

fun apply_mark :: "mark \<Rightarrow> OrphanCollector \<Rightarrow> OrphanCollector" where
  "apply_mark (Ack r) c = MarkAcknowledged r c"
| "apply_mark (Unack r) c = MarkUnacknowledged r c"

text \<open>An extent is reclaimable unless its last mark acknowledges it.\<close>

lemma Reclaimable_last_mark:
  "Reclaimable (fold apply_mark ms (NewOrphanCollector es)) =
     filter (\<lambda>e. \<not> (\<exists>r us vs. ms = us @ Ack r # vs \<and> ref_extent r = e \<and> e \<notin> mark_extent ` set vs)) es"
proof -
  have "allocated (fold apply_mark ms (NewOrphanCollector es)) = es \<and>
      (e \<in> acknowledgedRefs (fold apply_mark ms (NewOrphanCollector es)) \<longleftrightarrow>
        (\<exists>r us vs. ms = us @ Ack r # vs \<and> ref_extent r = e \<and> e \<notin> mark_extent ` set vs))" for e
  proof (induction ms rule: rev_induct)
    case (snoc m ms)
    have split: "(\<exists>r us vs. ms @ [m] = us @ Ack r # vs \<and> ref_extent r = e \<and> e \<notin> mark_extent ` set vs) \<longleftrightarrow>
        (\<exists>r. m = Ack r \<and> ref_extent r = e) \<or>
        mark_extent m \<noteq> e \<and> (\<exists>r us vs. ms = us @ Ack r # vs \<and> ref_extent r = e \<and> e \<notin> mark_extent ` set vs)"
      (is "?l \<longleftrightarrow> ?a \<or> ?b")
    proof
      assume ?l
      then obtain r us vs where *: "ms @ [m] = us @ Ack r # vs" "ref_extent r = e" "e \<notin> mark_extent ` set vs" by blast
      then show "?a \<or> ?b" by (cases vs rule: rev_cases) auto
    next
      assume "?a \<or> ?b"
      then show ?l
      proof
        assume ?a
        then obtain r where "m = Ack r" "ref_extent r = e" by blast
        then show ?l by (intro exI [of _ r] exI [of _ ms] exI [of _ "[]"]) simp
      next
        assume ?b
        then obtain r us vs where "ms = us @ Ack r # vs" "ref_extent r = e" "e \<notin> mark_extent ` set vs"
            "mark_extent m \<noteq> e" by blast
        then show ?l by (intro exI [of _ r] exI [of _ us] exI [of _ "vs @ [m]"]) auto
      qed
    qed
    show ?case unfolding split using snoc
      by (cases m) (auto simp: MarkAcknowledged_def MarkUnacknowledged_def)
  qed (simp add: NewOrphanCollector_def)
  then show ?thesis by (simp add: Reclaimable_def)
qed

end
