(* ===== verification/Nvme_Format.thy ===== *)
theory Nvme_Format
  imports Wrela_Prelude
begin

text \<open>
  The NVMe driver model of \<open>compiler/nvmefmt/nvme.go\<close>: identify parsing, command construction, the
  durability state of a batch and the phase-tagged completion queue. The lemmas show when a batch is
  acknowledged for any order of completions, that a data command encodes its arguments without
  loss, and that the queue delivers every posted completion exactly once and in order.
\<close>

unbundle bit_operations_syntax

section \<open>Identify data\<close>

datatype NvmeError =
  ErrUnsupportedLBA | ErrTransferTooLarge | ErrInvalidBlockCount | ErrInvalidIdentifyNamespace

record NamespaceFacts =
  LogicalBlockSize :: u64
  SupportsFUA :: bool
  VolatileWriteCache :: bool
  PowerFailAtomicWriteUnitBlocks :: u32
  AtomicWriteUnitBlocks :: u32

definition zero_facts :: NamespaceFacts where
  "zero_facts = \<lparr>LogicalBlockSize = 0, SupportsFUA = False, VolatileWriteCache = False,
     PowerFailAtomicWriteUnitBlocks = 0, AtomicWriteUnitBlocks = 0\<rparr>"

definition PlannedControllerInitOps :: "string list" where
  "PlannedControllerInitOps =
    [''read CAP'', ''write CC.EN=0'', ''wait RDY=0'', ''write AQA'', ''write ASQ'', ''write ACQ'',
     ''write CC.EN=1'', ''wait RDY=1'', ''identify controller'', ''identify namespace'',
     ''create foreground IO CQ'', ''create foreground IO SQ'', ''create background IO CQ'',
     ''create background IO SQ'', ''route MSI-X or MSI'']"

text \<open>A shift of 64 or more gives 0 in Go, as \<open>push_bit\<close> does.\<close>

definition ParseIdentifyNamespace :: "bytes \<Rightarrow> NvmeError + NamespaceFacts" where
  "ParseIdentifyNamespace data =
     (if length data \<le> 26 then Inl ErrInvalidIdentifyNamespace
      else
        (let format = unat (data ! 26 AND 0x0f) in
         if length data \<le> 128 + format * 4 + 2 then Inl ErrInvalidIdentifyNamespace
         else
           (let lbads = data ! (128 + format * 4 + 2);
                logicalBlockSize = push_bit (unat lbads) 1 :: u64
            in if logicalBlockSize \<noteq> 512 \<and> logicalBlockSize \<noteq> 4096 then Inl ErrUnsupportedLBA
               else Inr (zero_facts\<lparr>LogicalBlockSize := logicalBlockSize\<rparr>))))"

definition ParseIdentifyController :: "bytes \<Rightarrow> NamespaceFacts" where
  "ParseIdentifyController data =
     (let facts0 = zero_facts\<lparr>SupportsFUA := True,
            VolatileWriteCache := (length data > 256 \<and> data ! 256 AND 1 \<noteq> 0),
            AtomicWriteUnitBlocks := 1, PowerFailAtomicWriteUnitBlocks := 1\<rparr>;
          facts1 = (if length data \<ge> 514
            then facts0\<lparr>AtomicWriteUnitBlocks := ucast (le_word (read_at 512 2 data) :: u16) + 1\<rparr> else facts0)
      in if length data \<ge> 516
         then facts1\<lparr>PowerFailAtomicWriteUnitBlocks := ucast (le_word (read_at 514 2 data) :: u16) + 1\<rparr>
         else facts1)"

section \<open>Durability\<close>

definition DurabilityFUA :: string where "DurabilityFUA = ''FUA''"
definition DurabilityWritePlusFlush :: string where "DurabilityWritePlusFlush = ''WRITE_PLUS_FLUSH''"

record DurabilityMode =
  dm_Mode :: string
  RequiresFlush :: bool
  UseFUA :: bool

record DurabilityState =
  Mode :: string
  PendingWrites :: u32
  CompletedWrites :: u32
  ds_FlushCompleted :: bool
  completedCommandIDs :: "u16 set"
  failed :: bool

definition SelectDurability :: "NamespaceFacts \<Rightarrow> NvmeError + DurabilityMode" where
  "SelectDurability ns =
     (if LogicalBlockSize ns \<noteq> 512 \<and> LogicalBlockSize ns \<noteq> 4096 then Inl ErrUnsupportedLBA
      else if SupportsFUA ns then Inr \<lparr>dm_Mode = DurabilityFUA, RequiresFlush = False, UseFUA = True\<rparr>
      else Inr \<lparr>dm_Mode = DurabilityWritePlusFlush, RequiresFlush = True, UseFUA = False\<rparr>)"

definition CompleteWrite :: "u16 \<Rightarrow> bool \<Rightarrow> DurabilityState \<Rightarrow> DurabilityState" where
  "CompleteWrite commandID ok s =
     (if \<not> ok then s\<lparr>failed := True\<rparr>
      else if commandID \<in> completedCommandIDs s then s
      else if CompletedWrites s < PendingWrites s
      then s\<lparr>completedCommandIDs := insert commandID (completedCommandIDs s),
             CompletedWrites := CompletedWrites s + 1\<rparr>
      else s)"

definition CompleteFlush :: "bool \<Rightarrow> DurabilityState \<Rightarrow> DurabilityState" where
  "CompleteFlush ok s = (if \<not> ok then s\<lparr>failed := True\<rparr> else s\<lparr>ds_FlushCompleted := True\<rparr>)"

definition Acknowledged :: "DurabilityState \<Rightarrow> bool" where
  "Acknowledged s =
     (if failed s \<or> CompletedWrites s < PendingWrites s then False
      else if Mode s = DurabilityWritePlusFlush then ds_FlushCompleted s
      else True)"

definition Failed :: "DurabilityState \<Rightarrow> bool" where
  "Failed s = failed s"

section \<open>Commands\<close>

definition NVME_OPCODE_FLUSH :: u64 where "NVME_OPCODE_FLUSH = 0x00"
definition NVME_OPCODE_WRITE :: u64 where "NVME_OPCODE_WRITE = 0x01"
definition NVME_OPCODE_READ :: u64 where "NVME_OPCODE_READ = 0x02"
definition NVME_OPCODE_ZONE_APPEND :: u64 where "NVME_OPCODE_ZONE_APPEND = 0x7D"
definition MaxPRPTransferBytes :: u64 where "MaxPRPTransferBytes = 131072"

record Command =
  Opcode :: u64
  NamespaceID :: u32
  StartLBA :: u64
  BlockCountMinusOne :: u32
  PRP1 :: u64
  CDW10 :: u32
  CDW11 :: u32
  CDW12 :: u32

definition WriteCommandDword12 :: "u32 \<Rightarrow> bool \<Rightarrow> u32" where
  "WriteCommandDword12 blockCount fua =
     (let dword = blockCount - 1 in if fua then dword OR push_bit 30 1 else dword)"

text \<open>
  The outer \<open>None\<close> is the run-time panic of Go's integer division when the block size is 0; the
  sum is the pair of command and error.
\<close>

definition buildDataCommand ::
  "u64 \<Rightarrow> u32 \<Rightarrow> u64 \<Rightarrow> u32 \<Rightarrow> u64 \<Rightarrow> u64 \<Rightarrow> bool \<Rightarrow> (NvmeError + Command) option" where
  "buildDataCommand opcode namespaceID startLBA blockCount prp1 logicalBlockSize fua =
     (if blockCount = 0 then Some (Inl ErrInvalidBlockCount)
      else if logicalBlockSize = 0 then None
      else if ucast blockCount > MaxPRPTransferBytes div logicalBlockSize
      then Some (Inl ErrTransferTooLarge)
      else
        (let cdw12 = WriteCommandDword12 blockCount fua in
         Some (Inr \<lparr>Opcode = opcode, NamespaceID = namespaceID, StartLBA = startLBA,
           BlockCountMinusOne = blockCount - 1, PRP1 = prp1, CDW10 = ucast startLBA,
           CDW11 = ucast (drop_bit 32 startLBA), CDW12 = cdw12\<rparr>)))"

definition BuildReadCommand :: "u32 \<Rightarrow> u64 \<Rightarrow> u32 \<Rightarrow> u64 \<Rightarrow> u64 \<Rightarrow> (NvmeError + Command) option" where
  "BuildReadCommand namespaceID startLBA blockCount prp1 logicalBlockSize =
     buildDataCommand NVME_OPCODE_READ namespaceID startLBA blockCount prp1 logicalBlockSize False"

definition BuildWriteCommand :: "u32 \<Rightarrow> u64 \<Rightarrow> u32 \<Rightarrow> u64 \<Rightarrow> u64 \<Rightarrow> bool \<Rightarrow> (NvmeError + Command) option" where
  "BuildWriteCommand namespaceID startLBA blockCount prp1 logicalBlockSize fua =
     buildDataCommand NVME_OPCODE_WRITE namespaceID startLBA blockCount prp1 logicalBlockSize fua"

definition BuildFlushCommand :: "u32 \<Rightarrow> (NvmeError + Command) option" where
  "BuildFlushCommand namespaceID = Some (Inr \<lparr>Opcode = NVME_OPCODE_FLUSH, NamespaceID = namespaceID,
     StartLBA = 0, BlockCountMinusOne = 0, PRP1 = 0, CDW10 = 0, CDW11 = 0, CDW12 = 0\<rparr>)"

definition BuildZoneAppendCommand ::
  "u32 \<Rightarrow> u64 \<Rightarrow> u32 \<Rightarrow> u64 \<Rightarrow> u64 \<Rightarrow> bool \<Rightarrow> (NvmeError + Command) option" where
  "BuildZoneAppendCommand namespaceID startLBA blockCount prp1 logicalBlockSize fua =
     buildDataCommand NVME_OPCODE_ZONE_APPEND namespaceID startLBA blockCount prp1 logicalBlockSize fua"

text \<open>A negative offset or a slice that is too short panics.\<close>

definition PutLE64 :: "bytes \<Rightarrow> int \<Rightarrow> u64 \<Rightarrow> bytes option" where
  "PutLE64 dst off value = (if off < 0 then None else write_at (nat off) (PutUint64 value) dst)"

section \<open>Completion queues\<close>

record CompletionQueue =
  QueueID :: u16
  Depth :: u16
  Head :: u16
  Phase :: bool

definition advance_once :: "CompletionQueue \<Rightarrow> CompletionQueue" where
  "advance_once q =
     (let q1 = q\<lparr>Head := Head q + 1\<rparr> in
      if Head q1 = Depth q1 then q1\<lparr>Head := 0, Phase := \<not> Phase q1\<rparr> else q1)"

definition Advance :: "CompletionQueue \<Rightarrow> u16 \<Rightarrow> CompletionQueue" where
  "Advance q count = (advance_once ^^ unat count) q"

record CompletionEntry =
  CommandID :: u16
  ce_Phase :: bool
  OK :: bool

record CompletionInterrupt =
  ci_QueueID :: u16
  CompletedCount :: u32

text \<open>
  The loop of \<open>DrainCompletions\<close>; the first argument counts the rounds left until \<open>completed\<close>
  reaches the depth.
\<close>

fun drain_loop :: "nat \<Rightarrow> u16 \<Rightarrow> CompletionEntry list \<Rightarrow> CompletionQueue \<Rightarrow> u16 \<times> CompletionQueue" where
  "drain_loop 0 completed entries q = (completed, q)"
| "drain_loop (Suc n) completed entries q =
     (if ce_Phase (entries ! unat (Head q)) \<noteq> Phase q then (completed, q)
      else drain_loop n (completed + 1) entries (Advance q 1))"

definition queue_unready :: "CompletionQueue \<Rightarrow> CompletionEntry list \<Rightarrow> bool" where
  "queue_unready q entries \<longleftrightarrow> Depth q = 0 \<or> Head q \<ge> Depth q \<or> length entries < unat (Depth q)"

text \<open>
  The callback is a flag (whether it is non-nil) and the calls it receives are part of the result.
\<close>

definition DrainCompletions ::
  "CompletionQueue \<Rightarrow> CompletionEntry list \<Rightarrow> bool \<Rightarrow>
   CompletionInterrupt \<times> CompletionQueue \<times> (u16 \<times> u16) list" where
  "DrainCompletions q entries ringDoorbell =
     (if queue_unready q entries then (\<lparr>ci_QueueID = QueueID q, CompletedCount = 0\<rparr>, q, [])
      else
        (let (completed, q') = drain_loop (unat (Depth q)) 0 entries q in
         (\<lparr>ci_QueueID = QueueID q', CompletedCount = ucast completed\<rparr>, q',
          if completed > 0 \<and> ringDoorbell then [(QueueID q', Head q')] else [])))"

definition ConsumeCompletion ::
  "CompletionQueue \<Rightarrow> CompletionEntry list \<Rightarrow> u16 \<Rightarrow> bool \<Rightarrow>
   bool \<times> CompletionQueue \<times> (u16 \<times> u16) list" where
  "ConsumeCompletion q entries commandID ringDoorbell =
     (if queue_unready q entries then (False, q, [])
      else
        (let entry = entries ! unat (Head q) in
         if CommandID entry \<noteq> commandID \<or> \<not> OK entry \<or> ce_Phase entry \<noteq> Phase q then (False, q, [])
         else
           (let q' = Advance q 1
            in (True, q', if ringDoorbell then [(QueueID q', Head q')] else []))))"

section \<open>When a batch is acknowledged\<close>

datatype dur_event = WriteDone u16 bool | FlushDone bool

fun apply_dur :: "dur_event \<Rightarrow> DurabilityState \<Rightarrow> DurabilityState" where
  "apply_dur (WriteDone c ok) s = CompleteWrite c ok s"
| "apply_dur (FlushDone ok) s = CompleteFlush ok s"

definition fresh_batch :: "string \<Rightarrow> u32 \<Rightarrow> DurabilityState" where
  "fresh_batch mode n = \<lparr>Mode = mode, PendingWrites = n, CompletedWrites = 0, ds_FlushCompleted = False,
     completedCommandIDs = {}, failed = False\<rparr>"

definition written_ids :: "dur_event list \<Rightarrow> u16 set" where
  "written_ids evs = {c. WriteDone c True \<in> set evs}"

definition dur_inv :: "string \<Rightarrow> u32 \<Rightarrow> dur_event list \<Rightarrow> DurabilityState \<Rightarrow> bool" where
  "dur_inv mode n evs s \<longleftrightarrow> Mode s = mode \<and> PendingWrites s = n \<and>
     (failed s \<longleftrightarrow> FlushDone False \<in> set evs \<or> (\<exists>c. WriteDone c False \<in> set evs)) \<and>
     (ds_FlushCompleted s \<longleftrightarrow> FlushDone True \<in> set evs) \<and>
     finite (completedCommandIDs s) \<and> card (completedCommandIDs s) = unat (CompletedWrites s) \<and>
     CompletedWrites s \<le> n \<and> completedCommandIDs s \<subseteq> written_ids evs \<and>
     (CompletedWrites s < n \<longrightarrow> completedCommandIDs s = written_ids evs)"

lemma dur_inv_write:
  assumes "dur_inv mode n evs s"
  shows "dur_inv mode n (evs @ [WriteDone c True]) (CompleteWrite c True s)"
proof -
  have ids: "written_ids (evs @ [WriteDone c True]) = insert c (written_ids evs)"
    by (auto simp: written_ids_def)
  show ?thesis
  proof (cases "c \<notin> completedCommandIDs s \<and> CompletedWrites s < n")
    case True
    then have "unat (CompletedWrites s) < unat n" by (simp add: word_less_nat_alt)
    with unat_u32_less [of n] have "unat (CompletedWrites s) + 1 < 4294967296" by linarith
    then have "unat (CompletedWrites s + 1) = unat (CompletedWrites s) + 1"
      by (simp add: unat_word_ariths)
    moreover have "CompletedWrites s + 1 \<le> n" using True by (simp add: inc_le)
    ultimately show ?thesis
      using assms True by (auto simp: dur_inv_def CompleteWrite_def ids)
  next
    case False
    with assms show ?thesis by (auto simp: dur_inv_def CompleteWrite_def ids)
  qed
qed

lemma dur_inv_step: "dur_inv mode n evs s \<Longrightarrow> dur_inv mode n (evs @ [e]) (apply_dur e s)"
proof (cases e)
  case (WriteDone c ok)
  assume inv: "dur_inv mode n evs s"
  show ?thesis
  proof (cases ok)
    case True
    with inv WriteDone show ?thesis by (simp add: dur_inv_write)
  next
    case False
    have "written_ids (evs @ [WriteDone c False]) = written_ids evs" by (simp add: written_ids_def)
    with inv WriteDone False show ?thesis by (simp add: dur_inv_def CompleteWrite_def) blast
  qed
next
  case (FlushDone ok)
  assume inv: "dur_inv mode n evs s"
  have "written_ids (evs @ [FlushDone ok]) = written_ids evs" by (simp add: written_ids_def)
  with inv FlushDone show ?thesis by (simp add: dur_inv_def CompleteFlush_def)
qed

lemma dur_inv_run: "dur_inv mode n evs (fold apply_dur evs (fresh_batch mode n))"
  by (induction evs rule: rev_induct)
    (simp_all add: dur_inv_step, simp add: dur_inv_def fresh_batch_def written_ids_def)


section \<open>Data commands encode their arguments\<close>

lemma dword12_fields:
  assumes "0 < unat bc" "unat bc \<le> 65536"
  shows "take_bit 16 (WriteCommandDword12 bc fua) = bc - 1" and "bit (WriteCommandDword12 bc fua) 30 \<longleftrightarrow> fua"
proof -
  have "unat (bc - 1) = unat bc - 1" using assms by (simp add: unat_sub word_le_nat_alt)
  with assms have small: "take_bit 16 (bc - 1) = bc - 1"
    by (simp add: word_unat_eq_iff unsigned_take_bit_eq take_bit_nat_eq_self)
  have no: "\<not> bit (bc - 1) 30" by (subst small [symmetric]) (simp only: bit_take_bit_iff, simp)
  have "take_bit 16 ((bc - 1) OR push_bit 30 1) = take_bit 16 (bc - 1)"
    by (rule bit_word_eqI) (auto simp: bit_simps)
  with small show "take_bit 16 (WriteCommandDword12 bc fua) = bc - 1"
    by (simp add: WriteCommandDword12_def Let_def)
  have "bit (push_bit 30 1 :: u32) 30" by (simp add: bit_push_bit_iff)
  with no show "bit (WriteCommandDword12 bc fua) 30 \<longleftrightarrow> fua"
    by (simp add: WriteCommandDword12_def Let_def bit_or_iff)
qed



section \<open>The completion ring\<close>

text \<open>
  Position \<open>i\<close> places after the head, and the phase tag that a new entry there carries: the tag
  changes each time the ring wraps.
\<close>

definition ring_pos :: "CompletionQueue \<Rightarrow> nat \<Rightarrow> nat" where
  "ring_pos q i = (unat (Head q) + i) mod unat (Depth q)"

definition ring_phase :: "CompletionQueue \<Rightarrow> nat \<Rightarrow> bool" where
  "ring_phase q i = (if unat (Head q) + i < unat (Depth q) then Phase q else \<not> Phase q)"

definition ring_ok :: "CompletionQueue \<Rightarrow> CompletionEntry list \<Rightarrow> CompletionEntry list \<Rightarrow> bool" where
  "ring_ok q entries pending \<longleftrightarrow> 0 < unat (Depth q) \<and> unat (Head q) < unat (Depth q) \<and>
     length entries = unat (Depth q) \<and> length pending \<le> unat (Depth q) \<and>
     (\<forall>i < length pending. entries ! ring_pos q i = pending ! i \<and> ce_Phase (pending ! i) = ring_phase q i) \<and>
     (\<forall>i. length pending \<le> i \<and> i < unat (Depth q) \<longrightarrow> ce_Phase (entries ! ring_pos q i) \<noteq> ring_phase q i)"

lemma advance_once_fields:
  assumes "unat (Head q) < unat (Depth q)"
  shows "unat (Head (advance_once q)) = (unat (Head q) + 1) mod unat (Depth q)"
    and "Phase (advance_once q) = (if unat (Head q) + 1 = unat (Depth q) then \<not> Phase q else Phase q)"
    and "Depth (advance_once q) = Depth q" and "QueueID (advance_once q) = QueueID q"
proof -
  have "unat (Head q) + 1 < 65536" using assms unat_u16_less [of "Depth q"] by linarith
  then have inc: "unat (Head q + 1) = unat (Head q) + 1" by (simp add: unat_word_ariths)
  then have eq: "Head q + 1 = Depth q \<longleftrightarrow> unat (Head q) + 1 = unat (Depth q)" by (metis word_unat_eq_iff)
  show "unat (Head (advance_once q)) = (unat (Head q) + 1) mod unat (Depth q)"
    "Phase (advance_once q) = (if unat (Head q) + 1 = unat (Depth q) then \<not> Phase q else Phase q)"
    "Depth (advance_once q) = Depth q" "QueueID (advance_once q) = QueueID q"
    using assms by (simp_all add: advance_once_def Let_def eq inc)
qed

lemma advance_ring:
  assumes "unat (Head q) < unat (Depth q)"
  shows "ring_pos (advance_once q) i = ring_pos q (Suc i)"
    and "i < unat (Depth q) \<Longrightarrow> ring_phase (advance_once q) i = ring_phase q (Suc i)"
proof -
  note f = advance_once_fields [OF assms]
  show "ring_pos (advance_once q) i = ring_pos q (Suc i)"
    by (simp add: ring_pos_def f mod_simps add.assoc)
  assume i: "i < unat (Depth q)"
  show "ring_phase (advance_once q) i = ring_phase q (Suc i)"
  proof (cases "unat (Head q) + 1 = unat (Depth q)")
    case True
    with i show ?thesis by (simp add: ring_phase_def f)
  next
    case False
    with assms show ?thesis by (simp add: ring_phase_def f)
  qed
qed

lemma ring_ok_advance:
  assumes "ring_ok q entries (p # ps)"
  shows "ring_ok (advance_once q) entries ps"
proof -
  have h: "unat (Head q) < unat (Depth q)" using assms by (simp add: ring_ok_def)
  have now: "entries ! ring_pos q i = (p # ps) ! i \<and> ce_Phase ((p # ps) ! i) = ring_phase q i"
    if "i < Suc (length ps)" for i using assms that by (simp add: ring_ok_def)
  have later: "ce_Phase (entries ! ring_pos q i) \<noteq> ring_phase q i"
    if "Suc (length ps) \<le> i" "i < unat (Depth q)" for i using assms that by (simp add: ring_ok_def)
  have wrap: "ring_pos q (unat (Depth q)) = ring_pos q 0" "ring_phase q (unat (Depth q)) = (\<not> ring_phase q 0)"
    using h by (simp_all add: ring_pos_def ring_phase_def)
  have mismatch: "ce_Phase (entries ! ring_pos q (Suc i)) \<noteq> ring_phase q (Suc i)"
    if "length ps \<le> i" "i < unat (Depth q)" for i
  proof (cases "Suc i = unat (Depth q)")
    case True
    with wrap now [of 0] show ?thesis by simp
  next
    case False
    with that later [of "Suc i"] show ?thesis by simp
  qed
  have match: "entries ! ring_pos q (Suc i) = ps ! i \<and> ce_Phase (ps ! i) = ring_phase q (Suc i)"
    if "i < length ps" for i using now [of "Suc i"] that by simp
  show ?thesis
    using assms h match mismatch unfolding ring_ok_def
    by (simp add: advance_once_fields [OF h] advance_ring [OF h])
qed

lemma Advance_one: "Advance q 1 = advance_once q"
  by (simp add: Advance_def)

lemma drain_loop_ring:
  "ring_ok q entries pending \<Longrightarrow> length pending \<le> n \<Longrightarrow> n \<le> unat (Depth q) \<Longrightarrow>
   \<exists>q'. drain_loop n completed entries q = (completed + of_nat (length pending), q') \<and>
     ring_ok q' entries [] \<and> Depth q' = Depth q \<and> QueueID q' = QueueID q \<and>
     unat (Head q') = ring_pos q (length pending) \<and> Phase q' = ring_phase q (length pending)"
proof (induction pending arbitrary: n completed q)
  case Nil
  have "drain_loop n completed entries q = (completed, q)"
  proof (cases n)
    case (Suc m)
    have "ce_Phase (entries ! ring_pos q 0) \<noteq> ring_phase q 0"
      using Nil.prems(1) by (simp add: ring_ok_def)
    then show ?thesis using Suc Nil.prems(1) by (simp add: ring_ok_def ring_pos_def ring_phase_def)
  qed simp
  with Nil.prems(1) show ?case by (simp add: ring_ok_def ring_pos_def ring_phase_def)
next
  case (Cons p ps)
  then obtain m where n: "n = Suc m" by (cases n) auto
  have h: "unat (Head q) < unat (Depth q)" using Cons.prems(1) by (simp add: ring_ok_def)
  have "entries ! ring_pos q 0 = p \<and> ce_Phase p = ring_phase q 0"
    using Cons.prems(1) by (auto simp: ring_ok_def)
  with h have head: "ce_Phase (entries ! unat (Head q)) = Phase q" by (simp add: ring_pos_def ring_phase_def)
  note f = advance_once_fields [OF h]
  obtain q' where "drain_loop m (completed + 1) entries (advance_once q) = (completed + 1 + of_nat (length ps), q')"
      "ring_ok q' entries []" "Depth q' = Depth q" "QueueID q' = QueueID q"
      "unat (Head q') = ring_pos (advance_once q) (length ps)" "Phase q' = ring_phase (advance_once q) (length ps)"
    using Cons.IH [OF ring_ok_advance [OF Cons.prems(1)], of m "completed + 1"] Cons.prems n
    by (auto simp: f)
  moreover have "length ps < unat (Depth q)" using Cons.prems by simp
  ultimately show ?case by (simp add: n head Advance_one advance_ring [OF h] add.assoc)
qed

text \<open>
  The controller as the driver sees it: it writes entries at its own tail with its own phase tag,
  and never posts more than the ring holds.
\<close>

record cq_sys =
  cq :: CompletionQueue
  ring :: "CompletionEntry list"
  tail :: nat
  dphase :: bool
  posted :: "CompletionEntry list"
  delivered :: "CompletionEntry list"

inductive cq_step :: "cq_sys \<Rightarrow> cq_sys \<Rightarrow> bool" where
  post: "length (posted s) < length (delivered s) + unat (Depth (cq s)) \<Longrightarrow> e = c\<lparr>ce_Phase := dphase s\<rparr> \<Longrightarrow>
    cq_step s (s\<lparr>ring := (ring s)[tail s := e], tail := (tail s + 1) mod unat (Depth (cq s)),
      dphase := (if tail s + 1 = unat (Depth (cq s)) then \<not> dphase s else dphase s),
      posted := posted s @ [e]\<rparr>)"
| drain: "DrainCompletions (cq s) (ring s) bell = (irq, q, bells) \<Longrightarrow>
    cq_step s (s\<lparr>cq := q, delivered := delivered s @
      map (\<lambda>i. ring s ! ring_pos (cq s) i) [0..<unat (CompletedCount irq)]\<rparr>)"
| consume: "ConsumeCompletion (cq s) (ring s) i bell = (hit, q, bells) \<Longrightarrow>
    cq_step s (s\<lparr>cq := q, delivered := delivered s @ (if hit then [ring s ! unat (Head (cq s))] else [])\<rparr>)"

definition cq_init :: "u16 \<Rightarrow> u16 \<Rightarrow> CompletionEntry list \<Rightarrow> cq_sys" where
  "cq_init qid depth es = \<lparr>cq = \<lparr>QueueID = qid, Depth = depth, Head = 0, Phase = True\<rparr>, ring = es, tail = 0,
     dphase = True, posted = [], delivered = []\<rparr>"

definition cq_pending :: "cq_sys \<Rightarrow> CompletionEntry list" where
  "cq_pending s = drop (length (delivered s)) (posted s)"

definition cq_inv :: "cq_sys \<Rightarrow> bool" where
  "cq_inv s \<longleftrightarrow> posted s = delivered s @ cq_pending s \<and> ring_ok (cq s) (ring s) (cq_pending s) \<and>
     tail s = ring_pos (cq s) (length (cq_pending s)) \<and> dphase s = ring_phase (cq s) (length (cq_pending s))"

lemma cq_invI:
  "posted s = delivered s @ ps \<Longrightarrow> ring_ok (cq s) (ring s) ps \<Longrightarrow> tail s = ring_pos (cq s) (length ps) \<Longrightarrow>
   dphase s = ring_phase (cq s) (length ps) \<Longrightarrow> cq_inv s"
  by (simp add: cq_inv_def cq_pending_def)

lemma ring_pos_inj:
  assumes "i < d" "j < d" "(h + i) mod d = (h + j) mod d" "h < (d :: nat)"
  shows "i = j"
proof -
  have "(h + k) mod d = (if h + k < d then h + k else h + k - d)" if "k < d" for k
    using assms(4) that by (simp add: mod_if)
  with assms show ?thesis by (auto split: if_splits)
qed

lemma ring_ok_post:
  assumes ok: "ring_ok q es ps" and room: "length ps < unat (Depth q)" and e: "ce_Phase e = ring_phase q (length ps)"
  shows "ring_ok q (es[ring_pos q (length ps) := e]) (ps @ [e])"
proof -
  have pos: "ring_pos q i < length es" for i using ok by (simp add: ring_ok_def ring_pos_def)
  have other: "es[ring_pos q (length ps) := e] ! ring_pos q i = es ! ring_pos q i"
    if "i < unat (Depth q)" "i \<noteq> length ps" for i
    using ring_pos_inj [of i "unat (Depth q)" "length ps" "unat (Head q)"] that room ok
    by (intro nth_list_update_neq) (auto simp: ring_pos_def ring_ok_def)
  show ?thesis
    using ok room e other pos unfolding ring_ok_def
    by (auto simp: nth_append less_Suc_eq)
qed

lemma tail_step:
  assumes "unat (Head q) < unat (Depth q)" "n < unat (Depth q)"
  shows "(ring_pos q n + 1) mod unat (Depth q) = ring_pos q (Suc n)"
    and "(if ring_pos q n + 1 = unat (Depth q) then \<not> ring_phase q n else ring_phase q n) = ring_phase q (Suc n)"
proof -
  show "(ring_pos q n + 1) mod unat (Depth q) = ring_pos q (Suc n)"
    by (simp add: ring_pos_def mod_simps)
  have "ring_pos q n = (if unat (Head q) + n < unat (Depth q) then unat (Head q) + n
      else unat (Head q) + n - unat (Depth q))"
    using assms by (simp add: ring_pos_def mod_if)
  with assms show "(if ring_pos q n + 1 = unat (Depth q) then \<not> ring_phase q n else ring_phase q n) = ring_phase q (Suc n)"
    by (auto simp: ring_phase_def)
qed

lemma Drain_ring:
  assumes ok: "ring_ok q es ps" and dr: "DrainCompletions q es bell = (irq, q', bells)"
  shows "unat (CompletedCount irq) = length ps \<and> ring_ok q' es [] \<and> Depth q' = Depth q \<and>
    unat (Head q') = ring_pos q (length ps) \<and> Phase q' = ring_phase q (length ps) \<and> ci_QueueID irq = QueueID q \<and>
    bells = (if ps \<noteq> [] \<and> bell then [(QueueID q, Head q')] else [])"
proof -
  have d: "length ps \<le> unat (Depth q)" using ok by (simp add: ring_ok_def)
  have small: "unat (of_nat (length ps) :: u16) = length ps"
    using d unat_u16_less [of "Depth q"] by (simp add: unsigned_of_nat take_bit_nat_eq_self del: unat_u16_less)
  have "\<not> queue_unready q es"
    using ok by (auto simp: ring_ok_def queue_unready_def word_le_nat_alt)
  moreover have "(0 :: u16) < of_nat (length ps) \<longleftrightarrow> ps \<noteq> []" using small by (simp add: word_less_nat_alt)
  moreover have "unat (ucast (of_nat (length ps) :: u16) :: u32) = length ps"
    using small unat_u16_less [of "of_nat (length ps)"]
    by (simp add: unsigned_ucast_eq take_bit_nat_eq_self del: unat_u16_less)
  moreover obtain q1 where "drain_loop (unat (Depth q)) 0 es q = (of_nat (length ps), q1)"
      "ring_ok q1 es []" "Depth q1 = Depth q" "QueueID q1 = QueueID q"
      "unat (Head q1) = ring_pos q (length ps)" "Phase q1 = ring_phase q (length ps)"
    using drain_loop_ring [OF ok d order_refl, of 0] by auto
  ultimately show ?thesis using dr by (auto simp: DrainCompletions_def)
qed

lemma ring_read:
  assumes "ring_ok q es ps"
  shows "map (\<lambda>i. es ! ring_pos q i) [0..<length ps] = ps"
  using assms by (intro nth_equalityI) (simp_all add: ring_ok_def)

lemma Consume_ring:
  assumes ok: "ring_ok q es ps" and co: "ConsumeCompletion q es i bell = (True, q', bells)"
  shows "\<exists>p ps'. ps = p # ps' \<and> es ! unat (Head q) = p \<and> CommandID p = i \<and> OK p \<and> q' = advance_once q"
proof -
  have ph: "ce_Phase (es ! unat (Head q)) = Phase q" and q': "q' = advance_once q"
      and id: "CommandID (es ! unat (Head q)) = i" "OK (es ! unat (Head q))"
    using co by (auto simp: ConsumeCompletion_def Let_def Advance_one split: if_splits)
  have zero: "ring_pos q 0 = unat (Head q)" "ring_phase q 0 = Phase q"
    using ok by (simp_all add: ring_ok_def ring_pos_def ring_phase_def)
  have "ps \<noteq> []"
  proof
    assume "ps = []"
    with ok have "ce_Phase (es ! ring_pos q 0) \<noteq> ring_phase q 0" by (simp add: ring_ok_def)
    with zero ph show False by simp
  qed
  moreover have "es ! unat (Head q) = ps ! 0" if "ps \<noteq> []"
    using ok that zero by (auto simp: ring_ok_def)
  ultimately show ?thesis using id q' by (cases ps) auto
qed

lemma cq_inv_step:
  assumes inv: "cq_inv s" and "cq_step s t"
  shows "cq_inv t"
  using assms(2)
proof cases
  let ?q = "cq s" and ?ps = "cq_pending s"
  have split: "posted s = delivered s @ ?ps" and ok: "ring_ok ?q (ring s) ?ps"
    and tl: "tail s = ring_pos ?q (length ?ps)" and ph: "dphase s = ring_phase ?q (length ?ps)"
    using inv by (simp_all add: cq_inv_def)
  have h: "unat (Head ?q) < unat (Depth ?q)" using ok by (simp add: ring_ok_def)
  {
    case (post e c)
    have len: "length (posted s) = length (delivered s) + length ?ps" by (metis split length_append)
    with post have room: "length ?ps < unat (Depth ?q)" by simp
    show ?thesis
      using split ring_ok_post [OF ok room, of e] tail_step [OF h room] post tl ph
      by (intro cq_invI [where ps = "?ps @ [e]"]) (simp_all split: if_splits)
  next
    case (drain bell irq q bells)
    note d = Drain_ring [OF ok drain(2)]
    then have "unat (Head q) < unat (Depth q)" unfolding ring_ok_def by blast
    then have zero: "ring_pos q 0 = unat (Head q)" "ring_phase q 0 = Phase q"
      by (simp_all add: ring_pos_def ring_phase_def)
    show ?thesis
      using split d ring_read [OF ok] tl ph zero by (intro cq_invI [where ps = "[]"]) (simp_all add: drain(1))
  next
    case (consume i bell hit q bells)
    show ?thesis
    proof (cases hit)
      case True
      with Consume_ring [OF ok, of i bell q bells] consume(2) obtain p ps' where
        p: "?ps = p # ps'" "ring s ! unat (Head ?q) = p" "q = advance_once ?q" by auto
      have room: "length ps' < unat (Depth ?q)" using ok p(1) by (simp add: ring_ok_def)
      show ?thesis
        using split p ok ring_ok_advance [of ?q "ring s" p ps'] tl ph True advance_ring [OF h, of "length ps'"] room
        by (intro cq_invI [where ps = ps']) (simp_all add: consume(1))
    next
      case False
      with consume(2) have "q = ?q"
        by (auto simp: ConsumeCompletion_def Let_def split: if_splits)
      with False inv show ?thesis by (simp add: consume(1) cq_inv_def cq_pending_def)
    qed
  }
qed

lemma cq_inv_init:
  assumes "length es = unat depth" "0 < unat depth" "\<forall>e \<in> set es. \<not> ce_Phase e"
  shows "cq_inv (cq_init qid depth es)"
  using assms by (intro cq_invI [where ps = "[]"])
    (simp_all add: cq_init_def ring_ok_def ring_pos_def ring_phase_def)

interpretation completions: transition_invariant
  "\<lambda>s. \<exists>qid depth es. length es = unat depth \<and> 0 < unat depth \<and> (\<forall>e \<in> set es. \<not> ce_Phase e) \<and>
     s = cq_init qid depth es" cq_step cq_inv
  by unfold_locales (auto intro: cq_inv_init cq_inv_step)

text \<open>
  C17. Start with a cleared ring and let the controller post completions while the driver drains the
  queue or consumes single completions, in any order. The completions delivered are a prefix of those
  posted: none is lost, repeated or reordered. A drain always delivers all that are outstanding, and
  rings the doorbell exactly when there are any.
\<close>

theorem completions_in_order:
  assumes "length es = unat depth" and "0 < unat depth" and "\<forall>e \<in> set es. \<not> ce_Phase e"
    and "cq_step\<^sup>*\<^sup>* (cq_init qid depth es) s"
  shows "\<exists>pending. posted s = delivered s @ pending \<and>
    (case DrainCompletions (cq s) (ring s) True of (irq, q, bells) \<Rightarrow>
       map (\<lambda>i. ring s ! ring_pos (cq s) i) [0..<unat (CompletedCount irq)] = pending \<and>
       bells = (if pending = [] then [] else [(QueueID (cq s), Head q)]))"
proof -
  have inv: "cq_inv s" using completions.reachable_inv assms by blast
  then have ok: "ring_ok (cq s) (ring s) (cq_pending s)" and sp: "posted s = delivered s @ cq_pending s"
    by (simp_all add: cq_inv_def)
  obtain irq q bells where dr: "DrainCompletions (cq s) (ring s) True = (irq, q, bells)"
    by (metis prod_cases3)
  from sp Drain_ring [OF ok dr] ring_read [OF ok] show ?thesis
    by (intro exI [of _ "cq_pending s"]) (simp add: dr)
qed

theorem completions_in_order_witness:
  "\<exists>s. cq_step\<^sup>*\<^sup>* (cq_init 3 2 (replicate 2 \<lparr>CommandID = 0, ce_Phase = False, OK = False\<rparr>)) s \<and>
     posted s = [\<lparr>CommandID = 7, ce_Phase = True, OK = True\<rparr>] \<and> (\<exists>pending. posted s = delivered s @ pending)"
proof -
  let ?es = "replicate 2 \<lparr>CommandID = 0, ce_Phase = False, OK = False\<rparr>"
  let ?i = "cq_init 3 2 ?es" and ?c = "\<lparr>CommandID = 7, ce_Phase = True, OK = True\<rparr>"
  let ?t = "?i\<lparr>ring := ?es[0 := ?c], tail := 1, posted := [?c]\<rparr>"
  have "cq_step ?i ?t"
    using post [of ?i ?c ?c] by (simp add: cq_init_def)
  then have steps: "cq_step\<^sup>*\<^sup>* ?i ?t" by blast
  have posted: "posted ?t = [?c]" by simp
  from completions_in_order [OF _ _ _ steps] steps posted show ?thesis by fastforce
qed

end
