(* ===== verification/Record_Layout.thy ===== *)
theory Record_Layout
  imports Wrela_Prelude "HOL-Library.Signed_Division"
begin

text \<open>
  Field placement of record types, \<open>compiler/layout/record.go\<close>. Go's \<open>int\<close> is 64 bits wide and a
  field has at most 16 bytes, so the offsets of a declaration never come near its bounds and are
  modelled as unbounded integers. The lemmas show that fields are aligned, pairwise disjoint and
  inside the record, and that records can be placed one after the other.
\<close>

section \<open>Placement\<close>

record Field =
  fld_Name :: string
  fld_Type :: string

record FieldLayout =
  fl_Offset :: int
  fl_Size :: int
  fl_Align :: int

record LayoutRecord =
  rec_Fields :: "string \<rightharpoonup> FieldLayout"
  rec_Size :: int
  rec_Align :: int

text \<open>Go's \<open>%\<close> truncates towards zero, as \<open>smod\<close> does.\<close>

definition AlignUp :: "int \<Rightarrow> int \<Rightarrow> int" where
  "AlignUp value align =
     (if align \<le> 1 then value
      else
        (let rem = value smod align in
         if rem = 0 then value else value + (align - rem)))"

text \<open>The error result of \<open>SizeAlign\<close> is nil on every path; the sum keeps its place.\<close>

definition SizeAlign :: "string \<Rightarrow> string + (int \<times> int)" where
  "SizeAlign typeName =
     (if typeName = ''Bool'' then Inr (1, 1)
      else if typeName = ''U8'' then Inr (1, 1)
      else if typeName = ''U16'' then Inr (2, 2)
      else if typeName = ''U32'' then Inr (4, 4)
      else if typeName \<in> {''U64'', ''I64''} then Inr (8, 8)
      else if typeName \<in> {''PhysicalAddress'', ''VirtualAddress''} then Inr (8, 8)
      else if typeName = ''StringLiteral'' then Inr (16, 8)
      else if typeName \<in> {''data'', ''class'', ''driver'', ''path'', ''executor''} then Inr (8, 8)
      else Inr (8, 8))"

fun compute_from ::
  "(string \<rightharpoonup> FieldLayout) \<Rightarrow> int \<Rightarrow> int \<Rightarrow> Field list \<Rightarrow> string + LayoutRecord" where
  "compute_from out offset recordAlign [] =
     Inr \<lparr>rec_Fields = out, rec_Size = AlignUp offset recordAlign, rec_Align = recordAlign\<rparr>"
| "compute_from out offset recordAlign (f # fs) =
     (case SizeAlign (fld_Type f) of
        Inl err \<Rightarrow> Inl err
      | Inr (sz, align) \<Rightarrow>
          (let offset' = AlignUp offset align in
           compute_from
             (out(fld_Name f \<mapsto> \<lparr>fl_Offset = offset', fl_Size = sz, fl_Align = align\<rparr>))
             (offset' + sz) (if align > recordAlign then align else recordAlign) fs))"

definition Compute :: "Field list \<Rightarrow> string + LayoutRecord" where
  "Compute fds = compute_from Map.empty 0 1 fds"

section \<open>Rounding up\<close>

lemma AlignUp_nonneg:
  assumes "0 \<le> v" and "0 < a"
  shows "v \<le> AlignUp v a" and "a dvd AlignUp v a" and "AlignUp v a < v + a"
proof -
  have rem: "v smod a = v mod a" using assms by (cases "v = 0") (auto simp: signed_modulo_int_def)
  have less: "0 \<le> v mod a" "v mod a < a" using assms by simp_all
  show "v \<le> AlignUp v a" "AlignUp v a < v + a"
    using assms less by (auto simp: AlignUp_def Let_def rem)
  have up: "v + (a - v mod a) = a * (v div a + 1)"
    using mult_div_mod_eq [of a v] by (simp only: distrib_left)
  show "a dvd AlignUp v a"
  proof (cases "a \<le> 1 \<or> v mod a = 0")
    case True
    then have "a = 1 \<or> v mod a = 0" using assms(2) by linarith
    then show ?thesis by (auto simp: AlignUp_def Let_def rem)
  next
    case False
    then have "AlignUp v a = a * (v div a + 1)" by (simp only: AlignUp_def Let_def rem up) simp
    then show ?thesis by simp
  qed
qed

interpretation layout_align: aligner "\<lambda>v a. nat (AlignUp (int v) (int a))" "\<lambda>v a. 0 < a"
proof unfold_locales
  fix v a :: nat assume "0 < a"
  then have a: "0 < int a" by simp
  note up = AlignUp_nonneg [OF of_nat_0_le_iff a, of v]
  show "v \<le> nat (AlignUp (int v) (int a))" using up by linarith
  show "a dvd nat (AlignUp (int v) (int a))" using up by (metis nat_dvd_iff of_nat_0_le_iff order_trans int_dvd_int_iff nat_0_le)
  show "nat (AlignUp (int v) (int a)) < v + a" using up by linarith
qed

section \<open>Placed fields\<close>

text \<open>The layouts that the loop assigns, in declaration order.\<close>

fun placed :: "int \<Rightarrow> Field list \<Rightarrow> FieldLayout list" where
  "placed offset [] = []"
| "placed offset (f # fs) =
     (let (sz, align) = projr (SizeAlign (fld_Type f)); o' = AlignUp offset align
      in \<lparr>fl_Offset = o', fl_Size = sz, fl_Align = align\<rparr> # placed (o' + sz) fs)"

definition fields_end :: "int \<Rightarrow> FieldLayout list \<Rightarrow> int" where
  "fields_end o0 ls = (if ls = [] then o0 else fl_Offset (last ls) + fl_Size (last ls))"

definition max_align :: "int \<Rightarrow> FieldLayout list \<Rightarrow> int" where
  "max_align a ls = foldl (\<lambda>m l. max m (fl_Align l)) a ls"

lemma SizeAlign_cases:
  obtains sz align where "SizeAlign t = Inr (sz, align)" "align \<in> {1, 2, 4, 8}" "align dvd sz" "0 < sz" "sz \<le> 16"
proof -
  have "SizeAlign t \<in> {Inr (1, 1), Inr (2, 2), Inr (4, 4), Inr (8, 8), Inr (16, 8)}"
    by (simp add: SizeAlign_def)
  with that show thesis by fastforce
qed

lemma compute_from_placed:
  "compute_from m o0 a fs =
     Inr \<lparr>rec_Fields = m ++ map_of (rev (zip (map fld_Name fs) (placed o0 fs))),
       rec_Size = AlignUp (fields_end o0 (placed o0 fs)) (max_align a (placed o0 fs)),
       rec_Align = max_align a (placed o0 fs)\<rparr>"
proof (induction fs arbitrary: m o0 a)
  case Nil
  then show ?case by (simp add: fields_end_def max_align_def)
next
  case (Cons f fs)
  obtain sz align where sa: "SizeAlign (fld_Type f) = Inr (sz, align)" by (rule SizeAlign_cases)
  have max: "(if align > a then align else a) = max a align" by simp
  show ?case
    unfolding compute_from.simps sa sum.case prod.case Let_def Cons.IH max
    by (simp add: sa Let_def max_align_def fields_end_def map_add_def fun_eq_iff split: option.split)
qed

lemma length_placed [simp]: "length (placed o0 fs) = length fs"
  by (induction fs arbitrary: o0) (auto simp: Let_def split: prod.split)

definition layout_ok :: "FieldLayout \<Rightarrow> bool" where
  "layout_ok l \<longleftrightarrow> fl_Align l \<in> {1, 2, 4, 8} \<and> fl_Align l dvd fl_Offset l \<and> 0 < fl_Size l"

lemma placed_ok:
  assumes "0 \<le> o0"
  shows "(\<forall>l \<in> set (placed o0 fs). layout_ok l \<and> o0 \<le> fl_Offset l \<and>
      fl_Offset l + fl_Size l \<le> fields_end o0 (placed o0 fs)) \<and>
    sorted_wrt (\<lambda>a b. fl_Offset a + fl_Size a \<le> fl_Offset b) (placed o0 fs) \<and>
    o0 \<le> fields_end o0 (placed o0 fs)"
  using assms
proof (induction fs arbitrary: o0)
  case Nil
  then show ?case by (simp add: fields_end_def)
next
  case (Cons f fs)
  obtain sz align where sa: "SizeAlign (fld_Type f) = Inr (sz, align)" "align \<in> {1, 2, 4, 8}" "0 < sz"
    by (rule SizeAlign_cases)
  let ?o = "AlignUp o0 align"
  have pos: "0 < align" using sa(2) by auto
  have o: "o0 \<le> ?o" "align dvd ?o" using AlignUp_nonneg [OF Cons.prems pos] by auto
  then have "0 \<le> ?o + sz" using Cons.prems sa(3) by linarith
  note IH = Cons.IH [OF this]
  have eq: "placed o0 (f # fs) = \<lparr>fl_Offset = ?o, fl_Size = sz, fl_Align = align\<rparr> # placed (?o + sz) fs"
    by (simp add: sa(1) Let_def)
  have "fields_end o0 (placed o0 (f # fs)) = fields_end (?o + sz) (placed (?o + sz) fs)"
    unfolding eq by (simp add: fields_end_def)
  then show ?case
    unfolding eq using IH sa o by (fastforce simp: layout_ok_def)
qed

lemma max_align_Cons: "max_align a (l # ls) = max_align (max a (fl_Align l)) ls"
  by (simp add: max_align_def)

lemma max_align_ok:
  assumes "\<forall>l \<in> set ls. fl_Align l \<in> {1, 2, 4, 8}" and "a \<in> {1, 2, 4, 8}"
  shows "max_align a ls \<in> {1, 2, 4, 8} \<and> a dvd max_align a ls \<and> (\<forall>l \<in> set ls. fl_Align l dvd max_align a ls)"
  using assms
proof (induction ls arbitrary: a)
  case Nil
  then show ?case by (simp add: max_align_def)
next
  case (Cons l ls)
  let ?m = "max a (fl_Align l)"
  have m: "?m \<in> {1, 2, 4, 8}" "a dvd ?m" "fl_Align l dvd ?m" using Cons.prems by auto
  from Cons.IH [OF _ m(1)] Cons.prems m(2,3) show ?case
    unfolding max_align_Cons by (auto intro: dvd_trans)
qed

text \<open>
  C18. \<open>Compute\<close> never fails, and for fields with different names the layout is sound: every field
  sits at a multiple of its alignment inside the record, the fields are in declaration order without
  sharing a byte, every alignment divides the record's alignment, and that divides the record's size,
  so that neighbouring records of an array keep all fields aligned.
\<close>

theorem Compute_layout:
  assumes "distinct (map fld_Name fds)"
  shows "\<exists>r ls. Compute fds = Inr r \<and> length ls = length fds \<and>
    (\<forall>i < length fds. rec_Fields r (fld_Name (fds ! i)) = Some (ls ! i) \<and>
       SizeAlign (fld_Type (fds ! i)) = Inr (fl_Size (ls ! i), fl_Align (ls ! i)) \<and>
       fl_Align (ls ! i) dvd fl_Offset (ls ! i) \<and> fl_Align (ls ! i) dvd rec_Align r \<and>
       0 \<le> fl_Offset (ls ! i) \<and> fl_Offset (ls ! i) + fl_Size (ls ! i) \<le> rec_Size r) \<and>
    (\<forall>i j. i < j \<and> j < length fds \<longrightarrow> fl_Offset (ls ! i) + fl_Size (ls ! i) \<le> fl_Offset (ls ! j)) \<and>
    rec_Align r dvd rec_Size r"
proof -
  let ?ls = "placed 0 fds" and ?r = "projr (Compute fds)"
  let ?a = "max_align 1 ?ls" and ?stop = "fields_end 0 ?ls"
  have r: "Compute fds = Inr \<lparr>rec_Fields = map_of (rev (zip (map fld_Name fds) ?ls)),
      rec_Size = AlignUp ?stop ?a, rec_Align = ?a\<rparr>"
    by (simp add: Compute_def compute_from_placed)
  note ok = placed_ok [OF order_refl, of fds]
  have al: "?a \<in> {1, 2, 4, 8}" "\<forall>l \<in> set ?ls. fl_Align l dvd ?a"
    using max_align_ok [of ?ls 1] ok by (auto simp: layout_ok_def)
  then have up: "?stop \<le> AlignUp ?stop ?a" "?a dvd AlignUp ?stop ?a"
    using AlignUp_nonneg [of ?stop ?a] ok by auto
  have size: "SizeAlign (fld_Type (fs ! i)) = Inr (fl_Size (placed o0 fs ! i), fl_Align (placed o0 fs ! i))"
    if "i < length fs" for i o0 fs
    using that
  proof (induction fs arbitrary: i o0)
    case (Cons f fs)
    obtain sz align where "SizeAlign (fld_Type f) = Inr (sz, align)" by (rule SizeAlign_cases)
    with Cons show ?case by (cases i) (auto simp: Let_def)
  qed simp
  have look: "map_of (rev (zip (map fld_Name fds) ?ls)) (fld_Name (fds ! i)) = Some (?ls ! i)"
    if "i < length fds" for i
  proof -
    have "distinct (map fst (rev (zip (map fld_Name fds) ?ls)))" using assms by (simp add: rev_map [symmetric])
    moreover have "(fld_Name (fds ! i), ?ls ! i) \<in> set (rev (zip (map fld_Name fds) ?ls))"
      using that by (auto simp: set_zip intro!: exI [of _ i])
    ultimately show ?thesis by (rule map_of_is_SomeI)
  qed
  have ord: "fl_Offset (?ls ! i) + fl_Size (?ls ! i) \<le> fl_Offset (?ls ! j)" if "i < j" "j < length fds" for i j
    using ok that by (simp add: sorted_wrt_iff_nth_less)
  show ?thesis
    by (rule exI [of _ "\<lparr>rec_Fields = map_of (rev (zip (map fld_Name fds) ?ls)),
        rec_Size = AlignUp ?stop ?a, rec_Align = ?a\<rparr>"], rule exI [of _ ?ls])
      (use r ok al up size [of _ fds 0] look ord in \<open>auto simp: layout_ok_def dest!: bspec [OF _ nth_mem]\<close>)
qed

theorem Compute_layout_witness:
  "\<exists>r. Compute [\<lparr>fld_Name = ''a'', fld_Type = ''U8''\<rparr>, \<lparr>fld_Name = ''b'', fld_Type = ''U64''\<rparr>] = Inr r \<and>
     rec_Size r = 16 \<and> rec_Align r dvd rec_Size r"
proof -
  let ?fds = "[\<lparr>fld_Name = ''a'', fld_Type = ''U8''\<rparr>, \<lparr>fld_Name = ''b'', fld_Type = ''U64''\<rparr>]"
  have "SizeAlign ''U8'' = Inr (1, 1)" "SizeAlign ''U64'' = Inr (8, 8)" by (simp_all add: SizeAlign_def)
  then have "\<exists>r. Compute ?fds = Inr r \<and> rec_Size r = 16"
    by (simp add: Compute_def AlignUp_def signed_modulo_int_def Let_def)
  then obtain r where r: "Compute ?fds = Inr r" "rec_Size r = 16" by (elim exE conjE)
  have "distinct (map fld_Name ?fds)" by simp
  from Compute_layout [OF this] r(1) have "rec_Align r dvd rec_Size r"
    by (elim exE conjE) (simp only: sum.inject)
  with r show ?thesis by (intro exI [of _ r] conjI)
qed

end
