(* ===== verification/Diagnostics.thy ===== *)
theory Diagnostics
  imports Wrela_Prelude "HOL-Library.Char_ord" "HOL-Library.List_Lexorder" "HOL-Library.Product_Lexorder"
    "HOL-Library.Multiset"
begin

text \<open>
  Diagnostics, \<open>compiler/diag/diag.go\<close>. Go compares strings byte by byte, which is the
  lexicographic order on character lists, and \<open>sort.SliceStable\<close> is a stable sort, as \<open>sort_key\<close> is.
  The lemmas show that the order of the comparison function is a total order on the six keys and
  that sorting keeps every diagnostic.
\<close>

type_synonym Severity = string

definition severity_Error :: Severity where "severity_Error = ''error''"
definition severity_Warning :: Severity where "severity_Warning = ''warning''"

record Diagnostic =
  diag_Phase :: string
  diag_Code :: string
  diag_Severity :: Severity
  diag_FilePath :: string
  diag_Start :: int
  diag_End :: int
  diag_Message :: string
  diag_Sequence :: int

text \<open>The less function of \<open>Sort\<close>.\<close>

definition diag_less :: "Diagnostic \<Rightarrow> Diagnostic \<Rightarrow> bool" where
  "diag_less a b =
     (if diag_Phase a \<noteq> diag_Phase b then diag_Phase a < diag_Phase b
      else if diag_FilePath a \<noteq> diag_FilePath b then diag_FilePath a < diag_FilePath b
      else if diag_Start a \<noteq> diag_Start b then diag_Start a < diag_Start b
      else if diag_End a \<noteq> diag_End b then diag_End a < diag_End b
      else if diag_Code a \<noteq> diag_Code b then diag_Code a < diag_Code b
      else diag_Sequence a < diag_Sequence b)"

definition diag_key :: "Diagnostic \<Rightarrow> string \<times> string \<times> int \<times> int \<times> string \<times> int" where
  "diag_key d = (diag_Phase d, diag_FilePath d, diag_Start d, diag_End d, diag_Code d, diag_Sequence d)"

definition Sort :: "Diagnostic list \<Rightarrow> Diagnostic list" where
  "Sort ds = sort_key diag_key ds"

lemma diag_less_key: "diag_less a b \<longleftrightarrow> diag_key a < diag_key b"
  by (auto simp: diag_less_def diag_key_def)

text \<open>Sorting rearranges the diagnostics, none precedes a smaller one, and ties keep their order.\<close>

lemma Sort_correct:
  "mset (Sort ds) = mset ds" "sorted_wrt (\<lambda>a b. \<not> diag_less b a) (Sort ds)"
  "filter (\<lambda>d. diag_key d = k) (Sort ds) = filter (\<lambda>d. diag_key d = k) ds"
proof -
  have "sorted (map diag_key (Sort ds))" by (simp add: Sort_def)
  then show "sorted_wrt (\<lambda>a b. \<not> diag_less b a) (Sort ds)"
    by (simp add: diag_less_key not_less sorted_wrt_map)
  show "filter (\<lambda>d. diag_key d = k) (Sort ds) = filter (\<lambda>d. diag_key d = k) ds"
    using sort_key_stable [of diag_key k ds] by (simp add: Sort_def)
qed (simp add: Sort_def)

text \<open>A diagnostic of the assembler: the other fields keep their zero values.\<close>

definition asm_diag :: "string \<Rightarrow> string \<Rightarrow> Diagnostic" where
  "asm_diag code msg = \<lparr>diag_Phase = ''asm'', diag_Code = code, diag_Severity = '''',
     diag_FilePath = '''', diag_Start = 0, diag_End = 0, diag_Message = msg, diag_Sequence = 0\<rparr>"

end
