(* ===== verification/Asm_Syntax.thy ===== *)
theory Asm_Syntax
  imports Wrela_Prelude
begin

text \<open>
  Registers and instructions of the assembler, \<open>compiler/asm/regs.go\<close> and \<open>compiler/asm/ast.go\<close>.
  The lemmas state what the encoder relies on about the register table.
\<close>

section \<open>Registers\<close>

record Reg =
  reg_Name :: string
  Width :: nat
  Low3 :: nat
  High :: bool
  REX :: bool
  Control :: bool
  Segment :: bool

definition zero_reg :: Reg where
  "zero_reg = \<lparr>reg_Name = '''', Width = 0, Low3 = 0, High = False, REX = False, Control = False, Segment = False\<rparr>"

definition add_reg :: "string \<Rightarrow> nat \<Rightarrow> nat \<Rightarrow> bool \<Rightarrow> bool \<Rightarrow> bool \<Rightarrow> string \<times> Reg" where
  "add_reg name width low3 high rex control =
     (name, \<lparr>reg_Name = name, Width = width, Low3 = low3, High = high, REX = rex, Control = control,
        Segment = False\<rparr>)"

definition add_segment :: "string \<Rightarrow> nat \<Rightarrow> string \<times> Reg" where
  "add_segment name low3 =
     (name, \<lparr>reg_Name = name, Width = 16, Low3 = low3, High = False, REX = False, Control = False,
        Segment = True\<rparr>)"

definition suffixFromWidth :: "nat \<Rightarrow> string" where
  "suffixFromWidth width =
     (if width = 64 then '''' else if width = 32 then ''d'' else if width = 16 then ''w''
      else if width = 8 then ''b'' else '''')"

definition regs :: "(string \<times> Reg) list" where
  "regs =
    [add_reg ''rax'' 64 0 False False False,
     add_reg ''eax'' 32 0 False False False,
     add_reg ''ax'' 16 0 False False False,
     add_reg ''al'' 8 0 False False False,
     add_reg ''ah'' 8 4 False False False,
     add_reg ''rcx'' 64 1 False False False,
     add_reg ''ecx'' 32 1 False False False,
     add_reg ''cx'' 16 1 False False False,
     add_reg ''cl'' 8 1 False False False,
     add_reg ''ch'' 8 5 False False False,
     add_reg ''rdx'' 64 2 False False False,
     add_reg ''edx'' 32 2 False False False,
     add_reg ''dx'' 16 2 False False False,
     add_reg ''dl'' 8 2 False False False,
     add_reg ''dh'' 8 6 False False False,
     add_reg ''rbx'' 64 3 False False False,
     add_reg ''ebx'' 32 3 False False False,
     add_reg ''bx'' 16 3 False False False,
     add_reg ''bl'' 8 3 False False False,
     add_reg ''rsp'' 64 4 False False False,
     add_reg ''esp'' 32 4 False False False,
     add_reg ''sp'' 16 4 False False False,
     add_reg ''spl'' 8 4 False True False,
     add_reg ''rbp'' 64 5 False False False,
     add_reg ''ebp'' 32 5 False False False,
     add_reg ''bp'' 16 5 False False False,
     add_reg ''bpl'' 8 5 False True False,
     add_reg ''rsi'' 64 6 False False False,
     add_reg ''esi'' 32 6 False False False,
     add_reg ''si'' 16 6 False False False,
     add_reg ''sil'' 8 6 False True False,
     add_reg ''rdi'' 64 7 False False False,
     add_reg ''edi'' 32 7 False False False,
     add_reg ''di'' 16 7 False False False,
     add_reg ''dil'' 8 7 False True False] @
    concat (map (\<lambda>w.
      [add_reg (''r8'' @ suffixFromWidth w) w 0 True False False,
       add_reg (''r9'' @ suffixFromWidth w) w 1 True False False,
       add_reg (''r10'' @ suffixFromWidth w) w 2 True False False,
       add_reg (''r11'' @ suffixFromWidth w) w 3 True False False,
       add_reg (''r12'' @ suffixFromWidth w) w 4 True False False,
       add_reg (''r13'' @ suffixFromWidth w) w 5 True False False,
       add_reg (''r14'' @ suffixFromWidth w) w 6 True False False,
       add_reg (''r15'' @ suffixFromWidth w) w 7 True False False]) [64, 32, 16, 8]) @
    [add_reg ''cr3'' 64 3 False False True,
     add_segment ''es'' 0,
     add_segment ''ss'' 2,
     add_segment ''ds'' 3,
     add_segment ''fs'' 4,
     add_segment ''gs'' 5]"

definition Lookup :: "string \<Rightarrow> Reg option" where
  "Lookup name = map_of regs name"

text \<open>\<open>MustLookup\<close> panics on an unknown name: the outer \<open>None\<close>.\<close>

definition MustLookup :: "string \<Rightarrow> Reg option" where
  "MustLookup name = Lookup name"

section \<open>Instructions\<close>

text \<open>
  An immediate and a displacement are signed 64-bit values; the encoder only takes bytes of them by
  arithmetic shifts, which \<open>drop_bit\<close> on integers is.
\<close>

datatype Operand =
    RegOperand Reg
  | ImmOperand int
  | LabelRef string
  | FieldOperand string string
  | ParamOperand string
  | MemOperand Reg int nat
  | FieldOffsetMemOperand Reg string string nat

record Instruction =
  Mnemonic :: string
  Operands :: "Operand list"
  Label :: string

text \<open>\<open>strings.ToLower\<close> on ASCII text.\<close>

definition lower_char :: "char \<Rightarrow> char" where
  "lower_char c = (if 65 \<le> (of_char c :: nat) \<and> (of_char c :: nat) \<le> 90 then char_of ((of_char c :: nat) + 32) else c)"

definition ToLower :: "string \<Rightarrow> string" where
  "ToLower s = map lower_char s"

section \<open>The register table\<close>

definition reg_shape :: "Reg \<Rightarrow> bool" where
  "reg_shape r \<longleftrightarrow> Width r \<in> {8, 16, 32, 64} \<and> Low3 r < 8 \<and> (REX r \<longrightarrow> Width r = 8 \<and> 4 \<le> Low3 r \<and> \<not> High r)"

lemma regs_distinct: "distinct (map fst regs)"
  by code_simp

lemma regs_shape: "list_all (\<lambda>(n, r). reg_shape r \<and> reg_Name r = n) regs"
  by code_simp

lemma Lookup_shape: "Lookup n = Some r \<Longrightarrow> reg_shape r \<and> reg_Name r = n"
  using regs_shape by (auto simp: Lookup_def list_all_iff dest!: map_of_SomeD)

end
