(* ===== verification/Asm_Encode.thy ===== *)
theory Asm_Encode
  imports Asm_Syntax Diagnostics
begin

text \<open>
  The x86-64 encoder, \<open>compiler/asm/encode.go\<close>: one definition per encoding routine, the dispatch
  over mnemonics and the two passes of \<open>encode\<close>. A routine that returns \<open>nil, false\<close> is \<open>None\<close>.
\<close>

unbundle bit_operations_syntax

section \<open>Prefixes and operand bytes\<close>

definition modrm :: "nat \<Rightarrow> nat \<Rightarrow> nat \<Rightarrow> byte" where
  "modrm md reg rm = of_nat (push_bit 6 md OR push_bit 3 reg OR rm)"

definition sib :: "nat \<Rightarrow> nat \<Rightarrow> nat \<Rightarrow> byte" where
  "sib scale index base = of_nat (push_bit 6 scale OR push_bit 3 index OR base)"

definition rexForOperand :: "bool \<Rightarrow> Reg \<Rightarrow> Reg \<Rightarrow> bytes" where
  "rexForOperand w reg rm =
     (if \<not> w \<and> \<not> High reg \<and> \<not> High rm \<and> \<not> REX reg \<and> \<not> REX rm then []
      else
        (let p0 = 0x40;
             p1 = (if w then p0 OR push_bit 3 1 else p0);
             p2 = (if High reg then p1 OR push_bit 2 1 else p1);
             p3 = (if High rm then p2 OR 1 else p2)
         in [p3]))"

definition defaultWidth :: "nat \<Rightarrow> nat \<Rightarrow> nat" where
  "defaultWidth a b = (if a \<noteq> 0 then a else b)"

text \<open>\<open>byte(value >> (8 * i))\<close>, and the first \<open>n\<close> such bytes.\<close>

definition byte_at :: "int \<Rightarrow> nat \<Rightarrow> byte" where
  "byte_at v i = of_int (drop_bit (8 * i) v)"

definition imm_bytes :: "nat \<Rightarrow> int \<Rightarrow> bytes" where
  "imm_bytes n v = map (byte_at v) [0..<n]"

definition encodeMemDisp :: "Reg \<Rightarrow> int \<Rightarrow> nat \<times> bytes" where
  "encodeMemDisp base disp =
     (if disp = 0 \<and> Low3 base \<noteq> 5 then (0, [])
      else if disp \<ge> -128 \<and> disp \<le> 127 then (1, imm_bytes 1 disp)
      else (2, imm_bytes 4 disp))"

definition encodeMemModRM :: "nat \<Rightarrow> Reg \<Rightarrow> int \<Rightarrow> bytes" where
  "encodeMemModRM regField base disp =
     (let (md, ds) = encodeMemDisp base disp; rm = Low3 base in
      if rm = 4 then [modrm md regField 4, sib 0 4 rm] @ ds
      else [modrm md regField rm] @ ds)"

section \<open>Moves\<close>

definition encodeMovSegmentReg :: "Reg \<Rightarrow> Reg \<Rightarrow> bytes option" where
  "encodeMovSegmentReg dst src =
     (if \<not> Segment dst \<or> ToLower (reg_Name src) \<noteq> ''ax'' then None
      else Some [0x8E, modrm 3 (Low3 dst) (Low3 src)])"

definition encodeMovRegReg :: "Reg \<Rightarrow> Reg \<Rightarrow> bytes option" where
  "encodeMovRegReg dst src =
     (let opcode = 0x8B; width = max (Width dst) (Width src); p = rexForOperand (width = 64) dst src in
      if width = 8 then Some (p @ [opcode - 1, modrm 3 (Low3 dst) (Low3 src)])
      else if width = 16 then Some ([0x66] @ p @ [opcode, modrm 3 (Low3 dst) (Low3 src)])
      else if width = 32 then Some (p @ [opcode, modrm 3 (Low3 dst) (Low3 src)])
      else if width = 64 then Some (p @ [opcode, modrm 3 (Low3 dst) (Low3 src)])
      else None)"

definition encodeMovRegControl :: "Reg \<Rightarrow> Reg \<Rightarrow> bytes option" where
  "encodeMovRegControl dst src =
     (if \<not> Control src then None else Some [0x0F, 0x20, modrm 3 (Low3 src) (Low3 dst)])"

definition encodeMovControlReg :: "Reg \<Rightarrow> Reg \<Rightarrow> bytes option" where
  "encodeMovControlReg dst src =
     (if \<not> Control dst then None else Some [0x0F, 0x22, modrm 3 (Low3 dst) (Low3 src)])"

definition encodeMovRegImm :: "Reg \<Rightarrow> int \<Rightarrow> bytes option" where
  "encodeMovRegImm dst value =
     (let width = Width dst in
      if width = 8 then
        Some (rexForOperand False zero_reg dst @ [0xB0 + of_nat (Low3 dst)] @ imm_bytes 1 value)
      else if width = 16 then
        Some ([0x66] @ rexForOperand False zero_reg dst @ [0xB8 + of_nat (Low3 dst)] @ imm_bytes 2 value)
      else if width = 32 then
        Some (rexForOperand False zero_reg dst @ [0xB8 + of_nat (Low3 dst)] @ imm_bytes 4 value)
      else if width = 64 then
        Some (rexForOperand True zero_reg dst @ [0xB8 + of_nat (Low3 dst)] @ imm_bytes 8 value)
      else None)"

definition encodeMovMemReg :: "Reg \<Rightarrow> int \<Rightarrow> nat \<Rightarrow> Reg \<Rightarrow> bytes option" where
  "encodeMovMemReg base disp memWidth reg =
     (let width = defaultWidth memWidth (Width reg); p = rexForOperand (width = 64) reg base;
          modrmBytes = encodeMemModRM (Low3 reg) base disp in
      if width = 8 then Some (p @ [0x88] @ modrmBytes)
      else if width = 16 then Some ([0x66] @ p @ [0x89] @ modrmBytes)
      else if width = 32 then Some (p @ [0x89] @ modrmBytes)
      else if width = 64 then Some (p @ [0x89] @ modrmBytes)
      else None)"

definition encodeMovRegMem :: "Reg \<Rightarrow> Reg \<Rightarrow> int \<Rightarrow> nat \<Rightarrow> bytes option" where
  "encodeMovRegMem reg base disp memWidth =
     (let width = defaultWidth memWidth (Width reg); p = rexForOperand (width = 64) reg base;
          modrmBytes = encodeMemModRM (Low3 reg) base disp in
      if width = 8 then Some (p @ [0x8A] @ modrmBytes)
      else if width = 16 then Some ([0x66] @ p @ [0x8B] @ modrmBytes)
      else if width = 32 then Some (p @ [0x8B] @ modrmBytes)
      else if width = 64 then Some (p @ [0x8B] @ modrmBytes)
      else None)"

definition encodeMovMemImm :: "Reg \<Rightarrow> int \<Rightarrow> nat \<Rightarrow> int \<Rightarrow> bytes option" where
  "encodeMovMemImm base disp memWidth value =
     (let width = defaultWidth memWidth 64; p = rexForOperand (width = 64) zero_reg base;
          modrmBytes = encodeMemModRM 0 base disp; imm32 = imm_bytes 4 value in
      if width = 8 then Some (p @ [0xC6] @ modrmBytes @ imm_bytes 1 value)
      else if width = 16 then Some ([0x66] @ p @ [0xC7] @ modrmBytes @ imm32)
      else if width = 32 then Some (p @ [0xC7] @ modrmBytes @ imm32)
      else if width = 64 then Some (p @ [0xC7] @ modrmBytes @ imm32)
      else None)"

definition encodeMov :: "Instruction \<Rightarrow> bytes option" where
  "encodeMov ins =
     (case Operands ins of
        [RegOperand dst, right] \<Rightarrow>
          (if Segment dst then
             (case right of RegOperand src \<Rightarrow> encodeMovSegmentReg dst src | _ \<Rightarrow> None)
           else if Control dst then
             (case right of RegOperand src \<Rightarrow> encodeMovControlReg dst src | _ \<Rightarrow> None)
           else
             (case right of
                RegOperand src \<Rightarrow>
                  if Control src then encodeMovRegControl dst src else encodeMovRegReg dst src
              | ImmOperand value \<Rightarrow> encodeMovRegImm dst value
              | MemOperand base disp width \<Rightarrow> encodeMovRegMem dst base disp width
              | _ \<Rightarrow> None))
      | [MemOperand base disp width, right] \<Rightarrow>
          (case right of
             RegOperand src \<Rightarrow> encodeMovMemReg base disp width src
           | ImmOperand value \<Rightarrow> encodeMovMemImm base disp width value
           | _ \<Rightarrow> None)
      | _ \<Rightarrow> None)"

section \<open>Arithmetic, stack and system instructions\<close>

definition encodeOut :: "Instruction \<Rightarrow> bytes option" where
  "encodeOut ins =
     (case Operands ins of
        [RegOperand a, RegOperand b] \<Rightarrow>
          (if ToLower (reg_Name a) = ''dx'' \<and> ToLower (reg_Name b) = ''al'' then Some [0xEE]
           else if ToLower (reg_Name a) = ''dx'' \<and> ToLower (reg_Name b) = ''ax'' then Some [0x66, 0xEF]
           else if ToLower (reg_Name a) = ''dx'' \<and> ToLower (reg_Name b) = ''eax'' then Some [0xEF]
           else None)
      | _ \<Rightarrow> None)"

definition encodeIn :: "Instruction \<Rightarrow> bytes option" where
  "encodeIn ins =
     (case Operands ins of
        [RegOperand a, RegOperand b] \<Rightarrow>
          (if ToLower (reg_Name a) = ''al'' \<and> ToLower (reg_Name b) = ''dx'' then Some [0xEC]
           else if ToLower (reg_Name a) = ''eax'' \<and> ToLower (reg_Name b) = ''dx'' then Some [0xED]
           else None)
      | _ \<Rightarrow> None)"

definition encodeBinaryImm :: "Instruction \<Rightarrow> nat \<Rightarrow> byte \<Rightarrow> byte \<Rightarrow> bytes option" where
  "encodeBinaryImm ins ext op8 op32 =
     (case Operands ins of
        [RegOperand reg, ImmOperand value] \<Rightarrow>
          (let width = Width reg;
               (opcode, emit) =
                 (if value \<ge> -128 \<and> value \<le> 127 then (op8, imm_bytes 1 value)
                  else if width = 16 then (op32, imm_bytes 2 value)
                  else (op32, imm_bytes 4 value));
               p = rexForOperand (width = 64) zero_reg reg;
               rest = [opcode, modrm 3 ext (Low3 reg)] @ emit in
           if width = 16 then Some (([0x66] @ p) @ rest)
           else if width = 32 then Some (p @ rest)
           else if width = 64 then Some (p @ rest)
           else None)
      | _ \<Rightarrow> None)"

definition encodeBinaryRegReg :: "Instruction \<Rightarrow> byte \<Rightarrow> bytes option" where
  "encodeBinaryRegReg ins opcode =
     (case Operands ins of
        [RegOperand dst, RegOperand src] \<Rightarrow>
          (let width = max (Width dst) (Width src); p = rexForOperand (width = 64) src dst in
           if width = 16 then Some ([0x66] @ p @ [opcode, modrm 3 (Low3 src) (Low3 dst)])
           else if width = 32 \<or> width = 64 then Some (p @ [opcode, modrm 3 (Low3 src) (Low3 dst)])
           else None)
      | _ \<Rightarrow> None)"

definition encodeBinaryRegMem :: "Instruction \<Rightarrow> byte \<Rightarrow> bytes option" where
  "encodeBinaryRegMem ins opcode =
     (case Operands ins of
        [RegOperand dst, MemOperand base disp memWidth] \<Rightarrow>
          (let width = defaultWidth memWidth (Width dst); p = rexForOperand (width = 64) dst base;
               modrmBytes = encodeMemModRM (Low3 dst) base disp in
           if width = 16 then Some ([0x66] @ p @ [opcode] @ modrmBytes)
           else if width = 32 \<or> width = 64 then Some (p @ [opcode] @ modrmBytes)
           else None)
      | _ \<Rightarrow> None)"

definition encodePushPop :: "Instruction \<Rightarrow> bool \<Rightarrow> bytes option" where
  "encodePushPop ins isPush =
     (case Operands ins of
        [ImmOperand value] \<Rightarrow>
          (if \<not> isPush \<or> value < -128 \<or> value > 127 then None else Some ([0x6A] @ imm_bytes 1 value))
      | [RegOperand reg] \<Rightarrow>
          (let p = rexForOperand False zero_reg reg in
           if isPush then Some (p @ [0x50 + of_nat (Low3 reg)])
           else Some (p @ [0x58 + of_nat (Low3 reg)]))
      | _ \<Rightarrow> None)"

definition encodeShiftImm :: "Instruction \<Rightarrow> nat \<Rightarrow> bytes option" where
  "encodeShiftImm ins ext =
     (case Operands ins of
        [RegOperand reg, ImmOperand value] \<Rightarrow>
          (if value < 0 \<or> value > 255 then None
           else
             (let width = Width reg; p = rexForOperand (width = 64) zero_reg reg;
                  rest = [0xC1, modrm 3 ext (Low3 reg)] @ imm_bytes 1 value in
              if width = 16 then Some (([0x66] @ p) @ rest)
              else if width = 32 \<or> width = 64 then Some (p @ rest)
              else None))
      | _ \<Rightarrow> None)"

definition encodeDesc :: "Instruction \<Rightarrow> nat \<Rightarrow> bytes option" where
  "encodeDesc ins regField =
     (case Operands ins of
        [MemOperand base disp width] \<Rightarrow>
          Some (rexForOperand (width = 64) zero_reg base @ [0x0F, 0x01] @ encodeMemModRM regField base disp)
      | _ \<Rightarrow> None)"

section \<open>Branches\<close>

record branchFixup =
  fx_mnemonic :: string
  relPos :: nat
  fx_target :: string
  nextPC :: nat

text \<open>Code and the fixups that it needs; the Go routines append to a list by reference.\<close>

type_synonym emitted = "bytes \<times> branchFixup list"

definition encodeNearBranch :: "Instruction \<Rightarrow> nat \<Rightarrow> nat \<Rightarrow> byte \<Rightarrow> bool \<Rightarrow> emitted option" where
  "encodeNearBranch ins start sz opcode cond =
     (case Operands ins of
        [LabelRef target] \<Rightarrow>
          (if cond
           then Some ([0x0F, opcode, 0, 0, 0, 0],
             [\<lparr>fx_mnemonic = Mnemonic ins, relPos = start + 2, fx_target = target, nextPC = start + sz\<rparr>])
           else Some ([opcode, 0, 0, 0, 0],
             [\<lparr>fx_mnemonic = Mnemonic ins, relPos = start + 1, fx_target = target, nextPC = start + sz\<rparr>]))
      | _ \<Rightarrow> None)"

definition encodeJmp :: "Instruction \<Rightarrow> nat \<Rightarrow> emitted option" where
  "encodeJmp ins start = encodeNearBranch ins start 5 0xE9 False"

definition encodeCall :: "Instruction \<Rightarrow> nat \<Rightarrow> emitted option" where
  "encodeCall ins start =
     (case Operands ins of
        [RegOperand reg] \<Rightarrow>
          Some (rexForOperand False zero_reg reg @ [0xFF, modrm 3 2 (Low3 reg)], [])
      | [MemOperand base disp width] \<Rightarrow>
          Some (rexForOperand False zero_reg base @ [0xFF] @ encodeMemModRM 2 base disp, [])
      | _ \<Rightarrow> encodeNearBranch ins start 5 0xE8 False)"

definition condOpcode :: "string \<rightharpoonup> byte" where
  "condOpcode = map_of
    [(''je'', 0x84), (''jne'', 0x85), (''jb'', 0x82), (''jbe'', 0x86),
     (''jl'', 0x8c), (''jle'', 0x8e), (''jg'', 0x8f), (''jge'', 0x8d)]"

definition encodeCondJmp :: "Instruction \<Rightarrow> nat \<Rightarrow> emitted option" where
  "encodeCondJmp ins start =
     (case condOpcode (ToLower (Mnemonic ins)) of
        None \<Rightarrow> None
      | Some opcode \<Rightarrow> encodeNearBranch ins start 6 opcode True)"

section \<open>The first pass\<close>

datatype encode_result = Emit emitted | Fail Diagnostic

text \<open>The result of a routine, or the diagnostic when no routine takes the operands.\<close>

fun emit_or :: "string \<Rightarrow> emitted option \<Rightarrow> encode_result" where
  "emit_or msg None = Fail (asm_diag ''ASM0002'' msg)"
| "emit_or msg (Some e) = Emit e"

definition plain :: "bytes option \<Rightarrow> emitted option" where
  "plain = map_option (\<lambda>bs. (bs, []))"

fun first_of :: "bytes option list \<Rightarrow> bytes option" where
  "first_of [] = None"
| "first_of (Some b # rs) = Some b"
| "first_of (None # rs) = first_of rs"

definition encode_instruction :: "Instruction \<Rightarrow> nat \<Rightarrow> encode_result" where
  "encode_instruction ins start =
     (let m = ToLower (Mnemonic ins) in
      if m = '''' then Emit ([], [])
      else if m = ''hlt'' then Emit ([0xF4], [])
      else if m = ''pause'' then Emit ([0xF3, 0x90], [])
      else if m = ''ret'' then Emit ([0xC3], [])
      else if m = ''retfq'' then Emit ([0x48, 0xCB], [])
      else if m = ''iretq'' then Emit ([0x48, 0xCF], [])
      else if m = ''cli'' then Emit ([0xFA], [])
      else if m = ''sti'' then Emit ([0xFB], [])
      else if m = ''out'' then emit_or ''unsupported out form'' (plain (encodeOut ins))
      else if m = ''in'' then emit_or ''unsupported in form'' (plain (encodeIn ins))
      else if m = ''mov'' then emit_or ''unsupported mov form'' (plain (encodeMov ins))
      else if m = ''add'' then
        emit_or ''unsupported add form'' (plain (first_of
          [encodeBinaryRegReg ins 0x01, encodeBinaryRegMem ins 0x03, encodeBinaryImm ins 0 0x83 0x81]))
      else if m = ''and'' then
        emit_or ''unsupported and form'' (plain (encodeBinaryRegReg ins 0x21))
      else if m = ''sub'' then
        emit_or ''unsupported sub form'' (plain (first_of
          [encodeBinaryRegMem ins 0x2B, encodeBinaryImm ins 5 0x83 0x81]))
      else if m = ''cmp'' then
        emit_or ''unsupported cmp form'' (plain (first_of
          [encodeBinaryRegReg ins 0x39, encodeBinaryRegMem ins 0x3B, encodeBinaryImm ins 7 0x83 0x81]))
      else if m = ''shr'' then emit_or ''unsupported shr form'' (plain (encodeShiftImm ins 5))
      else if m = ''call'' then emit_or ''unsupported call form'' (encodeCall ins start)
      else if m = ''jmp'' then emit_or ''unsupported jmp form'' (encodeJmp ins start)
      else if m \<in> {''je'', ''jne'', ''jb'', ''jbe'', ''jl'', ''jle'', ''jg'', ''jge''} then
        emit_or ''unsupported conditional branch form'' (encodeCondJmp ins start)
      else if m = ''push'' then emit_or ''unsupported push form'' (plain (encodePushPop ins True))
      else if m = ''pop'' then emit_or ''unsupported pop form'' (plain (encodePushPop ins False))
      else if m = ''lgdt'' then emit_or ''unsupported lgdt form'' (plain (encodeDesc ins 2))
      else if m = ''lidt'' then emit_or ''unsupported lidt form'' (plain (encodeDesc ins 3))
      else Fail (asm_diag ''ASM0001'' (''unknown instruction: '' @ Mnemonic ins)))"

record encoder =
  enc_out :: bytes
  enc_diags :: "Diagnostic list"
  enc_labels :: "string \<rightharpoonup> nat"
  enc_fixups :: "branchFixup list"

definition encode_step :: "encoder \<Rightarrow> Instruction \<Rightarrow> encoder" where
  "encode_step st ins =
     (let st1 = (if Label ins \<noteq> '''' then st\<lparr>enc_labels := (enc_labels st)(Label ins \<mapsto> length (enc_out st))\<rparr>
                 else st) in
      case encode_instruction ins (length (enc_out st)) of
        Emit (bs, fxs) \<Rightarrow> st1\<lparr>enc_out := enc_out st1 @ bs, enc_fixups := enc_fixups st1 @ fxs\<rparr>
      | Fail d \<Rightarrow> st1\<lparr>enc_diags := enc_diags st1 @ [d]\<rparr>)"

definition encode_pass :: "Instruction list \<Rightarrow> encoder" where
  "encode_pass inss = foldl encode_step
     \<lparr>enc_out = [], enc_diags = [], enc_labels = Map.empty, enc_fixups = []\<rparr> inss"

section \<open>The fixup pass\<close>

record ExternalCallReloc =
  rel_Offset :: u64
  rel_Symbol :: string

definition HasPrefix :: "string \<Rightarrow> string \<Rightarrow> bool" where
  "HasPrefix s p \<longleftrightarrow> take (length p) s = p"

definition isExternalCallBranch :: "branchFixup \<Rightarrow> bool" where
  "isExternalCallBranch fx \<longleftrightarrow>
     (let mnemonic = ToLower (fx_mnemonic fx)
      in (mnemonic = ''call'' \<or> mnemonic = ''jmp'') \<and> HasPrefix (fx_target fx) ''_wrela_'')"

text \<open>
  The message quotes the target with \<open>fmt\<close>'s \<open>%q\<close>, which for the targets of the parser (identifiers)
  puts double quotes around it.
\<close>

definition fix_step ::
  "bool \<Rightarrow> (string \<rightharpoonup> nat) \<Rightarrow> bytes \<times> ExternalCallReloc list \<times> Diagnostic list \<Rightarrow> branchFixup \<Rightarrow>
   bytes \<times> ExternalCallReloc list \<times> Diagnostic list" where
  "fix_step allowExternalCalls labels = (\<lambda>(out, relocs, diags) fx.
     case labels (fx_target fx) of
       None \<Rightarrow>
         (if allowExternalCalls \<and> isExternalCallBranch fx
          then (out, relocs @ [\<lparr>rel_Offset = of_nat (relPos fx), rel_Symbol = fx_target fx\<rparr>], diags)
          else (out, relocs, diags @ [asm_diag ''ASM0002'' (''unknown label: '' @ fx_target fx)]))
     | Some target \<Rightarrow>
         (let rel = int target - int (nextPC fx) in
          if rel < -0x80000000 \<or> rel > 0x7fffffff
          then (out, relocs,
            diags @ [asm_diag ''ASM0002'' (''branch out of range: '' @ [CHR 0x22] @ fx_target fx @ [CHR 0x22])])
          else (overwrite (relPos fx) (PutUint32 (of_int rel)) out, relocs, diags)))"

definition encode ::
  "Instruction list \<Rightarrow> bool \<Rightarrow> bytes \<times> ExternalCallReloc list \<times> Diagnostic list" where
  "encode inss allowExternalCalls =
     (let st = encode_pass inss
      in foldl (fix_step allowExternalCalls (enc_labels st)) (enc_out st, [], enc_diags st) (enc_fixups st))"

definition Encode :: "Instruction list \<Rightarrow> bytes \<times> Diagnostic list" where
  "Encode inss = (let (out, _, diags) = encode inss False in (out, diags))"

definition EncodeWithExternalCalls ::
  "Instruction list \<Rightarrow> bytes \<times> ExternalCallReloc list \<times> Diagnostic list" where
  "EncodeWithExternalCalls inss = encode inss True"

end
