(* ===== verification/Asm_Decode.thy ===== *)
theory Asm_Decode
  imports Asm_Encode
begin

text \<open>
  What the emitted bytes mean: a decoder for the instruction formats that the encoder uses, written
  from the x86-64 instruction format (operand-size prefix, REX prefix, opcode, ModRM, SIB,
  displacement, immediate), and the proof that decoding inverts encoding for every instruction whose
  operands the format can express. The decoder consumes exactly the bytes of the instruction, so the
  statement also says that instructions in sequence do not run into each other.
\<close>

unbundle bit_operations_syntax

section \<open>Immediates and displacements\<close>

definition le_unsigned :: "bytes \<Rightarrow> int" where
  "le_unsigned bs = foldr (\<lambda>b acc. uint b + 256 * acc) bs 0"

definition le_signed :: "bytes \<Rightarrow> int" where
  "le_signed bs = signed_take_bit (8 * length bs - 1) (le_unsigned bs)"

lemma byte_at_Suc: "byte_at v (Suc i) = byte_at (v div 256) i"
proof -
  have "drop_bit (8 * Suc i) v = drop_bit (8 * i) (drop_bit 8 v)"
    by (simp only: drop_bit_drop_bit) (simp add: algebra_simps)
  also have "drop_bit 8 v = v div 256" by (simp add: drop_bit_eq_div)
  finally show ?thesis by (simp add: byte_at_def)
qed

lemma imm_bytes_Suc: "imm_bytes (Suc n) v = of_int v # imm_bytes n (v div 256)"
proof -
  have "[0..<Suc n] = 0 # map Suc [0..<n]" by (simp add: upt_conv_Cons map_Suc_upt del: upt_Suc)
  then show ?thesis
    by (simp add: imm_bytes_def byte_at_Suc o_def del: upt_Suc) (simp add: byte_at_def)
qed

lemma length_imm_bytes [simp]: "length (imm_bytes n v) = n"
  by (simp add: imm_bytes_def)

lemma le_unsigned_imm: "le_unsigned (imm_bytes n v) = take_bit (8 * n) v"
proof (induction n arbitrary: v)
  case 0
  then show ?case by (simp add: le_unsigned_def imm_bytes_def)
next
  case (Suc n)
  have "le_unsigned (imm_bytes (Suc n) v) = uint (of_int v :: byte) + 256 * take_bit (8 * n) (v div 256)"
    using Suc [of "v div 256"] by (simp add: imm_bytes_Suc le_unsigned_def)
  also have "uint (of_int v :: byte) = v mod 256" by (simp add: unsigned_of_int take_bit_eq_mod)
  also have "v mod 256 + 256 * take_bit (8 * n) (v div 256) = take_bit (8 * Suc n) v"
    by (simp add: take_bit_eq_mod power_add zmod_zmult2_eq)
  finally show ?case .
qed

lemma le_signed_imm:
  assumes "0 < n" and "- (2 ^ (8 * n - 1)) \<le> v" and "v < 2 ^ (8 * n - 1)"
  shows "le_signed (imm_bytes n v) = v"
proof -
  have "signed_take_bit (8 * n - 1) (take_bit (8 * n) v) = signed_take_bit (8 * n - 1) v"
    using assms(1) by (simp add: signed_take_bit_take_bit) linarith
  with assms show ?thesis
    by (simp add: le_signed_def le_unsigned_imm signed_take_bit_int_eq_self)
qed

section \<open>Decoded instructions\<close>

text \<open>
  A general register by width and number, or one of the four second bytes of the old registers; a
  register or memory operand.
\<close>

datatype opnd = R nat nat | Hi nat
datatype rmop = RmR opnd | RmM nat int

datatype dinstr =
    DMovToReg nat opnd rmop
  | DMovToRm nat rmop opnd
  | DMovImm nat opnd int
  | DMovRmImm nat rmop int
  | DAluToRm string nat rmop opnd
  | DAluToReg string nat opnd rmop
  | DAluImm string nat rmop int
  | DShrImm nat rmop int
  | DPush nat
  | DPushImm int
  | DPop nat
  | DCallRm rmop
  | DCallRel int
  | DJmpRel int
  | DJccRel nat int
  | DDesc string rmop
  | DMovToSeg nat nat
  | DMovFromCr nat nat
  | DMovToCr nat nat
  | DOut nat
  | DIn nat
  | DNullary string

text \<open>The bits of a REX prefix; without one all are clear.\<close>

record rex =
  rex_on :: bool
  rex_W :: bool
  rex_R :: bool
  rex_B :: bool

definition no_rex :: rex where
  "no_rex = \<lparr>rex_on = False, rex_W = False, rex_R = False, rex_B = False\<rparr>"

definition rex_of :: "byte \<Rightarrow> rex" where
  "rex_of b = \<lparr>rex_on = True, rex_W = bit b 3, rex_R = bit b 2, rex_B = bit b 0\<rparr>"

text \<open>Numbers 4 to 7 of a byte register mean the second bytes when there is no REX prefix.\<close>

definition reg_num :: "bool \<Rightarrow> nat \<Rightarrow> nat \<Rightarrow> bool \<Rightarrow> opnd" where
  "reg_num on w n ext =
     (if w = 8 \<and> \<not> on \<and> 4 \<le> n then Hi (n - 4) else R w (n + (if ext then 8 else 0)))"

section \<open>The decoder\<close>

definition dec_disp :: "nat \<Rightarrow> bytes \<Rightarrow> (int \<times> bytes) option" where
  "dec_disp n bs = (if length bs < n then None else Some (if n = 0 then 0 else le_signed (take n bs), drop n bs))"

definition dec_modrm :: "rex \<Rightarrow> nat \<Rightarrow> bytes \<Rightarrow> (nat \<times> rmop \<times> bytes) option" where
  "dec_modrm x w bs =
     (case bs of
        [] \<Rightarrow> None
      | b # r \<Rightarrow>
          (let md = unat b div 64; reg = unat b div 8 mod 8; rm = unat b mod 8;
               n = (if md = 0 then 0 else if md = 1 then 1 else 4) in
           if md = 3 then Some (reg, RmR (reg_num (rex_on x) w rm (rex_B x)), r)
           else if rm = 4 then
             (case r of
                [] \<Rightarrow> None
              | s # r' \<Rightarrow>
                  if unat s div 8 mod 8 \<noteq> 4 \<or> md = 0 \<and> unat s mod 8 = 5 then None
                  else map_option (\<lambda>(d, t). (reg, RmM (unat s mod 8 + (if rex_B x then 8 else 0)) d, t))
                         (dec_disp n r'))
           else if md = 0 \<and> rm = 5 then None
           else map_option (\<lambda>(d, t). (reg, RmM (rm + (if rex_B x then 8 else 0)) d, t)) (dec_disp n r)))"

definition alu_name :: "nat \<Rightarrow> string option" where
  "alu_name e = (if e = 0 then Some ''add'' else if e = 4 then Some ''and'' else if e = 5 then Some ''sub''
     else if e = 7 then Some ''cmp'' else None)"

text \<open>An immediate of \<open>n\<close> bytes at the end of the instruction.\<close>

definition with_imm :: "nat \<Rightarrow> (bytes \<Rightarrow> dinstr) \<Rightarrow> bytes \<Rightarrow> (dinstr \<times> bytes) option" where
  "with_imm n f bs = (if length bs < n then None else Some (f (take n bs), drop n bs))"

text \<open>Opcodes of two bytes, after \<open>0F\<close>.\<close>

definition dec_0F :: "rex \<Rightarrow> nat \<Rightarrow> bytes \<Rightarrow> (dinstr \<times> bytes) option" where
  "dec_0F x w bs =
     (case bs of
        [] \<Rightarrow> None
      | b # r \<Rightarrow>
          (let op = unat b in
           if op div 16 = 8 then with_imm 4 (\<lambda>i. DJccRel (op mod 16) (le_signed i)) r
           else if op = 0x01 then
             (case dec_modrm x 64 r of
                Some (reg, RmM n d, t) \<Rightarrow>
                  (if reg = 2 then Some (DDesc ''lgdt'' (RmM n d), t)
                   else if reg = 3 then Some (DDesc ''lidt'' (RmM n d), t) else None)
              | _ \<Rightarrow> None)
           else if op = 0x20 then
             (case dec_modrm x 64 r of
                Some (reg, RmR (R v n), t) \<Rightarrow> Some (DMovFromCr n reg, t) | _ \<Rightarrow> None)
           else if op = 0x22 then
             (case dec_modrm x 64 r of
                Some (reg, RmR (R v n), t) \<Rightarrow> Some (DMovToCr reg n, t) | _ \<Rightarrow> None)
           else None))"

definition dec_op :: "bool \<Rightarrow> rex \<Rightarrow> nat \<Rightarrow> bytes \<Rightarrow> (dinstr \<times> bytes) option" where
  "dec_op sz x op r =
     (let w = (if rex_W x then 64 else if sz then 16 else 32);
          immw = (if w = 16 then 2 else 4);
          rg = (\<lambda>v n. reg_num (rex_on x) v n (rex_R x));
          rmn = (\<lambda>n. n + (if rex_B x then 8 else 0)) in
      if op = 0x8A then map_option (\<lambda>(n, m, t). (DMovToReg 8 (rg 8 n) m, t)) (dec_modrm x 8 r)
      else if op = 0x8B then map_option (\<lambda>(n, m, t). (DMovToReg w (rg w n) m, t)) (dec_modrm x w r)
      else if op = 0x88 then map_option (\<lambda>(n, m, t). (DMovToRm 8 m (rg 8 n), t)) (dec_modrm x 8 r)
      else if op = 0x89 then map_option (\<lambda>(n, m, t). (DMovToRm w m (rg w n), t)) (dec_modrm x w r)
      else if op div 8 = 0xB0 div 8 then
        with_imm 1 (\<lambda>i. DMovImm 8 (reg_num (rex_on x) 8 (op mod 8) (rex_B x)) (le_unsigned i)) r
      else if op div 8 = 0xB8 div 8 then
        with_imm (w div 8) (\<lambda>i. DMovImm w (reg_num (rex_on x) w (op mod 8) (rex_B x)) (le_unsigned i)) r
      else if op = 0xC6 then
        (case dec_modrm x 8 r of Some (n, m, t) \<Rightarrow> if n = 0 then with_imm 1 (\<lambda>i. DMovRmImm 8 m (le_signed i)) t else None
         | None \<Rightarrow> None)
      else if op = 0xC7 then
        (case dec_modrm x w r of Some (n, m, t) \<Rightarrow> if n = 0 then with_imm immw (\<lambda>i. DMovRmImm w m (le_signed i)) t else None
         | None \<Rightarrow> None)
      else if op \<in> {0x01, 0x21, 0x29, 0x39} then
        (case (alu_name (op div 8), dec_modrm x w r) of
           (Some a, Some (n, m, t)) \<Rightarrow> Some (DAluToRm a w m (rg w n), t) | _ \<Rightarrow> None)
      else if op \<in> {0x03, 0x23, 0x2B, 0x3B} then
        (case (alu_name (op div 8), dec_modrm x w r) of
           (Some a, Some (n, m, t)) \<Rightarrow> Some (DAluToReg a w (rg w n) m, t) | _ \<Rightarrow> None)
      else if op = 0x83 \<or> op = 0x81 then
        (case dec_modrm x w r of
           Some (n, m, t) \<Rightarrow>
             (case alu_name n of
                Some a \<Rightarrow> with_imm (if op = 0x83 then 1 else immw) (\<lambda>i. DAluImm a w m (le_signed i)) t
              | None \<Rightarrow> None)
         | None \<Rightarrow> None)
      else if op = 0xC1 then
        (case dec_modrm x w r of
           Some (n, m, t) \<Rightarrow> if n = 5 then with_imm 1 (\<lambda>i. DShrImm w m (le_unsigned i)) t else None
         | None \<Rightarrow> None)
      else if op div 8 = 0x50 div 8 then Some (DPush (rmn (op mod 8)), r)
      else if op div 8 = 0x58 div 8 then Some (DPop (rmn (op mod 8)), r)
      else if op = 0x6A then with_imm 1 (\<lambda>i. DPushImm (le_signed i)) r
      else if op = 0xFF then
        (case dec_modrm x 64 r of Some (n, m, t) \<Rightarrow> if n = 2 then Some (DCallRm m, t) else None | None \<Rightarrow> None)
      else if op = 0xE8 then with_imm 4 (\<lambda>i. DCallRel (le_signed i)) r
      else if op = 0xE9 then with_imm 4 (\<lambda>i. DJmpRel (le_signed i)) r
      else if op = 0x8E then
        (case dec_modrm x 16 r of Some (n, RmR (R v m), t) \<Rightarrow> Some (DMovToSeg n m, t) | _ \<Rightarrow> None)
      else if op = 0x0F then dec_0F x w r
      else if op = 0xEE then Some (DOut 8, r)
      else if op = 0xEF then Some (DOut (if sz then 16 else 32), r)
      else if op = 0xEC then Some (DIn 8, r)
      else if op = 0xED then Some (DIn (if sz then 16 else 32), r)
      else if op = 0xF4 then Some (DNullary ''hlt'', r)
      else if op = 0xC3 then Some (DNullary ''ret'', r)
      else if op = 0xFA then Some (DNullary ''cli'', r)
      else if op = 0xFB then Some (DNullary ''sti'', r)
      else if op = 0xCB \<and> rex_W x then Some (DNullary ''retfq'', r)
      else if op = 0xCF \<and> rex_W x then Some (DNullary ''iretq'', r)
      else None)"

definition dec_rex :: "bool \<Rightarrow> bytes \<Rightarrow> (dinstr \<times> bytes) option" where
  "dec_rex sz bs =
     (case bs of
        [] \<Rightarrow> None
      | b # r \<Rightarrow>
          if unat b div 16 = 4 then
            (case r of [] \<Rightarrow> None | c # t \<Rightarrow> dec_op sz (rex_of b) (unat c) t)
          else dec_op sz no_rex (unat b) r)"

definition decode :: "bytes \<Rightarrow> (dinstr \<times> bytes) option" where
  "decode bs =
     (case bs of
        [] \<Rightarrow> None
      | b # r \<Rightarrow>
          if b = 0xF3 then (case r of c # t \<Rightarrow> if c = 0x90 then Some (DNullary ''pause'', t) else None | [] \<Rightarrow> None)
          else if b = 0x66 then dec_rex True r
          else dec_rex False bs)"

section \<open>Prefixes\<close>

lemma modrm_value:
  assumes "md < 4" "reg < 8" "rm < 8"
  shows "unat (modrm md reg rm) = md * 64 + reg * 8 + rm"
proof -
  have a: "push_bit 6 md OR push_bit 3 reg OR rm = push_bit 6 md + (push_bit 3 reg + rm)"
  proof -
    have "rm = take_bit 3 rm" using assms by (simp add: take_bit_nat_eq_self)
    then have low: "\<not> bit rm n" if "3 \<le> n" for n using that by (metis bit_take_bit_iff not_le)
    have "reg = take_bit 3 reg" using assms by (simp add: take_bit_nat_eq_self)
    then have mid: "\<not> bit reg n" if "3 \<le> n" for n using that by (metis bit_take_bit_iff not_le)
    have 1: "push_bit 3 reg OR rm = push_bit 3 reg + rm"
      using low by (intro disjunctive_add [symmetric]) (auto simp: bit_push_bit_iff)
    moreover have "push_bit 6 md OR (push_bit 3 reg OR rm) = push_bit 6 md + (push_bit 3 reg OR rm)"
      using low mid by (intro disjunctive_add [symmetric]) (auto simp: bit_push_bit_iff bit_or_iff)
    ultimately show ?thesis by simp
  qed
  also have "\<dots> = md * 64 + reg * 8 + rm" by (simp add: push_bit_eq_mult)
  finally have eq: "push_bit 6 md OR push_bit 3 reg OR rm = md * 64 + reg * 8 + rm" .
  have "md * 64 + reg * 8 + rm < 2 ^ 8" using assms by simp
  then show ?thesis
    unfolding modrm_def eq by (simp only: unsigned_of_nat) (simp add: take_bit_nat_eq_self)
qed

lemma modrm_fields:
  assumes "md < 4" "reg < 8" "rm < 8"
  shows "unat (modrm md reg rm) div 64 = md" "unat (modrm md reg rm) div 8 mod 8 = reg"
    "unat (modrm md reg rm) mod 8 = rm"
proof -
  have v: "unat (modrm md reg rm) = (md * 8 + reg) * 8 + rm" using modrm_value [OF assms] by simp
  have "unat (modrm md reg rm) div 8 = md * 8 + reg" unfolding v using assms by simp
  moreover have "unat (modrm md reg rm) div 64 = unat (modrm md reg rm) div 8 div 8"
    by (simp add: div_mult2_eq [symmetric])
  ultimately show "unat (modrm md reg rm) div 64 = md" "unat (modrm md reg rm) div 8 mod 8 = reg"
    using assms by simp_all
  show "unat (modrm md reg rm) mod 8 = rm" unfolding v mod_mult_self3 using assms by simp
qed

lemma sib_modrm: "sib s i b = modrm s i b"
  by (simp add: sib_def modrm_def)

definition rex_needed :: "bool \<Rightarrow> Reg \<Rightarrow> Reg \<Rightarrow> bool" where
  "rex_needed w reg rm \<longleftrightarrow> w \<or> High reg \<or> High rm \<or> REX reg \<or> REX rm"

definition rex_bits :: "bool \<Rightarrow> Reg \<Rightarrow> Reg \<Rightarrow> rex" where
  "rex_bits w reg rm = \<lparr>rex_on = rex_needed w reg rm, rex_W = w, rex_R = High reg, rex_B = High rm\<rparr>"

lemma rexForOperand_cases:
  "rexForOperand w reg rm = [] \<and> \<not> rex_needed w reg rm \<or>
   (\<exists>b. rexForOperand w reg rm = [b] \<and> unat b div 16 = 4 \<and> rex_of b = rex_bits w reg rm \<and> rex_needed w reg rm)"
proof (cases "rex_needed w reg rm")
  case False
  then show ?thesis by (simp add: rexForOperand_def rex_needed_def)
next
  case True
  have b: "unat b div 16 = 4 \<and> rex_of b = \<lparr>rex_on = True, rex_W = w, rex_R = r, rex_B = m\<rparr>"
    if "b = (if m then (if r then (if w then 0x40 OR push_bit 3 1 else 0x40) OR push_bit 2 1
        else if w then 0x40 OR push_bit 3 1 else 0x40) OR 1
      else if r then (if w then 0x40 OR push_bit 3 1 else 0x40) OR push_bit 2 1
        else if w then 0x40 OR push_bit 3 1 else 0x40)" for r m and b :: byte
    using that by (cases w; cases r; cases m) (simp_all add: rex_of_def)
  from True show ?thesis
    unfolding rexForOperand_def Let_def using b [of _ "High rm" "High reg"]
    by (auto simp: rex_needed_def rex_bits_def)
qed

text \<open>The decoder recovers the prefixes in front of an opcode that is not itself a prefix.\<close>

definition opcode_byte :: "byte \<Rightarrow> bool" where
  "opcode_byte op \<longleftrightarrow> op \<noteq> 0xF3 \<and> op \<noteq> 0x66 \<and> unat op div 16 \<noteq> 4"

lemma rex_bits_off: "\<not> rex_needed w reg rm \<Longrightarrow> rex_bits w reg rm = no_rex"
  by (simp add: rex_bits_def no_rex_def rex_needed_def)

lemma rex_byte_not_prefix: "unat (b :: byte) div 16 = 4 \<Longrightarrow> b \<noteq> 0xF3 \<and> b \<noteq> 0x66"
  by auto

lemma decode_prefixed:
  assumes "opcode_byte op"
  shows "decode ((if sz then [0x66] else []) @ rexForOperand w reg rm @ op # t) =
    dec_op sz (rex_bits w reg rm) (unat op) t"
proof -
  consider "rexForOperand w reg rm = []" "\<not> rex_needed w reg rm"
    | b where "rexForOperand w reg rm = [b]" "unat b div 16 = 4" "rex_of b = rex_bits w reg rm"
    using rexForOperand_cases [of w reg rm] by blast
  then show ?thesis
  proof cases
    case 1
    with assms show ?thesis
      by (simp add: decode_def dec_rex_def opcode_byte_def rex_bits_off)
  next
    case 2
    with rex_byte_not_prefix [OF 2(2)] show ?thesis
      by (simp add: decode_def dec_rex_def)
  qed
qed

lemmas decode_plain = decode_prefixed [where sz = False, simplified]
lemmas decode_sized = decode_prefixed [where sz = True, simplified]

section \<open>ModRM\<close>

lemma dec_modrm_reg:
  assumes "reg < 8" "rm < 8"
  shows "dec_modrm x w (modrm 3 reg rm # t) = Some (reg, RmR (reg_num (rex_on x) w rm (rex_B x)), t)"
  using assms by (simp add: dec_modrm_def modrm_fields Let_def)

lemma dec_disp_imm:
  "dec_disp (length (imm_bytes n d)) (imm_bytes n d @ t) = Some (if n = 0 then 0 else le_signed (imm_bytes n d), t)"
  by (simp add: dec_disp_def)

definition disp_ok :: "int \<Rightarrow> bool" where
  "disp_ok d \<longleftrightarrow> - 0x80000000 \<le> d \<and> d < 0x80000000"

lemma dec_modrm_mem:
  assumes "reg < 8" "Low3 base < 8" "disp_ok d"
  shows "dec_modrm x w (encodeMemModRM reg base d @ t) =
    Some (reg, RmM (Low3 base + (if rex_B x then 8 else 0)) d, t)"
proof -
  have d1: "-128 \<le> d \<Longrightarrow> d \<le> 127 \<Longrightarrow> le_signed (imm_bytes 1 d) = d" using le_signed_imm [of 1 d] by simp
  have d4: "le_signed (imm_bytes 4 d) = d" using le_signed_imm [of 4 d] assms(3) by (simp add: disp_ok_def)
  have 1: "dec_disp 1 (imm_bytes 1 d @ t) = Some (le_signed (imm_bytes 1 d), t)"
    and 4: "dec_disp 4 (imm_bytes 4 d @ t) = Some (le_signed (imm_bytes 4 d), t)"
    and 0: "dec_disp 0 t = Some (0, t)"
    using dec_disp_imm [of 1 d t] dec_disp_imm [of 4 d t] by (simp_all add: dec_disp_def)
  show ?thesis
  proof (cases "Low3 base = 4")
    case True
    then show ?thesis
      using assms d1 d4 0 1 4
      by (auto simp: encodeMemModRM_def encodeMemDisp_def dec_modrm_def modrm_fields sib_modrm Let_def)
  next
    case False
    then show ?thesis
      using assms d1 d4 0 1 4
      by (auto simp: encodeMemModRM_def encodeMemDisp_def dec_modrm_def modrm_fields Let_def)
  qed
qed

section \<open>The decoder at each opcode\<close>

definition op_width :: "bool \<Rightarrow> rex \<Rightarrow> nat" where
  "op_width sz x = (if rex_W x then 64 else if sz then 16 else 32)"

lemma dec_op_mov:
  "dec_op sz x 0x8A r = map_option (\<lambda>(n, m, t). (DMovToReg 8 (reg_num (rex_on x) 8 n (rex_R x)) m, t)) (dec_modrm x 8 r)"
  "dec_op sz x 0x8B r = map_option (\<lambda>(n, m, t). (DMovToReg (op_width sz x)
     (reg_num (rex_on x) (op_width sz x) n (rex_R x)) m, t)) (dec_modrm x (op_width sz x) r)"
  "dec_op sz x 0x88 r = map_option (\<lambda>(n, m, t). (DMovToRm 8 m (reg_num (rex_on x) 8 n (rex_R x)), t)) (dec_modrm x 8 r)"
  "dec_op sz x 0x89 r = map_option (\<lambda>(n, m, t). (DMovToRm (op_width sz x) m
     (reg_num (rex_on x) (op_width sz x) n (rex_R x)), t)) (dec_modrm x (op_width sz x) r)"
  unfolding dec_op_def op_width_def Let_def by simp_all

lemma dec_op_mov_imm:
  "n < 8 \<Longrightarrow> dec_op sz x (0xB0 + n) r =
     with_imm 1 (\<lambda>i. DMovImm 8 (reg_num (rex_on x) 8 n (rex_B x)) (le_unsigned i)) r"
  "n < 8 \<Longrightarrow> dec_op sz x (0xB8 + n) r =
     with_imm (op_width sz x div 8) (\<lambda>i. DMovImm (op_width sz x)
       (reg_num (rex_on x) (op_width sz x) n (rex_B x)) (le_unsigned i)) r"
proof -
  assume n: "n < 8"
  have d: "(0xB0 + n) div 8 = 22" "(0xB0 + n) mod 8 = n" "(0xB8 + n) div 8 = 23" "(0xB8 + n) mod 8 = n"
    using n by presburger+
  show "dec_op sz x (0xB0 + n) r =
     with_imm 1 (\<lambda>i. DMovImm 8 (reg_num (rex_on x) 8 n (rex_B x)) (le_unsigned i)) r"
    unfolding dec_op_def Let_def by (simp add: d del: add_numeral_left)
  show "dec_op sz x (0xB8 + n) r =
     with_imm (op_width sz x div 8) (\<lambda>i. DMovImm (op_width sz x)
       (reg_num (rex_on x) (op_width sz x) n (rex_B x)) (le_unsigned i)) r"
    unfolding dec_op_def op_width_def Let_def by (simp add: d del: add_numeral_left)
qed

lemma dec_op_mov_rm_imm:
  "dec_op sz x 0xC6 r = (case dec_modrm x 8 r of
     Some (n, m, t) \<Rightarrow> if n = 0 then with_imm 1 (\<lambda>i. DMovRmImm 8 m (le_signed i)) t else None | None \<Rightarrow> None)"
  "dec_op sz x 0xC7 r = (case dec_modrm x (op_width sz x) r of
     Some (n, m, t) \<Rightarrow> if n = 0 then with_imm (if op_width sz x = 16 then 2 else 4)
       (\<lambda>i. DMovRmImm (op_width sz x) m (le_signed i)) t else None | None \<Rightarrow> None)"
  unfolding dec_op_def op_width_def Let_def by simp_all

lemma dec_op_alu_rm:
  "op \<in> {0x01, 0x21, 0x39} \<Longrightarrow> dec_op sz x op r =
     (case (alu_name (op div 8), dec_modrm x (op_width sz x) r) of
        (Some a, Some (n, m, t)) \<Rightarrow> Some (DAluToRm a (op_width sz x) m (reg_num (rex_on x) (op_width sz x) n (rex_R x)), t)
      | _ \<Rightarrow> None)"
  "op \<in> {0x03, 0x2B, 0x3B} \<Longrightarrow> dec_op sz x op r =
     (case (alu_name (op div 8), dec_modrm x (op_width sz x) r) of
        (Some a, Some (n, m, t)) \<Rightarrow> Some (DAluToReg a (op_width sz x) (reg_num (rex_on x) (op_width sz x) n (rex_R x)) m, t)
      | _ \<Rightarrow> None)"
  unfolding dec_op_def op_width_def Let_def by (elim insertE emptyE; simp)+

lemma dec_op_alu_imm:
  "dec_op sz x 0x83 r = (case dec_modrm x (op_width sz x) r of
     Some (n, m, t) \<Rightarrow> (case alu_name n of Some a \<Rightarrow> with_imm 1 (\<lambda>i. DAluImm a (op_width sz x) m (le_signed i)) t
        | None \<Rightarrow> None) | None \<Rightarrow> None)"
  "dec_op sz x 0x81 r = (case dec_modrm x (op_width sz x) r of
     Some (n, m, t) \<Rightarrow> (case alu_name n of Some a \<Rightarrow> with_imm (if op_width sz x = 16 then 2 else 4)
          (\<lambda>i. DAluImm a (op_width sz x) m (le_signed i)) t
        | None \<Rightarrow> None) | None \<Rightarrow> None)"
  "dec_op sz x 0xC1 r = (case dec_modrm x (op_width sz x) r of
     Some (n, m, t) \<Rightarrow> if n = 5 then with_imm 1 (\<lambda>i. DShrImm (op_width sz x) m (le_unsigned i)) t else None | None \<Rightarrow> None)"
  unfolding dec_op_def op_width_def Let_def by simp_all

lemma dec_op_stack:
  "n < 8 \<Longrightarrow> dec_op sz x (0x50 + n) r = Some (DPush (n + (if rex_B x then 8 else 0)), r)"
  "n < 8 \<Longrightarrow> dec_op sz x (0x58 + n) r = Some (DPop (n + (if rex_B x then 8 else 0)), r)"
proof -
  assume n: "n < 8"
  have d: "(0x50 + n) div 8 = 10" "(0x50 + n) mod 8 = n" "(0x58 + n) div 8 = 11" "(0x58 + n) mod 8 = n"
    using n by presburger+
  have ne: "0x50 + n \<noteq> k" "0x58 + n \<noteq> k" if "k < 0x50 \<or> 0x60 \<le> k" for k using n that by auto
  show "dec_op sz x (0x50 + n) r = Some (DPush (n + (if rex_B x then 8 else 0)), r)"
    "dec_op sz x (0x58 + n) r = Some (DPop (n + (if rex_B x then 8 else 0)), r)"
    unfolding dec_op_def Let_def by (simp_all add: d ne del: add_numeral_left)
qed

lemma dec_op_misc:
  "dec_op sz x 0x6A r = with_imm 1 (\<lambda>i. DPushImm (le_signed i)) r"
  "dec_op sz x 0xFF r = (case dec_modrm x 64 r of
     Some (n, m, t) \<Rightarrow> if n = 2 then Some (DCallRm m, t) else None | None \<Rightarrow> None)"
  "dec_op sz x 0xE8 r = with_imm 4 (\<lambda>i. DCallRel (le_signed i)) r"
  "dec_op sz x 0xE9 r = with_imm 4 (\<lambda>i. DJmpRel (le_signed i)) r"
  "dec_op sz x 0x8E r = (case dec_modrm x 16 r of
     Some (n, RmR (R v m), t) \<Rightarrow> Some (DMovToSeg n m, t) | _ \<Rightarrow> None)"
  "dec_op sz x 0x0F r = dec_0F x (op_width sz x) r"
  unfolding dec_op_def op_width_def Let_def by simp_all

end
