(* ===== verification/Asm_Roundtrip.thy ===== *)
theory Asm_Roundtrip
  imports Asm_Decode
begin

text \<open>
  The instructions whose operands the instruction formats can express, what they mean, and the
  proof that the encoder emits bytes with exactly that meaning.
\<close>

section \<open>Operands that the format can express\<close>

definition gp :: "Reg \<Rightarrow> bool" where
  "gp r \<longleftrightarrow> reg_shape r \<and> \<not> Control r \<and> \<not> Segment r"

definition hi8 :: "Reg \<Rightarrow> bool" where
  "hi8 r \<longleftrightarrow> Width r = 8 \<and> 4 \<le> Low3 r \<and> \<not> High r \<and> \<not> REX r"

definition number :: "Reg \<Rightarrow> nat" where
  "number r = Low3 r + (if High r then 8 else 0)"

definition reg_opnd :: "Reg \<Rightarrow> opnd" where
  "reg_opnd r = (if hi8 r then Hi (Low3 r - 4) else R (Width r) (number r))"

text \<open>No second-byte register together with a register that needs a REX prefix.\<close>

definition byte_ok :: "Reg \<Rightarrow> Reg \<Rightarrow> bool" where
  "byte_ok a b \<longleftrightarrow> \<not> ((hi8 a \<or> hi8 b) \<and> (High a \<or> High b \<or> REX a \<or> REX b))"

definition base_ok :: "Reg \<Rightarrow> int \<Rightarrow> bool" where
  "base_ok b d \<longleftrightarrow> gp b \<and> Width b = 64 \<and> disp_ok d"

lemma gp_shape: "gp r \<Longrightarrow> Width r \<in> {8, 16, 32, 64} \<and> Low3 r < 8"
  by (auto simp: gp_def reg_shape_def)

lemma reg_num_opnd:
  assumes "gp r" and "w \<longrightarrow> Width r \<noteq> 8" and "byte_ok a b" and "r = a \<or> r = b"
  shows "reg_num (rex_needed w a b) (Width r) (Low3 r) (High r) = reg_opnd r"
  using assms by (auto simp: reg_num_def reg_opnd_def number_def hi8_def byte_ok_def rex_needed_def gp_def reg_shape_def)

lemma byte_ok_wide: "gp a \<Longrightarrow> gp b \<Longrightarrow> Width a \<noteq> 8 \<Longrightarrow> Width b \<noteq> 8 \<Longrightarrow> byte_ok a b"
  by (auto simp: byte_ok_def hi8_def)

lemma zero_reg_simps [simp]:
  "High zero_reg = False" "REX zero_reg = False" "Width zero_reg = 0" "hi8 zero_reg = False"
  by (simp_all add: zero_reg_def hi8_def)

lemma rex_bits_simps [simp]:
  "rex_on (rex_bits w a b) = rex_needed w a b" "rex_W (rex_bits w a b) = w"
  "rex_R (rex_bits w a b) = High a" "rex_B (rex_bits w a b) = High b"
  "op_width sz (rex_bits w a b) = (if w then 64 else if sz then 16 else 32)"
  by (simp_all add: rex_bits_def op_width_def)

lemma opcode_bytes [simp]:
  "opcode_byte 0x8A" "opcode_byte 0x8B" "opcode_byte 0x88" "opcode_byte 0x89" "opcode_byte 0xC6"
  "opcode_byte 0xC7" "opcode_byte 0x01" "opcode_byte 0x21" "opcode_byte 0x39" "opcode_byte 0x03"
  "opcode_byte 0x2B" "opcode_byte 0x3B" "opcode_byte 0x83" "opcode_byte 0x81" "opcode_byte 0xC1"
  "opcode_byte 0xFF" "opcode_byte 0x0F" "opcode_byte 0x6A" "opcode_byte 1" "opcode_byte 3" "opcode_byte 0x0F"
  by (simp_all add: opcode_byte_def)

lemma opcode_plus:
  assumes "n < 8"
  shows "unat (0xB0 + of_nat n :: byte) = 0xB0 + n" "opcode_byte (0xB0 + of_nat n)"
    "unat (0xB8 + of_nat n :: byte) = 0xB8 + n" "opcode_byte (0xB8 + of_nat n)"
    "unat (0x50 + of_nat n :: byte) = 0x50 + n" "opcode_byte (0x50 + of_nat n)"
    "unat (0x58 + of_nat n :: byte) = 0x58 + n" "opcode_byte (0x58 + of_nat n)"
proof -
  have n: "n \<in> {0, 1, 2, 3, 4, 5, 6, 7}" using assms by auto
  show "unat (0xB0 + of_nat n :: byte) = 0xB0 + n" "opcode_byte (0xB0 + of_nat n)"
    "unat (0xB8 + of_nat n :: byte) = 0xB8 + n" "opcode_byte (0xB8 + of_nat n)"
    "unat (0x50 + of_nat n :: byte) = 0x50 + n" "opcode_byte (0x50 + of_nat n)"
    "unat (0x58 + of_nat n :: byte) = 0x58 + n" "opcode_byte (0x58 + of_nat n)"
    using n by (elim insertE emptyE; simp add: opcode_byte_def)+
qed

lemma with_imm_bytes [simp]: "with_imm n f (imm_bytes n v @ t) = Some (f (imm_bytes n v), t)"
  by (simp add: with_imm_def)

section \<open>Moves\<close>

definition emits :: "bytes option \<Rightarrow> dinstr \<Rightarrow> bool" where
  "emits e d \<longleftrightarrow> (\<exists>bs. e = Some bs \<and> (\<forall>t. decode (bs @ t) = Some (d, t)))"

lemma movRegReg:
  assumes "gp a" "gp b" "Width a = Width b" "byte_ok a b"
  shows "emits (encodeMovRegReg a b) (DMovToReg (Width a) (reg_opnd a) (RmR (reg_opnd b)))"
proof -
  have low: "Low3 a < 8" "Low3 b < 8" and w: "Width a \<in> {8, 16, 32, 64}" using assms gp_shape by auto
  note num = reg_num_opnd [OF assms(1) _ assms(4)] reg_num_opnd [OF assms(2) _ assms(4)]
  from w show ?thesis
    using num [of "Width a = 64"] assms(3)
    by (elim insertE emptyE)
      (simp_all add: emits_def encodeMovRegReg_def Let_def decode_plain decode_sized dec_op_mov dec_modrm_reg low)
qed

lemma movRegMem:
  assumes "gp a" "base_ok b d" "w = 0 \<or> w = Width a" "\<not> (hi8 a \<and> High b)"
  shows "emits (encodeMovRegMem a b d w) (DMovToReg (Width a) (reg_opnd a) (RmM (number b) d))"
    and "emits (encodeMovMemReg b d w a) (DMovToRm (Width a) (RmM (number b) d) (reg_opnd a))"
proof -
  have low: "Low3 a < 8" "Low3 b < 8" and w: "Width a \<in> {8, 16, 32, 64}" and d: "disp_ok d"
    using assms gp_shape by (auto simp: base_ok_def)
  have ok: "byte_ok a b" using assms by (auto simp: byte_ok_def base_ok_def hi8_def gp_def reg_shape_def)
  note num = reg_num_opnd [OF assms(1) _ ok, of "Width a = 64"]
  have dw: "defaultWidth w (Width a) = Width a" using assms(3) by (auto simp: defaultWidth_def)
  have b: "Low3 b + (if High b then 8 else 0) = number b" by (simp add: number_def)
  from w show "emits (encodeMovRegMem a b d w) (DMovToReg (Width a) (reg_opnd a) (RmM (number b) d))"
    unfolding emits_def encodeMovRegMem_def Let_def dw using num
    by (elim insertE emptyE)
      (simp_all add: decode_plain decode_sized dec_op_mov dec_modrm_mem low d b)
  from w show "emits (encodeMovMemReg b d w a) (DMovToRm (Width a) (RmM (number b) d) (reg_opnd a))"
    unfolding emits_def encodeMovMemReg_def Let_def dw using num
    by (elim insertE emptyE)
      (simp_all add: decode_plain decode_sized dec_op_mov dec_modrm_mem low d b)
qed

lemma movRegImm:
  assumes "gp a"
  shows "emits (encodeMovRegImm a v) (DMovImm (Width a) (reg_opnd a) (v mod 2 ^ Width a))"
proof -
  have low: "Low3 a < 8" and w: "Width a \<in> {8, 16, 32, 64}" using assms gp_shape by auto
  have ok: "byte_ok zero_reg a" using assms by (auto simp: byte_ok_def hi8_def)
  note num = reg_num_opnd [OF assms _ ok, of "Width a = 64"]
  note bytes = opcode_plus [OF low] dec_op_mov_imm [OF low] le_unsigned_imm [of _ v]
  from w show ?thesis
    unfolding emits_def encodeMovRegImm_def Let_def using num
    by (elim insertE emptyE)
      (simp_all add: decode_plain decode_sized bytes take_bit_eq_mod)
qed

lemma movMemImm:
  assumes "base_ok b d" and "w \<in> {0, 8, 32, 64}" and "if w = 8 then -128 \<le> v \<and> v < 128 else disp_ok v"
  shows "emits (encodeMovMemImm b d w v) (DMovRmImm (if w = 0 then 64 else w) (RmM (number b) d) v)"
proof -
  have low: "Low3 b < 8" and d: "disp_ok d" using assms gp_shape by (auto simp: base_ok_def)
  have b: "Low3 b + (if High b then 8 else 0) = number b" by (simp add: number_def)
  have v1: "w = 8 \<Longrightarrow> le_signed (imm_bytes 1 v) = v" using le_signed_imm [of 1 v] assms(3) by simp
  have v4: "w \<noteq> 8 \<Longrightarrow> le_signed (imm_bytes 4 v) = v" using le_signed_imm [of 4 v] assms(3) by (simp add: disp_ok_def)
  from assms(2) show ?thesis
    unfolding emits_def encodeMovMemImm_def Let_def using v1 v4
    by (elim insertE emptyE)
      (simp_all add: defaultWidth_def decode_plain decode_sized dec_op_mov_rm_imm dec_modrm_mem low d b)
qed

section \<open>Arithmetic\<close>

lemma binaryRegReg:
  assumes "gp a" "gp b" "Width a = Width b" "Width a \<noteq> 8" "op \<in> {0x01, 0x21, 0x39}" "alu_name (unat op div 8) = Some nm"
    "Operands ins = [RegOperand a, RegOperand b]"
  shows "emits (encodeBinaryRegReg ins op) (DAluToRm nm (Width a) (RmR (reg_opnd a)) (reg_opnd b))"
proof -
  have low: "Low3 a < 8" "Low3 b < 8" and w: "Width a \<in> {16, 32, 64}" using assms gp_shape by auto
  have ok: "byte_ok b a" using assms byte_ok_wide by auto
  note num = reg_num_opnd [OF assms(1) _ ok] reg_num_opnd [OF assms(2) _ ok]
  have op: "opcode_byte op" "unat op \<in> {0x01, 0x21, 0x39}" using assms(5) by auto
  from w show ?thesis
    unfolding emits_def encodeBinaryRegReg_def Let_def using num [of "Width a = 64"] assms(3,6,7)
    by (elim insertE emptyE)
      (simp_all add: decode_plain [OF op(1)] decode_sized [OF op(1)] dec_op_alu_rm(1) [OF op(2)] dec_modrm_reg low)
qed

lemma binaryRegMem:
  assumes "gp a" "base_ok b d" "w = 0 \<or> w = Width a" "Width a \<noteq> 8" "op \<in> {0x03, 0x2B, 0x3B}"
    "alu_name (unat op div 8) = Some nm" "Operands ins = [RegOperand a, MemOperand b d w]"
  shows "emits (encodeBinaryRegMem ins op) (DAluToReg nm (Width a) (reg_opnd a) (RmM (number b) d))"
proof -
  have low: "Low3 a < 8" "Low3 b < 8" and w: "Width a \<in> {16, 32, 64}" and d: "disp_ok d"
    using assms gp_shape by (auto simp: base_ok_def)
  have ok: "byte_ok a b" using assms byte_ok_wide by (auto simp: base_ok_def)
  note num = reg_num_opnd [OF assms(1) _ ok, of "Width a = 64"]
  have dw: "defaultWidth w (Width a) = Width a" using assms(3) by (auto simp: defaultWidth_def)
  have b: "Low3 b + (if High b then 8 else 0) = number b" by (simp add: number_def)
  have op: "opcode_byte op" "unat op \<in> {0x03, 0x2B, 0x3B}" using assms(5) by auto
  have enc: "encodeBinaryRegMem ins op = (if Width a = 16
      then Some ([0x66] @ rexForOperand (Width a = 64) a b @ [op] @ encodeMemModRM (Low3 a) b d)
      else if Width a = 32 \<or> Width a = 64 then Some (rexForOperand (Width a = 64) a b @ [op] @ encodeMemModRM (Low3 a) b d)
      else None)"
    by (simp add: encodeBinaryRegMem_def Let_def assms(7) dw)
  from w show ?thesis
    unfolding emits_def enc using num assms(6)
    by (elim insertE emptyE)
      (simp_all add: decode_plain [OF op(1)] decode_sized [OF op(1)] dec_op_alu_rm(2) [OF op(2)] dec_modrm_mem low d b)
qed

lemma binaryImm:
  assumes "gp a" "Width a \<noteq> 8" "alu_name ext = Some nm" "ext < 8"
    "if Width a = 16 then - 0x8000 \<le> v \<and> v < 0x8000 else disp_ok v" "Operands ins = [RegOperand a, ImmOperand v]"
  shows "emits (encodeBinaryImm ins ext 0x83 0x81) (DAluImm nm (Width a) (RmR (reg_opnd a)) v)"
proof -
  have low: "Low3 a < 8" and w: "Width a \<in> {16, 32, 64}" using assms gp_shape by auto
  have ok: "byte_ok zero_reg a" using assms by (auto simp: byte_ok_def hi8_def)
  note num = reg_num_opnd [OF assms(1) _ ok, of "Width a = 64"]
  have v1: "-128 \<le> v \<Longrightarrow> v \<le> 127 \<Longrightarrow> le_signed (imm_bytes 1 v) = v" using le_signed_imm [of 1 v] by simp
  have v2: "Width a = 16 \<Longrightarrow> le_signed (imm_bytes 2 v) = v" using le_signed_imm [of 2 v] assms(5) by simp
  have v4: "Width a \<noteq> 16 \<Longrightarrow> le_signed (imm_bytes 4 v) = v" using le_signed_imm [of 4 v] assms(5) by (simp add: disp_ok_def)
  from w show ?thesis
    unfolding emits_def encodeBinaryImm_def Let_def using num assms(3,4,6) v1 v2 v4
    by (elim insertE emptyE)
      (simp_all add: decode_plain decode_sized dec_op_alu_imm dec_modrm_reg low)
qed

lemma shiftImm:
  assumes "gp a" "Width a \<noteq> 8" "0 \<le> v" "v \<le> 255" "Operands ins = [RegOperand a, ImmOperand v]"
  shows "emits (encodeShiftImm ins 5) (DShrImm (Width a) (RmR (reg_opnd a)) v)"
proof -
  have low: "Low3 a < 8" and w: "Width a \<in> {16, 32, 64}" using assms gp_shape by auto
  have ok: "byte_ok zero_reg a" using assms by (auto simp: byte_ok_def hi8_def)
  note num = reg_num_opnd [OF assms(1) _ ok, of "Width a = 64"]
  have v: "le_unsigned (imm_bytes 1 v) = v"
    using assms(3,4) by (simp add: le_unsigned_imm take_bit_int_eq_self)
  from w show ?thesis
    unfolding emits_def encodeShiftImm_def Let_def using num assms v
    by (elim insertE emptyE)
      (simp_all add: decode_plain decode_sized dec_op_alu_imm dec_modrm_reg low)
qed

section \<open>Stack, calls and system instructions\<close>

lemma rex_base: "Low3 b + (if High b then 8 else 0) = number b"
  by (simp add: number_def)

lemma pushPop:
  assumes "gp a" "Width a = 64" "Operands ins = [RegOperand a]"
  shows "emits (encodePushPop ins True) (DPush (number a))" "emits (encodePushPop ins False) (DPop (number a))"
    and "\<exists>bs. encodeCall ins start = Some (bs, []) \<and> (\<forall>t. decode (bs @ t) = Some (DCallRm (RmR (R 64 (number a))), t))"
proof -
  have low: "Low3 a < 8" using assms gp_shape by auto
  note bytes = opcode_plus [OF low] dec_op_stack [OF low]
  have num: "reg_num (rex_needed False zero_reg a) 64 (Low3 a) (High a) = R 64 (number a)"
    by (simp add: reg_num_def number_def)
  show "emits (encodePushPop ins True) (DPush (number a))" "emits (encodePushPop ins False) (DPop (number a))"
    using assms(3) by (simp_all add: emits_def encodePushPop_def Let_def decode_plain bytes rex_base)
  show "\<exists>bs. encodeCall ins start = Some (bs, []) \<and> (\<forall>t. decode (bs @ t) = Some (DCallRm (RmR (R 64 (number a))), t))"
    using assms(3) num low by (simp add: encodeCall_def decode_plain dec_op_misc dec_modrm_reg)
qed

lemma pushImm:
  assumes "-128 \<le> v" "v \<le> 127" "Operands ins = [ImmOperand v]"
  shows "emits (encodePushPop ins True) (DPushImm v)"
proof -
  have "le_signed (imm_bytes 1 v) = v" using le_signed_imm [of 1 v] assms by simp
  moreover have "decode (0x6A # t) = dec_op False no_rex 0x6A t" for t
    by (simp add: decode_def dec_rex_def)
  ultimately show ?thesis using assms by (simp add: emits_def encodePushPop_def dec_op_misc)
qed

lemma memOperand:
  assumes "base_ok b d" "Operands ins = [MemOperand b d w]"
  shows "\<exists>bs. encodeCall ins start = Some (bs, []) \<and> (\<forall>t. decode (bs @ t) = Some (DCallRm (RmM (number b) d), t))"
    and "emits (encodeDesc ins 2) (DDesc ''lgdt'' (RmM (number b) d))"
    and "emits (encodeDesc ins 3) (DDesc ''lidt'' (RmM (number b) d))"
proof -
  have low: "Low3 b < 8" and d: "disp_ok d" using assms gp_shape by (auto simp: base_ok_def)
  show "\<exists>bs. encodeCall ins start = Some (bs, []) \<and> (\<forall>t. decode (bs @ t) = Some (DCallRm (RmM (number b) d), t))"
    using assms(2) by (simp add: encodeCall_def decode_plain dec_op_misc dec_modrm_mem low d rex_base)
  show "emits (encodeDesc ins 2) (DDesc ''lgdt'' (RmM (number b) d))"
    "emits (encodeDesc ins 3) (DDesc ''lidt'' (RmM (number b) d))"
    using assms(2)
    by (simp_all add: emits_def encodeDesc_def decode_plain dec_op_misc dec_0F_def dec_modrm_mem low d rex_base)
qed

lemma decode_no_prefix: "opcode_byte op \<Longrightarrow> decode (op # t) = dec_op False no_rex (unat op) t"
  by (simp add: decode_def dec_rex_def opcode_byte_def)

lemma no_rex_simps [simp]: "rex_on no_rex = False" "rex_B no_rex = False" "rex_R no_rex = False" "rex_W no_rex = False"
  by (simp_all add: no_rex_def)

lemma movSpecial:
  assumes "Low3 s < 8" "Low3 a < 8" "\<not> High a"
  shows "Segment s \<Longrightarrow> ToLower (reg_Name a) = ''ax'' \<Longrightarrow> emits (encodeMovSegmentReg s a) (DMovToSeg (Low3 s) (number a))"
    and "Control s \<Longrightarrow> emits (encodeMovControlReg s a) (DMovToCr (Low3 s) (number a))"
    and "Control s \<Longrightarrow> emits (encodeMovRegControl a s) (DMovFromCr (number a) (Low3 s))"
proof -
  have num: "reg_num False 64 n False = R 64 n" "reg_num False 16 n False = R 16 n" for n
    by (simp_all add: reg_num_def)
  have op: "opcode_byte 0x8E" by (simp add: opcode_byte_def)
  show "Segment s \<Longrightarrow> ToLower (reg_Name a) = ''ax'' \<Longrightarrow> emits (encodeMovSegmentReg s a) (DMovToSeg (Low3 s) (number a))"
    using assms
    by (simp add: emits_def encodeMovSegmentReg_def decode_no_prefix [OF op] dec_op_misc dec_modrm_reg num number_def)
  show "Control s \<Longrightarrow> emits (encodeMovControlReg s a) (DMovToCr (Low3 s) (number a))"
    "Control s \<Longrightarrow> emits (encodeMovRegControl a s) (DMovFromCr (number a) (Low3 s))"
    using assms
    by (simp_all add: emits_def encodeMovControlReg_def encodeMovRegControl_def decode_no_prefix dec_op_misc
        dec_0F_def dec_modrm_reg num number_def)
qed

lemma nullary_ports:
  "decode (0xF4 # t) = Some (DNullary ''hlt'', t)" "decode (0xF3 # 0x90 # t) = Some (DNullary ''pause'', t)"
  "decode (0xC3 # t) = Some (DNullary ''ret'', t)" "decode (0x48 # 0xCB # t) = Some (DNullary ''retfq'', t)"
  "decode (0x48 # 0xCF # t) = Some (DNullary ''iretq'', t)" "decode (0xFA # t) = Some (DNullary ''cli'', t)"
  "decode (0xFB # t) = Some (DNullary ''sti'', t)"
  "decode (0xEE # t) = Some (DOut 8, t)" "decode (0x66 # 0xEF # t) = Some (DOut 16, t)"
  "decode (0xEF # t) = Some (DOut 32, t)" "decode (0xEC # t) = Some (DIn 8, t)" "decode (0xED # t) = Some (DIn 32, t)"
  by (simp_all add: decode_def dec_rex_def dec_op_def rex_of_def Let_def)

section \<open>Meaning of instructions\<close>

definition mean_r :: "string \<Rightarrow> Reg \<Rightarrow> dinstr option" where
  "mean_r m a =
     (if gp a \<and> Width a = 64 then
        (if m = ''push'' then Some (DPush (number a)) else if m = ''pop'' then Some (DPop (number a))
         else if m = ''call'' then Some (DCallRm (RmR (R 64 (number a)))) else None)
      else None)"

definition mean_m :: "string \<Rightarrow> Reg \<Rightarrow> int \<Rightarrow> dinstr option" where
  "mean_m m b d =
     (if base_ok b d then
        (if m = ''call'' then Some (DCallRm (RmM (number b) d))
         else if m \<in> {''lgdt'', ''lidt''} then Some (DDesc m (RmM (number b) d)) else None)
      else None)"

definition mean_rr :: "string \<Rightarrow> Reg \<Rightarrow> Reg \<Rightarrow> dinstr option" where
  "mean_rr m a b =
     (if m = ''mov'' then
        (if Segment a then
           (if Low3 a < 8 \<and> gp b \<and> ToLower (reg_Name b) = ''ax'' \<and> \<not> High b then Some (DMovToSeg (Low3 a) (number b)) else None)
         else if Control a then
           (if Low3 a < 8 \<and> gp b \<and> \<not> High b then Some (DMovToCr (Low3 a) (number b)) else None)
         else if Control b then
           (if Low3 b < 8 \<and> gp a \<and> \<not> High a then Some (DMovFromCr (number a) (Low3 b)) else None)
         else if gp a \<and> gp b \<and> Width a = Width b \<and> byte_ok a b
         then Some (DMovToReg (Width a) (reg_opnd a) (RmR (reg_opnd b))) else None)
      else if m \<in> {''add'', ''and'', ''cmp''} then
        (if gp a \<and> gp b \<and> Width a = Width b \<and> Width a \<noteq> 8
         then Some (DAluToRm m (Width a) (RmR (reg_opnd a)) (reg_opnd b)) else None)
      else if m = ''out'' \<and> ToLower (reg_Name a) = ''dx'' then
        (if ToLower (reg_Name b) = ''al'' then Some (DOut 8) else if ToLower (reg_Name b) = ''ax'' then Some (DOut 16)
         else if ToLower (reg_Name b) = ''eax'' then Some (DOut 32) else None)
      else if m = ''in'' \<and> ToLower (reg_Name b) = ''dx'' then
        (if ToLower (reg_Name a) = ''al'' then Some (DIn 8) else if ToLower (reg_Name a) = ''eax'' then Some (DIn 32) else None)
      else None)"

definition mean_ri :: "string \<Rightarrow> Reg \<Rightarrow> int \<Rightarrow> dinstr option" where
  "mean_ri m a v =
     (if \<not> gp a then None
      else if m = ''mov'' then Some (DMovImm (Width a) (reg_opnd a) (v mod 2 ^ Width a))
      else if Width a = 8 then None
      else if m \<in> {''add'', ''sub'', ''cmp''} \<and> (if Width a = 16 then - 0x8000 \<le> v \<and> v < 0x8000 else disp_ok v)
      then Some (DAluImm m (Width a) (RmR (reg_opnd a)) v)
      else if m = ''shr'' \<and> 0 \<le> v \<and> v \<le> 255 then Some (DShrImm (Width a) (RmR (reg_opnd a)) v)
      else None)"

definition mean_rm :: "string \<Rightarrow> Reg \<Rightarrow> Reg \<Rightarrow> int \<Rightarrow> nat \<Rightarrow> dinstr option" where
  "mean_rm m a b d w =
     (if gp a \<and> base_ok b d \<and> (w = 0 \<or> w = Width a) then
        (if m = ''mov'' \<and> \<not> (hi8 a \<and> High b) then Some (DMovToReg (Width a) (reg_opnd a) (RmM (number b) d))
         else if m \<in> {''add'', ''sub'', ''cmp''} \<and> Width a \<noteq> 8
         then Some (DAluToReg m (Width a) (reg_opnd a) (RmM (number b) d)) else None)
      else None)"

fun meaning_of :: "string \<Rightarrow> Operand list \<Rightarrow> dinstr option" where
  "meaning_of m [] =
     (if m \<in> {''hlt'', ''pause'', ''ret'', ''retfq'', ''iretq'', ''cli'', ''sti''} then Some (DNullary m) else None)"
| "meaning_of m [RegOperand a] = mean_r m a"
| "meaning_of m [ImmOperand v] = (if m = ''push'' \<and> -128 \<le> v \<and> v \<le> 127 then Some (DPushImm v) else None)"
| "meaning_of m [MemOperand b d w] = mean_m m b d"
| "meaning_of m [RegOperand a, RegOperand b] = mean_rr m a b"
| "meaning_of m [RegOperand a, ImmOperand v] = mean_ri m a v"
| "meaning_of m [RegOperand a, MemOperand b d w] = mean_rm m a b d w"
| "meaning_of m [MemOperand b d w, RegOperand a] =
     (if m = ''mov'' \<and> gp a \<and> base_ok b d \<and> (w = 0 \<or> w = Width a) \<and> \<not> (hi8 a \<and> High b)
      then Some (DMovToRm (Width a) (RmM (number b) d) (reg_opnd a)) else None)"
| "meaning_of m [MemOperand b d w, ImmOperand v] =
     (if m = ''mov'' \<and> base_ok b d \<and> w \<in> {0, 8, 32, 64} \<and> (if w = 8 then -128 \<le> v \<and> v < 128 else disp_ok v)
      then Some (DMovRmImm (if w = 0 then 64 else w) (RmM (number b) d) v) else None)"
| "meaning_of m _ = None"

definition meaning :: "Instruction \<Rightarrow> dinstr option" where
  "meaning ins = meaning_of (ToLower (Mnemonic ins)) (Operands ins)"

lemma dispatch:
  "ToLower (Mnemonic ins) = ''mov'' \<Longrightarrow> encode_instruction ins start = emit_or ''unsupported mov form'' (plain (encodeMov ins))"
  "ToLower (Mnemonic ins) = ''out'' \<Longrightarrow> encode_instruction ins start = emit_or ''unsupported out form'' (plain (encodeOut ins))"
  "ToLower (Mnemonic ins) = ''in'' \<Longrightarrow> encode_instruction ins start = emit_or ''unsupported in form'' (plain (encodeIn ins))"
  "ToLower (Mnemonic ins) = ''add'' \<Longrightarrow> encode_instruction ins start = emit_or ''unsupported add form'' (plain (first_of
     [encodeBinaryRegReg ins 0x01, encodeBinaryRegMem ins 0x03, encodeBinaryImm ins 0 0x83 0x81]))"
  "ToLower (Mnemonic ins) = ''and'' \<Longrightarrow> encode_instruction ins start = emit_or ''unsupported and form'' (plain (encodeBinaryRegReg ins 0x21))"
  "ToLower (Mnemonic ins) = ''sub'' \<Longrightarrow> encode_instruction ins start = emit_or ''unsupported sub form'' (plain (first_of
     [encodeBinaryRegMem ins 0x2B, encodeBinaryImm ins 5 0x83 0x81]))"
  "ToLower (Mnemonic ins) = ''cmp'' \<Longrightarrow> encode_instruction ins start = emit_or ''unsupported cmp form'' (plain (first_of
     [encodeBinaryRegReg ins 0x39, encodeBinaryRegMem ins 0x3B, encodeBinaryImm ins 7 0x83 0x81]))"
  "ToLower (Mnemonic ins) = ''shr'' \<Longrightarrow> encode_instruction ins start = emit_or ''unsupported shr form'' (plain (encodeShiftImm ins 5))"
  "ToLower (Mnemonic ins) = ''call'' \<Longrightarrow> encode_instruction ins start = emit_or ''unsupported call form'' (encodeCall ins start)"
  "ToLower (Mnemonic ins) = ''push'' \<Longrightarrow> encode_instruction ins start = emit_or ''unsupported push form'' (plain (encodePushPop ins True))"
  "ToLower (Mnemonic ins) = ''pop'' \<Longrightarrow> encode_instruction ins start = emit_or ''unsupported pop form'' (plain (encodePushPop ins False))"
  "ToLower (Mnemonic ins) = ''lgdt'' \<Longrightarrow> encode_instruction ins start = emit_or ''unsupported lgdt form'' (plain (encodeDesc ins 2))"
  "ToLower (Mnemonic ins) = ''lidt'' \<Longrightarrow> encode_instruction ins start = emit_or ''unsupported lidt form'' (plain (encodeDesc ins 3))"
  by (simp_all add: encode_instruction_def)

definition encodes :: "encode_result \<Rightarrow> dinstr \<Rightarrow> bool" where
  "encodes r d \<longleftrightarrow> (\<exists>bs. r = Emit (bs, []) \<and> (\<forall>t. decode (bs @ t) = Some (d, t)))"

lemma encodes_plain: "emits e d \<Longrightarrow> encodes (emit_or msg (plain e)) d"
  by (auto simp: emits_def encodes_def plain_def)

lemma encodes_call: "\<exists>bs. e = Some (bs, []) \<and> (\<forall>t. decode (bs @ t) = Some (d, t)) \<Longrightarrow> encodes (emit_or msg e) d"
  by (auto simp: encodes_def)

lemma first_of_simps: "emits e d \<Longrightarrow> first_of (e # es) = e"
  by (auto simp: emits_def)

section \<open>Encoding keeps the meaning\<close>

lemma enc_r:
  assumes ops: "Operands ins = [RegOperand a]" and mean: "mean_r (ToLower (Mnemonic ins)) a = Some d"
  shows "encodes (encode_instruction ins start) d"
proof -
  have a: "gp a" "Width a = 64" using mean by (auto simp: mean_r_def split: if_splits)
  note enc = pushPop [OF a ops]
  from mean a consider "ToLower (Mnemonic ins) = ''push''" "d = DPush (number a)"
    | "ToLower (Mnemonic ins) = ''pop''" "d = DPop (number a)"
    | "ToLower (Mnemonic ins) = ''call''" "d = DCallRm (RmR (R 64 (number a)))"
    by (auto simp: mean_r_def split: if_splits)
  then show ?thesis
    by cases (simp_all only: dispatch encodes_plain [OF enc(1)] encodes_plain [OF enc(2)] encodes_call [OF enc(3)])
qed

lemma enc_m:
  assumes ops: "Operands ins = [MemOperand b v w]" and mean: "mean_m (ToLower (Mnemonic ins)) b v = Some d"
  shows "encodes (encode_instruction ins start) d"
proof -
  have b: "base_ok b v" using mean by (auto simp: mean_m_def split: if_splits)
  note enc = memOperand [OF b ops]
  from mean b consider "ToLower (Mnemonic ins) = ''call''" "d = DCallRm (RmM (number b) v)"
    | "ToLower (Mnemonic ins) = ''lgdt''" "d = DDesc ''lgdt'' (RmM (number b) v)"
    | "ToLower (Mnemonic ins) = ''lidt''" "d = DDesc ''lidt'' (RmM (number b) v)"
    by (auto simp: mean_m_def split: if_splits)
  then show ?thesis
    by cases (simp_all only: dispatch encodes_call [OF enc(1)] encodes_plain [OF enc(2)] encodes_plain [OF enc(3)])
qed

lemma enc_rr_mov:
  assumes ops: "Operands ins = [RegOperand a, RegOperand b]" and mean: "mean_rr ''mov'' a b = Some d"
  shows "emits (encodeMov ins) d"
proof -
  have low: "gp r \<Longrightarrow> Low3 r < 8" for r by (simp add: gp_def reg_shape_def)
  show ?thesis
  proof (cases "Segment a \<or> Control a \<or> Control b")
    case True
    with ops mean show ?thesis
      by (auto simp: mean_rr_def encodeMov_def gp_def reg_shape_def split: if_splits intro: movSpecial)
  next
    case False
    with mean have "gp a" "gp b" "Width a = Width b" "byte_ok a b"
        "d = DMovToReg (Width a) (reg_opnd a) (RmR (reg_opnd b))"
      by (auto simp: mean_rr_def split: if_splits)
    with False ops movRegReg show ?thesis by (simp add: encodeMov_def)
  qed
qed

lemma enc_rr_alu:
  assumes ops: "Operands ins = [RegOperand a, RegOperand b]" and ok: "gp a" "gp b" "Width a = Width b" "Width a \<noteq> 8"
  shows "emits (encodeBinaryRegReg ins 0x01) (DAluToRm ''add'' (Width a) (RmR (reg_opnd a)) (reg_opnd b))"
    "emits (encodeBinaryRegReg ins 0x21) (DAluToRm ''and'' (Width a) (RmR (reg_opnd a)) (reg_opnd b))"
    "emits (encodeBinaryRegReg ins 0x39) (DAluToRm ''cmp'' (Width a) (RmR (reg_opnd a)) (reg_opnd b))"
  by (rule binaryRegReg [OF ok _ _ ops]; simp add: alu_name_def)+

lemma enc_ports:
  assumes ops: "Operands ins = [RegOperand a, RegOperand b]"
  shows "mean_rr ''out'' a b = Some d \<Longrightarrow> emits (encodeOut ins) d"
    and "mean_rr ''in'' a b = Some d \<Longrightarrow> emits (encodeIn ins) d"
  using ops by (auto simp: mean_rr_def encodeOut_def encodeIn_def emits_def nullary_ports split: if_splits)

lemma enc_rr:
  assumes ops: "Operands ins = [RegOperand a, RegOperand b]" and mean: "mean_rr (ToLower (Mnemonic ins)) a b = Some d"
  shows "encodes (encode_instruction ins start) d"
proof -
  let ?m = "ToLower (Mnemonic ins)"
  have "?m \<in> {''mov'', ''out'', ''in''} \<or> ?m \<in> {''add'', ''and'', ''cmp''}"
    using mean by (auto simp: mean_rr_def split: if_splits)
  then show ?thesis
  proof
    assume "?m \<in> {''mov'', ''out'', ''in''}"
    with mean show ?thesis
      using enc_rr_mov [OF ops, of d] enc_ports [OF ops, of d] by (auto simp: dispatch intro!: encodes_plain)
  next
    assume m: "?m \<in> {''add'', ''and'', ''cmp''}"
    with mean have ok: "gp a" "gp b" "Width a = Width b" "Width a \<noteq> 8"
        and d: "d = DAluToRm ?m (Width a) (RmR (reg_opnd a)) (reg_opnd b)"
      by (auto simp: mean_rr_def split: if_splits)
    note enc = enc_rr_alu [OF ops ok]
    from m show ?thesis
      unfolding d using enc
      by (elim insertE emptyE) (simp_all add: dispatch encodes_plain first_of_simps [OF enc(1)] first_of_simps [OF enc(3)])
  qed
qed

lemma enc_ri:
  assumes ops: "Operands ins = [RegOperand a, ImmOperand v]" and mean: "mean_ri (ToLower (Mnemonic ins)) a v = Some d"
  shows "encodes (encode_instruction ins start) d"
proof -
  let ?m = "ToLower (Mnemonic ins)"
  have a: "gp a" using mean by (auto simp: mean_ri_def split: if_splits)
  have none: "encodeBinaryRegReg ins op = None" "encodeBinaryRegMem ins op = None" for op
    by (simp_all add: encodeBinaryRegReg_def encodeBinaryRegMem_def ops)
  from mean a consider (mov) "?m = ''mov''" "d = DMovImm (Width a) (reg_opnd a) (v mod 2 ^ Width a)"
    | (alu) "?m \<in> {''add'', ''sub'', ''cmp''}" "Width a \<noteq> 8"
        "if Width a = 16 then - 0x8000 \<le> v \<and> v < 0x8000 else disp_ok v" "d = DAluImm ?m (Width a) (RmR (reg_opnd a)) v"
    | (shr) "?m = ''shr''" "Width a \<noteq> 8" "0 \<le> v" "v \<le> 255" "d = DShrImm (Width a) (RmR (reg_opnd a)) v"
    by (auto simp: mean_ri_def split: if_splits)
  then show ?thesis
  proof cases
    case mov
    have "encodeMov ins = encodeMovRegImm a v" using a by (simp add: encodeMov_def ops gp_def)
    with mov movRegImm [OF a, of v] show ?thesis by (simp add: dispatch encodes_plain)
  next
    case alu
    note imm = binaryImm [OF a alu(2) _ _ alu(3) ops]
    have "emits (encodeBinaryImm ins 0 0x83 0x81) (DAluImm ''add'' (Width a) (RmR (reg_opnd a)) v)"
      "emits (encodeBinaryImm ins 5 0x83 0x81) (DAluImm ''sub'' (Width a) (RmR (reg_opnd a)) v)"
      "emits (encodeBinaryImm ins 7 0x83 0x81) (DAluImm ''cmp'' (Width a) (RmR (reg_opnd a)) v)"
      by (rule imm; simp add: alu_name_def)+
    then show ?thesis
      using alu(1) unfolding alu(4)
      by (elim insertE emptyE) (simp_all add: dispatch none encodes_plain first_of_simps)
  next
    case shr
    with shiftImm [OF a shr(2-4) ops] show ?thesis by (simp add: dispatch encodes_plain)
  qed
qed

lemma enc_rm:
  assumes ops: "Operands ins = [RegOperand a, MemOperand b v w]" and mean: "mean_rm (ToLower (Mnemonic ins)) a b v w = Some d"
  shows "encodes (encode_instruction ins start) d"
proof -
  let ?m = "ToLower (Mnemonic ins)"
  have ok: "gp a" "base_ok b v" "w = 0 \<or> w = Width a" using mean by (auto simp: mean_rm_def split: if_splits)
  have none: "encodeBinaryRegReg ins op = None" for op by (simp add: encodeBinaryRegReg_def ops)
  from mean ok consider (mov) "?m = ''mov''" "\<not> (hi8 a \<and> High b)" "d = DMovToReg (Width a) (reg_opnd a) (RmM (number b) v)"
    | (alu) "?m \<in> {''add'', ''sub'', ''cmp''}" "Width a \<noteq> 8" "d = DAluToReg ?m (Width a) (reg_opnd a) (RmM (number b) v)"
    by (auto simp: mean_rm_def split: if_splits)
  then show ?thesis
  proof cases
    case mov
    have "encodeMov ins = encodeMovRegMem a b v w" using ok(1) by (simp add: encodeMov_def ops gp_def)
    with mov movRegMem(1) [OF ok mov(2)] show ?thesis by (simp add: dispatch encodes_plain)
  next
    case alu
    note mem = binaryRegMem [OF ok alu(2) _ _ ops]
    have enc: "emits (encodeBinaryRegMem ins 0x03) (DAluToReg ''add'' (Width a) (reg_opnd a) (RmM (number b) v))"
      "emits (encodeBinaryRegMem ins 0x2B) (DAluToReg ''sub'' (Width a) (reg_opnd a) (RmM (number b) v))"
      "emits (encodeBinaryRegMem ins 0x3B) (DAluToReg ''cmp'' (Width a) (reg_opnd a) (RmM (number b) v))"
      by (rule mem; simp add: alu_name_def)+
    then show ?thesis
      using alu(1) unfolding alu(3)
      by (elim insertE emptyE)
        (simp_all add: dispatch none encodes_plain first_of_simps [OF enc(1)] first_of_simps [OF enc(2)] first_of_simps [OF enc(3)])
  qed
qed

lemma enc_nullary:
  assumes "Operands ins = []"
    and "ToLower (Mnemonic ins) \<in> {''hlt'', ''pause'', ''ret'', ''retfq'', ''iretq'', ''cli'', ''sti''}"
  shows "encodes (encode_instruction ins start) (DNullary (ToLower (Mnemonic ins)))"
  using assms(2) by (elim insertE emptyE) (simp_all add: encode_instruction_def encodes_def nullary_ports)

lemma enc_mem_dst:
  "Operands ins = [MemOperand b v w, RegOperand a] \<Longrightarrow> meaning ins = Some d \<Longrightarrow> encodes (encode_instruction ins start) d"
  "Operands ins = [MemOperand b v w, ImmOperand i] \<Longrightarrow> meaning ins = Some d \<Longrightarrow> encodes (encode_instruction ins start) d"
proof -
  assume ops: "Operands ins = [MemOperand b v w, RegOperand a]" and "meaning ins = Some d"
  then have m: "ToLower (Mnemonic ins) = ''mov''" and ok: "gp a" "base_ok b v" "w = 0 \<or> w = Width a" "\<not> (hi8 a \<and> High b)"
      and d: "d = DMovToRm (Width a) (RmM (number b) v) (reg_opnd a)"
    by (auto simp: meaning_def split: if_splits)
  have "encodeMov ins = encodeMovMemReg b v w a" by (simp add: encodeMov_def ops)
  with movRegMem(2) [OF ok] m d show "encodes (encode_instruction ins start) d" by (simp add: dispatch encodes_plain)
next
  assume ops: "Operands ins = [MemOperand b v w, ImmOperand i]" and "meaning ins = Some d"
  then have m: "ToLower (Mnemonic ins) = ''mov''" and ok: "base_ok b v" "w \<in> {0, 8, 32, 64}"
      "if w = 8 then -128 \<le> i \<and> i < 128 else disp_ok i"
      and d: "d = DMovRmImm (if w = 0 then 64 else w) (RmM (number b) v) i"
    by (auto simp: meaning_def split: if_splits)
  have "encodeMov ins = encodeMovMemImm b v w i" by (simp add: encodeMov_def ops)
  with movMemImm [OF ok] m d show "encodes (encode_instruction ins start) d" by (simp add: dispatch encodes_plain)
qed

lemma encode_means:
  assumes "meaning ins = Some d"
  shows "encodes (encode_instruction ins start) d"
proof (cases "(ToLower (Mnemonic ins), Operands ins)" rule: meaning_of.cases)
  case (3 m v)
  with assms have "ToLower (Mnemonic ins) = ''push''" "-128 \<le> v" "v \<le> 127" "d = DPushImm v"
    by (auto simp: meaning_def split: if_splits)
  with pushImm [of v ins] 3 show ?thesis by (simp add: dispatch encodes_plain)
qed (use assms enc_nullary [of ins start] enc_r [of ins] enc_m [of ins] enc_rr [of ins] enc_ri [of ins] enc_rm [of ins]
    enc_mem_dst [of ins] in \<open>auto simp: meaning_def split: if_splits\<close>)



end
