(* ===== verification/Asm_Branch.thy ===== *)
theory Asm_Branch
  imports Asm_Roundtrip
begin

text \<open>
  The two passes of \<open>encode\<close> in \<open>compiler/asm/encode.go\<close> over a whole program: instructions lie back to
  back, the fixup pass writes inside the code and touches nothing but the displacement it is meant for,
  and a branch lands on its label.
\<close>

section \<open>Displacements\<close>

lemma PutUint32_imm: "PutUint32 (of_int v) = imm_bytes 4 v"
proof -
  have "ucast (drop_bit (8 * i) (of_int v :: u32)) = (of_int (drop_bit (8 * i) v) :: byte)" if "i < 4" for i
    using that by (intro bit_word_eqI) (auto simp: bit_simps)
  then show ?thesis by (simp add: PutUint32_def le_bytes_def imm_bytes_def byte_at_def)
qed

lemma zero_imm: "imm_bytes 4 0 = [0, 0, 0, 0]"
  by (simp add: imm_bytes_def byte_at_def eval_nat_numeral)

lemma le_signed_disp: "disp_ok v \<Longrightarrow> le_signed (imm_bytes 4 v) = v"
  by (rule le_signed_imm) (auto simp: disp_ok_def)

section \<open>Branches to a label\<close>

text \<open>The condition field of a conditional jump in the instruction set's own numbering.\<close>

definition condition :: "string \<rightharpoonup> nat" where
  "condition = map_of
    [(''je'', 4), (''jne'', 5), (''jb'', 2), (''jbe'', 6), (''jl'', 12), (''jle'', 14), (''jg'', 15), (''jge'', 13)]"

definition branch :: "Instruction \<Rightarrow> (string \<times> (int \<Rightarrow> dinstr)) option" where
  "branch ins =
     (let m = ToLower (Mnemonic ins) in
      case Operands ins of
        [LabelRef t] \<Rightarrow>
          (if m = ''call'' then Some (t, DCallRel)
           else if m = ''jmp'' then Some (t, DJmpRel)
           else map_option (\<lambda>cc. (t, DJccRel cc)) (condition m))
      | _ \<Rightarrow> None)"

definition fixup_at :: "Instruction \<Rightarrow> string \<Rightarrow> nat \<Rightarrow> branchFixup" where
  "fixup_at ins t pos = \<lparr>fx_mnemonic = Mnemonic ins, relPos = pos, fx_target = t, nextPC = pos + 4\<rparr>"

lemma dec_op_rel:
  "dec_op False no_rex 0xE8 t = with_imm 4 (\<lambda>i. DCallRel (le_signed i)) t"
  "dec_op False no_rex 0xE9 t = with_imm 4 (\<lambda>i. DJmpRel (le_signed i)) t"
  "dec_op False no_rex 0x0F t = dec_0F no_rex 32 t"
  by (simp_all add: dec_op_def no_rex_def Let_def)

lemma opcode_bytes_branch [simp]: "opcode_byte 0xE8" "opcode_byte 0xE9" "opcode_byte 0x0F"
  by (simp_all add: opcode_byte_def)

lemma dec_jcc:
  "unat op div 16 = 8 \<Longrightarrow> dec_0F x w (op # t) = with_imm 4 (\<lambda>i. DJccRel (unat op mod 16) (le_signed i)) t"
  by (simp add: dec_0F_def)

lemma jcc_shape:
  assumes "condition m = Some cc"
  obtains op where "condOpcode m = Some op" "unat op = 128 + cc" "cc < 16"
    "m \<in> {''je'', ''jne'', ''jb'', ''jbe'', ''jl'', ''jle'', ''jg'', ''jge''}"
  using assms by (auto simp: condition_def condOpcode_def split: if_splits)

lemma branch_encodes:
  assumes "branch ins = Some (t, mk)"
  obtains opc where "encode_instruction ins start = Emit (opc @ [0, 0, 0, 0], [fixup_at ins t (start + length opc)])"
    and "\<And>v r. disp_ok v \<Longrightarrow> decode (opc @ imm_bytes 4 v @ r) = Some (mk v, r)"
proof -
  from assms have ops: "Operands ins = [LabelRef t]"
    by (auto simp: branch_def Let_def split: list.splits Operand.splits if_splits)
  from assms ops consider (call) "ToLower (Mnemonic ins) = ''call''" "mk = DCallRel"
    | (jmp) "ToLower (Mnemonic ins) = ''jmp''" "mk = DJmpRel"
    | (jcc) cc where "condition (ToLower (Mnemonic ins)) = Some cc" "mk = DJccRel cc"
    by (auto simp: branch_def Let_def split: if_splits)
  then show thesis
  proof cases
    case call
    show thesis
    proof (rule that [of "[0xE8]"])
      show "encode_instruction ins start = Emit ([0xE8] @ [0, 0, 0, 0], [fixup_at ins t (start + length [0xE8 :: byte])])"
        using call ops by (simp add: dispatch encodeCall_def encodeNearBranch_def fixup_at_def)
    qed (simp add: call decode_no_prefix dec_op_rel le_signed_disp)
  next
    case jmp
    show thesis
    proof (rule that [of "[0xE9]"])
      show "encode_instruction ins start = Emit ([0xE9] @ [0, 0, 0, 0], [fixup_at ins t (start + length [0xE9 :: byte])])"
        using jmp ops by (simp add: encode_instruction_def encodeJmp_def encodeNearBranch_def fixup_at_def)
    qed (simp add: jmp decode_no_prefix dec_op_rel le_signed_disp)
  next
    case jcc
    from jcc_shape [OF jcc(1)] obtain op where op: "condOpcode (ToLower (Mnemonic ins)) = Some op" "unat op = 128 + cc" "cc < 16"
      and m: "ToLower (Mnemonic ins) \<in> {''je'', ''jne'', ''jb'', ''jbe'', ''jl'', ''jle'', ''jg'', ''jge''}" by blast
    have e: "encode_instruction ins start = emit_or ''unsupported conditional branch form'' (encodeCondJmp ins start)"
      using m by (elim insertE emptyE) (simp_all add: encode_instruction_def)
    have field: "unat op div 16 = 8" "unat op mod 16 = cc"
      using div_nat_eqI [of 16 8 "128 + cc"] mod_mult_self2 [of cc 16 8] op by (simp_all add: add.commute)
    show thesis
    proof (rule that [of "[0x0F, op]"])
      show "encode_instruction ins start = Emit ([0x0F, op] @ [0, 0, 0, 0], [fixup_at ins t (start + length [0x0F, op])])"
        using op ops by (simp add: e encodeCondJmp_def encodeNearBranch_def fixup_at_def)
    qed (simp add: jcc decode_no_prefix dec_op_rel dec_jcc field le_signed_disp)
  qed
qed

section \<open>What one instruction emits\<close>

text \<open>A fixup names the last four bytes of its instruction.\<close>

definition fixup_of :: "nat \<Rightarrow> nat \<Rightarrow> branchFixup \<Rightarrow> bool" where
  "fixup_of lo hi fx \<longleftrightarrow> lo \<le> relPos fx \<and> nextPC fx = relPos fx + 4 \<and> nextPC fx \<le> hi"

lemma near_fixups:
  assumes "encodeNearBranch ins start (if cond then 6 else 5) op cond = Some (bs, fxs)"
  shows "\<exists>fx. fxs = [fx] \<and> fixup_of start (start + length bs) fx"
  using assms
  by (auto simp: encodeNearBranch_def fixup_of_def split: list.splits Operand.splits if_splits)

lemmas near_fixups_plain = near_fixups [where cond = False, simplified]
lemmas near_fixups_cond = near_fixups [where cond = True, simplified]

lemma emit_or_Emit: "emit_or msg e = Emit p \<longleftrightarrow> e = Some p"
  by (cases e) auto

lemma plain_Some: "plain e = Some (bs, fxs) \<Longrightarrow> fxs = []"
  by (auto simp: plain_def)

lemma call_fixups:
  assumes "encodeCall ins start = Some (bs, fxs)"
  shows "fxs = [] \<or> (\<exists>fx. fxs = [fx] \<and> fixup_of start (start + length bs) fx)"
proof (cases "encodeCall ins start = encodeNearBranch ins start 5 0xE8 False")
  case True
  with assms near_fixups_plain show ?thesis by metis
next
  case False
  with assms show ?thesis by (auto simp: encodeCall_def split: list.splits Operand.splits)
qed

lemma jump_fixups:
  "encodeJmp ins start = Some (bs, fxs) \<Longrightarrow> \<exists>fx. fxs = [fx] \<and> fixup_of start (start + length bs) fx"
  unfolding encodeJmp_def by (rule near_fixups_plain)

lemma cond_fixups:
  "encodeCondJmp ins start = Some (bs, fxs) \<Longrightarrow> \<exists>fx. fxs = [fx] \<and> fixup_of start (start + length bs) fx"
  unfolding encodeCondJmp_def by (auto split: option.splits dest: near_fixups_cond)

lemma if_EmitE: "(if c then a else b) = Emit p \<Longrightarrow> (a = Emit p \<Longrightarrow> Q) \<Longrightarrow> (b = Emit p \<Longrightarrow> Q) \<Longrightarrow> Q"
  by (cases c) auto

lemma instruction_fixups:
  assumes "encode_instruction ins start = Emit (bs, fxs)"
  shows "fxs = [] \<or> (\<exists>fx. fxs = [fx] \<and> fixup_of start (start + length bs) fx)"
  using assms unfolding encode_instruction_def Let_def
  by (elim if_EmitE) (auto simp: emit_or_Emit dest: plain_Some call_fixups jump_fixups cond_fixups)

section \<open>The first pass\<close>

definition offset :: "Instruction list \<Rightarrow> nat" where
  "offset inss = length (enc_out (encode_pass inss))"

lemma encode_pass_snoc: "encode_pass (inss @ [ins]) = encode_step (encode_pass inss) ins"
  by (simp add: encode_pass_def)

lemma encode_pass_Nil:
  "encode_pass [] = \<lparr>enc_out = [], enc_diags = [], enc_labels = Map.empty, enc_fixups = []\<rparr>"
  by (simp add: encode_pass_def)

lemma encode_step_simps:
  "enc_labels (encode_step st ins) =
     (if Label ins \<noteq> '''' then (enc_labels st)(Label ins \<mapsto> length (enc_out st)) else enc_labels st)"
  "encode_instruction ins (length (enc_out st)) = Emit (bs, fxs) \<Longrightarrow> enc_out (encode_step st ins) = enc_out st @ bs"
  "encode_instruction ins (length (enc_out st)) = Emit (bs, fxs) \<Longrightarrow> enc_fixups (encode_step st ins) = enc_fixups st @ fxs"
  "encode_instruction ins (length (enc_out st)) = Emit (bs, fxs) \<Longrightarrow> enc_diags (encode_step st ins) = enc_diags st"
  "encode_instruction ins (length (enc_out st)) = Fail d \<Longrightarrow> enc_diags (encode_step st ins) = enc_diags st @ [d]"
  "encode_instruction ins (length (enc_out st)) = Fail d \<Longrightarrow> enc_out (encode_step st ins) = enc_out st"
  "encode_instruction ins (length (enc_out st)) = Fail d \<Longrightarrow> enc_fixups (encode_step st ins) = enc_fixups st"
  by (auto simp: encode_step_def Let_def split: encode_result.splits)

lemma encode_step_grows:
  "\<exists>bs fxs ds. enc_out (encode_step st ins) = enc_out st @ bs \<and>
     enc_fixups (encode_step st ins) = enc_fixups st @ fxs \<and> enc_diags (encode_step st ins) = enc_diags st @ ds"
  by (cases "encode_instruction ins (length (enc_out st))") (auto simp: encode_step_simps)

lemma encode_step_fixups:
  assumes "enc_fixups (encode_step st ins) = enc_fixups st @ fxs"
  shows "list_all (\<lambda>fx. length (enc_out st) \<le> relPos fx) fxs"
proof (cases "encode_instruction ins (length (enc_out st))")
  case (Emit p)
  then obtain bs fs where e: "encode_instruction ins (length (enc_out st)) = Emit (bs, fs)" by (cases p) auto
  with assms have "fs = fxs" by (simp add: encode_step_simps)
  with instruction_fixups [OF e] show ?thesis by (auto simp: fixup_of_def)
qed (use assms in \<open>simp add: encode_step_simps\<close>)

lemma encode_pass_grows:
  "\<exists>bs fxs ds. enc_out (encode_pass (inss @ post)) = enc_out (encode_pass inss) @ bs \<and>
     enc_fixups (encode_pass (inss @ post)) = enc_fixups (encode_pass inss) @ fxs \<and>
     list_all (\<lambda>fx. offset inss \<le> relPos fx) fxs \<and>
     enc_diags (encode_pass (inss @ post)) = enc_diags (encode_pass inss) @ ds"
proof (induction post rule: rev_induct)
  case (snoc ins post)
  let ?st = "encode_pass (inss @ post)"
  from snoc obtain bs fxs ds where o: "enc_out ?st = enc_out (encode_pass inss) @ bs"
    "enc_fixups ?st = enc_fixups (encode_pass inss) @ fxs" "list_all (\<lambda>fx. offset inss \<le> relPos fx) fxs"
    "enc_diags ?st = enc_diags (encode_pass inss) @ ds" by blast
  obtain bs' fxs' ds' where n: "enc_out (encode_step ?st ins) = enc_out ?st @ bs'"
    "enc_fixups (encode_step ?st ins) = enc_fixups ?st @ fxs'" "enc_diags (encode_step ?st ins) = enc_diags ?st @ ds'"
    using encode_step_grows by blast
  have "list_all (\<lambda>fx. offset inss \<le> relPos fx) fxs'"
    using encode_step_fixups [OF n(2)] o(1) by (auto simp: list_all_iff offset_def)
  moreover have "encode_pass (inss @ post @ [ins]) = encode_step ?st ins"
    using encode_pass_snoc [of "inss @ post" ins] by simp
  ultimately show ?case using o n by simp
qed simp

lemma labels_unset: "t = '''' \<or> t \<notin> Label ` set inss \<Longrightarrow> enc_labels (encode_pass inss) t = None"
  by (induction inss rule: rev_induct)
    (auto simp: encode_pass_Nil encode_pass_snoc encode_step_simps(1))

lemma labels_last:
  assumes "t \<noteq> ''''" and "Label ins = t" and "t \<notin> Label ` set post"
  shows "enc_labels (encode_pass (pre @ ins # post)) t = Some (offset pre)"
  using assms(3)
proof (induction post rule: rev_induct)
  case Nil
  with assms show ?case by (simp add: encode_pass_snoc encode_step_simps(1) offset_def)
next
  case (snoc x post)
  have "pre @ ins # post @ [x] = (pre @ ins # post) @ [x]" by simp
  with snoc show ?case by (simp only: encode_pass_snoc encode_step_simps(1)) auto
qed

text \<open>Fixups come in the order of the code and never overlap.\<close>

definition fixup_chain :: "nat \<Rightarrow> branchFixup list \<Rightarrow> bool" where
  "fixup_chain hi fxs \<longleftrightarrow>
     sorted_wrt (\<lambda>a b. nextPC a \<le> relPos b) fxs \<and> list_all (fixup_of 0 hi) fxs"

lemma fixup_chain_pass: "fixup_chain (offset inss) (enc_fixups (encode_pass inss))"
proof (induction inss rule: rev_induct)
  case Nil
  then show ?case by (simp add: fixup_chain_def encode_pass_Nil)
next
  case (snoc ins inss)
  let ?st = "encode_pass inss"
  show ?case
  proof (cases "encode_instruction ins (length (enc_out ?st))")
    case (Emit p)
    then obtain bs fxs where e: "encode_instruction ins (length (enc_out ?st)) = Emit (bs, fxs)" by (cases p) auto
    note s = encode_step_simps(2,3) [OF e]
    from instruction_fixups [OF e] snoc show ?thesis
      by (auto simp: fixup_chain_def encode_pass_snoc s offset_def sorted_wrt_append list_all_iff fixup_of_def
          intro: le_trans trans_le_add1)
  qed (use snoc in \<open>simp add: encode_pass_snoc encode_step_simps offset_def\<close>)
qed

section \<open>The fixup pass\<close>

definition resolved :: "bool \<Rightarrow> (string \<rightharpoonup> nat) \<Rightarrow> branchFixup \<Rightarrow> bool" where
  "resolved allow labels fx \<longleftrightarrow>
     (case labels (fx_target fx) of
        Some p \<Rightarrow> disp_ok (int p - int (nextPC fx))
      | None \<Rightarrow> allow \<and> isExternalCallBranch fx)"

definition fixup_value :: "(string \<rightharpoonup> nat) \<Rightarrow> branchFixup \<Rightarrow> bytes \<Rightarrow> bytes" where
  "fixup_value labels fx old =
     (case labels (fx_target fx) of Some p \<Rightarrow> imm_bytes 4 (int p - int (nextPC fx)) | None \<Rightarrow> old)"

definition fixup_relocs :: "(string \<rightharpoonup> nat) \<Rightarrow> branchFixup list \<Rightarrow> ExternalCallReloc list" where
  "fixup_relocs labels fxs =
     map (\<lambda>fx. \<lparr>rel_Offset = of_nat (relPos fx), rel_Symbol = fx_target fx\<rparr>)
       (filter (\<lambda>fx. labels (fx_target fx) = None) fxs)"

lemma overwrite_read: "off + n \<le> length out \<Longrightarrow> overwrite off (read_at off n out) out = out"
  by (simp add: overwrite_def read_at_def min_def) (metis add.commute append_take_drop_id drop_drop)

lemma fix_step_resolved:
  assumes "resolved allow labels fx" and "relPos fx + 4 \<le> length out"
  shows "fix_step allow labels (out, relocs, ds) fx =
    (overwrite (relPos fx) (fixup_value labels fx (read_at (relPos fx) 4 out)) out, relocs @ fixup_relocs labels [fx], ds)"
proof (cases "labels (fx_target fx)")
  case None
  with assms show ?thesis
    by (simp add: fix_step_def resolved_def fixup_value_def fixup_relocs_def overwrite_read)
next
  case (Some p)
  with assms show ?thesis
    by (simp add: fix_step_def resolved_def fixup_value_def fixup_relocs_def disp_ok_def PutUint32_imm Let_def
        del: of_int_diff)
qed

lemma fix_step_unresolved:
  "\<not> resolved allow labels fx \<Longrightarrow> \<exists>d. fix_step allow labels (out, relocs, ds) fx = (out, relocs, ds @ [d])"
  by (auto simp: fix_step_def resolved_def disp_ok_def Let_def split: option.splits)

lemma fix_step_cases:
  assumes "relPos fx + 4 \<le> length out"
  shows "\<exists>out' rs' ds'. fix_step allow labels (out, relocs, ds) fx = (out', relocs @ rs', ds @ ds') \<and> length out' = length out"
proof (cases "resolved allow labels fx")
  case True
  from fix_step_resolved [OF True assms] assms show ?thesis
    by (auto simp: fixup_value_def read_at_def min_def split: option.splits)
next
  case False
  from fix_step_unresolved [OF False, of out relocs ds] show ?thesis by auto
qed

lemma fix_fold_diags: "\<exists>ds'. snd (snd (foldl (fix_step allow labels) (out, relocs, ds) fxs)) = ds @ ds'"
proof (induction fxs arbitrary: out relocs ds)
  case (Cons fx fxs)
  have "\<exists>out' relocs' ds'. fix_step allow labels (out, relocs, ds) fx = (out', relocs', ds @ ds')"
    by (auto simp: fix_step_def Let_def split: option.splits)
  then obtain out' relocs' ds' where s: "fix_step allow labels (out, relocs, ds) fx = (out', relocs', ds @ ds')" by blast
  from Cons.IH [of out' relocs' "ds @ ds'"] show ?case by (auto simp: s)
qed simp

definition untouched :: "branchFixup list \<Rightarrow> nat \<Rightarrow> nat \<Rightarrow> bool" where
  "untouched fxs i n \<longleftrightarrow> list_all (\<lambda>fx. i + n \<le> relPos fx \<or> nextPC fx \<le> i) fxs"

lemma fixup_chain_Cons:
  "fixup_chain hi (fx # fxs) \<longleftrightarrow>
     fixup_of 0 hi fx \<and> list_all (\<lambda>b. nextPC fx \<le> relPos b) fxs \<and> fixup_chain hi fxs"
  by (auto simp: fixup_chain_def list_all_iff)

lemma fix_fold:
  assumes "foldl (fix_step allow labels) (out, relocs, ds) fxs = (out', relocs', [])"
    and "fixup_chain (length out) fxs"
  shows "ds = [] \<and> length out' = length out \<and> relocs' = relocs @ fixup_relocs labels fxs \<and>
    list_all (\<lambda>fx. resolved allow labels fx \<and>
      read_at (relPos fx) 4 out' = fixup_value labels fx (read_at (relPos fx) 4 out)) fxs \<and>
    (\<forall>i n. i + n \<le> length out \<longrightarrow> untouched fxs i n \<longrightarrow> read_at i n out' = read_at i n out)"
  using assms
proof (induction fxs arbitrary: out relocs ds)
  case Nil
  then show ?case by (simp add: fixup_relocs_def)
next
  case (Cons fx fxs)
  let ?new = "fixup_value labels fx (read_at (relPos fx) 4 out)"
  from Cons.prems(2) have fx: "nextPC fx = relPos fx + 4" "relPos fx + 4 \<le> length out"
    and apart: "list_all (\<lambda>b. nextPC fx \<le> relPos b) fxs" and chain: "fixup_chain (length out) fxs"
    by (auto simp: fixup_chain_Cons fixup_of_def)
  have res: "resolved allow labels fx"
  proof (rule ccontr)
    assume "\<not> resolved allow labels fx"
    from fix_step_unresolved [OF this] obtain d where "fix_step allow labels (out, relocs, ds) fx = (out, relocs, ds @ [d])"
      by blast
    with fix_fold_diags [of allow labels out relocs "ds @ [d]" fxs] Cons.prems(1) show False by auto
  qed
  have len: "length ?new = 4"
    using fx by (simp add: fixup_value_def read_at_def split: option.split)
  then have fits: "relPos fx + length ?new \<le> length out" using fx by simp
  note step = fix_step_resolved [OF res fx(2), of relocs ds]
  define mid where "mid = overwrite (relPos fx) ?new out"
  have lm: "length mid = length out" unfolding mid_def using fits by simp
  have IH: "ds = [] \<and> length out' = length mid \<and> relocs' = (relocs @ fixup_relocs labels [fx]) @ fixup_relocs labels fxs \<and>
    list_all (\<lambda>f. resolved allow labels f \<and>
      read_at (relPos f) 4 out' = fixup_value labels f (read_at (relPos f) 4 mid)) fxs \<and>
    (\<forall>i n. i + n \<le> length mid \<longrightarrow> untouched fxs i n \<longrightarrow> read_at i n out' = read_at i n mid)"
    using Cons.prems(1) step chain lm by (intro Cons.IH) (simp_all add: mid_def)
  have keep: "read_at i n mid = read_at i n out" if "i + n \<le> relPos fx \<or> nextPC fx \<le> i" "i + n \<le> length out" for i n
    unfolding mid_def using that fx len by (intro read_overwrite_other) auto
  have "untouched fxs (relPos fx) 4" using apart fx by (simp add: untouched_def list_all_iff)
  then have here: "read_at (relPos fx) 4 out' = ?new"
    using IH fx lm read_overwrite_same [OF fits] len by (simp add: mid_def)
  have there: "list_all (\<lambda>f. resolved allow labels f \<and>
      read_at (relPos f) 4 out' = fixup_value labels f (read_at (relPos f) 4 out)) fxs"
    using IH apart chain keep by (auto simp: list_all_iff fixup_chain_def fixup_of_def)
  have else_where: "read_at i n out' = read_at i n out" if "i + n \<le> length out" "untouched (fx # fxs) i n" for i n
    using that IH keep lm by (simp add: untouched_def)
  from IH lm res here there else_where show ?case by (auto simp: fixup_relocs_def)
qed

section \<open>The assembled program\<close>

text \<open>The bytes of one instruction in the finished program, and the displacement the fixup pass left there.\<close>

lemma program_instruction:
  assumes enc: "encode (pre @ ins # post) allow = (out, relocs, [])"
    and emit: "encode_instruction ins (offset pre) = Emit (bs, fxs)"
  defines "labels \<equiv> enc_labels (encode_pass (pre @ ins # post))"
  shows "offset (pre @ [ins]) = offset pre + length bs" and "offset pre + length bs \<le> length out"
    and "fxs = [] \<Longrightarrow> drop (offset pre) out = bs @ drop (offset (pre @ [ins])) out"
    and "fxs = [fx] \<Longrightarrow> bs = opc @ old \<Longrightarrow> length old = 4 \<Longrightarrow> relPos fx = offset pre + length opc \<Longrightarrow>
      drop (offset pre) out = opc @ fixup_value labels fx old @ drop (offset (pre @ [ins])) out \<and>
      resolved allow labels fx \<and>
      (labels (fx_target fx) = None \<longrightarrow>
         \<lparr>rel_Offset = of_nat (relPos fx), rel_Symbol = fx_target fx\<rparr> \<in> set relocs)"
proof -
  let ?st = "encode_pass (pre @ ins # post)" and ?p = "encode_pass pre" and ?a = "offset pre" and ?b = "offset pre + length bs"
  from emit have emit': "encode_instruction ins (length (enc_out ?p)) = Emit (bs, fxs)" by (simp add: offset_def)
  note one = encode_step_simps(2,3) [OF emit']
  show off: "offset (pre @ [ins]) = ?b" by (simp add: offset_def encode_pass_snoc one)
  obtain rst F2 ds2 where grow: "enc_out ?st = enc_out ?p @ bs @ rst" "enc_fixups ?st = enc_fixups ?p @ fxs @ F2"
    "list_all (\<lambda>fx. ?b \<le> relPos fx) F2"
    using encode_pass_grows [of "pre @ [ins]" post] off by (auto simp: encode_pass_snoc one)
  have before: "list_all (fixup_of 0 ?a) (enc_fixups ?p)" using fixup_chain_pass [of pre] by (simp add: fixup_chain_def)
  have chain: "fixup_chain (length (enc_out ?st)) (enc_fixups ?st)"
    using fixup_chain_pass [of "pre @ ins # post"] by (simp add: offset_def)
  have "foldl (fix_step allow labels) (enc_out ?st, [], enc_diags ?st) (enc_fixups ?st) = (out, relocs, [])"
    using enc by (simp add: encode_def Let_def labels_def)
  note fin = fix_fold [OF this chain]
  then have len: "length out = length (enc_out ?st)" by blast
  have a: "?a = length (enc_out ?p)" by (simp add: offset_def)
  show le: "?b \<le> length out" using len grow(1) a by simp
  have keep: "read_at i n out = read_at i n (enc_out ?st)" if "?a \<le> i" "i + n \<le> ?b" "untouched fxs i n" for i n
  proof -
    have "untouched (enc_fixups ?st) i n"
      using that before grow(2,3) by (auto simp: untouched_def list_all_iff fixup_of_def intro: le_trans)
    with fin that le len show ?thesis by simp
  qed
  show "drop ?a out = bs @ drop (offset (pre @ [ins])) out" if "fxs = []"
  proof -
    have "read_at ?a (length bs) out = bs"
      using keep [of ?a "length bs"] that grow(1) a by (simp add: untouched_def read_at_def)
    then show ?thesis using off by (metis add.commute append_take_drop_id drop_drop read_at_def)
  qed
  show "drop ?a out = opc @ fixup_value labels fx old @ drop (offset (pre @ [ins])) out \<and> resolved allow labels fx \<and>
      (labels (fx_target fx) = None \<longrightarrow> \<lparr>rel_Offset = of_nat (relPos fx), rel_Symbol = fx_target fx\<rparr> \<in> set relocs)"
    if fx: "fxs = [fx]" and bs: "bs = opc @ old" "length old = 4" and pos: "relPos fx = ?a + length opc"
  proof -
    have h: "read_at ?a (length opc) out = opc"
      using keep [of ?a "length opc"] fx bs pos grow(1) a by (simp add: untouched_def read_at_def)
    have o: "read_at (relPos fx) 4 (enc_out ?st) = old" using pos grow(1) bs a by (simp add: read_at_def)
    from fin fx grow(2) have res: "resolved allow labels fx"
      and v: "read_at (relPos fx) 4 out = fixup_value labels fx (read_at (relPos fx) 4 (enc_out ?st))"
      and r: "relocs = fixup_relocs labels (enc_fixups ?st)" by simp_all
    have "drop ?a out = opc @ drop (relPos fx) out"
      using h pos by (metis add.commute append_take_drop_id drop_drop read_at_def)
    also have "drop (relPos fx) out = fixup_value labels fx old @ drop (offset (pre @ [ins])) out"
      using v o off pos bs append_take_drop_id [of 4 "drop (relPos fx) out"]
      by (simp add: read_at_def add.commute add.left_commute)
    finally show ?thesis using res r fx grow(2) by (auto simp: fixup_relocs_def)
  qed
qed

lemma program_meaning:
  assumes "encode (pre @ ins # post) allow = (out, relocs, [])" and "meaning ins = Some d"
  shows "decode (drop (offset pre) out) = Some (d, drop (offset (pre @ [ins])) out)"
proof -
  from encode_means [OF assms(2)] obtain bs where e: "encode_instruction ins (offset pre) = Emit (bs, [])"
    and d: "\<And>t. decode (bs @ t) = Some (d, t)" by (auto simp: encodes_def)
  from program_instruction(3) [OF assms(1) e] d show ?thesis by simp
qed

lemma program_branch:
  assumes enc: "encode (pre @ ins # post) allow = (out, relocs, [])" and br: "branch ins = Some (t, mk)"
  defines "here \<equiv> offset pre" and "after \<equiv> offset (pre @ [ins])" and "labels \<equiv> enc_labels (encode_pass (pre @ ins # post))"
  shows "labels t = Some p \<Longrightarrow> decode (drop here out) = Some (mk (int p - int after), drop after out)"
    and "labels t = None \<Longrightarrow> allow \<and> HasPrefix t ''_wrela_'' \<and>
      \<lparr>rel_Offset = of_nat (after - 4), rel_Symbol = t\<rparr> \<in> set relocs \<and>
      decode (drop here out) = Some (mk 0, drop after out)"
proof -
  obtain opc where e: "encode_instruction ins here = Emit (opc @ [0, 0, 0, 0], [fixup_at ins t (here + length opc)])"
    and d: "\<And>v r. disp_ok v \<Longrightarrow> decode (opc @ imm_bytes 4 v @ r) = Some (mk v, r)"
    using branch_encodes [OF br, of here] by blast
  let ?fx = "fixup_at ins t (here + length opc)"
  have fx: "relPos ?fx = here + length opc" "fx_target ?fx = t" by (simp_all add: fixup_at_def)
  have after: "after = here + length opc + 4"
    using program_instruction(1) [OF enc e [unfolded here_def]] by (simp add: after_def here_def)
  then have np: "nextPC ?fx = after" by (simp add: fixup_at_def)
  note pi = program_instruction(4) [OF enc e [unfolded here_def], of "fixup_at ins t (here + length opc)" opc "[0, 0, 0, 0]",
      folded labels_def after_def here_def]
  from pi fx have bytes: "drop here out = opc @ fixup_value labels ?fx [0, 0, 0, 0] @ drop after out"
    and res: "resolved allow labels ?fx"
    and rel: "labels t = None \<Longrightarrow> \<lparr>rel_Offset = of_nat (relPos ?fx), rel_Symbol = t\<rparr> \<in> set relocs" by simp_all
  show "decode (drop here out) = Some (mk (int p - int after), drop after out)" if "labels t = Some p"
    using that bytes res d np fx by (simp add: fixup_value_def resolved_def)
  show "allow \<and> HasPrefix t ''_wrela_'' \<and> \<lparr>rel_Offset = of_nat (after - 4), rel_Symbol = t\<rparr> \<in> set relocs \<and>
      decode (drop here out) = Some (mk 0, drop after out)" if none: "labels t = None"
  proof -
    have "decode (drop here out) = Some (mk 0, drop after out)"
      using none bytes d [of 0 "drop after out"] fx by (simp add: fixup_value_def zero_imm disp_ok_def)
    moreover have "allow \<and> HasPrefix t ''_wrela_''"
      using none res fx by (simp add: resolved_def isExternalCallBranch_def Let_def)
    moreover have "after - 4 = relPos ?fx" using after fx by simp
    ultimately show ?thesis using rel [OF none] by simp
  qed
qed



end
