(* ===== verification/Topic_Data.thy ===== *)
theory Topic_Data
  imports Diagnostics Record_Layout
begin

text \<open>
  Backing memory of topics and interrupt queues, \<open>compiler/codegen/topic_data.go\<close> and the data part of
  \<open>compiler/codegen/interrupt_queue.go\<close>, and the data sections they go into
  (\<open>appendDataObjects\<close> in \<open>compiler/codegen/x64.go\<close>). Sizes and offsets are 64-bit words that wrap.
  The lemmas show that the regions of a topic are cache-line aligned and apart from each other, that a
  topic object starts with every waitline disarmed, and that the objects of a section keep their bytes at
  their aligned offsets.
\<close>

unbundle bit_operations_syntax

section \<open>Topics\<close>

definition cacheLineSize :: u64 where "cacheLineSize = 64"
definition topicWaitlineDisarmedBits :: u64 where "topicWaitlineDisarmedBits = NOT 0"

record DataObject =
  obj_Symbol :: string
  obj_Bytes :: bytes
  obj_Align :: u64

text \<open>The fields of a topic that the planning reads.\<close>

record TopicLayout =
  top_Label :: string
  top_Kind :: string
  top_Depth :: u64
  top_PayloadSize :: u64
  top_PayloadAlign :: u64
  top_Producers :: "string list"
  top_Subscribers :: "string list"

record topicDataSubscriberLayout =
  sub_Label :: string
  CursorOffset :: u64
  WaitlineOffset :: u64

record topicDataLayout =
  td_Label :: string
  td_Kind :: string
  td_Depth :: u64
  HeadOffset :: u64
  ProducerWaitlineOffset :: u64
  SlotsOffset :: u64
  td_PayloadSize :: u64
  SlotSize :: u64
  Producers :: "string list"
  Subscribers :: "topicDataSubscriberLayout list"
  TotalSize :: u64

definition alignUp64 :: "u64 \<Rightarrow> u64" where
  "alignUp64 value =
     (if value mod cacheLineSize = 0 then value else value + cacheLineSize - value mod cacheLineSize)"

definition topicSlotSize :: "u64 \<Rightarrow> u64" where
  "topicSlotSize payloadSize = alignUp64 (8 + payloadSize)"

definition isReliableTopicKind :: "string \<Rightarrow> bool" where
  "isReliableTopicKind kind \<longleftrightarrow> kind = ''reliable'' \<or> kind = ''reliable_u64''"

fun plan_subscribers :: "u64 \<Rightarrow> string list \<Rightarrow> topicDataSubscriberLayout list \<times> u64" where
  "plan_subscribers nxt [] = ([], nxt)"
| "plan_subscribers nxt (s # ss) =
     (let (ls, e) = plan_subscribers (nxt + 2 * cacheLineSize) ss
      in (\<lparr>sub_Label = s, CursorOffset = nxt, WaitlineOffset = nxt + cacheLineSize\<rparr> # ls, e))"

definition planTopicData :: "TopicLayout \<Rightarrow> topicDataLayout" where
  "planTopicData topic =
     (let (subs, nxt) = plan_subscribers (2 * cacheLineSize) (top_Subscribers topic);
          slotSize = topicSlotSize (top_PayloadSize topic);
          slotsOffset = alignUp64 nxt
      in \<lparr>td_Label = top_Label topic, td_Kind = top_Kind topic, td_Depth = top_Depth topic, HeadOffset = 0,
          ProducerWaitlineOffset = cacheLineSize, SlotsOffset = slotsOffset, td_PayloadSize = top_PayloadSize topic,
          SlotSize = slotSize, Producers = top_Producers topic, Subscribers = subs,
          TotalSize = alignUp64 (slotsOffset + top_Depth topic * slotSize)\<rparr>)"

definition cg_diag :: "string \<Rightarrow> string \<Rightarrow> Diagnostic" where
  "cg_diag code msg = \<lparr>diag_Phase = ''cg'', diag_Code = code, diag_Severity = '''',
     diag_FilePath = '''', diag_Start = 0, diag_End = 0, diag_Message = msg, diag_Sequence = 0\<rparr>"

definition planTopicDataChecked :: "TopicLayout \<Rightarrow> Diagnostic + topicDataLayout" where
  "planTopicDataChecked topic =
     (if top_PayloadSize topic = 0 \<or> top_PayloadAlign topic = 0
      then Inl (cg_diag ''SEM0066'' (''topic payload layout is not statically known: '' @ top_Label topic))
      else if top_Depth topic = 0 \<or> top_Depth topic AND (top_Depth topic - 1) \<noteq> 0
      then Inl (cg_diag ''SEM0046'' ''topic depth must be a power of two'')
      else if isReliableTopicKind (top_Kind topic) \<and> top_Subscribers topic = []
      then Inl (cg_diag ''CG0001'' (''reliable topic requires at least one subscriber: '' @ top_Label topic))
      else Inr ((planTopicData topic)\<lparr>SlotSize := topicSlotSize (top_PayloadSize topic)\<rparr>))"

text \<open>
  The layouts in the order of the labels, which are the names of distinct topics; the first diagnostic stops.
\<close>

fun check_all :: "TopicLayout list \<Rightarrow> Diagnostic + topicDataLayout list" where
  "check_all [] = Inr []"
| "check_all (t # ts) =
     (case planTopicDataChecked t of
        Inl d \<Rightarrow> Inl d
      | Inr l \<Rightarrow> (case check_all ts of Inl d \<Rightarrow> Inl d | Inr ls \<Rightarrow> Inr (l # ls)))"

definition orderedTopicDataLayouts :: "TopicLayout list \<Rightarrow> Diagnostic + topicDataLayout list" where
  "orderedTopicDataLayouts topics = check_all (sort_key top_Label topics)"

definition sanitizeSymbol :: "string \<Rightarrow> string" where
  "sanitizeSymbol label =
     map (\<lambda>r. let c = (of_char r :: nat) in
       if 65 \<le> c \<and> c \<le> 90 \<or> 97 \<le> c \<and> c \<le> 122 \<or> 48 \<le> c \<and> c \<le> 57 \<or> c = 95 then r else CHR ''_'') label"

text \<open>The stores into the zeroed object; None is the panic of a slice out of range.\<close>

definition topic_object :: "topicDataLayout \<Rightarrow> DataObject option" where
  "topic_object l =
     map_option (\<lambda>data. \<lparr>obj_Symbol = ''_wrela_topic_'' @ sanitizeSymbol (td_Label l), obj_Bytes = data, obj_Align = cacheLineSize\<rparr>)
       (write_all ((unat (ProducerWaitlineOffset l), PutUint64 topicWaitlineDisarmedBits) #
           map (\<lambda>s. (unat (WaitlineOffset s), PutUint64 topicWaitlineDisarmedBits)) (Subscribers l))
         (replicate (unat (TotalSize l)) 0))"

definition topicDataObjects :: "TopicLayout list \<Rightarrow> Diagnostic + DataObject option list" where
  "topicDataObjects topics =
     (case orderedTopicDataLayouts topics of Inl d \<Rightarrow> Inl d | Inr ls \<Rightarrow> Inr (map topic_object ls))"

section \<open>Interrupt queues\<close>

record InterruptQueueLayout =
  iq_Label :: string
  iq_SourceLabel :: string
  iq_Vector :: byte
  iq_Owner :: string
  iq_Capacity :: u64
  iq_PayloadSize :: u64
  iq_PayloadAlign :: u64
  iq_Overflow :: string

definition interruptQueueHeaderSize :: u64 where "interruptQueueHeaderSize = 32"
definition interruptQueueCapacityOffset :: nat where "interruptQueueCapacityOffset = 16"

definition interruptQueueDataSymbol :: "string \<Rightarrow> string" where
  "interruptQueueDataSymbol label = ''_wrela_interrupt_queue_'' @ sanitizeSymbol label"

definition interruptQueueDataSize :: "InterruptQueueLayout \<Rightarrow> u64 option" where
  "interruptQueueDataSize q =
     (if iq_PayloadSize q \<noteq> 0 \<and> iq_Capacity q > (NOT 0 - interruptQueueHeaderSize) div iq_PayloadSize q then None
      else let sz = interruptQueueHeaderSize + iq_Capacity q * iq_PayloadSize q
           in if sz > 0x7fffffffffffffff then None else Some sz)"

text \<open>The outer None is a panic, the inner one the false result.\<close>

definition interruptQueueDataObject :: "InterruptQueueLayout \<Rightarrow> DataObject option option" where
  "interruptQueueDataObject q =
     (case interruptQueueDataSize q of
        None \<Rightarrow> Some None
      | Some sz \<Rightarrow>
          map_option (\<lambda>data. Some \<lparr>obj_Symbol = interruptQueueDataSymbol (iq_Label q), obj_Bytes = data,
              obj_Align = (if iq_PayloadAlign q = 0 then 8 else iq_PayloadAlign q)\<rparr>)
            (write_at interruptQueueCapacityOffset (PutUint64 (iq_Capacity q)) (replicate (unat sz) 0)))"

definition queue_overflow :: Diagnostic where
  "queue_overflow = cg_diag ''CG0001'' ''interrupt queue backing size overflows data object size''"

fun queue_objects :: "InterruptQueueLayout list \<Rightarrow> (Diagnostic + DataObject list) option" where
  "queue_objects [] = Some (Inr [])"
| "queue_objects (q # qs) =
     (case interruptQueueDataObject q of
        None \<Rightarrow> None
      | Some None \<Rightarrow> Some (Inl queue_overflow)
      | Some (Some obj) \<Rightarrow> map_option (map_sum (\<lambda>d. d) (Cons obj)) (queue_objects qs))"

definition interruptQueueDataObjects :: "InterruptQueueLayout list \<Rightarrow> (Diagnostic + DataObject list) option" where
  "interruptQueueDataObjects queues = queue_objects (sort_key iq_Label queues)"

definition interruptQueueByVector :: "InterruptQueueLayout list \<Rightarrow> (byte \<rightharpoonup> InterruptQueueLayout)" where
  "interruptQueueByVector queues =
     foldl (\<lambda>out q. if iq_Vector q = 0 then out else out(iq_Vector q \<mapsto> q)) Map.empty queues"

section \<open>Data sections\<close>

text \<open>\<open>appendDataObjects\<close> on the bytes so far and the offsets so far.\<close>

fun append_objects :: "bytes \<Rightarrow> (string \<rightharpoonup> u64) \<Rightarrow> DataObject list \<Rightarrow> bytes \<times> (string \<rightharpoonup> u64)" where
  "append_objects out offsets [] = (out, offsets)"
| "append_objects out offsets (obj # objs) =
     (let padded = (if obj_Align obj > 1
          then out @ replicate (nat (AlignUp (int (length out)) (sint (obj_Align obj)) - int (length out))) 0 else out)
      in append_objects (padded @ obj_Bytes obj) (offsets(obj_Symbol obj \<mapsto> of_nat (length padded))) objs)"

definition appendDataObjects :: "DataObject list \<Rightarrow> bytes \<times> (string \<rightharpoonup> u64)" where
  "appendDataObjects objects = append_objects [] Map.empty objects"

section \<open>Cache lines\<close>

lemma round_up_64:
  fixes n :: nat
  shows "n \<le> (n + 63) div 64 * 64" "(n + 63) div 64 * 64 < n + 64"
    "n mod 64 \<noteq> 0 \<Longrightarrow> (n + 63) div 64 * 64 = n + 64 - n mod 64"
proof -
  have "(n + 63) div 64 * 64 + (n + 63) mod 64 = n + 63" by (rule div_mult_mod_eq)
  moreover have "(n + 63) mod 64 < 64" by simp
  ultimately show "n \<le> (n + 63) div 64 * 64" "(n + 63) div 64 * 64 < n + 64" by linarith+
  assume r: "n mod 64 \<noteq> 0"
  define q m where "q = n div 64" and "m = n mod 64"
  have n: "n = 64 * q + m" and m: "0 < m" "m < 64" using r by (simp_all add: q_def m_def)
  have "(n + 63) div 64 = q + 1" by (rule div_nat_eqI) (use n m in simp_all)
  with n m show "(n + 63) div 64 * 64 = n + 64 - n mod 64" by simp
qed

lemma round_up_64_id: "64 dvd n \<Longrightarrow> (n + 63) div 64 * 64 = (n :: nat)"
  by (elim dvdE) simp

lemma alignUp64_value:
  assumes "unat v + 64 \<le> 2 ^ 64"
  shows "unat (alignUp64 v) = (unat v + 63) div 64 * 64"
proof -
  have m: "unat (v mod 64) = unat v mod 64" by (simp add: unat_mod)
  then have z: "v mod 64 = 0 \<longleftrightarrow> unat v mod 64 = 0" by (metis unat_eq_0)
  show ?thesis
  proof (cases "unat v mod 64 = 0")
    case True
    then obtain k where "unat v = 64 * k" by (auto elim: dvdE simp: mod_eq_0_iff_dvd)
    then have "(unat v + 63) div 64 * 64 = unat v" by simp
    with True z show ?thesis by (simp add: alignUp64_def cacheLineSize_def)
  next
    case False
    have "v mod 64 \<le> v + 64 \<and> unat (v + 64 - v mod 64) = unat v + 64 - unat v mod 64"
    proof (cases "unat v + 64 < 2 ^ 64")
      case True
      then have a: "unat (v + 64) = unat v + 64" by (simp add: unat_add_u64)
      have "unat v mod 64 < 64" by simp
      with a m have "v mod 64 \<le> v + 64" by (simp add: word_le_nat_alt)
      with a m show ?thesis by (simp add: unat_sub)
    next
      case full: False
      with assms have "unat v = 2 ^ 64 - 64" by linarith
      with False show ?thesis by simp
    qed
    moreover have "(unat v + 63) div 64 * 64 = unat v + 64 - unat v mod 64" using False by (rule round_up_64)
    ultimately show ?thesis using False z by (simp add: alignUp64_def cacheLineSize_def)
  qed
qed

interpretation cache_line: aligner "\<lambda>v a. unat (alignUp64 (of_nat v))" "\<lambda>v a. a = 64 \<and> v + 64 \<le> 2 ^ 64"
proof
  fix v a :: nat assume ok: "a = 64 \<and> v + 64 \<le> 2 ^ 64"
  then have u: "unat (of_nat v :: u64) = v" by (intro unat_of_nat_u64) simp
  with ok have eq: "unat (alignUp64 (of_nat v)) = (v + 63) div 64 * 64" using alignUp64_value [of "of_nat v"] by simp
  show "v \<le> unat (alignUp64 (of_nat v))" unfolding eq by (rule round_up_64)
  show "a dvd unat (alignUp64 (of_nat v))" unfolding eq using ok by simp
  show "unat (alignUp64 (of_nat v)) < v + a" unfolding eq using ok round_up_64(2) [of v] by simp
qed

lemma alignUp64_props:
  assumes "unat v + 64 \<le> 2 ^ 64"
  shows "unat v \<le> unat (alignUp64 v)" "64 dvd unat (alignUp64 v)" "unat (alignUp64 v) < unat v + 64"
  using cache_line.up_ge [of 64 "unat v"] cache_line.up_dvd [of 64 "unat v"] cache_line.up_less [of 64 "unat v"] assms
  by simp_all

section \<open>Regions of a topic\<close>

definition topic_regions :: "topicDataLayout \<Rightarrow> (nat \<times> nat) list" where
  "topic_regions l =
     [(unat (HeadOffset l), 8), (unat (ProducerWaitlineOffset l), 8)] @
     concat (map (\<lambda>s. [(unat (CursorOffset s), 8), (unat (WaitlineOffset s), 8)]) (Subscribers l)) @
     map (\<lambda>i. (unat (SlotsOffset l) + i * unat (SlotSize l), 8 + unat (td_PayloadSize l))) [0..<unat (td_Depth l)]"

text \<open>Regions on cache lines of their own between two bounds.\<close>

fun line_chain :: "nat \<Rightarrow> nat \<Rightarrow> (nat \<times> nat) list \<Rightarrow> bool" where
  "line_chain lo hi [] \<longleftrightarrow> lo \<le> hi"
| "line_chain lo hi ((a, n) # rs) \<longleftrightarrow> lo \<le> a \<and> 64 dvd a \<and> line_chain (a + n) hi rs"

lemma line_chain_mono: "line_chain mid hi ys \<Longrightarrow> lo \<le> mid \<Longrightarrow> line_chain lo hi ys"
  by (cases ys; cases "hd ys") auto

lemma line_chain_append: "line_chain lo mid xs \<Longrightarrow> line_chain mid hi ys \<Longrightarrow> line_chain lo hi (xs @ ys)"
  by (induction lo mid xs rule: line_chain.induct) (auto intro: line_chain_mono)

lemma line_chain_bounds:
  "line_chain lo hi rs \<Longrightarrow> list_all (\<lambda>(a, n). lo \<le> a \<and> 64 dvd a \<and> a + n \<le> hi) rs \<and> lo \<le> hi"
proof (induction lo hi rs rule: line_chain.induct)
  case (2 lo hi a n rs)
  then have "list_all (\<lambda>(b, m). a + n \<le> b \<and> 64 dvd b \<and> b + m \<le> hi) rs" "a + n \<le> hi" by auto
  moreover have "list_all (\<lambda>(b, m). lo \<le> b \<and> 64 dvd b \<and> b + m \<le> hi) rs"
    using calculation(1) "2.prems" by (auto simp: list_all_iff)
  ultimately show ?case using "2.prems" by simp
qed simp

lemma line_chain_sorted: "line_chain lo hi rs \<Longrightarrow> sorted_wrt (\<lambda>(a, n) (b, m). a + n \<le> b) rs"
proof (induction lo hi rs rule: line_chain.induct)
  case (2 lo hi a n rs)
  then show ?case using line_chain_bounds [of "a + n" hi rs] by (auto simp: list_all_iff)
qed simp

lemma plan_subscribers_chain:
  assumes "plan_subscribers nxt ss = (ls, e)" and "unat nxt + 128 * length ss < 2 ^ 64" and "64 dvd unat nxt"
  shows "unat e = unat nxt + 128 * length ss \<and> map sub_Label ls = ss \<and>
    line_chain (unat nxt) (unat e) (concat (map (\<lambda>s. [(unat (CursorOffset s), 8), (unat (WaitlineOffset s), 8)]) ls))"
  using assms
proof (induction nxt ss arbitrary: ls rule: plan_subscribers.induct)
  case (2 nxt s ss)
  obtain ls' where r: "plan_subscribers (nxt + 2 * cacheLineSize) ss = (ls', e)"
    and ls: "ls = \<lparr>sub_Label = s, CursorOffset = nxt, WaitlineOffset = nxt + cacheLineSize\<rparr> # ls'"
    using "2.prems"(1) by (auto simp: case_prod_beta Let_def prod_eq_iff)
  have n: "unat (nxt + 2 * cacheLineSize) = unat nxt + 128" "unat (nxt + cacheLineSize) = unat nxt + 64"
    using "2.prems"(2) unat_add_u64 [of nxt 128] unat_add_u64 [of nxt 64] by (simp_all add: cacheLineSize_def)
  have "64 dvd unat nxt + 128" "64 dvd unat nxt + 64" using "2.prems"(3) by (simp_all add: dvd_add)
  with "2.IH" [OF r] "2.prems"(2,3) n have IH: "unat e = unat nxt + 128 * length (s # ss)" "map sub_Label ls' = ss"
    "line_chain (unat nxt + 128) (unat e) (concat (map (\<lambda>s. [(unat (CursorOffset s), 8), (unat (WaitlineOffset s), 8)]) ls'))"
    by auto
  moreover have "line_chain (unat nxt) (unat nxt + 128) [(unat nxt, 8), (unat nxt + 64, 8)]"
    using "2.prems"(3) by (simp add: dvd_add)
  ultimately show ?case using line_chain_append by (fastforce simp: ls n)
qed auto

text \<open>Sizes that do not wrap: subscribers take two lines each, a slot its payload, a sequence word and padding.\<close>

definition topic_fits :: "TopicLayout \<Rightarrow> bool" where
  "topic_fits t \<longleftrightarrow>
     128 * (length (top_Subscribers t) + 1) + unat (top_Depth t) * (unat (top_PayloadSize t) + 72) + 64 \<le> 2 ^ 64 \<and>
     unat (top_PayloadSize t) + 72 \<le> 2 ^ 64"

lemma planTopicData_values:
  assumes fits: "topic_fits t"
  defines "l \<equiv> planTopicData t"
  shows "unat (SlotSize l) = (unat (top_PayloadSize t) + 71) div 64 * 64"
    and "unat (SlotsOffset l) = 128 * (length (top_Subscribers t) + 1)"
    and "unat (TotalSize l) = 128 * (length (top_Subscribers t) + 1) + unat (top_Depth t) * unat (SlotSize l)"
    and "line_chain 128 (unat (SlotsOffset l))
      (concat (map (\<lambda>s. [(unat (CursorOffset s), 8), (unat (WaitlineOffset s), 8)]) (Subscribers l)))"
    and "map sub_Label (Subscribers l) = top_Subscribers t"
proof -
  let ?n = "length (top_Subscribers t)" and ?P = "unat (top_PayloadSize t)" and ?D = "unat (top_Depth t)"
  obtain ls e where r: "plan_subscribers (2 * cacheLineSize) (top_Subscribers t) = (ls, e)" by (cases "plan_subscribers (2 * cacheLineSize) (top_Subscribers t)")
  have two: "unat (2 * cacheLineSize) = 128" by (simp add: cacheLineSize_def)
  have "unat (2 * cacheLineSize) + 128 * ?n < 2 ^ 64" using fits by (simp add: topic_fits_def two)
  from plan_subscribers_chain [OF r this] two have e: "unat e = 128 * (?n + 1)" "map sub_Label ls = top_Subscribers t"
    "line_chain 128 (unat e) (concat (map (\<lambda>s. [(unat (CursorOffset s), 8), (unat (WaitlineOffset s), 8)]) ls))" by auto
  have l: "SlotSize l = topicSlotSize (top_PayloadSize t)" "SlotsOffset l = alignUp64 e" "Subscribers l = ls"
    "TotalSize l = alignUp64 (alignUp64 e + top_Depth t * topicSlotSize (top_PayloadSize t))"
    unfolding l_def planTopicData_def r by (simp_all add: Let_def)
  have "unat (8 + top_PayloadSize t) = 8 + ?P" using fits unat_add_u64 [of 8 "top_PayloadSize t"] by (simp add: topic_fits_def)
  then have slot: "unat (topicSlotSize (top_PayloadSize t)) = (?P + 71) div 64 * 64"
    using alignUp64_value [of "8 + top_PayloadSize t"] fits by (simp add: topicSlotSize_def topic_fits_def add.commute)
  then show "unat (SlotSize l) = (?P + 71) div 64 * 64" by (simp add: l)
  let ?S = "(?P + 71) div 64 * 64"
  have "?S < ?P + 72" using round_up_64(2) [of "?P + 8"] by (simp add: add.commute)
  then have DS: "?D * ?S \<le> ?D * (?P + 72)" by (intro mult_left_mono) auto
  have "unat e + 64 \<le> 2 ^ 64" using fits e(1) by (simp add: topic_fits_def)
  moreover have "64 dvd unat e" unfolding e(1) by (rule dvd_mult2) simp
  ultimately have so: "unat (alignUp64 e) = 128 * (?n + 1)" using e(1) by (simp only: alignUp64_value round_up_64_id)
  then show "unat (SlotsOffset l) = 128 * (?n + 1)" by (simp add: l)
  show "line_chain 128 (unat (SlotsOffset l)) (concat (map (\<lambda>s. [(unat (CursorOffset s), 8), (unat (WaitlineOffset s), 8)]) (Subscribers l)))"
    using e(1,3) so by (simp add: l)
  show "map sub_Label (Subscribers l) = top_Subscribers t" using e by (simp add: l)
  have room: "128 * (?n + 1) + ?D * ?S + 64 \<le> 2 ^ 64" using fits DS unfolding topic_fits_def by linarith
  then have "?D * ?S < 2 ^ 64" by linarith
  then have "unat (top_Depth t * topicSlotSize (top_PayloadSize t)) = ?D * ?S" by (simp add: unat_word_ariths slot)
  then have "unat (alignUp64 e + top_Depth t * topicSlotSize (top_PayloadSize t)) = 128 * (?n + 1) + ?D * ?S"
    using unat_add_u64 [of "alignUp64 e" "top_Depth t * topicSlotSize (top_PayloadSize t)"] so room by simp
  moreover have "64 dvd 128 * (?n + 1) + ?D * ?S" by (intro dvd_add dvd_mult dvd_mult2 [of 64 128]) simp_all
  ultimately show "unat (TotalSize l) = 128 * (?n + 1) + ?D * unat (SlotSize l)"
    using alignUp64_value [of "alignUp64 e + top_Depth t * topicSlotSize (top_PayloadSize t)"] room
    by (simp only: l slot round_up_64_id)
qed

lemma slots_chain:
  assumes "64 dvd base" and "64 dvd sz" and "n \<le> sz"
  shows "line_chain base (base + d * sz) (map (\<lambda>i. (base + i * sz, n)) [0..<d])"
proof (induction d)
  case (Suc d)
  have "64 dvd base + d * sz" using assms by (simp add: dvd_add)
  then have "line_chain (base + d * sz) (base + Suc d * sz) [(base + d * sz, n)]" using assms(3) by simp
  from line_chain_append [OF Suc this] show ?case by simp
qed simp

lemma checked_topic:
  "planTopicDataChecked t = Inr l \<Longrightarrow> l = planTopicData t \<and> 0 < unat (top_Depth t) \<and> 0 < unat (top_PayloadSize t)"
  by (auto simp: planTopicDataChecked_def planTopicData_def case_prod_beta Let_def unat_gt_0 split: if_splits)

lemma topic_line_chain:
  assumes fits: "topic_fits t" and l: "l = planTopicData t"
  shows "line_chain 0 (unat (TotalSize l)) (topic_regions l)"
proof -
  note v = planTopicData_values [OF fits, folded l]
  have f: "unat (HeadOffset l) = 0" "unat (ProducerWaitlineOffset l) = 64" "td_PayloadSize l = top_PayloadSize t" "td_Depth l = top_Depth t"
    by (simp_all add: l planTopicData_def case_prod_beta Let_def cacheLineSize_def)
  have first: "line_chain 0 128 [(unat (HeadOffset l), 8), (unat (ProducerWaitlineOffset l), 8)]" by (simp add: f)
  have "8 + unat (td_PayloadSize l) \<le> unat (SlotSize l)"
    unfolding v(1) f using round_up_64(1) [of "unat (top_PayloadSize t) + 8"] by simp
  moreover have "64 dvd unat (SlotsOffset l)" unfolding v(2) by (rule dvd_mult2) simp
  moreover have "64 dvd unat (SlotSize l)" unfolding v(1) by simp
  ultimately have "line_chain (unat (SlotsOffset l)) (unat (SlotsOffset l) + unat (td_Depth l) * unat (SlotSize l))
      (map (\<lambda>i. (unat (SlotsOffset l) + i * unat (SlotSize l), 8 + unat (td_PayloadSize l))) [0..<unat (td_Depth l)])"
    by (intro slots_chain)
  moreover have "unat (SlotsOffset l) + unat (td_Depth l) * unat (SlotSize l) = unat (TotalSize l)" using v(2,3) f by simp
  ultimately have "line_chain (unat (SlotsOffset l)) (unat (TotalSize l))
      (map (\<lambda>i. (unat (SlotsOffset l) + i * unat (SlotSize l), 8 + unat (td_PayloadSize l))) [0..<unat (td_Depth l)])" by simp
  from line_chain_append [OF first line_chain_append [OF v(4) this]] show ?thesis unfolding topic_regions_def .
qed


definition sample_topic :: TopicLayout where
  "sample_topic = \<lparr>top_Label = ''clock'', top_Kind = ''reliable'', top_Depth = 2, top_PayloadSize = 8, top_PayloadAlign = 8,
     top_Producers = [''p''], top_Subscribers = [''s'']\<rparr>"


section \<open>A fresh topic\<close>

lemma plan_subscribers_nth:
  assumes "plan_subscribers nxt ss = (ls, e)" and "unat nxt + 128 * length ss < 2 ^ 64" and "i < length ss"
  shows "i < length ls \<and> unat (CursorOffset (ls ! i)) = unat nxt + 128 * i \<and> unat (WaitlineOffset (ls ! i)) = unat nxt + 128 * i + 64"
  using assms
proof (induction nxt ss arbitrary: ls i rule: plan_subscribers.induct)
  case (2 nxt s ss)
  obtain ls' where r: "plan_subscribers (nxt + 2 * cacheLineSize) ss = (ls', e)"
    and ls: "ls = \<lparr>sub_Label = s, CursorOffset = nxt, WaitlineOffset = nxt + cacheLineSize\<rparr> # ls'"
    using "2.prems"(1) by (auto simp: case_prod_beta Let_def prod_eq_iff)
  have n: "unat (nxt + 2 * cacheLineSize) = unat nxt + 128" "unat (nxt + cacheLineSize) = unat nxt + 64"
    using "2.prems"(2) unat_add_u64 [of nxt 128] unat_add_u64 [of nxt 64] by (simp_all add: cacheLineSize_def)
  show ?case
  proof (cases i)
    case 0
    then show ?thesis by (simp add: ls n)
  next
    case (Suc j)
    with "2.IH" [OF r _ _, of j] "2.prems"(2,3) show ?thesis by (simp add: ls n)
  qed
qed simp

lemma subscriber_offsets:
  assumes "topic_fits t" and "i < length (top_Subscribers t)"
  shows "i < length (Subscribers (planTopicData t))"
    "unat (CursorOffset (Subscribers (planTopicData t) ! i)) = 128 + 128 * i"
    "unat (WaitlineOffset (Subscribers (planTopicData t) ! i)) = 192 + 128 * i"
proof -
  obtain ls e where r: "plan_subscribers (2 * cacheLineSize) (top_Subscribers t) = (ls, e)"
    by (cases "plan_subscribers (2 * cacheLineSize) (top_Subscribers t)")
  have two: "unat (2 * cacheLineSize) = 128" by (simp add: cacheLineSize_def)
  have "unat (2 * cacheLineSize) + 128 * length (top_Subscribers t) < 2 ^ 64" using assms(1) by (simp add: topic_fits_def two)
  from plan_subscribers_nth [OF r this assms(2)] two
  show "i < length (Subscribers (planTopicData t))"
    "unat (CursorOffset (Subscribers (planTopicData t) ! i)) = 128 + 128 * i"
    "unat (WaitlineOffset (Subscribers (planTopicData t) ! i)) = 192 + 128 * i"
    by (simp_all add: planTopicData_def r Let_def)
qed

lemma waitline_stores:
  assumes fits: "topic_fits t" and w: "w \<in> set ((unat (ProducerWaitlineOffset (planTopicData t)), PutUint64 v) #
    map (\<lambda>s. (unat (WaitlineOffset s), PutUint64 v)) (Subscribers (planTopicData t)))"
  obtains k where "k \<le> length (top_Subscribers t)" "w = (64 + 128 * k, PutUint64 v)"
proof -
  have len: "length (Subscribers (planTopicData t)) = length (top_Subscribers t)"
    using arg_cong [OF planTopicData_values(5) [OF fits], of length] by simp
  from w consider "w = (unat (ProducerWaitlineOffset (planTopicData t)), PutUint64 v)"
    | i where "i < length (top_Subscribers t)" "w = (unat (WaitlineOffset (Subscribers (planTopicData t) ! i)), PutUint64 v)"
    using len by (auto simp: in_set_conv_nth)
  then show thesis
  proof cases
    case 1
    then show thesis by (intro that [of 0]) (simp_all add: planTopicData_def case_prod_beta Let_def cacheLineSize_def)
  next
    case (2 i)
    with subscriber_offsets(3) [OF fits 2(1)] show thesis by (intro that [of "Suc i"]) simp_all
  qed
qed

lemma waitline_member:
  assumes fits: "topic_fits t" and k: "k \<le> length (top_Subscribers t)"
  shows "(64 + 128 * k, PutUint64 v) \<in> set ((unat (ProducerWaitlineOffset (planTopicData t)), PutUint64 v) #
    map (\<lambda>s. (unat (WaitlineOffset s), PutUint64 v)) (Subscribers (planTopicData t)))"
proof (cases k)
  case 0
  then show ?thesis by (simp add: planTopicData_def case_prod_beta Let_def cacheLineSize_def)
next
  case (Suc i)
  with k have "i < length (top_Subscribers t)" by simp
  note off = subscriber_offsets [OF fits this]
  have "(64 + 128 * k, PutUint64 v) = (unat (WaitlineOffset (Subscribers (planTopicData t) ! i)), PutUint64 v)"
    using off(3) Suc by simp
  with nth_mem [OF off(1)] show ?thesis by auto
qed

lemma topic_object_bytes:
  assumes fits: "topic_fits t"
  shows "\<exists>data. map_option obj_Bytes (topic_object (planTopicData t)) = Some data \<and>
    length data = unat (TotalSize (planTopicData t)) \<and>
    (\<forall>k\<le>length (top_Subscribers t). read_at (64 + 128 * k) 8 data = PutUint64 topicWaitlineDisarmedBits) \<and>
    (\<forall>k\<le>length (top_Subscribers t). read_at (128 * k) 8 data = replicate 8 0)"
proof -
  let ?l = "planTopicData t" and ?v = "topicWaitlineDisarmedBits" and ?n = "length (top_Subscribers t)"
  let ?ws = "(unat (ProducerWaitlineOffset ?l), PutUint64 ?v) # map (\<lambda>s. (unat (WaitlineOffset s), PutUint64 ?v)) (Subscribers ?l)"
  have total: "128 * (?n + 1) \<le> unat (TotalSize ?l)" using planTopicData_values(3) [OF fits] by simp
  have "inside 0 (length (replicate (unat (TotalSize ?l)) (0 :: byte))) ?ws"
    unfolding inside_def list_all_iff
  proof
    fix w assume "w \<in> set ?ws"
    then show "case w of (o1, b1) \<Rightarrow> 0 \<le> o1 \<and> o1 + length b1 \<le> length (replicate (unat (TotalSize ?l)) (0 :: byte))"
    proof (rule waitline_stores [OF fits])
      fix k assume "k \<le> ?n" "w = (64 + 128 * k, PutUint64 ?v)"
      with total show ?thesis by simp
    qed
  qed
  from inside_write_all [OF this] obtain data where d: "write_all ?ws (replicate (unat (TotalSize ?l)) 0) = Some data" by blast
  have len: "length data = unat (TotalSize ?l)" using write_all_length [OF d] by simp
  have wait: "read_at (64 + 128 * k) 8 data = PutUint64 ?v" if "k \<le> ?n" for k
  proof -
    have "(64 + 128 * k, PutUint64 ?v) \<in> set ?ws" by (rule waitline_member [OF fits that])
    moreover have "apart (64 + 128 * k, PutUint64 ?v) w" if "w \<in> set ?ws" "w \<noteq> (64 + 128 * k, PutUint64 ?v)" for w
      using that(1)
    proof (rule waitline_stores [OF fits])
      fix j assume w: "w = (64 + 128 * j, PutUint64 ?v)"
      with that(2) have "j < k \<or> k < j" by auto
      then show ?thesis by (auto simp: w apart_def)
    qed
    ultimately show ?thesis using write_all_member [OF d, of "64 + 128 * k" "PutUint64 ?v"] by simp
  qed
  have zero: "read_at (128 * k) 8 data = replicate 8 0" if "k \<le> ?n" for k
  proof -
    have "read_at (128 * k) 8 data = read_at (128 * k) 8 (replicate (unat (TotalSize ?l)) 0)"
    proof (rule write_all_read_other [OF d])
      show "128 * k + 8 \<le> length (replicate (unat (TotalSize ?l)) (0 :: byte))" using that total by simp
      fix off bs assume "(off, bs) \<in> set ?ws"
      then show "128 * k + 8 \<le> off \<or> off + length bs \<le> 128 * k"
      proof (rule waitline_stores [OF fits])
        fix j assume "(off, bs) = (64 + 128 * j, PutUint64 ?v)"
        then have w: "off = 64 + 128 * j" "length bs = 8" by simp_all
        show ?thesis unfolding w by (cases "j < k") auto
      qed
    qed
    also have "\<dots> = replicate 8 0" using that total by (simp add: read_at_def)
    finally show ?thesis .
  qed
  from d len wait zero show ?thesis by (auto simp: topic_object_def)
qed

text \<open>
  The object of a checked topic starts out idle: its bytes are exactly the total size, the producer's
  waitline and every subscriber's waitline hold the disarmed mark, and the head and every cursor are zero.
\<close>

theorem fresh_topic:
  assumes "planTopicDataChecked t = Inr l" and "topic_fits t"
  shows "\<exists>obj. topic_object l = Some obj \<and> length (obj_Bytes obj) = unat (TotalSize l) \<and>
    read_at (unat (HeadOffset l)) 8 (obj_Bytes obj) = replicate 8 0 \<and>
    read_at (unat (ProducerWaitlineOffset l)) 8 (obj_Bytes obj) = PutUint64 (NOT 0) \<and>
    list_all (\<lambda>s. read_at (unat (CursorOffset s)) 8 (obj_Bytes obj) = replicate 8 0 \<and>
      read_at (unat (WaitlineOffset s)) 8 (obj_Bytes obj) = PutUint64 (NOT 0)) (Subscribers l)"
proof -
  from checked_topic [OF assms(1)] have l: "l = planTopicData t" by blast
  have f: "unat (HeadOffset l) = 0" "unat (ProducerWaitlineOffset l) = 64"
    by (simp_all add: l planTopicData_def case_prod_beta Let_def cacheLineSize_def)
  have len: "length (Subscribers l) = length (top_Subscribers t)"
    using arg_cong [OF planTopicData_values(5) [OF assms(2)], of length] by (simp add: l)
  from topic_object_bytes [OF assms(2)] obtain obj where obj: "topic_object l = Some obj" "length (obj_Bytes obj) = unat (TotalSize l)"
    and wait: "\<And>k. k \<le> length (top_Subscribers t) \<Longrightarrow> read_at (64 + 128 * k) 8 (obj_Bytes obj) = PutUint64 (NOT 0)"
    and zero: "\<And>k. k \<le> length (top_Subscribers t) \<Longrightarrow> read_at (128 * k) 8 (obj_Bytes obj) = replicate 8 0"
    by (auto simp: l topicWaitlineDisarmedBits_def)
  have "read_at (unat (CursorOffset (Subscribers l ! i))) 8 (obj_Bytes obj) = replicate 8 0 \<and>
      read_at (unat (WaitlineOffset (Subscribers l ! i))) 8 (obj_Bytes obj) = PutUint64 (NOT 0)"
    if i: "i < length (top_Subscribers t)" for i
    using subscriber_offsets(2,3) [OF assms(2) i, folded l] zero [of "Suc i"] wait [of "Suc i"] i by simp
  with len have "list_all (\<lambda>s. read_at (unat (CursorOffset s)) 8 (obj_Bytes obj) = replicate 8 0 \<and>
      read_at (unat (WaitlineOffset s)) 8 (obj_Bytes obj) = PutUint64 (NOT 0)) (Subscribers l)"
    by (simp add: list_all_length)
  with obj wait [of 0] zero [of 0] f show ?thesis by auto
qed

theorem fresh_topic_witness:
  "\<exists>obj. topic_object (planTopicData sample_topic) = Some obj \<and> length (obj_Bytes obj) = 384 \<and>
     read_at 64 8 (obj_Bytes obj) = PutUint64 (NOT 0) \<and> read_at 0 8 (obj_Bytes obj) = replicate 8 0"
proof -
  have c: "planTopicDataChecked sample_topic = Inr (planTopicData sample_topic)" by code_simp
  have fits: "topic_fits sample_topic" by (simp add: topic_fits_def sample_topic_def)
  have "unat (TotalSize (planTopicData sample_topic)) = 384" "unat (ProducerWaitlineOffset (planTopicData sample_topic)) = 64"
    "unat (HeadOffset (planTopicData sample_topic)) = 0" by code_simp+
  with fresh_topic [OF c fits] show ?thesis by auto
qed

section \<open>Sizes of interrupt queues\<close>

text \<open>
  The size check of an interrupt queue is exact: the routine returns a size precisely when the header and
  all entries together fit a signed 64-bit length, as a computation without wrap-around, and the size it
  returns is that sum.
\<close>

theorem interruptQueueDataSize_exact:
  "interruptQueueDataSize q =
     (if 32 + unat (iq_Capacity q) * unat (iq_PayloadSize q) < 2 ^ 63
      then Some (of_nat (32 + unat (iq_Capacity q) * unat (iq_PayloadSize q))) else None)"
proof -
  let ?c = "unat (iq_Capacity q)" and ?p = "unat (iq_PayloadSize q)"
  let ?sz = "32 + iq_Capacity q * iq_PayloadSize q"
  have top: "unat (NOT 0 - 32 :: u64) = 2 ^ 64 - 33" by simp
  have reject: "iq_PayloadSize q \<noteq> 0 \<and> iq_Capacity q > (NOT 0 - 32) div iq_PayloadSize q \<longleftrightarrow> 2 ^ 64 \<le> 32 + ?c * ?p"
  proof (cases "iq_PayloadSize q = 0")
    case True
    then show ?thesis by simp
  next
    case False
    then have p: "0 < ?p" by (simp add: unat_gt_0)
    have "iq_Capacity q > (NOT 0 - 32) div iq_PayloadSize q \<longleftrightarrow> (2 ^ 64 - 33) div ?p < ?c"
      by (simp only: word_less_nat_alt unat_div top)
    also have "\<dots> \<longleftrightarrow> 2 ^ 64 - 33 < ?c * ?p" using p by (simp add: div_less_iff_less_mult)
    also have "\<dots> \<longleftrightarrow> 2 ^ 64 \<le> 32 + ?c * ?p" by auto
    finally show ?thesis using False by blast
  qed
  show ?thesis
  proof (cases "2 ^ 64 \<le> 32 + ?c * ?p")
    case True
    with reject have "interruptQueueDataSize q = None"
      unfolding interruptQueueDataSize_def interruptQueueHeaderSize_def by simp
    with True show ?thesis by simp
  next
    case False
    then have small: "32 + ?c * ?p < 2 ^ 64" by simp
    have eq: "?sz = of_nat (32 + ?c * ?p)" by simp
    have u: "unat ?sz = 32 + ?c * ?p" unfolding eq by (rule unat_of_nat_u64 [OF small])
    have "?sz > 0x7fffffffffffffff \<longleftrightarrow> \<not> 32 + ?c * ?p < 2 ^ 63" unfolding word_less_nat_alt u by auto
    with False reject eq show ?thesis
      unfolding interruptQueueDataSize_def interruptQueueHeaderSize_def Let_def by auto
  qed
qed

section \<open>Objects of a data section\<close>

text \<open>An object at a position of the section: its bytes, at its alignment.\<close>

definition object_at :: "bytes \<Rightarrow> DataObject \<Rightarrow> nat \<Rightarrow> bool" where
  "object_at out obj p \<longleftrightarrow>
     read_at p (length (obj_Bytes obj)) out = obj_Bytes obj \<and> p + length (obj_Bytes obj) \<le> length out \<and>
     (1 < unat (obj_Align obj) \<longrightarrow> unat (obj_Align obj) dvd p)"

lemma object_at_append: "object_at out obj p \<Longrightarrow> object_at (out @ r) obj p"
  by (auto simp: object_at_def read_at_def)

lemma small_signed: "m < 2 ^ 63 \<Longrightarrow> signed_take_bit 63 (int m) = int m"
  by (rule signed_take_bit_int_eq_self) simp_all

lemma pad_aligned:
  assumes "1 < obj_Align obj" and "unat (obj_Align obj) < 2 ^ 63"
  shows "unat (obj_Align obj) dvd n + nat (AlignUp (int n) (sint (obj_Align obj)) - int n)"
proof -
  let ?a = "unat (obj_Align obj)"
  have a: "1 < ?a" using assms(1) by (simp add: word_less_nat_alt)
  have "sint (obj_Align obj) = signed_take_bit 63 (int ?a)" by (simp add: sint_uint)
  also have "\<dots> = int ?a" by (rule small_signed [OF assms(2)])
  finally have "sint (obj_Align obj) = int ?a" .
  moreover from a have "n \<le> nat (AlignUp (int n) (int ?a))" "?a dvd nat (AlignUp (int n) (int ?a))"
    using layout_align.up_ge [of ?a n] layout_align.up_dvd [of ?a n] by simp_all
  moreover have "n + nat (AlignUp (int n) (int ?a) - int n) = nat (AlignUp (int n) (int ?a))"
  proof -
    have "int n \<le> AlignUp (int n) (int ?a)" by (rule AlignUp_nonneg(1)) (use a in linarith)+
    then show ?thesis by linarith
  qed
  ultimately show ?thesis by simp
qed

lemma append_objects_at:
  assumes "append_objects out offs objs = (out', offs')" and "list_all (\<lambda>obj. unat (obj_Align obj) < 2 ^ 63) objs"
  shows "\<exists>ps r. out' = out @ r \<and> length ps = length objs \<and> offs' = offs ++ map_of (rev (zip (map obj_Symbol objs) (map of_nat ps))) \<and>
    list_all (\<lambda>p. length out \<le> p) ps \<and> list_all2 (object_at out') objs ps \<and>
    sorted_wrt (\<lambda>(o1, p) (o2, q). p + length (obj_Bytes o1) \<le> q) (zip objs ps)"
  using assms
proof (induction out offs objs rule: append_objects.induct)
  case (2 out offs obj objs)
  define padded where "padded = (if obj_Align obj > 1
    then out @ replicate (nat (AlignUp (int (length out)) (sint (obj_Align obj)) - int (length out))) 0 else out)"
  let ?p = "length padded"
  have "\<exists>z. padded = out @ z" by (cases "obj_Align obj > 1") (simp_all add: padded_def)
  then obtain z where z: "padded = out @ z" by blast
  from "2.prems"(1) have rest: "append_objects (padded @ obj_Bytes obj) (offs(obj_Symbol obj \<mapsto> of_nat ?p)) objs = (out', offs')"
    by (simp add: padded_def [symmetric])
  have "list_all (\<lambda>obj. unat (obj_Align obj) < 2 ^ 63) objs" using "2.prems"(2) by simp
  from "2.IH" [OF padded_def rest this] obtain ps r where IH: "out' = (padded @ obj_Bytes obj) @ r" "length ps = length objs"
    "offs' = (offs(obj_Symbol obj \<mapsto> of_nat ?p)) ++ map_of (rev (zip (map obj_Symbol objs) (map of_nat ps)))"
    "list_all (\<lambda>p. length (padded @ obj_Bytes obj) \<le> p) ps" "list_all2 (object_at out') objs ps"
    "sorted_wrt (\<lambda>(o1, p) (o2, q). p + length (obj_Bytes o1) \<le> q) (zip objs ps)" by blast
  have al: "unat (obj_Align obj) dvd ?p" if "1 < unat (obj_Align obj)"
  proof -
    have "1 < obj_Align obj" using that by (simp add: word_less_nat_alt)
    moreover have "unat (obj_Align obj) < 2 ^ 63" using "2.prems"(2) by simp
    ultimately show ?thesis using pad_aligned [of obj "length out"] by (simp add: padded_def)
  qed
  then have "object_at (padded @ obj_Bytes obj) obj ?p" by (simp add: object_at_def read_at_def)
  then have here: "object_at out' obj ?p" unfolding IH(1) by (rule object_at_append)
  have below: "list_all (\<lambda>(o2, q). ?p + length (obj_Bytes obj) \<le> q) (zip objs ps)"
    using IH(4) by (auto simp: list_all_iff dest: set_zip_rightD)
  have above: "list_all (\<lambda>p. length out \<le> p) ps" using IH(4) z by (auto simp: list_all_iff)
  have maps: "offs' = offs ++ map_of (rev (zip (map obj_Symbol (obj # objs)) (map of_nat (?p # ps))))"
    unfolding IH(3) by simp
  have "list_all2 (object_at out') (obj # objs) (?p # ps)" using IH(5) here by simp
  moreover have "sorted_wrt (\<lambda>(o1, p) (o2, q). p + length (obj_Bytes o1) \<le> q) (zip (obj # objs) (?p # ps))"
    using IH(6) below by (simp add: list_all_iff)
  moreover have "list_all (\<lambda>p. length out \<le> p) (?p # ps)" using above z by simp
  moreover have "out' = out @ (z @ obj_Bytes obj @ r)" using IH(1) z by simp
  ultimately show ?case using maps IH(2) by (metis length_Cons)
qed auto



end
