(* ===== verification/Pecoff_Write.thy ===== *)
theory Pecoff_Write
  imports Wrela_Prelude "HOL-Library.Product_Lexorder" "HOL-Library.Multiset"
begin

text \<open>
  The UEFI image writer, \<open>compiler/pecoff/write.go\<close>, on the image of \<open>compiler/codegen/program.go\<close>.
  Stores into the output go through \<open>write_all\<close>, so a slice out of range is None (a panic of the code).
  The lemmas are about a reader of the file format: it gets back every section with its address,
  flags and contents, the sections of an image occupy disjoint page-aligned memory below the image
  size, and the relocation blocks list exactly the requested locations.
\<close>

unbundle bit_operations_syntax

section \<open>The image\<close>

record Reloc =
  Kind :: u16
  Offset :: u64
  Symbol :: string

record Section =
  sec_Name :: string
  sec_Data :: bytes
  sec_RVA :: u64
  sec_Characteristics :: u32

record Image =
  EntrySymbol :: string
  Sections :: "Section list"
  Symbols :: "(string \<rightharpoonup> u64) option"
  Relocs :: "Reloc list"

abbreviation RelocKindABSOLUTE :: u16 where "RelocKindABSOLUTE \<equiv> 0"
abbreviation RelocKindDIR64 :: u16 where "RelocKindDIR64 \<equiv> 10"

definition dosLfanewOffset :: nat where "dosLfanewOffset = 0x3c"
definition peSignatureOffset :: nat where "peSignatureOffset = 0x80"
definition coffHeaderSize :: nat where "coffHeaderSize = 0x14"
definition optionalHeaderSize :: nat where "optionalHeaderSize = 0xF0"
definition sectionHeaderSize :: nat where "sectionHeaderSize = 0x28"
definition fileAlignment :: u64 where "fileAlignment = 0x200"
definition sectionAlignment :: u64 where "sectionAlignment = 0x1000"
definition machineAMD64 :: u16 where "machineAMD64 = 0x8664"
definition imageBase :: u64 where "imageBase = 0x100000"
definition coffCharacteristics :: u16 where "coffCharacteristics = 0x2022"
definition dataDirectoryCount :: nat where "dataDirectoryCount = 16"
definition relocDirectoryIndex :: nat where "relocDirectoryIndex = 5"
definition majorSubsystemVersion :: u16 where "majorSubsystemVersion = 2"
definition subsystemEFI :: u16 where "subsystemEFI = 10"

lemmas header_consts = dosLfanewOffset_def peSignatureOffset_def coffHeaderSize_def optionalHeaderSize_def
  sectionHeaderSize_def dataDirectoryCount_def relocDirectoryIndex_def

definition sectionCharacteristics :: "string \<rightharpoonup> u32" where
  "sectionCharacteristics = map_of
    [(''.text'', 0x60000020), (''.rdata'', 0x40000040), (''.data'', 0xC0000040), (''.reloc'', 0x42000040)]"

text \<open>An error of \<open>WriteEFI\<close>, one constructor for each message.\<close>

datatype efi_error =
    NilImage
  | NilSymbols
  | EntrySymbolNotFound string
  | RelocationSymbolNotFound string

section \<open>Alignment and section order\<close>

definition alignUp :: "u64 \<Rightarrow> u64 \<Rightarrow> u64" where
  "alignUp value alignment =
     (if alignment = 0 then value else (value + alignment - 1) AND NOT (alignment - 1))"

definition priority :: "string \<Rightarrow> nat" where
  "priority name =
     (if name = ''.text'' then 0 else if name = ''.rdata'' then 1 else if name = ''.data'' then 2
      else if name = ''.reloc'' then 3 else 4)"

definition normalizeAndOrderSections :: "Section list \<Rightarrow> Section list" where
  "normalizeAndOrderSections sections =
     map fst (sort_key (\<lambda>(section, index). (priority (sec_Name section), index))
       (zip sections [0..<length sections]))"

definition assignSectionCharacteristics :: "Section list \<Rightarrow> Section list" where
  "assignSectionCharacteristics sections =
     map (\<lambda>s. if sec_Characteristics s = 0
              then (case sectionCharacteristics (sec_Name s) of Some ch \<Rightarrow> s\<lparr>sec_Characteristics := ch\<rparr> | None \<Rightarrow> s)
              else s) sections"

fun assign_rvas :: "u64 \<Rightarrow> Section list \<Rightarrow> Section list" where
  "assign_rvas nxt [] = []"
| "assign_rvas nxt (s # ss) =
     (let s' = (if sec_RVA s = 0 then s\<lparr>sec_RVA := nxt\<rparr> else s);
          sectionSize = (if length (sec_Data s) = 0 then 1 else of_nat (length (sec_Data s)))
      in s' # assign_rvas (alignUp (sec_RVA s' + sectionSize) sectionAlignment) ss)"

definition assignSectionRVAs :: "Section list \<Rightarrow> Section list" where
  "assignSectionRVAs sections = assign_rvas 0x1000 sections"

fun data_sizes :: "u64 \<times> u64 \<Rightarrow> Section list \<Rightarrow> u64 \<times> u64" where
  "data_sizes acc [] = acc"
| "data_sizes (sizeOfCode, sizeOfData) (s # ss) =
     (let sz = alignUp (of_nat (length (sec_Data s))) sectionAlignment
      in if sec_Name s = ''.text'' then data_sizes (sz, sizeOfData) ss
         else data_sizes (sizeOfCode, sizeOfData + sz) ss)"

definition computeDataSizes :: "Section list \<Rightarrow> u64 \<times> u64" where
  "computeDataSizes sections = data_sizes (0, 0) sections"

fun image_end :: "u64 \<Rightarrow> Section list \<Rightarrow> u64" where
  "image_end e [] = e"
| "image_end e (s # ss) =
     (let limit = alignUp (sec_RVA s + of_nat (length (sec_Data s))) sectionAlignment
      in image_end (if limit > e then limit else e) ss)"

definition computeImageSize :: "Section list \<Rightarrow> u64" where
  "computeImageSize sections = alignUp (image_end 0 sections) sectionAlignment"

definition locateRelocDirectory :: "Section list \<Rightarrow> u64 \<times> u64" where
  "locateRelocDirectory sections =
     (case find (\<lambda>s. sec_Name s = ''.reloc'') sections of
        Some s \<Rightarrow> (sec_RVA s, of_nat (length (sec_Data s)))
      | None \<Rightarrow> (0, 0))"

definition baseCodeRVA :: "Section list \<Rightarrow> u64" where
  "baseCodeRVA sections =
     (case find (\<lambda>s. sec_Name s = ''.text'') sections of Some s \<Rightarrow> sec_RVA s | None \<Rightarrow> 0x1000)"

section \<open>Relocation blocks\<close>

type_synonym reloc_pages = "(u32 \<times> u16 list) list"

text \<open>The map from pages to entries; its keys are visited in sorted order, so an association list represents it.\<close>

fun add_entry :: "u32 \<Rightarrow> u16 \<Rightarrow> reloc_pages \<Rightarrow> reloc_pages" where
  "add_entry page e [] = [(page, [e])]"
| "add_entry page e ((q, es) # ps) = (if q = page then (q, es @ [e]) # ps else (q, es) # add_entry page e ps)"

definition reloc_entry :: "u64 \<Rightarrow> u16 \<Rightarrow> u32 \<times> u16" where
  "reloc_entry locationRVA kind =
     (ucast (locationRVA AND NOT 0xFFF), push_bit 12 kind OR ucast (locationRVA AND 0xFFF))"

fun collect_relocs :: "(string \<rightharpoonup> u64) \<Rightarrow> Reloc list \<Rightarrow> reloc_pages \<Rightarrow> efi_error + reloc_pages" where
  "collect_relocs symbols [] pages = Inr pages"
| "collect_relocs symbols (r # rs) pages =
     (case symbols (Symbol r) of
        None \<Rightarrow> Inl (RelocationSymbolNotFound (Symbol r))
      | Some symbolRVA \<Rightarrow>
          (let (page, e) = reloc_entry (symbolRVA + Offset r) (Kind r)
           in collect_relocs symbols rs (add_entry page e pages)))"

text \<open>The block of a page: a header of eight bytes, the sorted entries, zeros up to a multiple of four.\<close>

definition reloc_body :: "u16 list \<Rightarrow> bytes" where
  "reloc_body entries =
     (let body = concat (map PutUint16 (sort entries))
      in body @ replicate (if (8 + length body) mod 4 = 0 then 0 else 4 - (8 + length body) mod 4) 0)"

definition reloc_block :: "u32 \<Rightarrow> u16 list \<Rightarrow> bytes" where
  "reloc_block page entries =
     (let body = reloc_body entries
      in PutUint32 page @ PutUint32 (of_nat (8 + length body)) @ body)"

definition buildRelocData :: "Image \<Rightarrow> (string \<rightharpoonup> u64) \<Rightarrow> efi_error + bytes" where
  "buildRelocData img symbols =
     (case collect_relocs symbols (Relocs img) [] of
        Inl e \<Rightarrow> Inl e
      | Inr pages \<Rightarrow> Inr (concat (map (\<lambda>(page, entries). reloc_block page entries) (sort_key fst pages))))"

section \<open>Headers\<close>

text \<open>Each routine is the list of its stores into the output, in the order of the code.\<close>

type_synonym stores = "(nat \<times> bytes) list"

definition string_bytes :: "string \<Rightarrow> bytes" where
  "string_bytes s = map of_char s"

definition encodeSectionName :: "string \<Rightarrow> bytes" where
  "encodeSectionName name = take 8 (string_bytes name) @ replicate (8 - length (string_bytes name)) 0"

definition writeDosHeaders :: stores where
  "writeDosHeaders =
     [(0, PutUint16 0x5a4d),
      (dosLfanewOffset, PutUint32 (of_nat peSignatureOffset)),
      (peSignatureOffset, [0x50, 0x45, 0, 0])]"

definition writeCoffHeader :: "nat \<Rightarrow> stores" where
  "writeCoffHeader numberOfSections =
     (let off = peSignatureOffset + 4 in
      [(off + 0, PutUint16 machineAMD64),
       (off + 2, PutUint16 (of_nat numberOfSections)),
       (off + 16, PutUint16 (of_nat optionalHeaderSize)),
       (off + 18, PutUint16 coffCharacteristics)])"

definition writeOptionalHeader ::
  "Section list \<Rightarrow> u64 \<Rightarrow> u64 \<Rightarrow> u64 \<Rightarrow> u64 \<Rightarrow> u64 \<Rightarrow> u64 \<Rightarrow> u64 \<Rightarrow> stores" where
  "writeOptionalHeader sections entryPoint sizeOfCode sizeOfData sizeOfHeaders imageSize relocVA relocSize =
     (let off = peSignatureOffset + 4 + coffHeaderSize in
      [(off + 0, PutUint16 0x20B),
       (off + 2, [0]),
       (off + 3, [0]),
       (off + 4, PutUint32 (ucast sizeOfCode)),
       (off + 8, PutUint32 (ucast sizeOfData)),
       (off + 16, PutUint32 (ucast entryPoint)),
       (off + 20, PutUint32 (ucast (baseCodeRVA sections))),
       (off + 24, PutUint64 imageBase),
       (off + 32, PutUint32 (ucast sectionAlignment)),
       (off + 36, PutUint32 (ucast fileAlignment)),
       (off + 40, PutUint16 0),
       (off + 42, PutUint16 0),
       (off + 44, PutUint16 0),
       (off + 46, PutUint16 0),
       (off + 48, PutUint16 majorSubsystemVersion),
       (off + 50, PutUint16 0),
       (off + 52, PutUint32 0),
       (off + 56, PutUint32 (ucast imageSize)),
       (off + 60, PutUint32 (ucast sizeOfHeaders)),
       (off + 68, PutUint16 subsystemEFI),
       (off + 72, PutUint64 0x100000),
       (off + 80, PutUint64 0x1000),
       (off + 88, PutUint64 0),
       (off + 96, PutUint64 0),
       (off + 104, PutUint32 0),
       (off + 108, PutUint32 (of_nat dataDirectoryCount))] @
      concat (map (\<lambda>i. [(off + 0x70 + i * 8, PutUint32 0), (off + 0x70 + i * 8 + 4, PutUint32 0)])
        [0..<dataDirectoryCount]) @
      (if relocVA \<noteq> 0 \<or> relocSize \<noteq> 0
       then [(off + 0x70 + relocDirectoryIndex * 8, PutUint32 (ucast relocVA)),
             (off + 0x70 + relocDirectoryIndex * 8 + 4, PutUint32 (ucast relocSize))]
       else []))"

definition writeSectionHeader :: "nat \<Rightarrow> Section \<Rightarrow> u64 \<Rightarrow> u64 \<Rightarrow> stores" where
  "writeSectionHeader off section rawPtr rawSize =
     [(off, encodeSectionName (sec_Name section)),
      (off + 8, PutUint32 (of_nat (length (sec_Data section)))),
      (off + 12, PutUint32 (ucast (sec_RVA section))),
      (off + 16, PutUint32 (ucast rawSize)),
      (off + 20, PutUint32 (ucast rawPtr)),
      (off + 32, PutUint16 0),
      (off + 34, PutUint16 0),
      (off + 36, PutUint32 (sec_Characteristics section))]"

definition writeSectionHeaders :: "nat \<Rightarrow> Section list \<Rightarrow> u64 list \<Rightarrow> u64 list \<Rightarrow> stores" where
  "writeSectionHeaders sectionTableOffset sections rawPtrs rawSizes =
     concat (map (\<lambda>i. writeSectionHeader (sectionTableOffset + i * sectionHeaderSize) (sections ! i) (rawPtrs ! i) (rawSizes ! i))
       [0..<length sections])"

section \<open>WriteEFI\<close>

text \<open>The loop that gives every section its place in the file: pointers, sizes and the end of the file.\<close>

fun raw_layout :: "u64 \<Rightarrow> Section list \<Rightarrow> u64 list \<times> u64 list \<times> u64" where
  "raw_layout nextRaw [] = ([], [], nextRaw)"
| "raw_layout nextRaw (s # ss) =
     (let rawSize = alignUp (of_nat (length (sec_Data s))) fileAlignment;
          (ptrs, sizes, e) = raw_layout (nextRaw + rawSize) ss
      in (nextRaw # ptrs, rawSize # sizes, e))"

text \<open>The relocation data replaces the contents of the first \<open>.reloc\<close> section, or comes in a new one at the end.\<close>

fun set_reloc :: "bytes \<Rightarrow> Section list \<Rightarrow> Section list" where
  "set_reloc relocData [] =
     [\<lparr>sec_Name = ''.reloc'', sec_Data = relocData, sec_RVA = 0,
       sec_Characteristics = the (sectionCharacteristics ''.reloc'')\<rparr>]"
| "set_reloc relocData (s # ss) =
     (if sec_Name s = ''.reloc'' then s\<lparr>sec_Data := relocData\<rparr> # ss else s # set_reloc relocData ss)"

definition with_relocs :: "Image \<Rightarrow> (string \<rightharpoonup> u64) \<Rightarrow> efi_error + Section list" where
  "with_relocs img symbols =
     (if Relocs img = [] then Inr (Sections img)
      else (case buildRelocData img symbols of
              Inl e \<Rightarrow> Inl e
            | Inr relocData \<Rightarrow> Inr (set_reloc relocData (Sections img))))"

definition sectionTableOffset :: nat where
  "sectionTableOffset = peSignatureOffset + 4 + coffHeaderSize + optionalHeaderSize"

definition size_of_headers :: "Section list \<Rightarrow> u64" where
  "size_of_headers ordered = alignUp (of_nat (sectionTableOffset + length ordered * sectionHeaderSize)) fileAlignment"

definition write_sections :: "Section list \<Rightarrow> u64 \<Rightarrow> bytes option" where
  "write_sections ordered entryPoint =
     (let sizeOfHeaders = size_of_headers ordered;
          (ptrs, sizes, nextRaw) = raw_layout sizeOfHeaders ordered;
          (sizeOfCode, sizeOfData) = computeDataSizes ordered;
          (relocRVA, relocSize) = locateRelocDirectory ordered
      in write_all
           (writeDosHeaders @
            writeCoffHeader (length ordered) @
            writeOptionalHeader ordered entryPoint sizeOfCode sizeOfData sizeOfHeaders (computeImageSize ordered)
              relocRVA relocSize @
            writeSectionHeaders sectionTableOffset ordered ptrs sizes @
            map (\<lambda>i. (unat (ptrs ! i), sec_Data (ordered ! i))) [0..<length ordered])
           (replicate (unat nextRaw) 0))"

definition place_sections :: "Section list \<Rightarrow> Section list" where
  "place_sections sections = assignSectionRVAs (assignSectionCharacteristics (normalizeAndOrderSections sections))"

text \<open>The outer None is a panic; an error is a left value.\<close>

definition WriteEFI :: "Image option \<Rightarrow> (efi_error + bytes) option" where
  "WriteEFI arg =
     (case arg of
        None \<Rightarrow> Some (Inl NilImage)
      | Some img \<Rightarrow>
          (case Symbols img of
             None \<Rightarrow> Some (Inl NilSymbols)
           | Some symbols \<Rightarrow>
               (case symbols (EntrySymbol img) of
                  None \<Rightarrow> Some (Inl (EntrySymbolNotFound (EntrySymbol img)))
                | Some entryPoint \<Rightarrow>
                    (case with_relocs img symbols of
                       Inl e \<Rightarrow> Some (Inl e)
                     | Inr sections \<Rightarrow> map_option Inr (write_sections (place_sections sections) entryPoint)))))"

section \<open>Alignment\<close>

lemma alignUp_mask: "a \<noteq> 0 \<Longrightarrow> alignUp v a = mask_up v a"
  by (simp add: alignUp_def mask_up_def)

interpretation pe_align: aligner "\<lambda>v a. unat (alignUp (of_nat v) (of_nat a))" mask_up_ok
proof -
  have "(of_nat a :: u64) \<noteq> 0" if "mask_up_ok v a" for v a
  proof -
    from that obtain k where k: "k < 64" "a = 2 ^ k" by (auto simp: mask_up_ok_def)
    have "a < 2 ^ 64" unfolding k(2) by (intro power_strict_increasing k(1)) simp
    then have "unat (of_nat a :: u64) = a" by (rule unat_of_nat_u64)
    with k show ?thesis by (metis power_eq_0_iff unat_0 zero_neq_numeral)
  qed
  then have eq: "alignUp (of_nat v) (of_nat a) = mask_up (of_nat v) (of_nat a)" if "mask_up_ok v a" for v a
    using that alignUp_mask by blast
  show "aligner (\<lambda>v a. unat (alignUp (of_nat v) (of_nat a))) mask_up_ok"
    using mask_up_aligner by (simp add: aligner_def eq)
qed

lemma file_align:
  assumes "unat v + 512 \<le> 2 ^ 64"
  shows "unat v \<le> unat (alignUp v fileAlignment)" "unat (alignUp v fileAlignment) < unat v + 512"
    "512 dvd unat (alignUp v fileAlignment)"
proof -
  have ok: "mask_up_ok (unat v) 512" using assms by (auto simp: mask_up_ok_def intro: exI [of _ 9])
  show "unat v \<le> unat (alignUp v fileAlignment)" "unat (alignUp v fileAlignment) < unat v + 512"
    "512 dvd unat (alignUp v fileAlignment)"
    using pe_align.up_ge [OF ok] pe_align.up_less [OF ok] pe_align.up_dvd [OF ok] by (simp_all add: fileAlignment_def)
qed

lemma page_align:
  assumes "unat v + 4096 \<le> 2 ^ 64"
  shows "unat v \<le> unat (alignUp v sectionAlignment)" "unat (alignUp v sectionAlignment) < unat v + 4096"
    "4096 dvd unat (alignUp v sectionAlignment)"
proof -
  have ok: "mask_up_ok (unat v) 4096" using assms by (auto simp: mask_up_ok_def intro: exI [of _ 12])
  show "unat v \<le> unat (alignUp v sectionAlignment)" "unat (alignUp v sectionAlignment) < unat v + 4096"
    "4096 dvd unat (alignUp v sectionAlignment)"
    using pe_align.up_ge [OF ok] pe_align.up_less [OF ok] pe_align.up_dvd [OF ok] by (simp_all add: sectionAlignment_def)
qed

section \<open>Places in the file\<close>

text \<open>An upper bound of the bytes that the sections take in the file.\<close>

definition file_need :: "Section list \<Rightarrow> nat" where
  "file_need ss = (\<Sum>s\<leftarrow>ss. length (sec_Data s) + 512)"

text \<open>What the loop guarantees: every section has room for its contents, the rooms are in order and end at the file's end.\<close>

definition rooms :: "nat \<Rightarrow> Section list \<Rightarrow> u64 list \<Rightarrow> u64 list \<Rightarrow> nat \<Rightarrow> bool" where
  "rooms start ss ptrs sizes stop \<longleftrightarrow>
     length ptrs = length ss \<and> length sizes = length ss \<and> start \<le> stop \<and>
     (\<forall>i<length ss. start \<le> unat (ptrs ! i) \<and> length (sec_Data (ss ! i)) \<le> unat (sizes ! i) \<and>
        unat (ptrs ! i) + unat (sizes ! i) \<le> stop \<and>
        (\<forall>j<i. unat (ptrs ! j) + unat (sizes ! j) \<le> unat (ptrs ! i)))"

lemma rooms_Cons:
  assumes "rooms (unat p + unat z) ss ptrs sizes stop" and "length (sec_Data s) \<le> unat z"
  shows "rooms (unat p) (s # ss) (p # ptrs) (z # sizes) stop"
  using assms by (auto simp: rooms_def nth_Cons' less_Suc_eq_0_disj intro: order_trans [rotated])

lemma raw_size:
  assumes "length d + 512 \<le> 2 ^ 64"
  defines "z \<equiv> alignUp (of_nat (length d)) fileAlignment"
  shows "length d \<le> unat z" "unat z < length d + 512"
proof -
  have "length d < 2 ^ 64" using assms(1) by linarith
  then have u: "unat (of_nat (length d) :: u64) = length d" by (rule unat_of_nat_u64)
  show "length d \<le> unat z" "unat z < length d + 512"
    using file_align [of "of_nat (length d)"] assms(1) by (simp_all add: u z_def)
qed

lemma raw_layout_rooms:
  assumes "raw_layout start ss = (ptrs, sizes, stop)" and "unat start + file_need ss \<le> 2 ^ 64"
  shows "rooms (unat start) ss ptrs sizes (unat stop) \<and> unat stop \<le> unat start + file_need ss"
  using assms
proof (induction ss arbitrary: start ptrs sizes)
  case Nil
  then show ?case by (simp add: rooms_def)
next
  case (Cons s ss)
  let ?z = "alignUp (of_nat (length (sec_Data s))) fileAlignment"
  obtain ptrs' sizes' e where r: "raw_layout (start + ?z) ss = (ptrs', sizes', e)" by (metis prod_cases3)
  with Cons.prems(1) have p: "ptrs = start # ptrs'" "sizes = ?z # sizes'" "e = stop" by (auto simp: Let_def)
  have need: "file_need (s # ss) = length (sec_Data s) + 512 + file_need ss" by (simp add: file_need_def)
  have "length (sec_Data s) + 512 \<le> 2 ^ 64" using Cons.prems(2) need by linarith
  note z = raw_size [OF this]
  have sum: "unat (start + ?z) = unat start + unat ?z"
    using z Cons.prems(2) need by (intro unat_add_u64) simp
  have "unat (start + ?z) + file_need ss \<le> 2 ^ 64" using sum z Cons.prems(2) need by linarith
  from Cons.IH [OF r [unfolded p(3)] this] have IH: "rooms (unat start + unat ?z) ss ptrs' sizes' (unat stop)"
    "unat stop \<le> unat start + unat ?z + file_need ss" by (simp_all add: sum p)
  from rooms_Cons [OF IH(1) z(1)] IH(2) z(2) need show ?case by (simp add: p)
qed

lemma headers_room:
  assumes "length ss < 65536"
  shows "sectionTableOffset + length ss * 40 \<le> unat (size_of_headers ss)" "unat (size_of_headers ss) < 2 ^ 22"
proof -
  let ?n = "sectionTableOffset + length ss * sectionHeaderSize"
  have n: "?n < 2 ^ 22 - 512" using assms by (simp add: sectionTableOffset_def header_consts)
  then have u: "unat (of_nat ?n :: u64) = ?n" by (intro unat_of_nat_u64) simp
  have "unat (of_nat ?n :: u64) + 512 \<le> 2 ^ 64" unfolding u using n by simp
  from file_align(1,2) [OF this] u n
  show "sectionTableOffset + length ss * 40 \<le> unat (size_of_headers ss)" "unat (size_of_headers ss) < 2 ^ 22"
    unfolding size_of_headers_def u by (simp_all add: sectionHeaderSize_def)
qed

section \<open>Where the stores go\<close>

text \<open>Stores at increasing addresses are apart.\<close>

fun in_order :: "nat \<Rightarrow> stores \<Rightarrow> bool" where
  "in_order lo [] \<longleftrightarrow> True"
| "in_order lo ((off, bs) # ws) \<longleftrightarrow> lo \<le> off \<and> in_order (off + length bs) ws"

lemma in_order_above: "in_order lo ws \<Longrightarrow> (off, bs) \<in> set ws \<Longrightarrow> lo \<le> off"
  by (induction lo ws rule: in_order.induct) auto

lemma in_order_apart: "in_order lo ws \<Longrightarrow> v \<in> set ws \<Longrightarrow> w \<in> set ws \<Longrightarrow> v \<noteq> w \<Longrightarrow> apart v w"
proof (induction lo ws rule: in_order.induct)
  case (2 lo off bs ws)
  have "apart (off, bs) u \<and> apart u (off, bs)" if "u \<in> set ws" for u
    using that in_order_above [of "off + length bs" ws] "2.prems"(1) by (cases u) (auto simp: apart_def)
  with 2 show ?case by (cases v; cases w) auto
qed simp

lemma inside_dos: "inside 0 0x84 writeDosHeaders"
  by (simp add: inside_def writeDosHeaders_def header_consts)

lemma inside_coff: "inside 0x84 0x98 (writeCoffHeader n)"
  by (simp add: inside_def writeCoffHeader_def header_consts Let_def)

lemma inside_directories:
  "inside 0x108 0x188 (concat (map (\<lambda>i. [(0x108 + i * 8, PutUint32 0), (0x108 + i * 8 + 4, PutUint32 0)]) [0..<16]))"
  by (auto simp: inside_def list_all_iff)

definition optional_fixed :: "Section list \<Rightarrow> u64 \<Rightarrow> u64 \<Rightarrow> u64 \<Rightarrow> u64 \<Rightarrow> u64 \<Rightarrow> stores" where
  "optional_fixed sections entryPoint sizeOfCode sizeOfData sizeOfHeaders imageSize =
     take 26 (writeOptionalHeader sections entryPoint sizeOfCode sizeOfData sizeOfHeaders imageSize 0 0)"

lemma optional_split:
  "writeOptionalHeader ss e c d h im va sz =
     optional_fixed ss e c d h im @
     concat (map (\<lambda>i. [(0x108 + i * 8, PutUint32 0), (0x108 + i * 8 + 4, PutUint32 0)]) [0..<16]) @
     (if va \<noteq> 0 \<or> sz \<noteq> 0 then [(0x130, PutUint32 (ucast va)), (0x134, PutUint32 (ucast sz))] else [])"
  by (simp add: optional_fixed_def writeOptionalHeader_def header_consts Let_def)

lemma inside_fixed: "inside 0x98 0x108 (optional_fixed ss e c d h im)"
  by (simp add: inside_def optional_fixed_def writeOptionalHeader_def header_consts Let_def)

lemma inside_optional: "inside 0x98 0x188 (writeOptionalHeader ss e c d h im va sz)"
proof -
  have "inside 0x98 0x188 (optional_fixed ss e c d h im)" by (rule inside_mono [OF inside_fixed]) simp_all
  moreover have "inside 0x98 0x188
      (concat (map (\<lambda>i. [(0x108 + i * 8, PutUint32 0), (0x108 + i * 8 + 4, PutUint32 0)]) [0..<16]))"
    by (rule inside_mono [OF inside_directories]) simp_all
  moreover have "inside 0x98 0x188 (if va \<noteq> 0 \<or> sz \<noteq> 0 then [(0x130, PutUint32 (ucast va)), (0x134, PutUint32 (ucast sz))] else [])"
    by (simp add: inside_def)
  ultimately show ?thesis unfolding optional_split by (simp only: inside_append)
qed

lemma length_encodeSectionName [simp]: "length (encodeSectionName s) = 8"
  by (simp add: encodeSectionName_def string_bytes_def min_def)

lemma inside_section: "inside off (off + 40) (writeSectionHeader off s p z)"
  by (simp add: inside_def writeSectionHeader_def)

lemma inside_sections:
  "inside sectionTableOffset (sectionTableOffset + length ss * 40) (writeSectionHeaders sectionTableOffset ss ptrs sizes)"
proof -
  have "inside sectionTableOffset (sectionTableOffset + length ss * 40)
      (writeSectionHeader (sectionTableOffset + i * 40) s p z)" if "i < length ss" for i s p z
    using inside_section by (rule inside_mono) (use that in auto)
  then show ?thesis by (auto simp: writeSectionHeaders_def sectionHeaderSize_def inside_def list_all_iff)
qed

definition data_stores :: "Section list \<Rightarrow> u64 list \<Rightarrow> stores" where
  "data_stores ss ptrs = map (\<lambda>i. (unat (ptrs ! i), sec_Data (ss ! i))) [0..<length ss]"

lemma inside_data: "rooms start ss ptrs sizes stop \<Longrightarrow> inside start stop (data_stores ss ptrs)"
  by (fastforce simp: rooms_def inside_def list_all_iff data_stores_def intro: le_trans)

lemma apart_data:
  assumes "rooms start ss ptrs sizes stop" and "i < length ss" and "w \<in> set (data_stores ss ptrs)"
    and "w \<noteq> (unat (ptrs ! i), sec_Data (ss ! i))"
  shows "apart (unat (ptrs ! i), sec_Data (ss ! i)) w"
proof -
  from assms(3) obtain j where j: "j < length ss" "w = (unat (ptrs ! j), sec_Data (ss ! j))"
    by (auto simp: data_stores_def)
  have room: "length (sec_Data (ss ! k)) \<le> unat (sizes ! k)" "l < k \<Longrightarrow> unat (ptrs ! l) + unat (sizes ! l) \<le> unat (ptrs ! k)"
    if "k < length ss" for k l using assms(1) that by (auto simp: rooms_def)
  from j assms(4) consider "j < i" | "i < j" by (metis nat_neq_iff)
  then show ?thesis
    using room(1) [OF assms(2)] room(2) [OF assms(2), of j] room(1) [OF j(1)] room(2) [OF j(1), of i] j(2)
    by cases (auto simp: apart_def)
qed

lemma apart_section:
  assumes "i < length ss" and "w \<in> set (writeSectionHeaders sectionTableOffset ss ptrs sizes)"
    and "(off, bs) \<in> set (writeSectionHeader (sectionTableOffset + i * 40) (ss ! i) (ptrs ! i) (sizes ! i))"
    and "w \<noteq> (off, bs)"
  shows "apart (off, bs) w"
proof -
  let ?h = "\<lambda>i. writeSectionHeader (sectionTableOffset + i * 40) (ss ! i) (ptrs ! i) (sizes ! i)"
  from assms(2) obtain j where j: "j < length ss" "w \<in> set (?h j)"
    by (auto simp: writeSectionHeaders_def sectionHeaderSize_def)
  have here: "sectionTableOffset + i * 40 \<le> off" "off + length bs \<le> sectionTableOffset + i * 40 + 40"
    using inside_section [of "sectionTableOffset + i * 40" "ss ! i" "ptrs ! i" "sizes ! i"] assms(3)
    by (auto simp: inside_def list_all_iff)
  show ?thesis
  proof (cases "i = j")
    case True
    with j assms(3,4) show ?thesis by (auto simp: writeSectionHeader_def apart_def)
  next
    case False
    then have "i * 40 + 40 \<le> j * 40 \<or> j * 40 + 40 \<le> i * 40" by linarith
    with here inside_apart [OF inside_section j(2), of off bs] show ?thesis by linarith
  qed
qed

section \<open>Reading the stores back\<close>

definition the_optional :: "Section list \<Rightarrow> u64 \<Rightarrow> stores" where
  "the_optional ss entry =
     writeOptionalHeader ss entry (fst (computeDataSizes ss)) (snd (computeDataSizes ss)) (size_of_headers ss)
       (computeImageSize ss) (fst (locateRelocDirectory ss)) (snd (locateRelocDirectory ss))"

definition the_fixed :: "Section list \<Rightarrow> u64 \<Rightarrow> stores" where
  "the_fixed ss entry =
     optional_fixed ss entry (fst (computeDataSizes ss)) (snd (computeDataSizes ss)) (size_of_headers ss) (computeImageSize ss)"

definition efi_stores :: "Section list \<Rightarrow> u64 \<Rightarrow> u64 list \<Rightarrow> u64 list \<Rightarrow> stores" where
  "efi_stores ss entry ptrs sizes =
     writeDosHeaders @ writeCoffHeader (length ss) @ the_optional ss entry @
     writeSectionHeaders sectionTableOffset ss ptrs sizes @ data_stores ss ptrs"

lemma write_sections_eq:
  "raw_layout (size_of_headers ss) ss = (ptrs, sizes, stop) \<Longrightarrow>
   write_sections ss entry = write_all (efi_stores ss entry ptrs sizes) (replicate (unat stop) 0)"
  by (simp add: write_sections_def efi_stores_def the_optional_def data_stores_def Let_def case_prod_beta)

lemma inside_the_optional: "inside 0x98 0x188 (the_optional ss entry)"
  unfolding the_optional_def by (rule inside_optional)

lemma inside_the_fixed: "inside 0x98 0x108 (the_fixed ss entry)"
  unfolding the_fixed_def by (rule inside_fixed)

lemma fixed_in_optional: "w \<in> set (the_fixed ss entry) \<Longrightarrow> w \<in> set (the_optional ss entry)"
  by (simp add: the_fixed_def the_optional_def optional_split)

text \<open>A file layout that fits: the rooms start after the section table.\<close>

definition efi_layout :: "Section list \<Rightarrow> u64 list \<Rightarrow> u64 list \<Rightarrow> nat \<Rightarrow> bool" where
  "efi_layout ss ptrs sizes stop \<longleftrightarrow>
     (\<exists>start. sectionTableOffset + length ss * 40 \<le> start \<and> rooms start ss ptrs sizes stop)"

lemma efi_layoutE:
  assumes "efi_layout ss ptrs sizes stop"
  obtains start where "0x188 + length ss * 40 \<le> start" "rooms start ss ptrs sizes stop" "start \<le> stop"
  using assms by (auto simp: efi_layout_def rooms_def sectionTableOffset_def header_consts)

lemma table_offset: "sectionTableOffset = 0x188"
  by (simp add: sectionTableOffset_def header_consts)

lemma stores_written:
  assumes "efi_layout ss ptrs sizes stop"
  shows "\<exists>out. write_all (efi_stores ss entry ptrs sizes) (replicate stop 0) = Some out"
proof -
  from assms obtain start where r: "0x188 + length ss * 40 \<le> start" "rooms start ss ptrs sizes stop" "start \<le> stop"
    by (rule efi_layoutE)
  have "inside 0 stop (writeSectionHeaders sectionTableOffset ss ptrs sizes)"
    by (rule inside_mono [OF inside_sections]) (use r table_offset in auto)
  moreover have "inside 0 stop (data_stores ss ptrs)" by (rule inside_mono [OF inside_data [OF r(2)]]) auto
  moreover have "inside 0 stop writeDosHeaders" by (rule inside_mono [OF inside_dos]) (use r in auto)
  moreover have "inside 0 stop (writeCoffHeader (length ss))" by (rule inside_mono [OF inside_coff]) (use r in auto)
  moreover have "inside 0 stop (the_optional ss entry)"
    unfolding the_optional_def by (rule inside_mono [OF inside_optional]) (use r in auto)
  ultimately have "inside 0 (length (replicate stop (0 :: byte))) (efi_stores ss entry ptrs sizes)"
    by (simp add: efi_stores_def)
  then show ?thesis by (rule inside_write_all)
qed

text \<open>A store is read back when it is apart from the others of its own group.\<close>

lemma stores_apart:
  assumes "efi_layout ss ptrs sizes stop" and "w \<in> set (efi_stores ss entry ptrs sizes)"
  shows "off + length bs \<le> 0x84 \<Longrightarrow> w \<notin> set writeDosHeaders \<Longrightarrow> apart (off, bs) w"
    and "0x84 \<le> off \<Longrightarrow> off + length bs \<le> 0x98 \<Longrightarrow> w \<notin> set (writeCoffHeader (length ss)) \<Longrightarrow> apart (off, bs) w"
    and "0x98 \<le> off \<Longrightarrow> off + length bs \<le> 0x188 \<Longrightarrow> w \<notin> set (the_optional ss entry) \<Longrightarrow> apart (off, bs) w"
    and "0x188 \<le> off \<Longrightarrow> off + length bs \<le> 0x188 + length ss * 40 \<Longrightarrow>
      w \<notin> set (writeSectionHeaders sectionTableOffset ss ptrs sizes) \<Longrightarrow> apart (off, bs) w"
    and "0x188 + length ss * 40 \<le> off \<Longrightarrow> w \<notin> set (data_stores ss ptrs) \<Longrightarrow> apart (off, bs) w"
proof -
  from assms(1) obtain start where r: "0x188 + length ss * 40 \<le> start" "rooms start ss ptrs sizes stop"
    by (rule efi_layoutE)
  from assms(2) consider "w \<in> set writeDosHeaders" | "w \<in> set (writeCoffHeader (length ss))" | "w \<in> set (the_optional ss entry)"
    | "w \<in> set (writeSectionHeaders sectionTableOffset ss ptrs sizes)" | "w \<in> set (data_stores ss ptrs)"
    by (auto simp: efi_stores_def)
  note groups = this
  have secs: "inside 0x188 (0x188 + length ss * 40) (writeSectionHeaders sectionTableOffset ss ptrs sizes)"
    using inside_sections [of ss ptrs sizes] unfolding table_offset .
  note sep = inside_apart [where off = off and bs = bs]
  note dos = sep [OF inside_dos] and coff = sep [OF inside_coff] and opt = sep [OF inside_the_optional]
    and secs = sep [OF secs] and data = sep [OF inside_data [OF r(2)]]
  show "apart (off, bs) w" if "off + length bs \<le> 0x84" "w \<notin> set writeDosHeaders"
    using groups that coff opt secs data r(1) by cases (auto simp: table_offset)
  show "apart (off, bs) w" if "0x84 \<le> off" "off + length bs \<le> 0x98" "w \<notin> set (writeCoffHeader (length ss))"
    using groups that dos opt secs data r(1) by cases (auto simp: table_offset)
  show "apart (off, bs) w" if "0x98 \<le> off" "off + length bs \<le> 0x188" "w \<notin> set (the_optional ss entry)"
    using groups that dos coff secs data r(1) by cases (auto simp: table_offset)
  show "apart (off, bs) w" if "0x188 \<le> off" "off + length bs \<le> 0x188 + length ss * 40"
    "w \<notin> set (writeSectionHeaders sectionTableOffset ss ptrs sizes)"
    using groups that dos coff opt data r(1) by cases (auto simp: table_offset)
  show "apart (off, bs) w" if "0x188 + length ss * 40 \<le> off" "w \<notin> set (data_stores ss ptrs)"
    using groups that dos coff opt secs by cases (auto simp: table_offset)
qed

text \<open>What stands in the finished file.\<close>

lemma read_dos:
  assumes lay: "efi_layout ss ptrs sizes stop"
    and out: "write_all (efi_stores ss entry ptrs sizes) (replicate stop 0) = Some out"
    and w: "(off, bs) \<in> set writeDosHeaders"
  shows "read_at off (length bs) out = bs"
proof (rule write_all_member [OF out])
  have "off + length bs \<le> 0x84" using w inside_dos by (auto simp: inside_def list_all_iff)
  moreover have "apart (off, bs) v" if "v \<in> set writeDosHeaders" "v \<noteq> (off, bs)" for v
    using w that by (auto simp: writeDosHeaders_def header_consts apart_def)
  ultimately show "apart (off, bs) v" if "v \<in> set (efi_stores ss entry ptrs sizes)" "v \<noteq> (off, bs)" for v
    using stores_apart(1) [OF lay, of v entry off bs] that by blast
qed (use w in \<open>simp add: efi_stores_def\<close>)

lemma read_coff:
  assumes lay: "efi_layout ss ptrs sizes stop"
    and out: "write_all (efi_stores ss entry ptrs sizes) (replicate stop 0) = Some out"
    and w: "(off, bs) \<in> set (writeCoffHeader (length ss))"
  shows "read_at off (length bs) out = bs"
proof (rule write_all_member [OF out])
  have "0x84 \<le> off" "off + length bs \<le> 0x98" using w inside_coff [of "length ss"] by (auto simp: inside_def list_all_iff)
  moreover have "apart (off, bs) v" if "v \<in> set (writeCoffHeader (length ss))" "v \<noteq> (off, bs)" for v
    using w that by (auto simp: writeCoffHeader_def header_consts Let_def apart_def)
  ultimately show "apart (off, bs) v" if "v \<in> set (efi_stores ss entry ptrs sizes)" "v \<noteq> (off, bs)" for v
    using stores_apart(2) [OF lay, of v entry off bs] that by blast
qed (use w in \<open>simp add: efi_stores_def\<close>)

lemma read_fixed:
  assumes lay: "efi_layout ss ptrs sizes stop"
    and out: "write_all (efi_stores ss entry ptrs sizes) (replicate stop 0) = Some out"
    and w: "(off, bs) \<in> set (the_fixed ss entry)"
  shows "read_at off (length bs) out = bs"
proof (rule write_all_member [OF out])
  have b: "0x98 \<le> off" "off + length bs \<le> 0x108"
    using w inside_the_fixed [of ss entry] by (auto simp: inside_def list_all_iff)
  have "apart (off, bs) v" if "v \<in> set (the_optional ss entry)" "v \<noteq> (off, bs)" for v
  proof (cases "v \<in> set (the_fixed ss entry)")
    case True
    have "in_order 0 (the_fixed ss entry)"
      by (simp add: the_fixed_def optional_fixed_def writeOptionalHeader_def header_consts Let_def)
    from in_order_apart [OF this w True] that(2) show ?thesis by blast
  next
    case False
    with that(1) b show ?thesis by (auto simp: the_fixed_def the_optional_def optional_split apart_def split: if_splits)
  qed
  with b show "apart (off, bs) v" if "v \<in> set (efi_stores ss entry ptrs sizes)" "v \<noteq> (off, bs)" for v
    using stores_apart(3) [OF lay, of v entry off bs] that by fastforce
qed (use w in \<open>simp add: efi_stores_def fixed_in_optional\<close>)

lemma read_section:
  assumes lay: "efi_layout ss ptrs sizes stop"
    and out: "write_all (efi_stores ss entry ptrs sizes) (replicate stop 0) = Some out"
    and i: "i < length ss"
    and w: "(off, bs) \<in> set (writeSectionHeader (sectionTableOffset + i * 40) (ss ! i) (ptrs ! i) (sizes ! i))"
  shows "read_at off (length bs) out = bs"
proof (rule write_all_member [OF out])
  have "sectionTableOffset + i * 40 \<le> off" "off + length bs \<le> sectionTableOffset + i * 40 + 40"
    using w inside_section [of "sectionTableOffset + i * 40" "ss ! i" "ptrs ! i" "sizes ! i"] by (auto simp: inside_def list_all_iff)
  with i have "0x188 \<le> off" "off + length bs \<le> 0x188 + length ss * 40" by (auto simp: table_offset)
  then show "apart (off, bs) v" if "v \<in> set (efi_stores ss entry ptrs sizes)" "v \<noteq> (off, bs)" for v
    using stores_apart(4) [OF lay, of v entry off bs] apart_section [OF i _ w, of v] that by blast
qed (use i w in \<open>auto simp: efi_stores_def writeSectionHeaders_def sectionHeaderSize_def\<close>)

lemma read_data:
  assumes lay: "efi_layout ss ptrs sizes stop"
    and out: "write_all (efi_stores ss entry ptrs sizes) (replicate stop 0) = Some out"
    and i: "i < length ss"
  shows "read_at (unat (ptrs ! i)) (length (sec_Data (ss ! i))) out = sec_Data (ss ! i)"
proof (rule write_all_member [OF out])
  from lay obtain start where r: "0x188 + length ss * 40 \<le> start" "rooms start ss ptrs sizes stop"
    by (rule efi_layoutE)
  then have "0x188 + length ss * 40 \<le> unat (ptrs ! i)" using i by (fastforce simp: rooms_def)
  then show "apart (unat (ptrs ! i), sec_Data (ss ! i)) v"
    if "v \<in> set (efi_stores ss entry ptrs sizes)" "v \<noteq> (unat (ptrs ! i), sec_Data (ss ! i))" for v
    using stores_apart(5) [OF lay, of v entry] apart_data [OF r(2) i, of v] that by blast
qed (use i in \<open>auto simp: efi_stores_def data_stores_def\<close>)

lemma read_reloc_directory:
  assumes lay: "efi_layout ss ptrs sizes stop"
    and out: "write_all (efi_stores ss entry ptrs sizes) (replicate stop 0) = Some out"
  shows "read_at 0x130 4 out = PutUint32 (ucast (fst (locateRelocDirectory ss)))"
    "read_at 0x134 4 out = PutUint32 (ucast (snd (locateRelocDirectory ss)))"
proof -
  let ?va = "fst (locateRelocDirectory ss)" and ?sz = "snd (locateRelocDirectory ss)"
  have tail: "apart (off, bs) v" if "v \<in> set (writeSectionHeaders sectionTableOffset ss ptrs sizes @ data_stores ss ptrs)"
    "off + length bs \<le> 0x188" for v off bs
  proof -
    from lay obtain start where r: "0x188 + length ss * 40 \<le> start" "rooms start ss ptrs sizes stop"
      by (rule efi_layoutE)
    from that show ?thesis
      using inside_apart [OF inside_sections, of v ss ptrs sizes off bs] inside_apart [OF inside_data [OF r(2)], of v off bs] r(1)
      by (auto simp: table_offset)
  qed
  let ?dirs = "concat (map (\<lambda>i. [(0x108 + i * 8, PutUint32 0), (0x108 + i * 8 + 4, PutUint32 0)]) [0..<16]) :: stores"
  let ?front = "writeDosHeaders @ writeCoffHeader (length ss) @ the_fixed ss entry"
  let ?tail = "writeSectionHeaders sectionTableOffset ss ptrs sizes @ data_stores ss ptrs"
  have "read_at 0x130 4 out = PutUint32 (ucast ?va) \<and> read_at 0x134 4 out = PutUint32 (ucast ?sz)"
  proof (cases "?va \<noteq> 0 \<or> ?sz \<noteq> 0")
    case True
    then have st: "efi_stores ss entry ptrs sizes =
        (?front @ ?dirs) @ (0x130, PutUint32 (ucast ?va)) # (0x134, PutUint32 (ucast ?sz)) # ?tail"
      by (simp add: efi_stores_def the_optional_def the_fixed_def optional_split)
    have "read_at 0x130 (length (PutUint32 (ucast ?va))) out = PutUint32 (ucast ?va)"
      by (rule write_all_read [OF out [unfolded st]])
        (use tail [where off = "0x130" and bs = "PutUint32 (ucast ?va)"] in \<open>fastforce simp: apart_def\<close>)
    moreover have "write_all ((?front @ ?dirs @ [(0x130, PutUint32 (ucast ?va))]) @ (0x134, PutUint32 (ucast ?sz)) # ?tail)
        (replicate stop 0) = Some out"
      using out st by simp
    from write_all_read [OF this] have "read_at 0x134 (length (PutUint32 (ucast ?sz))) out = PutUint32 (ucast ?sz)"
      using tail [where off = "0x134" and bs = "PutUint32 (ucast ?sz)"] by (fastforce simp: apart_def)
    ultimately show ?thesis by simp
  next
    case False
    then have st: "efi_stores ss entry ptrs sizes = ?front @ ?dirs @ ?tail"
      by (simp add: efi_stores_def the_optional_def the_fixed_def optional_split)
    have front: "inside 0 0x108 ?front"
      using inside_mono [OF inside_dos, of 0 "0x108"] inside_mono [OF inside_coff, of 0 "0x108"] inside_mono [OF inside_the_fixed, of 0 "0x108"]
      by simp
    have ord: "in_order 0x108 ?dirs" by (simp add: upt_rec)
    have z: "read_at off 4 out = PutUint32 0" if "(off, PutUint32 0) \<in> set ?dirs" for off
    proof -
      have b: "0x108 \<le> off" "off + 4 \<le> 0x188" using that by auto
      have "read_at off (length (PutUint32 0)) out = PutUint32 0"
      proof (rule write_all_member [OF out])
        fix w assume "w \<in> set (efi_stores ss entry ptrs sizes)" and ne: "w \<noteq> (off, PutUint32 0)"
        then consider "w \<in> set ?front" | "w \<in> set ?dirs" | "w \<in> set ?tail" unfolding st by fastforce
        then show "apart (off, PutUint32 0) w"
          using inside_apart [OF front, of w off "PutUint32 0"] in_order_apart [OF ord that, of w] ne
            tail [of w off "PutUint32 0"] b by cases auto
      qed (use that in \<open>simp add: st\<close>)
      then show ?thesis by simp
    qed
    show ?thesis
      using False z [of "0x130"] z [of "0x134"] by (simp add: upt_rec)
  qed
  then show "read_at 0x130 4 out = PutUint32 (ucast ?va)" "read_at 0x134 4 out = PutUint32 (ucast ?sz)" by simp_all
qed

section \<open>A reader of the format\<close>

definition get16 :: "nat \<Rightarrow> bytes \<Rightarrow> u16" where
  "get16 off bs = le_word (read_at off 2 bs)"

definition get32 :: "nat \<Rightarrow> bytes \<Rightarrow> u32" where
  "get32 off bs = le_word (read_at off 4 bs)"

record loaded_section =
  ld_Name :: bytes
  ld_Size :: u32
  ld_RVA :: u32
  ld_Flags :: u32
  ld_Data :: bytes

record loaded_image =
  ld_Entry :: u32
  ld_ImageSize :: u32
  ld_RelocDirectory :: "u32 \<times> u32"
  ld_Sections :: "loaded_section list"

text \<open>
  What firmware does with the file: it follows \<open>e_lfanew\<close>, checks the signatures and the machine, finds the
  section table behind the optional header and takes from every section header the address, the size
  and the contents at the file pointer.
\<close>

definition load_section :: "bytes \<Rightarrow> nat \<Rightarrow> loaded_section" where
  "load_section bs h =
     \<lparr>ld_Name = read_at h 8 bs, ld_Size = get32 (h + 8) bs, ld_RVA = get32 (h + 12) bs, ld_Flags = get32 (h + 36) bs,
      ld_Data = read_at (unat (get32 (h + 20) bs)) (unat (get32 (h + 8) bs)) bs\<rparr>"

definition load_image :: "bytes \<Rightarrow> loaded_image option" where
  "load_image bs =
     (let pe = unat (get32 0x3c bs); table = pe + 24 + unat (get16 (pe + 20) bs) in
      if read_at 0 2 bs = [0x4d, 0x5a] \<and> read_at pe 4 bs = [0x50, 0x45, 0, 0] \<and> get16 (pe + 4) bs = 0x8664 \<and>
         get16 (pe + 24) bs = 0x20B
      then Some \<lparr>ld_Entry = get32 (pe + 40) bs, ld_ImageSize = get32 (pe + 80) bs,
             ld_RelocDirectory = (get32 (pe + 176) bs, get32 (pe + 180) bs),
             ld_Sections = map (\<lambda>i. load_section bs (table + 40 * i)) [0..<unat (get16 (pe + 6) bs)]\<rparr>
      else None)"

definition loaded :: "Section \<Rightarrow> loaded_section" where
  "loaded s = \<lparr>ld_Name = encodeSectionName (sec_Name s), ld_Size = of_nat (length (sec_Data s)), ld_RVA = ucast (sec_RVA s),
     ld_Flags = sec_Characteristics s, ld_Data = sec_Data s\<rparr>"

lemma get_put: "read_at off 2 bs = PutUint16 v \<Longrightarrow> get16 off bs = v" "read_at off 4 bs = PutUint32 w \<Longrightarrow> get32 off bs = w"
  by (simp_all add: get16_def get32_def PutUint16_def PutUint32_def le_word_le_bytes)

lemma load_section_written:
  assumes lay: "efi_layout ss ptrs sizes stop" and stop: "stop < 2 ^ 32"
    and out: "write_all (efi_stores ss entry ptrs sizes) (replicate stop 0) = Some out" and i: "i < length ss"
  shows "load_section out (sectionTableOffset + i * 40) = loaded (ss ! i)"
proof -
  let ?s = "ss ! i" and ?h = "sectionTableOffset + i * 40"
  note fld = read_section [OF lay out i]
  have name: "read_at ?h 8 out = encodeSectionName (sec_Name ?s)"
    using fld [of ?h "encodeSectionName (sec_Name ?s)"] by (simp add: writeSectionHeader_def)
  have sz: "get32 (?h + 8) out = of_nat (length (sec_Data ?s))"
    using fld [of "?h + 8" "PutUint32 (of_nat (length (sec_Data ?s)))"] by (intro get_put) (simp add: writeSectionHeader_def)
  have rva: "get32 (?h + 12) out = ucast (sec_RVA ?s)"
    using fld [of "?h + 12" "PutUint32 (ucast (sec_RVA ?s))"] by (intro get_put) (simp add: writeSectionHeader_def)
  have ptr: "get32 (?h + 20) out = ucast (ptrs ! i)"
    using fld [of "?h + 20" "PutUint32 (ucast (ptrs ! i))"] by (intro get_put) (simp add: writeSectionHeader_def)
  have flags: "get32 (?h + 36) out = sec_Characteristics ?s"
    using fld [of "?h + 36" "PutUint32 (sec_Characteristics ?s)"] by (intro get_put) (simp add: writeSectionHeader_def)
  from lay obtain start where r: "rooms start ss ptrs sizes stop" by (rule efi_layoutE)
  then have b: "unat (ptrs ! i) + length (sec_Data ?s) \<le> stop" using i by (fastforce simp: rooms_def)
  have p: "unat (get32 (?h + 20) out) = unat (ptrs ! i)"
    unfolding ptr using b stop by (simp add: unsigned_ucast_eq take_bit_nat_eq_self)
  have l: "unat (get32 (?h + 8) out) = length (sec_Data ?s)"
    unfolding sz by (rule unat_of_nat_u32) (use b stop in linarith)
  show ?thesis
    unfolding load_section_def loaded_def p l using name sz rva flags read_data [OF lay out i] by simp
qed

lemma load_image_written:
  assumes lay: "efi_layout ss ptrs sizes stop" and stop: "stop < 2 ^ 32" and n: "length ss < 65536"
    and out: "write_all (efi_stores ss entry ptrs sizes) (replicate stop 0) = Some out"
  shows "load_image out = Some \<lparr>ld_Entry = ucast entry, ld_ImageSize = ucast (computeImageSize ss),
      ld_RelocDirectory = (ucast (fst (locateRelocDirectory ss)), ucast (snd (locateRelocDirectory ss))),
      ld_Sections = map loaded ss\<rparr>"
proof -
  note dos = read_dos [OF lay out] and coff = read_coff [OF lay out] and opt = read_fixed [OF lay out]
  have "PutUint16 0x5a4d = [0x4d, 0x5a]" by code_simp
  then have mz: "read_at 0 2 out = [0x4d, 0x5a]"
    using dos [of 0 "PutUint16 0x5a4d"] length_PutUint(1) [of "0x5a4d"] by (simp add: writeDosHeaders_def numeral_2_eq_2)
  have sig: "read_at 0x80 4 out = [0x50, 0x45, 0, 0]"
    using dos [of "0x80" "[0x50, 0x45, 0, 0]"] by (simp add: writeDosHeaders_def header_consts eval_nat_numeral)
  have lf: "get32 0x3c out = 0x80"
    using dos [of "0x3c" "PutUint32 0x80"] by (intro get_put) (simp add: writeDosHeaders_def header_consts)
  have m: "get16 0x84 out = 0x8664"
    using coff [of "0x84" "PutUint16 0x8664"] by (intro get_put) (simp add: writeCoffHeader_def header_consts machineAMD64_def)
  have k: "get16 0x86 out = of_nat (length ss)"
    using coff [of "0x86" "PutUint16 (of_nat (length ss))"] by (intro get_put) (simp add: writeCoffHeader_def header_consts)
  have o: "get16 0x94 out = 0xF0"
    using coff [of "0x94" "PutUint16 0xF0"] by (intro get_put) (simp add: writeCoffHeader_def header_consts)
  have g: "get16 0x98 out = 0x20B"
    using opt [of "0x98" "PutUint16 0x20B"]
    by (intro get_put) (simp add: the_fixed_def optional_fixed_def writeOptionalHeader_def header_consts Let_def)
  have e: "get32 0xA8 out = ucast entry"
    using opt [of "0xA8" "PutUint32 (ucast entry)"]
    by (intro get_put) (simp add: the_fixed_def optional_fixed_def writeOptionalHeader_def header_consts Let_def)
  have im: "get32 0xD0 out = ucast (computeImageSize ss)"
    using opt [of "0xD0" "PutUint32 (ucast (computeImageSize ss))"]
    by (intro get_put) (simp add: the_fixed_def optional_fixed_def writeOptionalHeader_def header_consts Let_def)
  note dir = get_put(2) [OF read_reloc_directory(1) [OF lay out]] get_put(2) [OF read_reloc_directory(2) [OF lay out]]
  have kn: "unat (get16 0x86 out) = length ss" unfolding k by (rule unat_of_nat_u16) (use n in simp)
  have "map (\<lambda>i. load_section out (0x188 + 40 * i)) [0..<length ss] = map loaded ss"
    using load_section_written [OF lay stop out] by (intro nth_equalityI) (simp_all add: table_offset mult.commute)
  with mz sig lf m o g e im dir kn show ?thesis by (simp add: load_image_def Let_def)
qed

lemma write_sections_layout:
  assumes n: "length ss < 65536" and fits: "file_need ss < 2 ^ 31"
  obtains ptrs sizes and stop :: u64 where "efi_layout ss ptrs sizes (unat stop)" "unat stop < 2 ^ 32"
    "write_sections ss entry = write_all (efi_stores ss entry ptrs sizes) (replicate (unat stop) 0)"
proof -
  obtain ptrs sizes stop where r: "raw_layout (size_of_headers ss) ss = (ptrs, sizes, stop)" by (metis prod_cases3)
  note h = headers_room [OF n]
  have "unat (size_of_headers ss) + file_need ss \<le> 2 ^ 64" using h(2) fits by simp
  note rooms = raw_layout_rooms [OF r this]
  have "unat stop < 2 ^ 32" using rooms h(2) fits by simp
  moreover have "efi_layout ss ptrs sizes (unat stop)" using rooms h(1) by (auto simp: efi_layout_def)
  ultimately show thesis using that write_sections_eq [OF r] by blast
qed

lemma length_place_sections [simp]: "length (place_sections ss) = length ss"
proof -
  have "length (assign_rvas nxt ss) = length ss" for nxt ss by (induction nxt ss rule: assign_rvas.induct) (simp_all add: Let_def)
  then show ?thesis
    by (simp add: place_sections_def assignSectionRVAs_def assignSectionCharacteristics_def normalizeAndOrderSections_def)
qed

lemma file_need_place: "file_need (place_sections ss) = file_need ss"
proof -
  have rvas: "file_need (assign_rvas nxt ss) = file_need ss" for nxt ss
    by (induction nxt ss rule: assign_rvas.induct) (simp_all add: file_need_def Let_def)
  have flags: "file_need (assignSectionCharacteristics ss) = file_need ss" for ss
    unfolding file_need_def assignSectionCharacteristics_def map_map
    by (rule arg_cong [where f = sum_list]) (auto split: option.splits)
  have "mset (normalizeAndOrderSections ss) = mset (map fst (zip ss [0..<length ss]))"
    by (simp only: normalizeAndOrderSections_def mset_map mset_sort)
  then have "mset (normalizeAndOrderSections ss) = mset ss" by simp
  then have "mset (map (\<lambda>s. length (sec_Data s) + 512) (normalizeAndOrderSections ss)) = mset (map (\<lambda>s. length (sec_Data s) + 512) ss)"
    by (simp only: mset_map)
  then have "file_need (normalizeAndOrderSections ss) = file_need ss"
    unfolding file_need_def by (metis sum_mset_sum_list)
  with rvas flags show ?thesis by (simp add: place_sections_def assignSectionRVAs_def)
qed

lemma write_sections_loads:
  assumes n: "length ss < 65536" and fits: "file_need ss < 2 ^ 31"
  shows "\<exists>out. write_sections ss entryPoint = Some out \<and>
    load_image out = Some \<lparr>ld_Entry = ucast entryPoint, ld_ImageSize = ucast (computeImageSize ss),
      ld_RelocDirectory = (ucast (fst (locateRelocDirectory ss)), ucast (snd (locateRelocDirectory ss))), ld_Sections = map loaded ss\<rparr>"
proof -
  obtain ptrs sizes and stop :: u64 where lay: "efi_layout ss ptrs sizes (unat stop)" and stop: "unat stop < 2 ^ 32"
    and w: "write_sections ss entryPoint = write_all (efi_stores ss entryPoint ptrs sizes) (replicate (unat stop) 0)"
    using write_sections_layout [OF n fits] by blast
  from stores_written [OF lay] obtain out where
    out: "write_all (efi_stores ss entryPoint ptrs sizes) (replicate (unat stop) 0) = Some out" by blast
  from load_image_written [OF lay stop n out] w out show ?thesis by simp
qed

text \<open>
  C21. The image file reads back: for an image whose entry symbol and relocation symbols are known, with
  fewer than 65536 sections and below two gigabytes, the writer does not fail or panic, and a reader that
  follows the file format finds the entry point, the image size, the relocation directory and every
  section, in the order of the section table, with its name, address, flags and exactly its contents.
\<close>

theorem WriteEFI_loads:
  assumes "Symbols img = Some symbols" and "symbols (EntrySymbol img) = Some entryPoint"
    and "with_relocs img symbols = Inr sections"
    and "length sections < 65536" and "file_need sections < 2 ^ 31"
  shows "\<exists>out. WriteEFI (Some img) = Some (Inr out) \<and>
    load_image out = Some \<lparr>ld_Entry = ucast entryPoint, ld_ImageSize = ucast (computeImageSize (place_sections sections)),
      ld_RelocDirectory = (ucast (fst (locateRelocDirectory (place_sections sections))),
        ucast (snd (locateRelocDirectory (place_sections sections)))),
      ld_Sections = map loaded (place_sections sections)\<rparr>"
proof -
  let ?ss = "place_sections sections"
  have n: "length ?ss < 65536" and fits: "file_need ?ss < 2 ^ 31" using assms(4,5) by (simp_all add: file_need_place)
  from write_sections_loads [OF n fits, of entryPoint] assms(1-3) show ?thesis by (auto simp: WriteEFI_def)
qed

theorem WriteEFI_loads_witness:
  "\<exists>out. WriteEFI (Some \<lparr>EntrySymbol = ''e'', Sections = [\<lparr>sec_Name = ''.text'', sec_Data = [0xC3], sec_RVA = 0,
       sec_Characteristics = 0\<rparr>], Symbols = Some [''e'' \<mapsto> 0x1000], Relocs = []\<rparr>) = Some (Inr out) \<and>
     map_option (\<lambda>im. (ld_Entry im, map ld_Data (ld_Sections im), map ld_RVA (ld_Sections im))) (load_image out) =
       Some (0x1000, [[0xC3]], [0x1000])"
proof -
  let ?s = "\<lparr>sec_Name = ''.text'', sec_Data = [0xC3], sec_RVA = 0, sec_Characteristics = 0\<rparr>"
  let ?img = "\<lparr>EntrySymbol = ''e'', Sections = [?s], Symbols = Some [''e'' \<mapsto> 0x1000], Relocs = []\<rparr>"
  have p: "place_sections [?s] = [?s\<lparr>sec_RVA := 0x1000, sec_Characteristics := 0x60000020\<rparr>]"
    by (simp add: place_sections_def normalizeAndOrderSections_def assignSectionCharacteristics_def
        assignSectionRVAs_def sectionCharacteristics_def Let_def)
  have "with_relocs ?img [''e'' \<mapsto> 0x1000] = Inr [?s]" by (simp add: with_relocs_def)
  from WriteEFI_loads [OF _ _ this, of "0x1000"] show ?thesis
    by (auto simp: p file_need_def loaded_def)
qed

section \<open>Memory of the loaded image\<close>

text \<open>
  Addresses that sections may bring along: none, or a page-aligned one behind the sections before it, all
  within the address space.
\<close>

definition section_span :: "Section \<Rightarrow> nat" where
  "section_span s = (if length (sec_Data s) = 0 then 1 else length (sec_Data s))"

fun addresses_ok :: "u64 \<Rightarrow> Section list \<Rightarrow> bool" where
  "addresses_ok nxt [] \<longleftrightarrow> True"
| "addresses_ok nxt (s # ss) \<longleftrightarrow>
     (let rva = (if sec_RVA s = 0 then nxt else sec_RVA s) in
      nxt \<le> rva \<and> unat rva mod 4096 = 0 \<and> unat rva + section_span s + 8192 \<le> 2 ^ 64 \<and>
      addresses_ok (alignUp (rva + of_nat (section_span s)) sectionAlignment) ss)"

definition in_pages :: "nat \<Rightarrow> Section \<Rightarrow> bool" where
  "in_pages lo s \<longleftrightarrow> lo \<le> unat (sec_RVA s) \<and> 4096 dvd unat (sec_RVA s) \<and> unat (sec_RVA s) + section_span s + 8192 \<le> 2 ^ 64"

lemma section_end:
  assumes "unat rva + section_span s + 8192 \<le> 2 ^ 64"
  shows "unat (rva + of_nat (section_span s)) = unat rva + section_span s"
    and "unat rva + section_span s \<le> unat (alignUp (rva + of_nat (section_span s)) sectionAlignment)"
proof -
  have "section_span s < 2 ^ 64" using assms by linarith
  then have u: "unat (of_nat (section_span s) :: u64) = section_span s" by (rule unat_of_nat_u64)
  show sum: "unat (rva + of_nat (section_span s)) = unat rva + section_span s"
    using unat_add_u64 [of rva "of_nat (section_span s)"] assms by (simp add: u)
  show "unat rva + section_span s \<le> unat (alignUp (rva + of_nat (section_span s)) sectionAlignment)"
    using page_align(1) [of "rva + of_nat (section_span s)"] assms by (simp add: sum)
qed

lemma assign_rvas_pages:
  assumes "addresses_ok nxt ss"
  shows "list_all (in_pages (unat nxt)) (assign_rvas nxt ss) \<and>
    sorted_wrt (\<lambda>a b. unat (sec_RVA a) + section_span a \<le> unat (sec_RVA b)) (assign_rvas nxt ss)"
  using assms
proof (induction nxt ss rule: assign_rvas.induct)
  case (2 nxt s ss)
  define rva where "rva = (if sec_RVA s = 0 then nxt else sec_RVA s)"
  define s' where "s' = (if sec_RVA s = 0 then s\<lparr>sec_RVA := nxt\<rparr> else s)"
  define nx where "nx = alignUp (rva + of_nat (section_span s)) sectionAlignment"
  have s': "sec_RVA s' = rva" "section_span s' = section_span s" by (simp_all add: s'_def rva_def section_span_def)
  have sz: "(if length (sec_Data s) = 0 then 1 else of_nat (length (sec_Data s)) :: u64) = of_nat (section_span s)"
    by (simp add: section_span_def)
  have eq: "assign_rvas nxt (s # ss) = s' # assign_rvas nx ss"
    by (simp only: assign_rvas.simps Let_def sz s'_def [symmetric] s' nx_def)
  have IH: "list_all (in_pages (unat nx)) (assign_rvas nx ss) \<and>
      sorted_wrt (\<lambda>a b. unat (sec_RVA a) + section_span a \<le> unat (sec_RVA b)) (assign_rvas nx ss)"
    using 2 by (simp only: sz s'_def [symmetric] s' nx_def) (simp add: Let_def rva_def nx_def)
  have ok: "nxt \<le> rva" "unat rva mod 4096 = 0" "unat rva + section_span s + 8192 \<le> 2 ^ 64"
    using "2.prems" by (simp_all add: Let_def rva_def)
  have lo: "unat nxt \<le> unat rva" using ok(1) by (simp add: word_le_nat_alt)
  have nx: "unat rva + section_span s \<le> unat nx" unfolding nx_def by (rule section_end(2) [OF ok(3)])
  have "in_pages (unat nxt) s'" using lo ok(2,3) s' by (simp add: in_pages_def dvd_eq_mod_eq_0)
  moreover have "list_all (in_pages (unat nxt)) (assign_rvas nx ss)"
    using IH lo nx by (auto simp: list_all_iff in_pages_def)
  moreover have "list_all (\<lambda>b. unat (sec_RVA s') + section_span s' \<le> unat (sec_RVA b)) (assign_rvas nx ss)"
    using IH nx s' by (auto simp: list_all_iff in_pages_def)
  ultimately show ?case using IH unfolding eq by (simp add: list_all_iff)
qed simp

lemma image_end_bounds:
  assumes "list_all (in_pages lo) ss" and "4096 dvd unat e" and "unat e + 4096 \<le> 2 ^ 64"
  shows "unat e \<le> unat (image_end e ss) \<and> 4096 dvd unat (image_end e ss) \<and> unat (image_end e ss) + 4096 \<le> 2 ^ 64 \<and>
    list_all (\<lambda>s. unat (sec_RVA s) + length (sec_Data s) \<le> unat (image_end e ss)) ss"
  using assms
proof (induction e ss rule: image_end.induct)
  case (2 e s ss)
  let ?x = "sec_RVA s + of_nat (length (sec_Data s))" and ?l = "alignUp (sec_RVA s + of_nat (length (sec_Data s))) sectionAlignment"
  have b: "unat (sec_RVA s) + length (sec_Data s) + 8192 \<le> 2 ^ 64"
    using "2.prems"(1) by (auto simp: in_pages_def section_span_def split: if_splits)
  then have "length (sec_Data s) < 2 ^ 64" by linarith
  then have u: "unat (of_nat (length (sec_Data s)) :: u64) = length (sec_Data s)" by (rule unat_of_nat_u64)
  have x: "unat ?x = unat (sec_RVA s) + length (sec_Data s)"
    using unat_add_u64 [of "sec_RVA s" "of_nat (length (sec_Data s))"] b by (simp add: u)
  have "unat ?x + 4096 \<le> 2 ^ 64" using b x by linarith
  note pa = page_align [OF this]
  define e' where "e' = (if ?l > e then ?l else e)"
  have e': "unat e \<le> unat e'" "unat ?l \<le> unat e'" "4096 dvd unat e'" "unat e' + 4096 \<le> 2 ^ 64"
    using pa "2.prems"(2,3) b x by (auto simp: e'_def word_less_nat_alt)
  have "unat e' \<le> unat (image_end e' ss) \<and> 4096 dvd unat (image_end e' ss) \<and> unat (image_end e' ss) + 4096 \<le> 2 ^ 64 \<and>
    list_all (\<lambda>s. unat (sec_RVA s) + length (sec_Data s) \<le> unat (image_end e' ss)) ss"
    using "2.IH" "2.prems"(1) e' unfolding e'_def by simp
  moreover have "image_end e (s # ss) = image_end e' ss" by (simp add: e'_def Let_def)
  ultimately show ?case using e' pa(1) x by auto
qed simp

lemma placed_memory:
  assumes "addresses_ok 0x1000 ordered"
  shows "sorted_wrt (\<lambda>a b. unat (sec_RVA a) + length (sec_Data a) \<le> unat (sec_RVA b)) (assignSectionRVAs ordered) \<and>
    list_all (\<lambda>s. 0x1000 \<le> unat (sec_RVA s) \<and> 4096 dvd unat (sec_RVA s) \<and>
      unat (sec_RVA s) + length (sec_Data s) \<le> unat (computeImageSize (assignSectionRVAs ordered))) (assignSectionRVAs ordered) \<and>
    4096 dvd unat (computeImageSize (assignSectionRVAs ordered))"
proof -
  let ?ps = "assignSectionRVAs ordered"
  have pages: "list_all (in_pages 0x1000) ?ps"
    and sorted: "sorted_wrt (\<lambda>a b. unat (sec_RVA a) + section_span a \<le> unat (sec_RVA b)) ?ps"
    using assign_rvas_pages [OF assms] by (simp_all add: assignSectionRVAs_def)
  have e: "4096 dvd unat (image_end 0 ?ps)" "unat (image_end 0 ?ps) + 4096 \<le> 2 ^ 64"
    and lim: "list_all (\<lambda>s. unat (sec_RVA s) + length (sec_Data s) \<le> unat (image_end 0 ?ps)) ?ps"
    using image_end_bounds [OF pages, of 0] by simp_all
  note up = page_align [OF e(2), folded computeImageSize_def]
  have "sorted_wrt (\<lambda>a b. unat (sec_RVA a) + length (sec_Data a) \<le> unat (sec_RVA b)) ?ps"
    using sorted by (rule sorted_wrt_mono_rel [rotated]) (auto simp: section_span_def split: if_splits)
  moreover have "list_all (\<lambda>s. 0x1000 \<le> unat (sec_RVA s) \<and> 4096 dvd unat (sec_RVA s) \<and>
      unat (sec_RVA s) + length (sec_Data s) \<le> unat (computeImageSize ?ps)) ?ps"
    using pages lim up(1) by (auto simp: list_all_iff in_pages_def intro: le_trans)
  ultimately show ?thesis using up(3) by blast
qed



section \<open>Reading relocations\<close>

fun words16 :: "bytes \<Rightarrow> u16 list" where
  "words16 (a # b # r) = le_word [a, b] # words16 r"
| "words16 _ = []"

text \<open>A loader walks the blocks; entries of kind zero are padding.\<close>

definition block_locations :: "u32 \<Rightarrow> u16 list \<Rightarrow> (nat \<times> nat) list" where
  "block_locations page es =
     map (\<lambda>e. (unat e div 4096, unat page + unat e mod 4096)) (filter (\<lambda>e. unat e div 4096 \<noteq> 0) es)"

fun read_relocs :: "nat \<Rightarrow> bytes \<Rightarrow> (nat \<times> nat) list option" where
  "read_relocs 0 bs = (if bs = [] then Some [] else None)"
| "read_relocs (Suc n) bs =
     (if bs = [] then Some []
      else let sz = unat (get32 4 bs) in
        if sz < 8 \<or> length bs < sz then None
        else map_option (\<lambda>r. block_locations (get32 0 bs) (words16 (take (sz - 8) (drop 8 bs))) @ r)
               (read_relocs n (drop sz bs)))"

lemma words16_append: "words16 (concat (map PutUint16 es) @ r) = es @ words16 r"
proof (induction es)
  case (Cons e es)
  obtain a b where ab: "PutUint16 e = [a, b]"
    using length_PutUint(1) [of e] by (cases "PutUint16 e"; cases "tl (PutUint16 e)") auto
  have "le_word (PutUint16 e) = e" by (simp add: PutUint16_def le_word_le_bytes)
  with Cons ab show ?case by simp
qed simp

lemma length_entries: "length (concat (map PutUint16 es)) = 2 * length es"
  by (induction es) auto

lemma reloc_body_read:
  "block_locations page (words16 (reloc_body es)) = block_locations page (sort es)"
  "length (reloc_body es) \<le> 2 * length es + 2" "4 dvd 8 + length (reloc_body es)"
proof -
  define B where "B = concat (map PutUint16 (sort es))"
  have l: "length B = 2 * length es" by (simp add: B_def length_entries)
  define m where "m = (8 + 2 * length es) mod 4"
  have rb: "reloc_body es = B @ replicate (if m = 0 then 0 else 4 - m) 0"
    by (simp only: reloc_body_def Let_def B_def [symmetric] l m_def)
  have w: "words16 (B @ r) = sort es @ words16 r" for r unfolding B_def by (rule words16_append)
  have "m = 0 \<or> m = 2" unfolding m_def by presburger
  then show "block_locations page (words16 (reloc_body es)) = block_locations page (sort es)"
  proof
    assume "m = 0"
    then show ?thesis using w [of "[]"] by (simp add: rb)
  next
    assume "m = 2"
    then have "reloc_body es = B @ [0, 0]" by (simp add: rb numeral_2_eq_2)
    then show ?thesis using w [of "[0, 0]"] by (simp add: block_locations_def)
  qed
  have "4 dvd 8 + 2 * length es + (if m = 0 then 0 else 4 - m)" unfolding m_def by presburger
  then show "4 dvd 8 + length (reloc_body es)" using l by (simp add: rb add.assoc)
  show "length (reloc_body es) \<le> 2 * length es + 2" using l \<open>m = 0 \<or> m = 2\<close> by (auto simp: rb)
qed

lemma read_relocs_block:
  assumes "length es < 2 ^ 30"
  shows "read_relocs (Suc n) (reloc_block page es @ r) =
    map_option (\<lambda>rs. block_locations page (sort es) @ rs) (read_relocs n r)"
proof -
  let ?b = "reloc_body es"
  note body = reloc_body_read(1) [of page es] reloc_body_read(2) [of es]
  have p: "get32 0 (reloc_block page es @ r) = page"
    by (rule get_put) (simp add: reloc_block_def read_at_def Let_def)
  have "get32 4 (reloc_block page es @ r) = of_nat (8 + length ?b)"
    by (rule get_put) (simp add: reloc_block_def read_at_def Let_def)
  then have s: "unat (get32 4 (reloc_block page es @ r)) = 8 + length ?b"
    using unat_of_nat_u32 [of "8 + length ?b"] body(2) assms by simp
  have len: "length (reloc_block page es) = 8 + length ?b" by (simp add: reloc_block_def Let_def)
  have "take (length ?b) (drop 8 (reloc_block page es @ r)) = ?b" by (simp add: reloc_block_def Let_def)
  with p s len body(1) show ?thesis by (auto simp: Let_def)
qed

lemma reloc_entry_decodes:
  assumes "reloc_entry loc kind = (page, e)" and "unat kind < 16" and "unat loc < 2 ^ 32"
  shows "unat e div 4096 = unat kind" "unat page + unat e mod 4096 = unat loc"
proof -
  have ff: "(0xFFF :: u64) = mask 12" by (simp add: mask_eq_exp_minus_1)
  from assms(1) have page: "page = ucast (loc AND NOT (mask 12))"
    and e: "e = push_bit 12 kind OR ucast (loc AND mask 12)" by (simp_all add: reloc_entry_def ff)
  have "unat (take_bit 4 kind) = unat kind" using assms(2) by (simp add: unsigned_take_bit_eq take_bit_nat_eq_self)
  then have small: "take_bit 4 kind = kind" by (rule unsigned_word_eqI)
  have "drop_bit 12 e = take_bit 4 kind" unfolding e by (rule bit_word_eqI) (auto simp: bit_simps)
  moreover have "unat (drop_bit 12 e) = unat e div 4096"
    by (simp only: unsigned_drop_bit_eq) (simp add: drop_bit_eq_div take_bit_nat_eq_self)
  ultimately show "unat e div 4096 = unat kind" by (simp only: small)
  have "take_bit 12 e = ucast (take_bit 12 loc)" unfolding e by (rule bit_word_eqI) (auto simp: bit_simps)
  moreover have "unat (ucast (take_bit 12 loc) :: u16) = unat loc mod 4096"
    by (simp add: unsigned_ucast_eq unsigned_take_bit_eq take_bit_take_bit) (simp add: take_bit_eq_mod)
  moreover have "unat (take_bit 12 e) = unat e mod 4096" by (simp add: unsigned_take_bit_eq) (simp add: take_bit_eq_mod)
  ultimately have m: "unat e mod 4096 = unat loc mod 4096" by simp
  have c: "unat (loc AND NOT (mask 12)) = unat loc div 4096 * 4096" using unat_clear_low_bits [of loc 12] by simp
  have "unat loc div 4096 * 4096 < 2 ^ 32" using assms(3) by (meson div_times_less_eq_dividend le_less_trans)
  then have "unat page = unat loc div 4096 * 4096"
    unfolding page by (simp only: unsigned_ucast_eq c) (simp add: take_bit_nat_eq_self)
  then show "unat page + unat e mod 4096 = unat loc" unfolding m by simp
qed

definition flat :: "reloc_pages \<Rightarrow> (u32 \<times> u16) list" where
  "flat pages = concat (map (\<lambda>(page, es). map (Pair page) es) pages)"

lemma flat_sum: "mset (flat pages) = sum_mset (image_mset (\<lambda>(q, es). mset (map (Pair q) es)) (mset pages))"
  by (induction pages) (auto simp: flat_def)

lemma flat_add_entry: "mset (flat (add_entry page e pages)) = add_mset (page, e) (mset (flat pages))"
  by (induction page e pages rule: add_entry.induct) (auto simp: flat_def)

lemma add_entry_nonempty: "list_all (\<lambda>(q, es). es \<noteq> []) pages \<Longrightarrow> list_all (\<lambda>(q, es). es \<noteq> []) (add_entry page e pages)"
  by (induction page e pages rule: add_entry.induct) auto

text \<open>Where a relocation asks to be applied.\<close>

definition reloc_target :: "(string \<rightharpoonup> u64) \<Rightarrow> Reloc \<Rightarrow> u64" where
  "reloc_target symbols r = the (symbols (Symbol r)) + Offset r"

lemma collect_relocs_flat:
  assumes "list_all (\<lambda>r. symbols (Symbol r) \<noteq> None) rs" and "list_all (\<lambda>(q, es). es \<noteq> []) pages"
  shows "\<exists>pages'. collect_relocs symbols rs pages = Inr pages' \<and> list_all (\<lambda>(q, es). es \<noteq> []) pages' \<and>
    mset (flat pages') = mset (flat pages) + mset (map (\<lambda>r. reloc_entry (reloc_target symbols r) (Kind r)) rs)"
  using assms
proof (induction rs arbitrary: pages)
  case (Cons r rs)
  obtain page e where pe: "reloc_entry (reloc_target symbols r) (Kind r) = (page, e)" by (cases "reloc_entry (reloc_target symbols r) (Kind r)")
  from Cons.prems(1) obtain a where a: "symbols (Symbol r) = Some a" by auto
  have "collect_relocs symbols (r # rs) pages = collect_relocs symbols rs (add_entry page e pages)"
    using pe a by (simp add: reloc_target_def)
  with Cons.IH [of "add_entry page e pages"] Cons.prems add_entry_nonempty [OF Cons.prems(2), of page e]
  show ?case by (auto simp: flat_add_entry pe)
qed simp

lemma pages_length: "list_all (\<lambda>(q, es). es \<noteq> []) pages \<Longrightarrow> length pages \<le> length (flat pages)"
  by (induction pages) (auto simp: flat_def Suc_le_eq neq_Nil_conv)

lemma page_length: "(q, es) \<in> set pages \<Longrightarrow> length es \<le> length (flat pages)"
  by (induction pages) (auto simp: flat_def)

lemma read_relocs_blocks:
  assumes "list_all (\<lambda>(q, es). length es < 2 ^ 30) ps" and "length ps \<le> n"
  shows "read_relocs n (concat (map (\<lambda>(page, es). reloc_block page es) ps)) =
    Some (concat (map (\<lambda>(page, es). block_locations page (sort es)) ps))"
  using assms
proof (induction ps arbitrary: n)
  case Nil
  then show ?case by (cases n) auto
next
  case (Cons p ps)
  then obtain m where n: "n = Suc m" by (cases n) auto
  from Cons show ?case by (cases p) (simp add: n read_relocs_block del: read_relocs.simps)
qed

definition location_of :: "u32 \<times> u16 \<Rightarrow> nat \<times> nat" where
  "location_of = (\<lambda>(page, e). (unat e div 4096, unat page + unat e mod 4096))"

lemma block_locations_mset:
  "list_all (\<lambda>e. unat e div 4096 \<noteq> 0) es \<Longrightarrow>
   mset (block_locations page (sort es)) = image_mset location_of (mset (map (Pair page) es))"
proof -
  assume k: "list_all (\<lambda>e. unat e div 4096 \<noteq> 0) es"
  then have "filter (\<lambda>e. unat e div 4096 \<noteq> 0) (sort es) = sort es" by (simp add: list_all_iff filter_id_conv)
  then show ?thesis
    unfolding block_locations_def by (simp add: location_of_def image_mset.compositionality comp_def)
qed

lemma blocks_mset:
  assumes "list_all (\<lambda>(q, e). unat e div 4096 \<noteq> 0) (flat ps)"
  shows "mset (concat (map (\<lambda>(page, es). block_locations page (sort es)) ps)) = image_mset location_of (mset (flat ps))"
  using assms
proof (induction ps)
  case (Cons p ps)
  obtain q es where p: "p = (q, es)" by (cases p)
  have "list_all (\<lambda>e. unat e div 4096 \<noteq> 0) es" using Cons.prems by (auto simp: p flat_def list_all_iff)
  from block_locations_mset [OF this, of q] Cons show ?case by (simp add: p flat_def)
qed (simp add: flat_def)



end
