(* ===== verification/Image_File.thy ===== *)
theory Image_File
  imports Image_Link
begin

text \<open>
  From the linker (\<open>compiler/codegen/x64.go\<close>) to the image writer (\<open>compiler/pecoff/write.go\<close>): the addresses that
  the linker assigns are the ones the writer keeps, and the writer's section order is the linker's.
\<close>

section \<open>Addresses of the linker\<close>

lemma alignUpLen_eq: "alignUpLen v a = alignUp v a"
  by (simp add: alignUpLen_def alignUp_def)

lemma page_align_value:
  assumes "v + 4096 \<le> 2 ^ 64"
  shows "unat (alignUp (of_nat v) sectionAlignment) = (v + 4095) div 4096 * 4096"
proof -
  have "mask_up_ok v 4096" using assms by (auto simp: mask_up_ok_def intro: exI [of _ 12])
  from pe_align.up_eq [OF this] show ?thesis by (simp add: sectionAlignment_def)
qed

lemma page_align_shift:
  assumes "4096 * k + n + 4096 \<le> 2 ^ 64"
  shows "alignUp (of_nat (4096 * k + n)) sectionAlignment = of_nat (4096 * k) + alignUp (of_nat n) sectionAlignment"
proof (rule unsigned_word_eqI [where 'a = nat])
  let ?m = "(n + 4095) div 4096 * 4096"
  have m: "?m \<le> n + 4095" by simp
  have l: "unat (alignUp (of_nat (4096 * k + n)) sectionAlignment) = 4096 * k + ?m"
  proof -
    have "4096 * k + n + 4095 = (n + 4095) + k * 4096" by simp
    then have "(4096 * k + n + 4095) div 4096 = k + (n + 4095) div 4096" by (simp only: div_mult_self1)
    then show ?thesis unfolding page_align_value [OF assms] by (simp add: algebra_simps)
  qed
  have n: "unat (alignUp (of_nat n) sectionAlignment) = ?m" by (rule page_align_value) (use assms in simp)
  have "unat (of_nat (4096 * k) :: u64) = 4096 * k" by (rule unat_of_nat_u64) (use assms in simp)
  then have "unat (of_nat (4096 * k) + alignUp (of_nat n) sectionAlignment) = 4096 * k + ?m"
    using unat_add_u64 [of "of_nat (4096 * k)" "alignUp (of_nat n) sectionAlignment"] n m assms by simp
  with l show "unat (alignUp (of_nat (4096 * k + n)) sectionAlignment) = unat (of_nat (4096 * k) + alignUp (of_nat n) sectionAlignment)"
    by simp
qed

definition pages :: "nat \<Rightarrow> nat" where
  "pages n = (n + 4095) div 4096"

lemma pages_bounds: "n \<le> 4096 * pages n" "4096 * pages n < n + 4096"
proof -
  have "pages n * 4096 + (n + 4095) mod 4096 = n + 4095" unfolding pages_def by (rule div_mult_mod_eq)
  moreover have "(n + 4095) mod 4096 < 4096" by simp
  ultimately show "n \<le> 4096 * pages n" "4096 * pages n < n + 4096" by linarith+
qed

lemma page_align_of_nat:
  assumes "n + 4096 \<le> 2 ^ 64"
  shows "alignUp (of_nat n) sectionAlignment = of_nat (4096 * pages n)"
proof (rule unsigned_word_eqI [where 'a = nat])
  have "4096 * pages n < 2 ^ 64" using pages_bounds(2) [of n] assms by linarith
  then have "unat (of_nat (4096 * pages n) :: u64) = 4096 * pages n" by (rule unat_of_nat_u64)
  with page_align_value [OF assms] show "unat (alignUp (of_nat n) sectionAlignment) = unat (of_nat (4096 * pages n) :: u64)"
    by (simp add: pages_def mult.commute)
qed

text \<open>Sections one after the other from a page on, as the linker places them.\<close>

fun paged_from :: "nat \<Rightarrow> Section list \<Rightarrow> bool" where
  "paged_from k [] \<longleftrightarrow> True"
| "paged_from k (s # ss) \<longleftrightarrow>
     (sec_RVA s = of_nat (4096 * k) \<or> sec_RVA s = 0) \<and> (ss = [] \<or> 0 < length (sec_Data s)) \<and>
     paged_from (k + pages (length (sec_Data s))) ss"

definition page_need :: "Section list \<Rightarrow> nat" where
  "page_need ss = (\<Sum>s\<leftarrow>ss. length (sec_Data s) + 4096)"

lemma next_page:
  assumes "0 < length (sec_Data s)" and "4096 * k + length (sec_Data s) + 8192 \<le> 2 ^ 64"
  shows "alignUp (of_nat (4096 * k) + of_nat (section_span s)) sectionAlignment = of_nat (4096 * (k + pages (length (sec_Data s))))"
proof -
  let ?n = "length (sec_Data s)"
  have "alignUp (of_nat (4096 * k) + of_nat (section_span s)) sectionAlignment = alignUp (of_nat (4096 * k + ?n)) sectionAlignment"
    using assms(1) by (simp add: section_span_def)
  also have "\<dots> = of_nat (4096 * k) + alignUp (of_nat ?n) sectionAlignment"
    by (rule page_align_shift) (use assms(2) in simp)
  also have "\<dots> = of_nat (4096 * (k + pages ?n))"
    using page_align_of_nat [of ?n] assms(2) by (simp add: algebra_simps)
  finally show ?thesis .
qed

lemma paged_addresses_ok:
  assumes "paged_from k ss" and "4096 * k + page_need ss + 8192 \<le> 2 ^ 64" and "0 < k"
  shows "addresses_ok (of_nat (4096 * k)) ss"
  using assms
proof (induction k ss rule: paged_from.induct)
  case (2 k s ss)
  let ?n = "length (sec_Data s)"
  have need: "page_need (s # ss) = ?n + 4096 + page_need ss" by (simp add: page_need_def)
  have "4096 * k < 2 ^ 64" using "2.prems"(2) by simp
  then have u: "unat (of_nat (4096 * k) :: u64) = 4096 * k" by (rule unat_of_nat_u64)
  have rva: "(if sec_RVA s = 0 then of_nat (4096 * k) else sec_RVA s) = of_nat (4096 * k)" using "2.prems"(1) by auto
  have fit: "4096 * k + section_span s + 8192 \<le> 2 ^ 64" using "2.prems"(2) need by (simp add: section_span_def)
  have "addresses_ok (alignUp (of_nat (4096 * k) + of_nat (section_span s)) sectionAlignment) ss"
  proof (cases "ss = []")
    case False
    with "2.prems"(1) have n: "0 < ?n" by simp
    have "4096 * k + ?n + 8192 \<le> 2 ^ 64" using "2.prems"(2) need by linarith
    note nx = next_page [OF n this]
    have "4096 * (k + pages ?n) + page_need ss + 8192 \<le> 2 ^ 64"
      using "2.prems"(2) need pages_bounds(2) [of ?n] by (simp add: distrib_left)
    with 2 show ?thesis unfolding nx by simp
  qed simp
  with u fit show ?case by (simp only: addresses_ok.simps rva Let_def) simp
qed simp

section \<open>Sections of a linked image\<close>

text \<open>Named, flagged sections in the order of the section table.\<close>

definition image_order :: "Section list \<Rightarrow> bool" where
  "image_order ss \<longleftrightarrow> sorted (map (\<lambda>s. priority (sec_Name s)) ss) \<and> list_all (\<lambda>s. sec_Characteristics s \<noteq> 0) ss"

lemma place_sections_ordered:
  assumes "image_order ss"
  shows "place_sections ss = assignSectionRVAs ss"
proof -
  let ?key = "\<lambda>(section, index). (priority (sec_Name section), index :: nat)"
  have "sorted (map ?key (zip ss [0..<length ss]))"
    using assms by (auto simp: image_order_def sorted_iff_nth_mono less_eq_prod_def)
  then have n: "normalizeAndOrderSections ss = ss" by (simp add: normalizeAndOrderSections_def sort_key_id_if_sorted)
  have "assignSectionCharacteristics ss = ss"
    using assms unfolding assignSectionCharacteristics_def image_order_def by (induction ss) auto
  with n show ?thesis by (simp add: place_sections_def)
qed

lemma assign_rvas_kept:
  "list_all (\<lambda>s. sec_RVA s \<noteq> 0) ss \<Longrightarrow> \<exists>ts. assign_rvas nxt (ss @ rs) = ss @ ts"
  by (induction ss arbitrary: nxt) (simp_all add: Let_def)

text \<open>The data sections, by name, as they leave \<open>place_data\<close>.\<close>

lemma place_data_paged:
  assumes "place_data (of_nat (4096 * k)) syms built = (ss, syms')" and "list_all (\<lambda>(s, offs). sec_Data s \<noteq> []) built"
    and "4096 * k + (\<Sum>(s, offs)\<leftarrow>built. length (sec_Data s) + 4096) \<le> 2 ^ 63" and "0 < k"
  shows "paged_from k ss \<and> list_all (\<lambda>s. sec_RVA s \<noteq> 0 \<and> sec_Data s \<noteq> []) ss \<and> map sec_Name ss = map (sec_Name \<circ> fst) built \<and>
    map sec_Characteristics ss = map (sec_Characteristics \<circ> fst) built \<and> map sec_Data ss = map (sec_Data \<circ> fst) built \<and> dom syms \<subseteq> dom syms'"
  using assms
proof (induction built arbitrary: k syms ss)
  case (Cons b built)
  obtain s offs where b: "b = (s, offs)" by (cases b)
  let ?n = "length (sec_Data s)" and ?nx = "of_nat (4096 * k) + alignUpLen (of_nat (length (sec_Data s))) 0x1000 :: u64"
  let ?syms = "syms ++ (\<lambda>x. map_option (\<lambda>off. of_nat (4096 * k) + off) (offs x))"
  obtain rest where r: "place_data ?nx ?syms built = (rest, syms')" and ss: "ss = s\<lparr>sec_RVA := of_nat (4096 * k)\<rparr> # rest"
    using Cons.prems(1) by (auto simp: b Let_def case_prod_beta prod_eq_iff)
  have n: "0 < ?n" "?n + 4096 \<le> 2 ^ 63" using Cons.prems(2,3) by (auto simp: b)
  have nx: "?nx = of_nat (4096 * (k + pages ?n))"
    using page_align_of_nat [of ?n] n(2) by (simp add: alignUpLen_eq sectionAlignment_def distrib_left)
  have "4096 * (k + pages ?n) + (\<Sum>(s, offs)\<leftarrow>built. length (sec_Data s) + 4096) \<le> 2 ^ 63"
    using Cons.prems(3) pages_bounds(2) [of ?n] by (simp add: b distrib_left)
  with Cons.IH [OF r [unfolded nx]] Cons.prems have IH: "paged_from (k + pages ?n) rest \<and> list_all (\<lambda>s. sec_RVA s \<noteq> 0 \<and> sec_Data s \<noteq> []) rest \<and>
      map sec_Name rest = map (sec_Name \<circ> fst) built \<and> map sec_Characteristics rest = map (sec_Characteristics \<circ> fst) built \<and>
      map sec_Data rest = map (sec_Data \<circ> fst) built \<and> dom ?syms \<subseteq> dom syms'"
    by simp
  have "4096 * k < 2 ^ 64" using Cons.prems(3) by simp
  then have "unat (of_nat (4096 * k) :: u64) = 4096 * k" by (rule unat_of_nat_u64)
  then have "(of_nat (4096 * k) :: u64) \<noteq> 0" using Cons.prems(4) by (metis mult_eq_0_iff neq0_conv unat_0 zero_neq_numeral)
  moreover have "dom syms \<subseteq> dom syms'" using IH by auto
  ultimately show ?case using IH n Cons.prems(2) by (simp add: ss b)
qed auto

lemma data_sections_shape:
  "map (sec_Name \<circ> fst) (data_sections ro wr) = (if ro \<noteq> [] then [''.rdata''] else []) @ (if wr \<noteq> None then [''.data''] else [])"
  "list_all (\<lambda>c. c \<noteq> 0) (map (sec_Characteristics \<circ> fst) (data_sections ro wr))"
  by (auto simp: data_sections_def buildDataSection_def case_prod_beta split: option.splits)

lemma pages_mult: "pages (4096 * p) = p"
  by (simp add: pages_def)

lemma padded_length:
  assumes "length code + 4096 \<le> 2 ^ 63"
  shows "length (padded_text code) = 4096 * pages (length code)"
proof -
  let ?n = "length code"
  have b: "4096 * pages ?n < 2 ^ 64" "?n < 2 ^ 64" using assms pages_bounds(2) [of ?n] by simp_all
  note u = unat_of_nat_u64 [OF b(1)] unat_of_nat_u64 [OF b(2)]
  have "alignUpLen (of_nat ?n) 0x1000 = of_nat (4096 * pages ?n)"
    using page_align_of_nat [of ?n] assms by (simp add: alignUpLen_eq sectionAlignment_def)
  moreover have "unat (of_nat (4096 * pages ?n) - of_nat ?n :: u64) = 4096 * pages ?n - ?n"
  proof -
    have "(of_nat ?n :: u64) \<le> of_nat (4096 * pages ?n)" unfolding word_le_nat_alt u by (rule pages_bounds(1))
    then show ?thesis by (simp only: unat_sub u)
  qed
  ultimately show ?thesis using pages_bounds(1) [of ?n] by (simp add: padded_text_def)
qed

definition data_need :: "(Section \<times> (string \<rightharpoonup> u64)) list \<Rightarrow> nat" where
  "data_need built = (\<Sum>(s, offs)\<leftarrow>built. length (sec_Data s) + 4096)"

lemma unit_symbols_placed: "'''' \<notin> cu_Symbol ` set us \<Longrightarrow> u \<in> set us \<Longrightarrow> ts_Symbols (place_units us) (cu_Symbol u) \<noteq> None"
  by (induction us rule: rev_induct) (auto simp: place_units_snoc place_unit_def)

lemma link_sections:
  assumes l: "link units ro wr entry = Some (Inr img)" and ne: "'''' \<notin> cu_Symbol ` set units"
    and nonempty: "text_of units \<noteq> []" "list_all (\<lambda>(s, offs). sec_Data s \<noteq> []) (data_sections ro wr)"
    and fits: "length (text_of units) + data_need (data_sections ro wr) \<le> 2 ^ 62"
  obtains code datas symbols where "Sections img = text_section code # datas" "Symbols img = Some symbols" "length (Sections img) \<le> 3"
    "paged_from 1 (Sections img)" "list_all (\<lambda>s. sec_RVA s \<noteq> 0 \<and> sec_Data s \<noteq> []) (Sections img)" "image_order (Sections img)"
    "\<And>s. s \<in> set (Sections img) \<Longrightarrow> sec_Name s \<noteq> ''.reloc''"
    "\<And>s. s \<in> set (Sections img) \<Longrightarrow> priority (sec_Name s) \<le> 3" "list_all (\<lambda>r. symbols (Symbol r) \<noteq> None) (Relocs img)"
proof -
  let ?st = "place_units units" and ?built = "data_sections ro wr"
  define base where "base = (if ?built = [] then ts_Text ?st else padded_text (ts_Text ?st))"
  have tx: "ts_Text ?st = text_of units" by (rule place_units_text [OF ne])
  let ?p = "pages (length (text_of units))"
  have lt: "length (text_of units) + 4096 \<le> 2 ^ 63" using fits by simp
  have nx: "0x1000 + alignUpLen (of_nat (length (ts_Text ?st))) 0x1000 = (of_nat (4096 * (1 + ?p)) :: u64)"
    using page_align_of_nat [of "length (text_of units)"] lt by (simp add: tx alignUpLen_eq sectionAlignment_def)
  obtain datas symbols where pd: "place_data (of_nat (4096 * (1 + ?p))) (ts_Symbols ?st) ?built = (datas, symbols)"
    by (cases "place_data (of_nat (4096 * (1 + ?p))) (ts_Symbols ?st) ?built")
  from l obtain code relocs where pu: "patch_units (ts_Offsets ?st) symbols units base [] = Some (Inr (code, relocs))"
    and img: "img = \<lparr>EntrySymbol = entry, Sections = text_section code # datas, Symbols = Some symbols, Relocs = relocs\<rparr>"
    unfolding link_def Let_def base_def [symmetric] nx pd by (auto split: option.splits sum.splits)
  have "4096 * (1 + ?p) + (\<Sum>(s, offs)\<leftarrow>?built. length (sec_Data s) + 4096) \<le> 2 ^ 63"
    using fits pages_bounds(2) [of "length (text_of units)"] unfolding data_need_def by (simp add: distrib_left)
  note data = place_data_paged [OF pd nonempty(2) this]
  from patch_units_stores [OF pu] have w: "write_all (concat (map (unit_stores (ts_Offsets ?st) symbols) units)) base = Some code"
    and rel: "relocs = concat (map unit_relocs units)" by simp_all
  have cl: "length code = length base" by (rule write_all_length [OF w])
  then have "0 < length code" and pg: "?built \<noteq> [] \<Longrightarrow> pages (length code) = ?p"
    using nonempty(1) padded_length [OF lt] pages_bounds(1) [of "length (text_of units)"]
    by (auto simp: base_def tx pages_mult split: if_splits)
  moreover have "datas = [] \<longleftrightarrow> ?built = []" using data by (auto dest: map_eq_imp_length_eq)
  ultimately have "paged_from 1 (Sections img)" using data by (cases "datas = []") (auto simp: img text_section_def)
  moreover have "list_all (\<lambda>s. sec_RVA s \<noteq> 0 \<and> sec_Data s \<noteq> []) (Sections img)"
    using data \<open>0 < length code\<close> by (simp add: img text_section_def)
  moreover have names: "map sec_Name (Sections img) = ''.text'' # (if ro \<noteq> [] then [''.rdata''] else []) @ (if wr \<noteq> None then [''.data''] else [])"
    using data data_sections_shape(1) [of ro wr] by (simp add: img text_section_def)
  moreover have "length (Sections img) \<le> 3" using arg_cong [OF names, of length] by (auto split: if_splits)
  moreover have "image_order (Sections img)"
  proof -
    have "sorted (map priority (map sec_Name (Sections img)))" unfolding names by (simp add: priority_def)
    moreover have "list_all (\<lambda>c. c \<noteq> 0) (map sec_Characteristics (Sections img))"
      using data data_sections_shape(2) [of ro wr] by (simp add: img text_section_def)
    ultimately show ?thesis by (simp add: image_order_def comp_def list_all_iff)
  qed
  moreover have "sec_Name s \<noteq> ''.reloc''" "priority (sec_Name s) \<le> 3" if "s \<in> set (Sections img)" for s
  proof -
    from that have "sec_Name s \<in> set (map sec_Name (Sections img))" by simp
    then show "sec_Name s \<noteq> ''.reloc''" "priority (sec_Name s) \<le> 3" unfolding names by (auto simp: priority_def split: if_splits)
  qed
  moreover have "list_all (\<lambda>r. symbols (Symbol r) \<noteq> None) (Relocs img)"
    using unit_symbols_placed [OF ne] data by (fastforce simp: img rel unit_relocs_def list_all_iff)
  ultimately show thesis by (intro that [of code datas symbols]) (simp_all add: img)
qed

section \<open>The sections of the file\<close>

lemma unat_ucast_u32: "unat (w :: u64) < 2 ^ 32 \<Longrightarrow> unat (ucast w :: u32) = unat w"
  by (simp add: unsigned_ucast_eq take_bit_nat_eq_self)

lemma set_reloc_append:
  "(\<And>s. s \<in> set ss \<Longrightarrow> sec_Name s \<noteq> ''.reloc'') \<Longrightarrow> set_reloc d ss = ss @ set_reloc d []"
  by (induction ss) auto

lemma with_relocs_linked:
  assumes "list_all (\<lambda>r. symbols (Symbol r) \<noteq> None) (Relocs img)" and "\<And>s. s \<in> set (Sections img) \<Longrightarrow> sec_Name s \<noteq> ''.reloc''"
  shows "\<exists>extra. with_relocs img symbols = Inr (Sections img @ extra) \<and>
    (extra = [] \<or> (\<exists>d. extra = [\<lparr>sec_Name = ''.reloc'', sec_Data = d, sec_RVA = 0, sec_Characteristics = 0x42000040\<rparr>]))"
proof -
  from collect_relocs_flat [OF assms(1), of "[]"] obtain pages where "collect_relocs symbols (Relocs img) [] = Inr pages" by auto
  then obtain d where d: "buildRelocData img symbols = Inr d" by (simp add: buildRelocData_def)
  have "set_reloc d [] = [\<lparr>sec_Name = ''.reloc'', sec_Data = d, sec_RVA = 0, sec_Characteristics = 0x42000040\<rparr>]"
    by (simp add: sectionCharacteristics_def)
  with d set_reloc_append [OF assms(2), where d = d] show ?thesis by (auto simp: with_relocs_def simp del: set_reloc.simps)
qed

lemma paged_from_snoc:
  "paged_from k ss \<Longrightarrow> list_all (\<lambda>s. sec_Data s \<noteq> []) ss \<Longrightarrow> sec_RVA r = 0 \<Longrightarrow> paged_from k (ss @ [r])"
  by (induction k ss rule: paged_from.induct) auto

lemma image_order_snoc:
  "image_order ss \<Longrightarrow> (\<And>s. s \<in> set ss \<Longrightarrow> priority (sec_Name s) \<le> 3) \<Longrightarrow> sec_Name r = ''.reloc'' \<Longrightarrow> sec_Characteristics r \<noteq> 0 \<Longrightarrow>
   image_order (ss @ [r])"
proof -
  assume a: "image_order ss" "\<And>s. s \<in> set ss \<Longrightarrow> priority (sec_Name s) \<le> 3" "sec_Name r = ''.reloc''" "sec_Characteristics r \<noteq> 0"
  have "priority (sec_Name r) = 3" using a(3) by (simp add: priority_def)
  with a show ?thesis by (auto simp: image_order_def sorted_append)
qed

lemma page_need_file: "page_need ss = file_need ss + 3584 * length ss"
  by (induction ss) (simp_all add: page_need_def file_need_def)

text \<open>Placed sections end within the pages that they need.\<close>

lemma paged_limits:
  assumes "paged_from k ss" and "4096 * k + page_need ss + 8192 \<le> 2 ^ 64" and "0 < k"
  shows "list_all (\<lambda>s. unat (sec_RVA s) + length (sec_Data s) + 4096 \<le> 4096 * k + page_need ss) (assign_rvas (of_nat (4096 * k)) ss)"
  using assms
proof (induction k ss rule: paged_from.induct)
  case (2 k s ss)
  let ?n = "length (sec_Data s)"
  define s' where "s' = (if sec_RVA s = 0 then s\<lparr>sec_RVA := of_nat (4096 * k)\<rparr> else s)"
  have need: "page_need (s # ss) = ?n + 4096 + page_need ss" by (simp add: page_need_def)
  have "4096 * k < 2 ^ 64" using "2.prems"(2) by simp
  then have u: "unat (of_nat (4096 * k) :: u64) = 4096 * k" by (rule unat_of_nat_u64)
  have rva: "sec_RVA s' = of_nat (4096 * k)" "length (sec_Data s') = ?n" using "2.prems"(1) by (auto simp: s'_def)
  have here: "unat (sec_RVA s') + length (sec_Data s') + 4096 \<le> 4096 * k + page_need (s # ss)"
    unfolding rva u need by simp
  show ?case
  proof (cases "ss = []")
    case True
    have "assign_rvas (of_nat (4096 * k)) (s # ss) = [s']" by (simp only: assign_rvas.simps Let_def s'_def True)
    with here show ?thesis by (simp only: list_all_iff list.set ball_simps simp_thms)
  next
    case False
    with "2.prems"(1) have n: "0 < ?n" by simp
    have "4096 * k + ?n + 8192 \<le> 2 ^ 64" using "2.prems"(2) need by linarith
    note nx = next_page [OF n this]
    have span: "(if ?n = 0 then 1 else of_nat ?n :: u64) = of_nat (section_span s)" by (simp add: section_span_def)
    have eq: "assign_rvas (of_nat (4096 * k)) (s # ss) = s' # assign_rvas (of_nat (4096 * (k + pages ?n))) ss"
      by (simp only: assign_rvas.simps Let_def span s'_def [symmetric] rva nx)
    have step: "4096 * (k + pages ?n) + page_need ss \<le> 4096 * k + page_need (s # ss)"
      using need pages_bounds(2) [of ?n] by (simp add: distrib_left)
    then have "4096 * (k + pages ?n) + page_need ss + 8192 \<le> 2 ^ 64" using "2.prems"(2) by linarith
    with 2 have "list_all (\<lambda>s. unat (sec_RVA s) + length (sec_Data s) + 4096 \<le> 4096 * (k + pages ?n) + page_need ss)
        (assign_rvas (of_nat (4096 * (k + pages ?n))) ss)" by simp
    with here step show ?thesis unfolding eq by (auto simp: list_all_iff)
  qed
qed simp

lemma image_end_le:
  assumes "list_all (\<lambda>s. unat (sec_RVA s) + length (sec_Data s) + 4096 \<le> B) ss" and "unat e \<le> B" and "B \<le> 2 ^ 63"
  shows "unat (image_end e ss) \<le> B"
  using assms
proof (induction e ss rule: image_end.induct)
  case (2 e s ss)
  let ?x = "sec_RVA s + of_nat (length (sec_Data s))"
  have b: "unat (sec_RVA s) + length (sec_Data s) + 4096 \<le> B" using "2.prems"(1) by simp
  have "length (sec_Data s) < 2 ^ 64" using b "2.prems"(3) by simp
  then have "unat (of_nat (length (sec_Data s)) :: u64) = length (sec_Data s)" by (rule unat_of_nat_u64)
  then have x: "unat ?x = unat (sec_RVA s) + length (sec_Data s)"
    using unat_add_u64 [of "sec_RVA s" "of_nat (length (sec_Data s))"] b "2.prems"(3) by simp
  then have "unat (alignUp ?x sectionAlignment) \<le> B" using page_align(2) [of ?x] b "2.prems"(3) by simp
  with 2 show ?case by (simp add: Let_def)
qed simp

text \<open>What \<open>WriteEFI\<close> makes of the sections of a linked image: it keeps their order and their addresses.\<close>

lemma linked_sections_placed:
  assumes l: "link units ro wr entry = Some (Inr img)" and ne: "'''' \<notin> cu_Symbol ` set units"
    and nonempty: "text_of units \<noteq> []" "list_all (\<lambda>(s, offs). sec_Data s \<noteq> []) (data_sections ro wr)"
    and fits: "length (text_of units) + data_need (data_sections ro wr) \<le> 2 ^ 62"
    and syms: "Symbols img = Some symbols" and sections: "with_relocs img symbols = Inr sections"
    and small: "file_need sections < 2 ^ 28"
  shows "\<exists>extra. place_sections sections = Sections img @ extra" and "place_sections sections = assignSectionRVAs sections"
    and "paged_from 1 sections" and "length sections \<le> 4"
proof -
  obtain code datas symbols' where "Sections img = text_section code # datas" and s': "Symbols img = Some symbols'" and n: "length (Sections img) \<le> 3" and pg: "paged_from 1 (Sections img)"
    and all: "list_all (\<lambda>s. sec_RVA s \<noteq> 0 \<and> sec_Data s \<noteq> []) (Sections img)" and ord: "image_order (Sections img)"
    and nr: "\<And>s. s \<in> set (Sections img) \<Longrightarrow> sec_Name s \<noteq> ''.reloc''"
    and pri: "\<And>s. s \<in> set (Sections img) \<Longrightarrow> priority (sec_Name s) \<le> 3"
    and known: "list_all (\<lambda>r. symbols' (Symbol r) \<noteq> None) (Relocs img)"
    by (rule link_sections [OF l ne nonempty fits]) (rule that)
  from known s' syms have "list_all (\<lambda>r. symbols (Symbol r) \<noteq> None) (Relocs img)" by simp
  from with_relocs_linked [OF this nr] sections obtain extra where ex: "sections = Sections img @ extra"
    and shape: "extra = [] \<or> (\<exists>d. extra = [\<lparr>sec_Name = ''.reloc'', sec_Data = d, sec_RVA = 0, sec_Characteristics = 0x42000040\<rparr>])" by auto
  have "list_all (\<lambda>s. sec_Data s \<noteq> []) (Sections img)" using all by (simp add: list_all_iff)
  then show "paged_from 1 sections" using shape paged_from_snoc [OF pg] pg ex by auto
  show "length sections \<le> 4" using n shape ex by auto
  have "image_order sections" using shape image_order_snoc [OF ord pri] ord ex by auto
  then show eq: "place_sections sections = assignSectionRVAs sections" by (rule place_sections_ordered)
  have "list_all (\<lambda>s. sec_RVA s \<noteq> 0) (Sections img)" using all by (simp add: list_all_iff)
  from assign_rvas_kept [OF this, of _ extra] show "\<exists>extra. place_sections sections = Sections img @ extra"
    unfolding eq assignSectionRVAs_def unfolding ex .
qed

text \<open>Small images lie below four gigabytes, so that the 32-bit fields of the headers hold their addresses.\<close>

lemma paged_image_small:
  assumes pg: "paged_from 1 ss" and small: "file_need ss < 2 ^ 28"
  shows "addresses_ok 0x1000 ss" and "unat (computeImageSize (assignSectionRVAs ss)) < 2 ^ 32"
    and "list_all (\<lambda>s. unat (sec_RVA s) + length (sec_Data s) < 2 ^ 32) (assignSectionRVAs ss)"
proof -
  have "512 * length ss \<le> file_need ss" by (induction ss) (simp_all add: file_need_def)
  with small have need: "page_need ss < 2 ^ 31" by (simp add: page_need_file)
  show ok: "addresses_ok 0x1000 ss" using paged_addresses_ok [OF pg] need by simp
  have "list_all (\<lambda>s. unat (sec_RVA s) + length (sec_Data s) + 4096 \<le> 4096 * 1 + page_need ss) (assign_rvas (of_nat (4096 * 1)) ss)"
    by (rule paged_limits [OF pg]) (use need in simp_all)
  then have lim: "list_all (\<lambda>s. unat (sec_RVA s) + length (sec_Data s) + 4096 \<le> 4096 + page_need ss) (assignSectionRVAs ss)"
    by (simp add: assignSectionRVAs_def)
  then show "list_all (\<lambda>s. unat (sec_RVA s) + length (sec_Data s) < 2 ^ 32) (assignSectionRVAs ss)"
  proof (rule list.pred_mono_strong)
    fix s assume "unat (sec_RVA s) + length (sec_Data s) + 4096 \<le> 4096 + page_need ss"
    with need show "unat (sec_RVA s) + length (sec_Data s) < 2 ^ 32" by simp
  qed
  have "unat (image_end 0 (assignSectionRVAs ss)) \<le> 4096 + page_need ss" by (rule image_end_le [OF lim]) (use need in simp_all)
  then show "unat (computeImageSize (assignSectionRVAs ss)) < 2 ^ 32"
    using page_align(2) [of "image_end 0 (assignSectionRVAs ss)"] need by (simp add: computeImageSize_def)
qed

end
