(* ===== verification/Tokens.thy ===== *)
theory Tokens
  imports Main
begin

text \<open>
  Tokens, \<open>compiler/lex/token.go\<close>: the kinds, in the order of the source, the span-bearing token and the
  three tables of spellings.
\<close>

section \<open>Tokens\<close>

datatype (plugins only: code) Kind =
    EOF | Identifier | Integer | String | LParen | RParen | LBrace | RBrace | LBracket | RBracket | Colon |
    Comma | Dot | Plus | Minus | Star | Slash | Percent | Less | LessEqual | Greater | GreaterEqual |
    Equal | EqualEqual | Bang | BangEqual | Amp | Pipe | Caret | Arrow | FatArrow | ShiftLeft |
    ShiftRight | KeywordModule | KeywordUse | KeywordFrom | KeywordData | KeywordClass | KeywordUnique |
    KeywordDriver | KeywordPath | KeywordExecutor | KeywordInterrupt | KeywordReceiver | KeywordOn |
    KeywordImage | KeywordTransitions | KeywordPhase | KeywordFn | KeywordAsm | KeywordStart |
    KeywordLet | KeywordReturn | KeywordIf | KeywordElse | KeywordWhile | KeywordWith | KeywordFor |
    KeywordIn | KeywordEnum | KeywordTrait | KeywordImpl | KeywordWhere | KeywordConst |
    KeywordStaticAssert | KeywordEvent | KeywordProjection | KeywordMatch | KeywordSizeof |
    KeywordAlignof | KeywordTrue | KeywordFalse | KeywordNever | Semicolon | Newline

record Token =
  tok_Kind :: Kind
  tok_Text :: string
  tok_Start :: nat
  tok_End :: nat

definition keywordKinds :: "string \<rightharpoonup> Kind" where
  "keywordKinds = map_of
    [(''module'', KeywordModule), (''use'', KeywordUse), (''from'', KeywordFrom), (''data'', KeywordData),
     (''class'', KeywordClass), (''unique'', KeywordUnique), (''driver'', KeywordDriver),
     (''path'', KeywordPath), (''executor'', KeywordExecutor), (''interrupt'', KeywordInterrupt),
     (''receiver'', KeywordReceiver), (''on'', KeywordOn), (''image'', KeywordImage),
     (''transitions'', KeywordTransitions), (''phase'', KeywordPhase), (''fn'', KeywordFn),
     (''asm'', KeywordAsm), (''start'', KeywordStart), (''let'', KeywordLet),
     (''return'', KeywordReturn), (''if'', KeywordIf), (''else'', KeywordElse),
     (''while'', KeywordWhile), (''with'', KeywordWith), (''for'', KeywordFor), (''enum'', KeywordEnum),
     (''trait'', KeywordTrait), (''impl'', KeywordImpl), (''in'', KeywordIn), (''where'', KeywordWhere),
     (''const'', KeywordConst), (''static_assert'', KeywordStaticAssert), (''event'', KeywordEvent),
     (''projection'', KeywordProjection), (''match'', KeywordMatch), (''sizeof'', KeywordSizeof),
     (''alignof'', KeywordAlignof), (''true'', KeywordTrue), (''false'', KeywordFalse),
     (''never'', KeywordNever)]"

definition twoCharOperators :: "string \<rightharpoonup> Kind" where
  "twoCharOperators = map_of
    [(''->'', Arrow), (''=>'', FatArrow), (''=='', EqualEqual), (''!='', BangEqual), (''<='', LessEqual),
     (''>='', GreaterEqual), (''<<'', ShiftLeft), (''>>'', ShiftRight)]"

definition singleCharTokens :: "char \<rightharpoonup> Kind" where
  "singleCharTokens = map_of
    [(CHR ''('', LParen), (CHR '')'', RParen), (CHR ''{'', LBrace), (CHR ''}'', RBrace),
     (CHR ''['', LBracket), (CHR '']'', RBracket), (CHR '':'', Colon), (CHR '','', Comma),
     (CHR ''.'', Dot), (CHR ''+'', Plus), (CHR ''-'', Minus), (CHR ''*'', Star), (CHR ''/'', Slash),
     (CHR ''%'', Percent), (CHR ''<'', Less), (CHR ''>'', Greater), (CHR ''='', Equal),
     (CHR ''!'', Bang), (CHR ''&'', Amp), (CHR ''|'', Pipe), (CHR ''^'', Caret), (CHR '';'', Semicolon)]"

end
