(* ===== verification/Go_Strings.thy ===== *)
theory Go_Strings
  imports Wrela_Prelude "HOL-Library.Char_ord"
begin

text \<open>
  What the compiler uses of Go's string packages. A Go string is a sequence of bytes, as a character
  list is. \<open>DecodeRuneInString\<close> and \<open>AppendRune\<close> follow \<open>unicode/utf8\<close>: overlong forms, surrogates and
  values above 0x10FFFF are errors of width one. \<open>IsLetter\<close> and \<open>IsDigit\<close> follow \<open>unicode\<close>, with its Latin-1
  part written out; the tables for the runes above it are a parameter. The lemmas show that decoding undoes
  encoding and never reads past the string.
\<close>

type_synonym rune = nat

definition RuneError :: rune where "RuneError = 0xFFFD"

definition byte_at :: "string \<Rightarrow> nat \<Rightarrow> nat" where
  "byte_at s i = of_char (s ! i)"

definition continuation :: "nat \<Rightarrow> bool" where
  "continuation b \<longleftrightarrow> 0x80 \<le> b \<and> b \<le> 0xBF"

text \<open>The accepted second bytes after a first byte, and the length of the sequence.\<close>

definition accept_range :: "nat \<Rightarrow> nat \<times> nat" where
  "accept_range b = (if b = 0xE0 then (0xA0, 0xBF) else if b = 0xED then (0x80, 0x9F)
     else if b = 0xF0 then (0x90, 0xBF) else if b = 0xF4 then (0x80, 0x8F) else (0x80, 0xBF))"

definition sequence_length :: "nat \<Rightarrow> nat" where
  "sequence_length b = (if b < 0x80 then 1 else if 0xC2 \<le> b \<and> b \<le> 0xDF then 2
     else if 0xE0 \<le> b \<and> b \<le> 0xEF then 3 else if 0xF0 \<le> b \<and> b \<le> 0xF4 then 4 else 0)"

definition DecodeRuneInString :: "string \<Rightarrow> rune \<times> nat" where
  "DecodeRuneInString s =
     (if s = [] then (RuneError, 0)
      else let b0 = byte_at s 0; sz = sequence_length b0 in
        if sz = 1 then (b0, 1)
        else if sz = 0 \<or> length s < sz then (RuneError, 1)
        else let b1 = byte_at s 1 in
          if b1 < fst (accept_range b0) \<or> snd (accept_range b0) < b1 then (RuneError, 1)
          else if sz = 2 then (b0 mod 0x20 * 0x40 + b1 mod 0x40, 2)
          else let b2 = byte_at s 2 in
            if \<not> continuation b2 then (RuneError, 1)
            else if sz = 3 then (b0 mod 0x10 * 0x1000 + b1 mod 0x40 * 0x40 + b2 mod 0x40, 3)
            else let b3 = byte_at s 3 in
              if \<not> continuation b3 then (RuneError, 1)
              else (b0 mod 0x08 * 0x40000 + b1 mod 0x40 * 0x1000 + b2 mod 0x40 * 0x40 + b3 mod 0x40, 4))"

definition valid_rune :: "rune \<Rightarrow> bool" where
  "valid_rune r \<longleftrightarrow> r < 0xD800 \<or> 0xE000 \<le> r \<and> r \<le> 0x10FFFF"

text \<open>\<open>utf8.AppendRune\<close>, through which a \<open>strings.Builder\<close> writes a rune.\<close>

definition encode_rune :: "rune \<Rightarrow> string" where
  "encode_rune r0 = (let r = (if valid_rune r0 then r0 else RuneError) in
     map char_of
      (if r < 0x80 then [r]
       else if r < 0x800 then [0xC0 + r div 0x40, 0x80 + r mod 0x40]
       else if r < 0x10000 then [0xE0 + r div 0x1000, 0x80 + r div 0x40 mod 0x40, 0x80 + r mod 0x40]
       else [0xF0 + r div 0x40000, 0x80 + r div 0x1000 mod 0x40, 0x80 + r div 0x40 mod 0x40, 0x80 + r mod 0x40]))"

section \<open>Classes of runes\<close>

record unicode_tables =
  wide_letter :: "rune \<Rightarrow> bool"
  wide_digit :: "rune \<Rightarrow> bool"

definition IsLetter :: "unicode_tables \<Rightarrow> rune \<Rightarrow> bool" where
  "IsLetter U r \<longleftrightarrow>
     (if r \<le> 0xFF then 0x41 \<le> r \<and> r \<le> 0x5A \<or> 0x61 \<le> r \<and> r \<le> 0x7A \<or> r = 0xAA \<or> r = 0xB5 \<or> r = 0xBA \<or>
        0xC0 \<le> r \<and> r \<noteq> 0xD7 \<and> r \<noteq> 0xF7
      else wide_letter U r)"

definition IsDigit :: "unicode_tables \<Rightarrow> rune \<Rightarrow> bool" where
  "IsDigit U r \<longleftrightarrow> (if r \<le> 0xFF then 0x30 \<le> r \<and> r \<le> 0x39 else wide_digit U r)"

section \<open>Decoding\<close>

lemma of_char_less: "(of_char c :: nat) < 256"
  using mod_less_divisor [of 256 "of_char c :: nat"] by simp

lemma byte_at_less [simp]: "byte_at s i < 256"
  by (simp add: byte_at_def of_char_less)

lemma decode_width:
  assumes "s \<noteq> []"
  shows "1 \<le> snd (DecodeRuneInString s) \<and> snd (DecodeRuneInString s) \<le> length s \<and> snd (DecodeRuneInString s) \<le> 4"
proof -
  have "1 \<le> length s" using assms by (cases s) auto
  moreover have "sequence_length b = sz \<Longrightarrow> sz \<noteq> 0 \<Longrightarrow> sz \<noteq> 1 \<Longrightarrow> sz \<noteq> 2 \<Longrightarrow> sz \<noteq> 3 \<Longrightarrow> sz = 4" for b sz
    by (auto simp: sequence_length_def split: if_splits)
  ultimately show ?thesis using assms by (auto simp: DecodeRuneInString_def Let_def)
qed

lemma decode_ascii: "of_char c < (0x80 :: nat) \<Longrightarrow> DecodeRuneInString (c # s) = (of_char c, 1)"
  by (simp add: DecodeRuneInString_def sequence_length_def byte_at_def)

lemma byte_at_map: "i < length bs \<Longrightarrow> bs ! i < 256 \<Longrightarrow> byte_at (map char_of bs @ s) i = bs ! i"
  by (simp add: byte_at_def nth_append)

lemma sequence_bytes:
  "0xC2 \<le> b \<Longrightarrow> b \<le> 0xDF \<Longrightarrow> sequence_length b = 2" "0xE0 \<le> b \<Longrightarrow> b \<le> 0xEF \<Longrightarrow> sequence_length b = 3"
  "0xF0 \<le> b \<Longrightarrow> b \<le> 0xF4 \<Longrightarrow> sequence_length b = 4"
  by (simp_all add: sequence_length_def)

lemma decode_bytes_2:
  assumes "bs = [0xC0 + q, 0x80 + m]" and "2 \<le> q" and "q < 32" and "m < 64"
  shows "DecodeRuneInString (map char_of bs @ s) = (q * 0x40 + m, 2)"
proof -
  have b: "byte_at (map char_of bs @ s) 0 = 0xC0 + q" "byte_at (map char_of bs @ s) (Suc 0) = 0x80 + m"
    using assms byte_at_map [of 0 bs s] byte_at_map [of 1 bs s] by simp_all
  have "(0xC0 + q) mod 32 = q" "(0x80 + m) mod 64 = m"
    using assms mod_mult_self3 [of 6 32 q] mod_mult_self3 [of 2 64 m] by simp_all
  moreover have "sequence_length (0xC0 + q) = 2" "accept_range (0xC0 + q) = (0x80, 0xBF)"
    using assms by (simp_all add: sequence_length_def accept_range_def)
  ultimately show ?thesis using assms b by (simp add: DecodeRuneInString_def Let_def)
qed

lemma decode_bytes_3:
  assumes "bs = [0xE0 + q, 0x80 + n, 0x80 + m]" and "q < 16" and "n < 64" and "m < 64" and "q = 0 \<longrightarrow> 32 \<le> n" and "q = 13 \<longrightarrow> n < 32"
  shows "DecodeRuneInString (map char_of bs @ s) = (q * 0x1000 + n * 0x40 + m, 3)"
proof -
  have b: "byte_at (map char_of bs @ s) 0 = 0xE0 + q" "byte_at (map char_of bs @ s) (Suc 0) = 0x80 + n" "byte_at (map char_of bs @ s) 2 = 0x80 + m"
    using assms byte_at_map [of 0 bs s] byte_at_map [of 1 bs s] byte_at_map [of 2 bs s] by simp_all
  have "(0xE0 + q) mod 16 = q" "(0x80 + n) mod 64 = n" "(0x80 + m) mod 64 = m"
    using assms mod_mult_self3 [of 14 16 q] mod_mult_self3 [of 2 64 m] mod_mult_self3 [of 2 64 n] by simp_all
  moreover have "sequence_length (0xE0 + q) = 3" "continuation (0x80 + m)" using assms by (simp_all add: sequence_length_def continuation_def)
  moreover have "fst (accept_range (0xE0 + q)) \<le> 0x80 + n" "0x80 + n \<le> snd (accept_range (0xE0 + q))"
    using assms by (auto simp: accept_range_def)
  ultimately show ?thesis using assms(1) b by (simp add: DecodeRuneInString_def Let_def)
qed

lemma decode_bytes_4:
  assumes "bs = [0xF0 + q, 0x80 + l, 0x80 + n, 0x80 + m]" and "q \<le> 4" and "l < 64" and "n < 64" and "m < 64"
    and "q = 0 \<longrightarrow> 16 \<le> l" and "q = 4 \<longrightarrow> l < 16"
  shows "DecodeRuneInString (map char_of bs @ s) = (q * 0x40000 + l * 0x1000 + n * 0x40 + m, 4)"
proof -
  have b: "byte_at (map char_of bs @ s) 0 = 0xF0 + q" "byte_at (map char_of bs @ s) (Suc 0) = 0x80 + l"
    "byte_at (map char_of bs @ s) 2 = 0x80 + n" "byte_at (map char_of bs @ s) 3 = 0x80 + m"
    using assms byte_at_map [of 0 bs s] byte_at_map [of 1 bs s] byte_at_map [of 2 bs s] byte_at_map [of 3 bs s] by simp_all
  have "(0xF0 + q) mod 8 = q" "(0x80 + l) mod 64 = l" "(0x80 + n) mod 64 = n" "(0x80 + m) mod 64 = m"
    using assms mod_mult_self3 [of 30 8 q] mod_mult_self3 [of 2 64 m] mod_mult_self3 [of 2 64 n] mod_mult_self3 [of 2 64 l] by simp_all
  moreover have "sequence_length (0xF0 + q) = 4" "continuation (0x80 + m)" "continuation (0x80 + n)"
    using assms by (simp_all add: sequence_length_def continuation_def)
  moreover have "fst (accept_range (0xF0 + q)) \<le> 0x80 + l" "0x80 + l \<le> snd (accept_range (0xF0 + q))"
    using assms by (auto simp: accept_range_def)
  ultimately show ?thesis using assms(1) b by (simp add: DecodeRuneInString_def Let_def)
qed

lemma decode_encode:
  assumes "valid_rune r"
  shows "DecodeRuneInString (encode_rune r @ s) = (r, length (encode_rune r))"
proof -
  let ?m = "r mod 64" and ?n = "r div 64 mod 64" and ?l = "r div 0x1000 mod 64"
  have d1: "r = r div 64 * 64 + ?m" by simp
  have d2: "r div 64 = r div 0x1000 * 64 + ?n" using div_mult_mod_eq [of "r div 64" 64] by (simp add: div_mult2_eq [symmetric])
  have d3: "r div 0x1000 = r div 0x40000 * 64 + ?l" using div_mult_mod_eq [of "r div 0x1000" 64] by (simp add: div_mult2_eq [symmetric])
  have m: "?m < 64" "?n < 64" "?l < 64" by simp_all
  consider "r < 0x80" | "0x80 \<le> r" "r < 0x800" | "0x800 \<le> r" "r < 0x10000" | "0x10000 \<le> r" by linarith
  then show ?thesis
  proof cases
    case 1
    then show ?thesis using assms decode_ascii [of "char_of r" s] by (simp add: encode_rune_def)
  next
    case 2
    then have "2 \<le> r div 64" "r div 64 < 32" using d1 m by linarith+
    from decode_bytes_2 [OF refl this m(1), of s] 2 assms show ?thesis by (simp add: encode_rune_def)
  next
    case 3
    have "r div 0x1000 < 16" "r div 0x1000 = 0 \<longrightarrow> 32 \<le> ?n" "r div 0x1000 = 13 \<longrightarrow> ?n < 32"
      using d1 d2 m 3 assms unfolding valid_rune_def by linarith+
    moreover have "r div 0x1000 * 0x1000 + ?n * 0x40 + ?m = r" using d1 d2 by linarith
    ultimately show ?thesis using decode_bytes_3 [OF refl _ m(2,1), of "r div 0x1000" s] 3 assms by (simp add: encode_rune_def)
  next
    case 4
    have "r div 0x40000 \<le> 4" "r div 0x40000 = 0 \<longrightarrow> 16 \<le> ?l" "r div 0x40000 = 4 \<longrightarrow> ?l < 16"
      using d1 d2 d3 m 4 assms unfolding valid_rune_def by linarith+
    moreover have "r div 0x40000 * 0x40000 + ?l * 0x1000 + ?n * 0x40 + ?m = r" using d1 d2 d3 by linarith
    ultimately show ?thesis using decode_bytes_4 [OF refl _ m(3,2,1), of "r div 0x40000" s] 4 assms by (simp add: encode_rune_def)
  qed
qed

end
