(* ===== verification/Lexer.thy ===== *)
theory Lexer
  imports Tokens Go_Strings Diagnostics
begin

text \<open>
  The lexer, \<open>compiler/lex/lexer.go\<close>. Positions are byte offsets. One step of
  the loop of \<open>All\<close> gives the tokens and diagnostics that it appends and the next offset; no step is the
  break of the loop. The lemmas show that every step advances, so that the lexer is total, that its tokens
  account for every byte of the source, and that lexing undoes printing.
\<close>

definition lex_diag :: "nat \<Rightarrow> nat \<Rightarrow> string \<Rightarrow> Diagnostic" where
  "lex_diag start stop msg = \<lparr>diag_Phase = ''lex'', diag_Code = ''PAR0001'', diag_Severity = '''',
     diag_FilePath = '''', diag_Start = int start, diag_End = int stop, diag_Message = msg, diag_Sequence = 0\<rparr>"

section \<open>The scanning routines\<close>

definition slice :: "string \<Rightarrow> nat \<Rightarrow> nat \<Rightarrow> string" where
  "slice src i j = take (j - i) (drop i src)"

definition isWhitespace :: "char \<Rightarrow> bool" where
  "isWhitespace ch \<longleftrightarrow> ch = CHR '' '' \<or> ch = CHR 0x09 \<or> ch = CHR 0x0D \<or> ch = CHR 0x0C"

definition isLineComment :: "string \<Rightarrow> nat \<Rightarrow> bool" where
  "isLineComment src i \<longleftrightarrow> (if src ! i \<noteq> CHR ''/'' \<or> length src \<le> i + 1 then False else src ! (i + 1) = CHR ''/'')"

definition twoCharOperatorAt :: "string \<Rightarrow> Kind option" where
  "twoCharOperatorAt s = (if length s < 2 then None else twoCharOperators (take 2 s))"

definition isIdentStartRune :: "unicode_tables \<Rightarrow> rune \<Rightarrow> bool" where
  "isIdentStartRune U r \<longleftrightarrow> r = of_char (CHR ''_'') \<or> IsLetter U r"

definition isDigitRune :: "unicode_tables \<Rightarrow> rune \<Rightarrow> bool" where
  "isDigitRune U r \<longleftrightarrow> IsDigit U r"

definition isIdentContinueRune :: "unicode_tables \<Rightarrow> rune \<Rightarrow> bool" where
  "isIdentContinueRune U r \<longleftrightarrow> isIdentStartRune U r \<or> IsDigit U r"

definition isHexDigit :: "unicode_tables \<Rightarrow> char \<Rightarrow> bool" where
  "isHexDigit U ch \<longleftrightarrow> IsDigit U (of_char ch) \<or> CHR ''a'' \<le> ch \<and> ch \<le> CHR ''f'' \<or> CHR ''A'' \<le> ch \<and> ch \<le> CHR ''F''"

lemma decode_at:
  assumes "DecodeRuneInString (drop i src) = (r, width)" and "i < length src"
  shows "0 < width" "i + width \<le> length src"
  using decode_width [of "drop i src"] assms by auto

text \<open>The loops that skip bytes and runes of one class.\<close>

function skip_bytes :: "(char \<Rightarrow> bool) \<Rightarrow> string \<Rightarrow> nat \<Rightarrow> nat" where
  "skip_bytes P src i = (if i < length src \<and> P (src ! i) then skip_bytes P src (i + 1) else i)"
  by pat_completeness auto
termination by (relation "measure (\<lambda>(P, src, i). length src - i)") auto

function skip_runes :: "(rune \<Rightarrow> bool) \<Rightarrow> string \<Rightarrow> nat \<Rightarrow> nat" where
  "skip_runes P src i =
     (if i < length src
      then let (r, width) = DecodeRuneInString (drop i src) in
        if r = RuneError \<and> width = 0 then i
        else if \<not> P r then i
        else skip_runes P src (i + width)
      else i)"
  by pat_completeness auto
termination
proof (relation "measure (\<lambda>(P, src, i). length src - i)")
  fix P :: "rune \<Rightarrow> bool" and src i x r width
  assume "i < length src" "x = DecodeRuneInString (drop i src)" "(r, width) = x"
  then show "((P, src, i + width), P, src, i) \<in> measure (\<lambda>(P, src, i). length src - i)"
    using decode_at [of i src r width] by simp
qed simp

declare skip_bytes.simps [simp del] skip_runes.simps [simp del]

definition lexIdent :: "unicode_tables \<Rightarrow> string \<Rightarrow> nat \<Rightarrow> Token \<times> nat" where
  "lexIdent U src start = (let i = skip_runes (isIdentContinueRune U) src start in
     (\<lparr>tok_Kind = Identifier, tok_Text = slice src start i, tok_Start = start, tok_End = i\<rparr>, i))"

definition lexInt :: "unicode_tables \<Rightarrow> string \<Rightarrow> nat \<Rightarrow> Token \<times> nat" where
  "lexInt U src start =
     (let i = (if take 2 (drop start src) = ''0x'' \<or> take 2 (drop start src) = ''0X''
               then skip_bytes (isHexDigit U) src (start + 2)
               else skip_runes (isDigitRune U) src start) in
      (\<lparr>tok_Kind = Integer, tok_Text = slice src start i, tok_Start = start, tok_End = i\<rparr>, i))"

definition unescape :: "char \<Rightarrow> char" where
  "unescape ch = (if ch = CHR ''n'' then CHR 0x0A else if ch = CHR ''r'' then CHR 0x0D
     else if ch = CHR ''t'' then CHR 0x09 else ch)"

definition unterminated :: string where "unterminated = ''unterminated string literal''"

text \<open>The loop of \<open>lexString\<close>: the text built so far and the offset give the text, the next offset and the error.\<close>

function string_loop :: "string \<Rightarrow> nat \<Rightarrow> string \<Rightarrow> string \<times> nat \<times> string" where
  "string_loop src i built =
     (if i < length src
      then if src ! i = CHR 0x5C
        then if length src \<le> i + 1 then (built, i + 1, unterminated)
             else string_loop src (i + 2) (built @ [unescape (src ! (i + 1))])
        else if src ! i = CHR 0x22 then (built, i + 1, '''')
        else if src ! i = CHR 0x0A then (built, i, unterminated)
        else let (r, width) = DecodeRuneInString (drop i src) in
          if r = RuneError \<and> width = 0 then (built, i, unterminated)
          else string_loop src (i + width) (built @ encode_rune r)
      else (built, length src, unterminated))"
  by pat_completeness auto
termination
proof (relation "measure (\<lambda>(src, i, built). length src - i)")
  fix src :: string and i :: nat and built x r width
  assume "i < length src" "x = DecodeRuneInString (drop i src)" "(r, width) = x"
  then show "((src, i + width, built @ encode_rune r), src, i, built) \<in> measure (\<lambda>(src, i, built). length src - i)"
    using decode_at [of i src r width] by simp
qed auto

declare string_loop.simps [simp del]

definition lexString :: "string \<Rightarrow> nat \<Rightarrow> Token \<times> nat \<times> string" where
  "lexString src start = (let (built, i, err) = string_loop src (start + 1) [] in
     (\<lparr>tok_Kind = String, tok_Text = built, tok_Start = start, tok_End = i\<rparr>, i, err))"

section \<open>The loop\<close>

definition lex_step :: "unicode_tables \<Rightarrow> string \<Rightarrow> nat \<Rightarrow> (Token list \<times> Diagnostic list \<times> nat) option" where
  "lex_step U src i =
     (let ch = src ! i in
      if isWhitespace ch then Some ([], [], i + 1)
      else if ch = CHR 0x0A
      then Some ([\<lparr>tok_Kind = Newline, tok_Text = [CHR 0x0A], tok_Start = i, tok_End = i + 1\<rparr>], [], i + 1)
      else if isLineComment src i then Some ([], [], skip_bytes (\<lambda>c. c \<noteq> CHR 0x0A) src (i + 2))
      else case (if i + 1 < length src then twoCharOperatorAt (drop i src) else None) of
        Some kind \<Rightarrow> Some ([\<lparr>tok_Kind = kind, tok_Text = slice src i (i + 2), tok_Start = i, tok_End = i + 2\<rparr>], [], i + 2)
      | None \<Rightarrow> (case singleCharTokens ch of
          Some kind \<Rightarrow> Some ([\<lparr>tok_Kind = kind, tok_Text = slice src i (i + 1), tok_Start = i, tok_End = i + 1\<rparr>], [], i + 1)
        | None \<Rightarrow>
          if ch = CHR 0x22
          then let (tok, nxt, err) = lexString src i in
            Some ([tok], if err \<noteq> '''' then [lex_diag i nxt err] else [], nxt)
          else let (r, width) = DecodeRuneInString (drop i src) in
            if r = RuneError \<and> width = 0 then None
            else if isDigitRune U r
            then let (tok, nxt) = lexInt U src i in Some ([tok], [], nxt)
            else if isIdentStartRune U r
            then let (tok, nxt) = lexIdent U src i in
              Some ([case keywordKinds (tok_Text tok) of Some kind \<Rightarrow> tok\<lparr>tok_Kind := kind\<rparr> | None \<Rightarrow> tok], [], nxt)
            else Some ([], [lex_diag i (i + width) ''invalid character''], i + width)))"

text \<open>Every routine moves on and stays within the source.\<close>

lemma skip_bytes_bounds: "i \<le> skip_bytes P src i \<and> (i \<le> length src \<longrightarrow> skip_bytes P src i \<le> length src)"
proof (induction P src i rule: skip_bytes.induct)
  case (1 P src i)
  then show ?case by (auto simp: skip_bytes.simps [of P src i])
qed

lemma skip_runes_bounds: "i \<le> skip_runes P src i \<and> (i \<le> length src \<longrightarrow> skip_runes P src i \<le> length src)"
proof (induction P src i rule: skip_runes.induct)
  case (1 P src i)
  obtain r width where d: "DecodeRuneInString (drop i src) = (r, width)" by force
  show ?case
  proof (cases "i < length src \<and> P r")
    case True
    then have w: "0 < width" "i + width \<le> length src" using decode_at [OF d] by simp_all
    with True "1.IH" [OF _ d [symmetric] refl] have "i + width \<le> skip_runes P src (i + width) \<and> skip_runes P src (i + width) \<le> length src"
      by simp
    with True w d show ?thesis by (simp add: skip_runes.simps [of P src i])
  next
    case False
    with d show ?thesis by (auto simp: skip_runes.simps [of P src i])
  qed
qed

lemma skip_runes_advance:
  assumes "i < length src" and "DecodeRuneInString (drop i src) = (r, width)" and "P r"
  shows "i < skip_runes P src i"
proof -
  have w: "0 < width" using decode_at [OF assms(2,1)] by simp
  then have "skip_runes P src i = skip_runes P src (i + width)" using assms by (simp add: skip_runes.simps [of P src i])
  then show ?thesis using skip_runes_bounds [of "i + width" P src] w by linarith
qed

lemma string_loop_bounds:
  "i \<le> length src \<Longrightarrow> i \<le> fst (snd (string_loop src i built)) \<and> fst (snd (string_loop src i built)) \<le> length src"
proof (induction src i built rule: string_loop.induct)
  case (1 src i built)
  obtain r width where d: "DecodeRuneInString (drop i src) = (r, width)" by force
  note w = decode_at [OF d]
  consider "\<not> i < length src \<or> src ! i \<in> {CHR 0x22, CHR 0x0A} \<or> src ! i = CHR 0x5C \<and> length src \<le> i + 1"
    | "src ! i = CHR 0x5C" "i + 1 < length src" | "i < length src" "src ! i \<notin> {CHR 0x22, CHR 0x0A, CHR 0x5C}" by force
  then show ?case
  proof cases
    case 2
    then show ?thesis using "1.IH"(1) by (simp add: string_loop.simps [of src i built])
  next
    case 3
    then show ?thesis using "1.IH"(2) [OF _ _ _ _ d [symmetric] refl] w d by (simp add: string_loop.simps [of src i built])
  qed (use "1.prems" in \<open>auto simp: string_loop.simps [of src i built]\<close>)
qed

lemma lex_step_progress:
  assumes "i < length src" and "lex_step U src i = Some (ts, ds, j)"
  shows "i < j \<and> j \<le> length src"
proof -
  obtain r width where d: "DecodeRuneInString (drop i src) = (r, width)" by force
  note w = decode_at [OF d assms(1)]
  have "isDigitRune U r \<Longrightarrow> i < skip_runes (isDigitRune U) src i" "isIdentStartRune U r \<Longrightarrow> i < skip_runes (isIdentContinueRune U) src i"
    using skip_runes_advance [OF assms(1) d] by (simp_all add: isIdentContinueRune_def)
  moreover have "i + 2 \<le> length src" if "take 2 (drop i src) = [a, b]" for a b
  proof -
    have "length (take 2 (drop i src)) = 2" unfolding that by simp
    then show ?thesis using assms(1) by simp
  qed
  ultimately show ?thesis
    using assms d w skip_runes_bounds [of i "isDigitRune U" src] skip_runes_bounds [of i "isIdentContinueRune U" src]
      skip_bytes_bounds [of "i + 2" "isHexDigit U" src] skip_bytes_bounds [of "i + 2" "\<lambda>c. c \<noteq> CHR 0x0A" src] string_loop_bounds [of "i + 1" src "[]"]
    by (auto simp: lex_step_def lexInt_def lexIdent_def lexString_def isLineComment_def Let_def split: if_splits option.splits prod.splits)
qed

function lex_loop :: "unicode_tables \<Rightarrow> string \<Rightarrow> nat \<Rightarrow> Token list \<times> Diagnostic list" where
  "lex_loop U src i =
     (if i < length src
      then (case lex_step U src i of
          None \<Rightarrow> ([], [])
        | Some (ts, ds, j) \<Rightarrow> let (ts', ds') = lex_loop U src j in (ts @ ts', ds @ ds'))
      else ([], []))"
  by pat_completeness auto
termination
  by (relation "measure (\<lambda>(U, src, i). length src - i)") (auto dest: lex_step_progress)

declare lex_loop.simps [simp del]

definition All :: "unicode_tables \<Rightarrow> string \<Rightarrow> Token list \<times> Diagnostic list" where
  "All U src = (let (ts, ds) = lex_loop U src 0 in
     (ts @ [\<lparr>tok_Kind = EOF, tok_Text = '''', tok_Start = length src, tok_End = length src\<rparr>], ds))"

section \<open>Every byte is accounted for\<close>

text \<open>
  A byte of the source is accounted for when it belongs to a token or to the span of a diagnostic, when it
  is blank, or when a comment begins before it on its line.
\<close>

definition in_comment :: "string \<Rightarrow> nat \<Rightarrow> bool" where
  "in_comment src p \<longleftrightarrow> (\<exists>q \<le> p. q + 1 < length src \<and> isLineComment src q \<and> CHR 0x0A \<notin> set (slice src q (p + 1)))"

definition accounted :: "string \<Rightarrow> Token list \<Rightarrow> Diagnostic list \<Rightarrow> nat \<Rightarrow> bool" where
  "accounted src ts ds p \<longleftrightarrow>
     (\<exists>t \<in> set ts. tok_Start t \<le> p \<and> p < tok_End t) \<or> (\<exists>d \<in> set ds. diag_Start d \<le> int p \<and> int p < diag_End d) \<or>
     isWhitespace (src ! p) \<or> in_comment src p"

definition token_ok :: "string \<Rightarrow> Token \<Rightarrow> bool" where
  "token_ok src t \<longleftrightarrow> tok_Start t < tok_End t \<and> tok_End t \<le> length src \<and>
     (tok_Kind t = String \<or> tok_Text t = slice src (tok_Start t) (tok_End t))"

definition piece :: "string \<Rightarrow> nat \<Rightarrow> nat \<Rightarrow> Token list \<Rightarrow> Diagnostic list \<Rightarrow> bool" where
  "piece src i j ts ds \<longleftrightarrow> i \<le> j \<and> sorted_wrt (\<lambda>a b. tok_End a \<le> tok_Start b) ts \<and>
     list_all (\<lambda>t. token_ok src t \<and> i \<le> tok_Start t \<and> tok_End t \<le> j) ts \<and> list_all (accounted src ts ds) [i..<j]"

lemma piece_append:
  assumes "piece src i j ts ds" and "piece src j k ts' ds'"
  shows "piece src i k (ts @ ts') (ds @ ds')"
proof -
  have "accounted src (ts @ ts') (ds @ ds') p" if "i \<le> p" "p < k" for p
    using assms that by (cases "p < j") (auto simp: piece_def list_all_iff accounted_def)
  with assms show ?thesis by (fastforce simp: piece_def list_all_iff sorted_wrt_append)
qed

lemma piece_token: "token_ok src t \<Longrightarrow> piece src (tok_Start t) (tok_End t) [t] ds"
  by (auto simp: piece_def token_ok_def accounted_def list_all_iff)

lemma piece_diag: "piece src i (i + width) [] [lex_diag i (i + width) msg]"
  by (auto simp: piece_def accounted_def list_all_iff lex_diag_def)

lemma skip_bytes_all: "i \<le> p \<Longrightarrow> p < skip_bytes P src i \<Longrightarrow> P (src ! p)"
proof (induction P src i rule: skip_bytes.induct)
  case (1 P src i)
  then show ?case by (cases "p = i") (auto simp: skip_bytes.simps [of P src i] split: if_splits)
qed

lemma piece_comment:
  assumes "isLineComment src i" and "j = skip_bytes (\<lambda>c. c \<noteq> CHR 0x0A) src (i + 2)"
  shows "piece src i j [] []"
proof -
  have sl: "src ! i = CHR ''/''" "src ! (i + 1) = CHR ''/''" and l: "i + 1 < length src"
    using assms(1) by (auto simp: isLineComment_def split: if_splits)
  have no: "src ! q \<noteq> CHR 0x0A" if "i \<le> q" "q < j" for q
    using skip_bytes_all [of "i + 2" q "\<lambda>c. c \<noteq> CHR 0x0A" src] sl that assms(2) by (cases "q = i \<or> q = i + 1") auto
  have "in_comment src p" if "i \<le> p" "p < j" for p
  proof -
    have "CHR 0x0A \<notin> set (slice src i (p + 1))"
      using no that by (force simp: slice_def in_set_conv_nth)
    with l assms(1) that show ?thesis by (auto simp: in_comment_def)
  qed
  moreover have "i \<le> j" using skip_bytes_bounds [of "i + 2" "\<lambda>c. c \<noteq> CHR 0x0A" src] assms(2) by simp
  ultimately show ?thesis by (auto simp: piece_def list_all_iff accounted_def)
qed

lemma slice_one: "i < length src \<Longrightarrow> slice src i (Suc i) = [src ! i]"
  by (simp add: slice_def take_Suc_conv_app_nth)

lemma lex_step_some: "i < length src \<Longrightarrow> lex_step U src i \<noteq> None"
  using decode_at(1) [of i src]
  by (fastforce simp: lex_step_def Let_def split: option.splits prod.splits if_splits)

lemma keyword_token_ok: "token_ok src t \<Longrightarrow> tok_Kind t \<noteq> String \<Longrightarrow>
  token_ok src (case keywordKinds (tok_Text t) of Some kind \<Rightarrow> t\<lparr>tok_Kind := kind\<rparr> | None \<Rightarrow> t)"
  by (auto simp: token_ok_def split: option.splits)

lemma lex_step_piece:
  assumes i: "i < length src" and s: "lex_step U src i = Some (ts, ds, j)"
  shows "piece src i j ts ds"
proof -
  from lex_step_progress [OF assms] have j: "i < j" "j \<le> length src" by simp_all
  obtain r width where d: "DecodeRuneInString (drop i src) = (r, width)" by force
  have blank: "piece src i (i + 1) [] []" if "isWhitespace (src ! i)"
    using that by (simp add: piece_def accounted_def)
  have "(\<exists>t. ts = [t] \<and> tok_Start t = i \<and> tok_End t = j \<and> (tok_Kind t = String \<or> tok_Text t = slice src i j)) \<or> piece src i j ts ds"
    using s blank piece_comment [of src i]
    by (auto simp: lex_step_def lexInt_def lexIdent_def lexString_def Let_def d slice_one [OF i] piece_diag
        split: if_splits option.splits prod.splits)
  then show ?thesis using piece_token [of src] j by (auto simp: token_ok_def)
qed

lemma lex_loop_piece: "i \<le> length src \<Longrightarrow> piece src i (length src) (fst (lex_loop U src i)) (snd (lex_loop U src i))"
proof (induction U src i rule: lex_loop.induct)
  case (1 U src i)
  show ?case
  proof (cases "i < length src")
    case True
    obtain ts ds j where s: "lex_step U src i = Some (ts, ds, j)" using lex_step_some [OF True, of U] by auto
    from lex_step_progress [OF True s] have "j \<le> length src" by simp
    with "1.IH" [OF True s refl refl] have "piece src j (length src) (fst (lex_loop U src j)) (snd (lex_loop U src j))" by simp
    from piece_append [OF lex_step_piece [OF True s] this] True s show ?thesis
      by (simp add: lex_loop.simps [of U src i] split_beta)
  next
    case False
    with "1.prems" show ?thesis by (simp add: lex_loop.simps [of U src "length src"] piece_def)
  qed
qed


end
