(* ===== verification/Lexer_Roundtrip.thy ===== *)
theory Lexer_Roundtrip
  imports Lexer
begin

text \<open>
  Lexing undoes printing. A token of any kind but the end of the file is printed as its text, a string literal
  between quotes with the escapes that \<open>lexString\<close> understands, and tokens are separated by a blank. Texts
  of names, numbers and literals are sequences of valid runes of the class that the lexer asks for.
\<close>

section \<open>Printing\<close>

definition escape :: "char \<Rightarrow> string" where
  "escape c = (if c = CHR 0x0A then [CHR 0x5C, CHR ''n''] else if c = CHR 0x22 \<or> c = CHR 0x5C then [CHR 0x5C, c] else [c])"

definition print_text :: "Kind \<Rightarrow> string \<Rightarrow> string" where
  "print_text kind s = (if kind = String then CHR 0x22 # concat (map escape s) @ [CHR 0x22] else s)"

definition print_tokens :: "(Kind \<times> string) list \<Rightarrow> string" where
  "print_tokens ts = concat (map (\<lambda>(kind, s). print_text kind s @ '' '') ts)"

definition runes_of :: "rune list \<Rightarrow> string" where
  "runes_of rs = concat (map encode_rune rs)"

inductive printable :: "unicode_tables \<Rightarrow> Kind \<Rightarrow> string \<Rightarrow> bool" for U where
  literal: "list_all valid_rune rs \<Longrightarrow> printable U String (runes_of rs)"
| newline: "printable U Newline [CHR 0x0A]"
| name: "list_all valid_rune (r # rs) \<Longrightarrow> isIdentStartRune U r \<Longrightarrow> \<not> isDigitRune U r \<Longrightarrow> list_all (isIdentContinueRune U) rs \<Longrightarrow>
    kind = (case keywordKinds (runes_of (r # rs)) of Some k \<Rightarrow> k | None \<Rightarrow> Identifier) \<Longrightarrow> printable U kind (runes_of (r # rs))"
| decimal: "list_all valid_rune (r # rs) \<Longrightarrow> list_all (isDigitRune U) (r # rs) \<Longrightarrow> printable U Integer (runes_of (r # rs))"
| hexadecimal: "list_all (isHexDigit U) hs \<Longrightarrow> printable U Integer (''0x'' @ hs)"
| two_chars: "twoCharOperators s = Some kind \<Longrightarrow> printable U kind s"
| one_char: "singleCharTokens c = Some kind \<Longrightarrow> printable U kind [c]"

section \<open>Scanning printed text\<close>

lemma encode_ascii: "r < 0x80 \<Longrightarrow> encode_rune r = [char_of r]"
  by (simp add: encode_rune_def valid_rune_def)

lemma encode_wide:
  assumes "valid_rune r" and "0x80 \<le> r"
  shows "encode_rune r \<noteq> [] \<and> list_all (\<lambda>c. 0x80 \<le> (of_char c :: nat)) (encode_rune r)"
proof -
  have "of_char (char_of n :: char) = n" if "n < 256" for n :: nat using that by simp
  moreover have "r < 0x800 \<Longrightarrow> 0xC0 + r div 0x40 < 256" "r < 0x10000 \<Longrightarrow> 0xE0 + r div 0x1000 < 256" "0xF0 + r div 0x40000 < 256"
    using assms(1) by (auto simp: valid_rune_def less_mult_imp_div_less)
  ultimately show ?thesis using assms by (auto simp: encode_rune_def Let_def)
qed

lemma encode_nonempty: "valid_rune r \<Longrightarrow> encode_rune r \<noteq> []"
  by (simp add: encode_rune_def Let_def)

lemma skip_runes_printed:
  assumes "list_all valid_rune rs" and "list_all P rs" and "\<not> P 0x20"
  shows "skip_runes P (pre @ runes_of rs @ CHR '' '' # post) (length pre) = length pre + length (runes_of rs)"
  using assms(1,2)
proof (induction rs arbitrary: pre)
  case Nil
  have "DecodeRuneInString (CHR '' '' # post) = (0x20, 1)" using decode_ascii [of "CHR '' ''" post] by simp
  with assms(3) show ?case by (simp add: skip_runes.simps [of P _ "length pre"] runes_of_def)
next
  case (Cons r rs)
  let ?src = "pre @ runes_of (r # rs) @ CHR '' '' # post" and ?w = "length (encode_rune r)"
  have src: "?src = (pre @ encode_rune r) @ runes_of rs @ CHR '' '' # post" by (simp add: runes_of_def)
  have "DecodeRuneInString (drop (length pre) ?src) = (r, ?w)"
    using decode_encode [of r "runes_of rs @ CHR '' '' # post"] Cons.prems by (simp add: runes_of_def)
  moreover have "0 < ?w" using encode_nonempty [of r] Cons.prems by simp
  ultimately have "skip_runes P ?src (length pre) = skip_runes P ?src (length (pre @ encode_rune r))"
    using Cons.prems by (simp add: skip_runes.simps [of P ?src "length pre"])
  also have "\<dots> = length (pre @ encode_rune r) + length (runes_of rs)"
    unfolding src by (rule Cons.IH) (use Cons.prems in simp_all)
  finally show ?case by (simp add: runes_of_def)
qed

lemma skip_bytes_printed:
  assumes "list_all P bs" and "\<not> P (CHR '' '')"
  shows "skip_bytes P (pre @ bs @ CHR '' '' # post) (length pre) = length pre + length bs"
  using assms(1)
proof (induction bs arbitrary: pre)
  case Nil
  with assms(2) show ?case by (simp add: skip_bytes.simps [of P _ "length pre"])
next
  case (Cons b bs)
  then show ?case using Cons.IH [of "pre @ [b]"] by (simp add: skip_bytes.simps [of P "pre @ b # bs @ CHR '' '' # post" "length pre"])
qed

lemma escape_wide: "list_all (\<lambda>c. 0x80 \<le> (of_char c :: nat)) bs \<Longrightarrow> concat (map escape bs) = bs"
  by (induction bs) (auto simp: escape_def)

lemma special_chars: "char_of (0x0A :: nat) = CHR 0x0A" "char_of (0x22 :: nat) = CHR 0x22" "char_of (0x5C :: nat) = CHR 0x5C"
  by code_simp+

lemma char_of_eq: "(r :: nat) < 0x80 \<Longrightarrow> char_of r = c \<longleftrightarrow> r = of_char c"
  by auto

lemma string_loop_escape:
  "src ! i = CHR 0x5C \<Longrightarrow> i + 1 < length src \<Longrightarrow> string_loop src i built = string_loop src (i + 2) (built @ [unescape (src ! (i + 1))])"
  by (simp add: string_loop.simps [of src i])

lemma string_loop_rune:
  "i < length src \<Longrightarrow> src ! i \<notin> {CHR 0x5C, CHR 0x22, CHR 0x0A} \<Longrightarrow> DecodeRuneInString (drop i src) = (r, width) \<Longrightarrow>
   string_loop src i built = string_loop src (i + width) (built @ encode_rune r)"
  using decode_at(1) [of i src r width] by (simp add: string_loop.simps [of src i])

lemma string_loop_printed:
  assumes "list_all valid_rune rs"
  shows "string_loop (pre @ concat (map escape (runes_of rs)) @ CHR 0x22 # post) (length pre) built =
    (built @ runes_of rs, length pre + length (concat (map escape (runes_of rs))) + 1, '''')"
  using assms
proof (induction rs arbitrary: pre built)
  case Nil
  then show ?case by (simp add: runes_of_def string_loop.simps [of _ "length pre"])
next
  case (Cons r rs)
  define more where "more = concat (map escape (runes_of rs)) @ CHR 0x22 # post"
  let ?e = "concat (map escape (encode_rune r))"
  have src: "pre @ concat (map escape (runes_of (r # rs))) @ CHR 0x22 # post = pre @ ?e @ more" by (simp add: runes_of_def more_def)
  have IH: "string_loop ((pre @ ?e) @ more) (length (pre @ ?e)) (built @ encode_rune r) =
     ((built @ encode_rune r) @ runes_of rs, length (pre @ ?e) + length (concat (map escape (runes_of rs))) + 1, '''')"
    unfolding more_def by (rule Cons.IH) (use Cons.prems in simp)
  have "string_loop (pre @ ?e @ more) (length pre) built = string_loop ((pre @ ?e) @ more) (length (pre @ ?e)) (built @ encode_rune r)"
  proof (cases "r = 0x0A \<or> r = 0x22 \<or> r = 0x5C")
    case True
    have "\<exists>d. ?e = [CHR 0x5C, d] \<and> encode_rune r = [unescape d]"
    proof -
      have e: "encode_rune r = [char_of r]" using True by (intro encode_ascii) auto
      have "\<exists>d. escape (char_of r) = [CHR 0x5C, d] \<and> char_of r = unescape d"
        using True by (elim disjE) (simp_all only: special_chars escape_def unescape_def, simp_all)
      then show ?thesis unfolding e by simp
    qed
    then obtain d where e: "?e = [CHR 0x5C, d]" "encode_rune r = [unescape d]" by blast
    have "string_loop (pre @ [CHR 0x5C, d] @ more) (length pre) built = string_loop (pre @ [CHR 0x5C, d] @ more) (length pre + 2) (built @ [unescape d])"
      using string_loop_escape [of "pre @ [CHR 0x5C, d] @ more" "length pre" built] by (simp add: nth_append)
    then show ?thesis unfolding e(1) unfolding e(2) by simp
  next
    case False
    have v: "valid_rune r" using Cons.prems by simp
    have e: "?e = encode_rune r"
    proof (cases "r < 0x80")
      case True
      with False show ?thesis by (simp add: encode_ascii escape_def char_of_eq)
    next
      case wide: False
      with encode_wide [OF v] show ?thesis by (simp add: escape_wide)
    qed
    obtain c cs where c: "encode_rune r = c # cs" using encode_nonempty [OF v] by (cases "encode_rune r") auto
    have "c \<noteq> CHR 0x5C" "c \<noteq> CHR 0x22" "c \<noteq> CHR 0x0A"
      using c False encode_wide [OF v] by (cases "r < 0x80"; auto simp: encode_ascii char_of_eq)+
    moreover have "DecodeRuneInString (drop (length pre) (pre @ ?e @ more)) = (r, length (encode_rune r))"
      using decode_encode [OF v, of more] e by simp
    ultimately show ?thesis
      using c string_loop_rune [of "length pre" "pre @ encode_rune r @ more" r "length (encode_rune r)" built] unfolding e by (simp add: nth_append)
  qed
  with IH show ?case unfolding src by (simp add: runes_of_def)
qed

section \<open>Lexing one printed token\<close>

text \<open>First bytes that no earlier case of the loop takes.\<close>

definition plain_byte :: "char \<Rightarrow> bool" where
  "plain_byte c \<longleftrightarrow> \<not> isWhitespace c \<and> c \<noteq> CHR 0x0A \<and> c \<noteq> CHR ''/'' \<and> c \<noteq> CHR 0x22 \<and> singleCharTokens c = None"

lemma two_chars_single: "twoCharOperators (c # cs) = Some kind \<Longrightarrow> singleCharTokens c \<noteq> None"
  by (auto simp: twoCharOperators_def singleCharTokens_def split: if_splits)

lemma single_char_ascii:
  assumes "singleCharTokens c = Some kind"
  shows "(of_char c :: nat) < 0x80 \<and> \<not> (0x30 \<le> (of_char c :: nat) \<and> of_char c \<le> (0x39 :: nat)) \<and> \<not> (0x41 \<le> (of_char c :: nat) \<and> of_char c \<le> (0x5A :: nat)) \<and>
    \<not> (0x61 \<le> (of_char c :: nat) \<and> of_char c \<le> (0x7A :: nat)) \<and> of_char c \<noteq> (0x5F :: nat)"
  using assms by (auto simp: singleCharTokens_def split: if_splits)

lemma plain_wide: "0x80 \<le> (of_char c :: nat) \<Longrightarrow> plain_byte c"
  using single_char_ascii [of c] by (fastforce simp: plain_byte_def isWhitespace_def)

lemma plain_name:
  assumes "0x30 \<le> n \<and> n \<le> 0x39 \<or> 0x41 \<le> n \<and> n \<le> 0x5A \<or> 0x61 \<le> n \<and> n \<le> 0x7A \<or> n = 0x5F" and n: "(n :: nat) = of_char c"
  shows "plain_byte c"
  using assms single_char_ascii [of c] by (fastforce simp: plain_byte_def isWhitespace_def)

lemma plain_rune:
  assumes v: "valid_rune r" and r: "isIdentStartRune U r \<or> isDigitRune U r" and c: "encode_rune r = c # cs"
  shows "plain_byte c"
proof (cases "r < 0x80")
  case True
  with c have "r = of_char c" by (simp add: encode_ascii char_of_eq)
  with r True show ?thesis
    by (intro plain_name [of r]) (auto simp: isIdentStartRune_def isDigitRune_def IsLetter_def IsDigit_def)
next
  case False
  with encode_wide [OF v] c show ?thesis by (intro plain_wide) simp
qed

lemma lex_step_plain:
  assumes "i < length src" and "plain_byte (src ! i)" and d: "DecodeRuneInString (drop i src) = (r, width)"
  shows "lex_step U src i =
    (if isDigitRune U r then let (tok, nxt) = lexInt U src i in Some ([tok], [], nxt)
     else if isIdentStartRune U r then let (tok, nxt) = lexIdent U src i in
       Some ([case keywordKinds (tok_Text tok) of Some kind \<Rightarrow> tok\<lparr>tok_Kind := kind\<rparr> | None \<Rightarrow> tok], [], nxt)
     else Some ([], [lex_diag i (i + width) ''invalid character''], i + width))"
proof -
  have two: "twoCharOperatorAt (drop i src) = None"
  proof (cases "twoCharOperatorAt (drop i src)")
    case (Some kind)
    have "take 2 (drop i src) = src ! i # take 1 (drop (Suc i) src)" using assms(1) by (simp add: Cons_nth_drop_Suc [symmetric] numeral_2_eq_2)
    with Some two_chars_single [of "src ! i"] assms(2) show ?thesis by (auto simp: twoCharOperatorAt_def plain_byte_def split: if_splits)
  qed
  show ?thesis using assms two decode_at(1) [OF d assms(1)]
    by (simp add: lex_step_def plain_byte_def isLineComment_def)
qed

definition token_at :: "nat \<Rightarrow> Kind \<Rightarrow> string \<Rightarrow> Token" where
  "token_at i kind s = \<lparr>tok_Kind = kind, tok_Text = s, tok_Start = i, tok_End = i + length (print_text kind s)\<rparr>"

lemma slice_middle: "slice (pre @ s @ post) (length pre) (length pre + length s) = s"
  by (simp add: slice_def)

lemma keyword_kind: "keywordKinds s = Some k \<Longrightarrow> k \<noteq> String"
  by (auto simp: keywordKinds_def split: if_splits)

lemma name_not_blank: "\<not> isIdentContinueRune U 0x20" "\<not> isDigitRune U 0x20" "\<not> isHexDigit U (CHR '' '')"
  by (simp_all add: isIdentContinueRune_def isIdentStartRune_def isDigitRune_def isHexDigit_def IsLetter_def IsDigit_def)

lemma printed_rune_start:
  fixes pre post :: string and rs :: "rune list"
  assumes v: "valid_rune r" and r: "isIdentStartRune U r \<or> isDigitRune U r"
  defines "src \<equiv> pre @ runes_of (r # rs) @ CHR '' '' # post"
  shows "length pre < length src" "plain_byte (src ! length pre)" "DecodeRuneInString (drop (length pre) src) = (r, length (encode_rune r))"
proof -
  obtain c cs where c: "encode_rune r = c # cs" using encode_nonempty [OF v] by (cases "encode_rune r") auto
  then have "src ! length pre = c" by (simp add: src_def runes_of_def nth_append)
  with plain_rune [OF v r c] show "plain_byte (src ! length pre)" by simp
  show "DecodeRuneInString (drop (length pre) src) = (r, length (encode_rune r))"
    using decode_encode [OF v, of "runes_of rs @ CHR '' '' # post"] by (simp add: src_def runes_of_def)
qed (simp add: src_def)

abbreviation lexed :: "unicode_tables \<Rightarrow> string \<Rightarrow> Kind \<Rightarrow> string \<Rightarrow> string \<Rightarrow> bool" where
  "lexed U pre kind s post \<equiv> lex_step U (pre @ print_text kind s @ CHR '' '' # post) (length pre) =
    Some ([token_at (length pre) kind s], [], length pre + length (print_text kind s))"

lemma lexed_literal:
  assumes "list_all valid_rune rs"
  shows "lexed U pre String (runes_of rs) post"
proof -
  let ?body = "concat (map escape (runes_of rs))"
  have p: "print_text String (runes_of rs) = CHR 0x22 # ?body @ [CHR 0x22]" by (simp add: print_text_def)
  have "string_loop ((pre @ [CHR 0x22]) @ ?body @ CHR 0x22 # CHR '' '' # post) (length (pre @ [CHR 0x22])) [] =
      (runes_of rs, length (pre @ [CHR 0x22]) + length ?body + 1, '''')"
    using string_loop_printed [OF assms, of "pre @ [CHR 0x22]" "CHR '' '' # post" "[]"] by simp
  then have "lexString (pre @ print_text String (runes_of rs) @ CHR '' '' # post) (length pre) =
      (token_at (length pre) String (runes_of rs), length pre + length (print_text String (runes_of rs)), '''')"
    by (simp add: lexString_def p token_at_def)
  then show ?thesis unfolding p
    by (simp add: lex_step_def isWhitespace_def isLineComment_def twoCharOperatorAt_def twoCharOperators_def singleCharTokens_def)
qed

lemma lexed_name:
  assumes v: "list_all valid_rune (r # rs)" and r: "isIdentStartRune U r" "\<not> isDigitRune U r" and rs: "list_all (isIdentContinueRune U) rs"
    and kind: "kind = (case keywordKinds (runes_of (r # rs)) of Some k \<Rightarrow> k | None \<Rightarrow> Identifier)"
  shows "lexed U pre kind (runes_of (r # rs)) post"
proof -
  let ?src = "pre @ runes_of (r # rs) @ CHR '' '' # post"
  have "list_all (isIdentContinueRune U) (r # rs)" using r rs by (simp add: isIdentContinueRune_def)
  note skip = skip_runes_printed [OF v this name_not_blank(1), of pre post]
  have ns: "kind \<noteq> String" using kind keyword_kind by (auto split: option.splits)
  have id: "lexIdent U ?src (length pre) = (\<lparr>tok_Kind = Identifier, tok_Text = runes_of (r # rs), tok_Start = length pre,
      tok_End = length pre + length (runes_of (r # rs))\<rparr>, length pre + length (runes_of (r # rs)))"
    unfolding lexIdent_def skip Let_def by (simp add: slice_middle)
  have "valid_rune r" using v by simp
  note start = printed_rune_start [OF this, of U pre rs post]
  from lex_step_plain [OF start, of U] r kind ns show ?thesis
    unfolding id by (auto simp: print_text_def token_at_def split: option.splits)
qed

lemma digits_no_prefix:
  assumes v: "list_all valid_rune (r # rs)" and d: "list_all (isDigitRune U) (r # rs)" and x: "x = CHR ''x'' \<or> x = CHR ''X''"
  shows "take 2 (runes_of (r # rs) @ CHR '' '' # post) \<noteq> [CHR ''0'', x]"
proof (cases "r < 0x80")
  case True
  have "hd (runes_of rs @ CHR '' '' # post) \<noteq> x"
  proof (cases rs)
    case (Cons r2 rs2)
    then have v2: "valid_rune r2" and d2: "isDigitRune U r2" using v d by simp_all
    obtain c cs where c: "encode_rune r2 = c # cs" using encode_nonempty [OF v2] by (cases "encode_rune r2") auto
    have "c \<noteq> x"
    proof (cases "r2 < 0x80")
      case True
      with c have "r2 = of_char c" by (simp add: encode_ascii char_of_eq)
      with True d2 x show ?thesis by (auto simp: isDigitRune_def IsDigit_def)
    next
      case False
      with encode_wide [OF v2] c x show ?thesis by auto
    qed
    with c Cons show ?thesis by (simp add: runes_of_def)
  qed (use x in \<open>auto simp: runes_of_def\<close>)
  then show ?thesis using True by (cases "runes_of rs @ CHR '' '' # post") (auto simp: runes_of_def encode_ascii numeral_2_eq_2)
next
  case False
  have "valid_rune r" using v by simp
  from encode_wide [OF this] False show ?thesis by (cases "encode_rune r") (auto simp: runes_of_def numeral_2_eq_2)
qed

lemma lexed_decimal:
  assumes v: "list_all valid_rune (r # rs)" and d: "list_all (isDigitRune U) (r # rs)"
  shows "lexed U pre Integer (runes_of (r # rs)) post"
proof -
  let ?src = "pre @ runes_of (r # rs) @ CHR '' '' # post"
  note skip = skip_runes_printed [OF v d name_not_blank(2), of pre post]
  have "take 2 (drop (length pre) ?src) \<noteq> ''0x''" "take 2 (drop (length pre) ?src) \<noteq> ''0X''"
    using digits_no_prefix [OF v d] by simp_all
  then have id: "lexInt U ?src (length pre) = (\<lparr>tok_Kind = Integer, tok_Text = runes_of (r # rs), tok_Start = length pre,
      tok_End = length pre + length (runes_of (r # rs))\<rparr>, length pre + length (runes_of (r # rs)))"
    unfolding lexInt_def skip Let_def by (simp add: slice_middle)
  have "valid_rune r" using v by simp
  note start = printed_rune_start [OF this, of U pre rs post]
  from lex_step_plain [OF start, of U] d show ?thesis
    unfolding id by (simp add: print_text_def token_at_def)
qed

lemma lexed_hexadecimal:
  assumes "list_all (isHexDigit U) hs"
  shows "lexed U pre Integer (''0x'' @ hs) post"
proof -
  let ?s = "''0x'' @ hs" and ?src = "pre @ (''0x'' @ hs) @ CHR '' '' # post"
  have skip: "skip_bytes (isHexDigit U) ?src (length pre + 2) = length pre + length ?s"
    using skip_bytes_printed [OF assms name_not_blank(3), of "pre @ ''0x''" post] by simp
  have at: "?src ! length pre = CHR ''0''" "take 2 (drop (length pre) ?src) = ''0x''" by (simp_all add: nth_append)
  have "lexInt U ?src (length pre) = (\<lparr>tok_Kind = Integer, tok_Text = ?s, tok_Start = length pre,
      tok_End = length pre + length ?s\<rparr>, length pre + length ?s)"
    unfolding lexInt_def at skip Let_def if_True simp_thms slice_middle ..
  moreover have "plain_byte (?src ! length pre)" unfolding at by (rule plain_name [OF _ refl]) simp
  moreover have "DecodeRuneInString (drop (length pre) ?src) = (0x30, 1)" using decode_ascii [of "CHR ''0''"] by simp
  ultimately show ?thesis using lex_step_plain [of "length pre" ?src "0x30" 1 U]
    by (simp add: print_text_def token_at_def isDigitRune_def IsDigit_def)
qed

lemma lexed_two_chars:
  assumes "twoCharOperators s = Some kind"
  shows "lexed U pre kind s post"
proof -
  have "\<exists>c d. s = [c, d] \<and> \<not> isWhitespace c \<and> c \<noteq> CHR 0x0A \<and> c \<noteq> CHR ''/'' \<and> kind \<noteq> String"
    using assms by (auto simp: twoCharOperators_def isWhitespace_def split: if_splits)
  then obtain c d where "s = [c, d]" "\<not> isWhitespace c" "c \<noteq> CHR 0x0A" "c \<noteq> CHR ''/''" "kind \<noteq> String" by blast
  with assms show ?thesis
    by (simp add: lex_step_def print_text_def token_at_def isLineComment_def nth_append twoCharOperatorAt_def slice_def)
qed

lemma lexed_one_char:
  assumes "singleCharTokens c = Some kind"
  shows "lexed U pre kind [c] post"
proof -
  have "twoCharOperators [c, CHR '' ''] = None" by (simp add: twoCharOperators_def)
  moreover have "\<not> isWhitespace c" "c \<noteq> CHR 0x0A" "kind \<noteq> String"
    using assms by (auto simp: singleCharTokens_def isWhitespace_def split: if_splits)
  ultimately show ?thesis using assms
    by (simp add: lex_step_def print_text_def token_at_def isLineComment_def nth_append twoCharOperatorAt_def slice_def)
qed

lemma lex_step_printed: "printable U kind s \<Longrightarrow> lexed U pre kind s post"
proof (induction rule: printable.induct)
  case newline
  then show ?case by (simp add: lex_step_def print_text_def isWhitespace_def token_at_def)
qed (blast intro: lexed_literal lexed_name lexed_decimal lexed_hexadecimal lexed_two_chars lexed_one_char)+

section \<open>Lexing a printed sequence\<close>

abbreviation spelling :: "Token \<Rightarrow> Kind \<times> string" where
  "spelling t \<equiv> (tok_Kind t, tok_Text t)"

lemma lex_loop_blank: "src ! i = CHR '' '' \<Longrightarrow> i < length src \<Longrightarrow> lex_loop U src i = lex_loop U src (i + 1)"
  by (simp add: lex_loop.simps [of U src i] lex_step_def isWhitespace_def)

lemma lex_loop_printed:
  assumes "list_all (\<lambda>(kind, s). printable U kind s) ts"
  shows "\<exists>toks. lex_loop U (pre @ print_tokens ts) (length pre) = (toks, []) \<and> map spelling toks = ts"
  using assms
proof (induction ts arbitrary: pre)
  case Nil
  then show ?case by (simp add: print_tokens_def lex_loop.simps [of U pre])
next
  case (Cons t ts)
  obtain kind s where t: "t = (kind, s)" by force
  let ?p = "print_text kind s"
  let ?src = "pre @ ?p @ CHR '' '' # print_tokens ts"
  have src: "pre @ print_tokens (t # ts) = ?src" by (simp add: print_tokens_def t)
  obtain toks where toks: "lex_loop U ((pre @ ?p @ '' '') @ print_tokens ts) (length (pre @ ?p @ '' '')) = (toks, [])" "map spelling toks = ts"
    using Cons.IH [of "pre @ ?p @ '' ''"] Cons.prems by auto
  have step: "lexed U pre kind s (print_tokens ts)" by (rule lex_step_printed) (use Cons.prems t in simp)
  have "lex_loop U ?src (length pre + length ?p) = lex_loop U ?src (length pre + length ?p + 1)"
    by (rule lex_loop_blank) (simp_all add: nth_append)
  then have "lex_loop U ?src (length pre) = (token_at (length pre) kind s # toks, [])"
    using step toks(1) by (simp add: lex_loop.simps [of U ?src "length pre"])
  then show ?case unfolding src using toks(2) by (simp add: token_at_def t)
qed

text \<open>
  C31. Lexing undoes printing: for tokens whose texts belong to their kind (names and keywords, decimal and
  hexadecimal numbers, string literals over all valid runes, operators, newlines), the lexer reads the printed
  sequence without a diagnostic as the same kinds and texts, followed by the end of the file.
\<close>

theorem lex_print:
  assumes "list_all (\<lambda>(kind, s). printable U kind s) ts"
  shows "map spelling (fst (All U (print_tokens ts))) = ts @ [(EOF, '''')] \<and> snd (All U (print_tokens ts)) = []"
  using lex_loop_printed [OF assms, of "[]"] by (auto simp: All_def)

theorem lex_print_witness:
  "map spelling (fst (All \<lparr>wide_letter = \<lambda>_. False, wide_digit = \<lambda>_. False\<rparr>
       (print_tokens [(KeywordLet, ''let''), (Identifier, ''x1''), (Equal, ''=''), (Integer, ''0x1F''), (ShiftLeft, ''<<''), (String, [CHR 0x22])]))) =
     [(KeywordLet, ''let''), (Identifier, ''x1''), (Equal, ''=''), (Integer, ''0x1F''), (ShiftLeft, ''<<''), (String, [CHR 0x22]), (EOF, '''')]"
proof -
  let ?U = "\<lparr>wide_letter = \<lambda>_. False, wide_digit = \<lambda>_. False\<rparr> :: unicode_tables"
  have t: "runes_of [0x6C, 0x65, 0x74] = ''let''" "runes_of [0x78, 0x31] = ''x1''" "runes_of [0x22] = [CHR 0x22]"
    by (simp_all add: runes_of_def encode_ascii) code_simp+
  note cls = isIdentStartRune_def isIdentContinueRune_def isDigitRune_def IsLetter_def IsDigit_def valid_rune_def isHexDigit_def
  have "printable ?U KeywordLet ''let''"
    using printable.name [of "0x6C" "[0x65, 0x74]" ?U KeywordLet] unfolding t by (simp add: cls keywordKinds_def)
  moreover have "printable ?U Identifier ''x1''"
    using printable.name [of "0x78" "[0x31]" ?U Identifier] unfolding t by (simp add: cls keywordKinds_def)
  moreover have "printable ?U String [CHR 0x22]" using printable.literal [of "[0x22]" ?U] unfolding t by (simp add: cls)
  moreover have "printable ?U Integer ''0x1F''" using printable.hexadecimal [of ?U "''1F''"] by (simp add: cls)
  moreover have "printable ?U Equal ''=''" "printable ?U ShiftLeft ''<<''"
    by (simp_all add: printable.one_char printable.two_chars singleCharTokens_def twoCharOperators_def)
  ultimately have "list_all (\<lambda>(kind, s). printable ?U kind s)
      [(KeywordLet, ''let''), (Identifier, ''x1''), (Equal, ''=''), (Integer, ''0x1F''), (ShiftLeft, ''<<''), (String, [CHR 0x22])]" by simp
  from lex_print [OF this] show ?thesis by (simp only: append.simps)
qed

end
