(* ===== verification/Go_Text.thy ===== *)
theory Go_Text
  imports Go_Strings
begin

text \<open>
  More of Go's string and path packages: white space, splitting and searching (\<open>strings\<close>), and lexical path
  cleaning (\<open>path/filepath\<close> on Unix). Loops over runes take the rest of the string, so that each call consumes
  at least one byte.
\<close>

section \<open>White space\<close>

definition IsSpace :: "rune \<Rightarrow> bool" where
  "IsSpace r \<longleftrightarrow>
     (if r \<le> 0xFF then 0x09 \<le> r \<and> r \<le> 0x0D \<or> r = 0x20 \<or> r = 0x85 \<or> r = 0xA0
      else r = 0x1680 \<or> 0x2000 \<le> r \<and> r \<le> 0x200A \<or> r = 0x2028 \<or> r = 0x2029 \<or> r = 0x202F \<or> r = 0x205F \<or> r = 0x3000)"

lemma decode_drop_less: "s \<noteq> [] \<Longrightarrow> length (drop (snd (DecodeRuneInString s)) s) < length s"
  using decode_width [of s] by (cases s) auto

text \<open>The pieces of a string that a \<open>range\<close> loop visits: a rune and the bytes it was read from.\<close>

function rune_pieces :: "string \<Rightarrow> (rune \<times> string) list" where
  "rune_pieces s = (if s = [] then [] else
     let (r, width) = DecodeRuneInString s in (r, take width s) # rune_pieces (drop width s))"
  by pat_completeness auto
termination
proof (relation "measure length")
  fix s :: string and x r width
  assume "s \<noteq> []" "x = DecodeRuneInString s" "(r, width) = x"
  then show "(drop width s, s) \<in> measure length"
    using decode_drop_less [of s] by (metis in_measure snd_conv)
qed simp

declare rune_pieces.simps [simp del]

lemma rune_pieces_concat: "concat (map snd (rune_pieces s)) = s"
proof (induction s rule: rune_pieces.induct)
  case (1 s)
  then show ?case by (cases "DecodeRuneInString s") (auto simp: rune_pieces.simps [of s])
qed

text \<open>\<open>DecodeLastRuneInString\<close>: the last rune, looking back at most four bytes for the start of a sequence.\<close>

definition rune_start :: "char \<Rightarrow> bool" where
  "rune_start c \<longleftrightarrow> \<not> continuation (of_char c)"

definition DecodeLastRuneInString :: "string \<Rightarrow> rune \<times> nat" where
  "DecodeLastRuneInString s =
     (if s = [] then (RuneError, 0)
      else let b = of_char (last s); n = length s in
        if b < 0x80 then (b, 1)
        else let tries = filter (\<lambda>k. k \<le> n \<and> rune_start (s ! (n - k))) [2, 3, 4];
             k = (case tries of [] \<Rightarrow> (if n < 5 then n else 5) | k # _ \<Rightarrow> k);
             (r, width) = DecodeRuneInString (drop (n - k) s) in
          if width \<noteq> k then (RuneError, 1) else (r, width))"

function trim_left :: "string \<Rightarrow> string" where
  "trim_left s = (if s \<noteq> [] \<and> IsSpace (fst (DecodeRuneInString s)) then trim_left (drop (snd (DecodeRuneInString s)) s) else s)"
  by pat_completeness auto
termination by (relation "measure length") (auto simp: decode_drop_less simp del: length_drop)

lemma decode_last_width: "s \<noteq> [] \<Longrightarrow> 0 < snd (DecodeLastRuneInString s)"
  using decode_width by (auto simp: DecodeLastRuneInString_def Let_def split: prod.splits list.splits)

function trim_right :: "string \<Rightarrow> string" where
  "trim_right s = (if s \<noteq> [] \<and> IsSpace (fst (DecodeLastRuneInString s))
     then trim_right (take (length s - snd (DecodeLastRuneInString s)) s) else s)"
  by pat_completeness auto
termination
  by (relation "measure length") (use decode_last_width in \<open>auto intro: diff_less\<close>)

declare trim_left.simps [simp del] trim_right.simps [simp del]

definition TrimSpace :: "string \<Rightarrow> string" where
  "TrimSpace s = trim_right (trim_left s)"

text \<open>\<open>strings.Fields\<close>: the maximal pieces without white space.\<close>

definition field_step :: "rune \<times> string \<Rightarrow> string \<times> string list \<Rightarrow> string \<times> string list" where
  "field_step = (\<lambda>(r, bs) (cur, out). if IsSpace r then ([], if cur = [] then out else out @ [cur]) else (cur @ bs, out))"

definition Fields :: "string \<Rightarrow> string list" where
  "Fields s = (let (cur, out) = fold field_step (rune_pieces s) ([], []) in if cur = [] then out else out @ [cur])"

section \<open>Searching and splitting\<close>

fun HasPrefix :: "string \<Rightarrow> string \<Rightarrow> bool" where
  "HasPrefix s [] \<longleftrightarrow> True"
| "HasPrefix [] (p # ps) \<longleftrightarrow> False"
| "HasPrefix (c # s) (p # ps) \<longleftrightarrow> c = p \<and> HasPrefix s ps"

definition HasSuffix :: "string \<Rightarrow> string \<Rightarrow> bool" where
  "HasSuffix s p \<longleftrightarrow> HasPrefix (rev s) (rev p)"

definition TrimPrefix :: "string \<Rightarrow> string \<Rightarrow> string" where
  "TrimPrefix s p = (if HasPrefix s p then drop (length p) s else s)"

fun Index :: "string \<Rightarrow> string \<Rightarrow> nat option" where
  "Index [] sub = (if sub = [] then Some 0 else None)"
| "Index (c # s) sub = (if HasPrefix (c # s) sub then Some 0 else map_option Suc (Index s sub))"

definition Contains :: "string \<Rightarrow> string \<Rightarrow> bool" where
  "Contains s sub \<longleftrightarrow> Index s sub \<noteq> None"

text \<open>\<open>strings.Split\<close> for a separator of one byte.\<close>

fun SplitByte :: "char \<Rightarrow> string \<Rightarrow> string list" where
  "SplitByte sep [] = [[]]"
| "SplitByte sep (c # s) = (if c = sep then [] # SplitByte sep s
     else case SplitByte sep s of [] \<Rightarrow> [[c]] | p # ps \<Rightarrow> (c # p) # ps)"

fun Join :: "string \<Rightarrow> string list \<Rightarrow> string" where
  "Join sep [] = []"
| "Join sep [s] = s"
| "Join sep (s # ss) = s @ sep @ Join sep ss"

lemma HasPrefix_iff: "HasPrefix s p \<longleftrightarrow> (\<exists>t. s = p @ t)"
  by (induction s p rule: HasPrefix.induct) auto

lemma SplitByte_nonempty: "SplitByte sep s \<noteq> []"
  by (induction s) (auto split: list.splits)

lemma Join_SplitByte: "Join [sep] (SplitByte sep s) = s"
proof (induction s)
  case (Cons c s)
  obtain p ps where "SplitByte sep s = p # ps" using SplitByte_nonempty by (cases "SplitByte sep s") auto
  with Cons show ?case by (cases ps) auto
qed simp

section \<open>Paths\<close>

definition clean_step :: "bool \<Rightarrow> string \<Rightarrow> string list \<Rightarrow> string list" where
  "clean_step rooted part out =
     (if part = '''' \<or> part = ''.'' then out
      else if part = ''..''
      then if out \<noteq> [] \<and> last out \<noteq> ''..'' then butlast out else if rooted then out else out @ [part]
      else out @ [part])"

definition Clean :: "string \<Rightarrow> string" where
  "Clean path =
     (if path = '''' then ''.''
      else let rooted = (hd path = CHR ''/'');
        s = (if rooted then ''/'' else '''') @ Join ''/'' (fold (clean_step rooted) (SplitByte (CHR ''/'') path) []) in
      if s = '''' then ''.'' else s)"

text \<open>\<open>filepath.Join\<close> of two elements.\<close>

definition path_join :: "string \<Rightarrow> string \<Rightarrow> string" where
  "path_join a b =
     (if a = '''' \<and> b = '''' then ''''
      else Clean (if a = '''' then b else if b = '''' then a else a @ ''/'' @ b))"

end
