(* ===== verification/Source_Files.thy ===== *)
theory Source_Files
  imports Go_Text
begin

text \<open>
  Source files and positions, \<open>compiler/source/file.go\<close>. The line map holds the offset at which every line
  starts, and \<open>LineColumn\<close> finds the line of an offset by the binary search of \<open>sort.Search\<close>. The lemmas show that
  the search finds the first index that satisfies a monotone predicate and that lines and columns are those
  that counting newlines gives.
\<close>

record File =
  file_ID :: int
  file_Path :: string
  file_Source :: string
  file_Module :: string
  lineMap :: "nat list"

definition NewFile :: "int \<Rightarrow> string \<Rightarrow> string \<Rightarrow> File" where
  "NewFile fid filePath src = \<lparr>file_ID = fid, file_Path = filePath, file_Source = src, file_Module = '''',
     lineMap = 0 # map Suc (filter (\<lambda>i. src ! i = CHR 0x0A) [0..<length src])\<rparr>"

text \<open>\<open>sort.Search\<close> on the interval from \<open>i\<close> to \<open>j\<close>.\<close>

function search_between :: "(nat \<Rightarrow> bool) \<Rightarrow> nat \<Rightarrow> nat \<Rightarrow> nat" where
  "search_between f i j = (if i < j then let h = (i + j) div 2 in
     if \<not> f h then search_between f (h + 1) j else search_between f i h else i)"
  by pat_completeness auto
termination by (relation "measure (\<lambda>(f, i, j). j - i)") auto

declare search_between.simps [simp del]

definition Search :: "nat \<Rightarrow> (nat \<Rightarrow> bool) \<Rightarrow> nat" where
  "Search n f = search_between f 0 n"

definition LineColumn :: "File \<Rightarrow> int \<Rightarrow> int \<times> int" where
  "LineColumn f offset0 =
     (let offset1 = (if offset0 < 0 then 0 else offset0);
          offset = (if int (length (file_Source f)) < offset1 then int (length (file_Source f)) else offset1);
          line0 = int (Search (length (lineMap f)) (\<lambda>i. int (lineMap f ! i) > offset)) - 1;
          line = (if line0 < 0 then 0 else line0);
          column = offset - int (lineMap f ! nat line) + 1 in
      (line + 1, column))"

lemma search_between_first:
  assumes "i \<le> k" "k \<le> j" "\<And>n. i \<le> n \<Longrightarrow> n < k \<Longrightarrow> \<not> f n" "\<And>n. k \<le> n \<Longrightarrow> n < j \<Longrightarrow> f n"
  shows "search_between f i j = k"
  using assms
proof (induction f i j rule: search_between.induct)
  case (1 f i j)
  show ?case
  proof (cases "i < j")
    case True
    define h where "h = (i + j) div 2"
    have h: "i \<le> h" "h < j" using True by (auto simp: h_def)
    show ?thesis
    proof (cases "f h")
      case fh: True
      then have "k \<le> h" using h "1.prems"(3) [of h] by (meson leI)
      then have "search_between f i h = k" using "1.IH"(2) [OF True h_def] fh h "1.prems" by simp
      with True fh show ?thesis by (simp add: search_between.simps [of f i j] h_def)
    next
      case fh: False
      then have "h + 1 \<le> k" using h "1.prems"(4) [of h] by (cases "k \<le> h") simp_all
      then have "search_between f (h + 1) j = k" using "1.IH"(1) [OF True h_def] fh h "1.prems" by simp
      with True fh show ?thesis by (simp add: search_between.simps [of f i j] h_def)
    qed
  next
    case False
    with "1.prems"(1,2) show ?thesis by (simp add: search_between.simps [of f i j])
  qed
qed

definition line_starts :: "string \<Rightarrow> nat list" where
  "line_starts src = 0 # map Suc (filter (\<lambda>i. src ! i = CHR 0x0A) [0..<length src])"

lemma line_starts_append:
  "\<exists>later. line_starts (s @ t) = line_starts s @ later \<and> (\<forall>k \<in> set later. length s < k)"
proof -
  have "filter (\<lambda>i. (s @ t) ! i = c) [0..<length s] = filter (\<lambda>i. s ! i = c) [0..<length s]" for c
    by (rule filter_cong) (auto simp: nth_append)
  moreover have "[0..<length (s @ t)] = [0..<length s] @ [length s..<length (s @ t)]"
    using upt_add_eq_append [of 0 "length s" "length t"] by simp
  ultimately show ?thesis by (auto simp: line_starts_def)
qed

lemma line_starts_end:
  "length (line_starts s) = Suc (count_list s (CHR 0x0A)) \<and>
   last (line_starts s) + length (takeWhile (\<lambda>c. c \<noteq> CHR 0x0A) (rev s)) = length s \<and> (\<forall>k \<in> set (line_starts s). k \<le> length s)"
proof (induction s rule: rev_induct)
  case (snoc c s)
  have "filter (\<lambda>i. (s @ [c]) ! i = CHR 0x0A) [0..<length s] = filter (\<lambda>i. s ! i = CHR 0x0A) [0..<length s]"
    by (rule filter_cong) (auto simp: nth_append)
  then have "line_starts (s @ [c]) = line_starts s @ (if c = CHR 0x0A then [Suc (length s)] else [])"
    by (simp add: line_starts_def)
  with snoc show ?case by auto
qed (simp add: line_starts_def)

text \<open>
  C32. Positions are right for every offset, also outside the file, where the nearest position is meant:
  the line is one more than the number of newlines before the offset and the column one more than the
  distance to the start of that line.
\<close>

theorem LineColumn_counts:
  "LineColumn (NewFile fid path src) offset =
     (let before = take (nat offset) src in
      (int (count_list before (CHR 0x0A)) + 1, int (length (takeWhile (\<lambda>c. c \<noteq> CHR 0x0A) (rev before))) + 1))"
proof -
  define s where "s = take (nat offset) src"
  define c where "c = count_list s (CHR 0x0A)"
  obtain later where ls: "line_starts src = line_starts s @ later" and later: "\<forall>k \<in> set later. length s < k"
    using line_starts_append [of s "drop (nat offset) src"] by (auto simp: s_def)
  note e = line_starts_end [of s]
  have len: "length (line_starts s) = Suc c" using e by (simp add: c_def)
  have off: "(if int (length src) < (if offset < 0 then 0 else offset) then int (length src) else (if offset < 0 then 0 else offset)) = int (length s)"
    by (auto simp: s_def)
  have f: "file_Source (NewFile fid path src) = src" "lineMap (NewFile fid path src) = line_starts src"
    by (simp_all add: NewFile_def line_starts_def)
  have find: "Search (length (line_starts src)) (\<lambda>i. int (line_starts src ! i) > int (length s)) = Suc c"
    unfolding Search_def
  proof (rule search_between_first)
    show "\<not> int (length s) < int (line_starts src ! n)" if "0 \<le> n" "n < Suc c" for n
      using that e len by (auto simp: ls nth_append not_less)
    show "int (length s) < int (line_starts src ! n)" if "Suc c \<le> n" "n < length (line_starts src)" for n
      using that len later by (auto simp: ls nth_append)
  qed (use len ls in auto)
  have "line_starts s \<noteq> []" using len by auto
  then have "line_starts src ! c = last (line_starts s)" using len by (simp add: ls nth_append last_conv_nth)
  with e show ?thesis
    unfolding LineColumn_def Let_def f off find s_def [symmetric] c_def [symmetric] by simp
qed

end
