(* ===== verification/Source_Graph.thy ===== *)
theory Source_Graph
  imports Source_Files
begin

text \<open>
  The module loader, \<open>compiler/source/graph.go\<close>. The two header patterns are matched by hand: neither has a
  choice that a backtracking matcher could take differently. The file system is a parameter that says what
  reading a path gives. Errors end the whole load, so that the state after an error is not kept; an error
  carries what its message prints. Loading recurses once for every module that is being loaded; the fuel bounds
  this depth, and the lemmas show that one more than the number of modules is enough.
\<close>

section \<open>Headers\<close>

datatype load_error =
    InvalidModuleHeader string | InvalidImportLine string | MissingModuleDeclaration | MissingRootPath
  | CouldNotRead string | ModuleNotFound string | ImportCycle string | DuplicateModule string | ModuleMismatch string string

fun error_code :: "load_error \<Rightarrow> string" where
  "error_code (InvalidModuleHeader _) = ''SRC0002''"
| "error_code (InvalidImportLine _) = ''SRC0002''"
| "error_code MissingModuleDeclaration = ''SRC0002''"
| "error_code MissingRootPath = ''SRC0002''"
| "error_code (CouldNotRead _) = ''SRC0001''"
| "error_code (ModuleNotFound _) = ''SRC0003''"
| "error_code (ImportCycle _) = ''SRC0004''"
| "error_code (DuplicateModule _) = ''SRC0005''"
| "error_code (ModuleMismatch _ _) = ''SRC0002''"

definition re_space :: "char \<Rightarrow> bool" where
  "re_space c \<longleftrightarrow> c = CHR '' '' \<or> c = CHR 0x09 \<or> c = CHR 0x0A \<or> c = CHR 0x0C \<or> c = CHR 0x0D"

definition name_start :: "char \<Rightarrow> bool" where
  "name_start c \<longleftrightarrow> CHR ''A'' \<le> c \<and> c \<le> CHR ''Z'' \<or> CHR ''a'' \<le> c \<and> c \<le> CHR ''z'' \<or> c = CHR ''_''"

definition name_char :: "char \<Rightarrow> bool" where
  "name_char c \<longleftrightarrow> name_start c \<or> CHR ''0'' \<le> c \<and> c \<le> CHR ''9''"

text \<open>Patterns give what they captured and the rest of the line.\<close>

fun match_name :: "string \<Rightarrow> string \<Rightarrow> (string \<times> string) option" where
  "match_name seen [] = (if seen = [] then None else Some (seen, []))"
| "match_name seen (c # s) =
     (if seen = [] \<or> last seen = CHR ''.''
      then if name_start c then match_name (seen @ [c]) s
           else if seen = [] then None else Some (butlast seen, CHR ''.'' # c # s)
      else if name_char c then match_name (seen @ [c]) s
      else if c = CHR ''.'' then match_name (seen @ [c]) s
      else Some (seen, c # s))"

definition match_word :: "string \<Rightarrow> string \<Rightarrow> string option" where
  "match_word w s = (if HasPrefix s w then Some (drop (length w) s) else None)"

definition match_spaces :: "string \<Rightarrow> string option" where
  "match_spaces s = (case s of c # _ \<Rightarrow> if re_space c then Some (dropWhile re_space s) else None | [] \<Rightarrow> None)"

definition match_last_name :: "string \<Rightarrow> string option" where
  "match_last_name s = (case match_name [] s of
     Some (name, rest) \<Rightarrow> if list_all re_space rest \<and> last name \<noteq> CHR ''.'' then Some name else None
   | None \<Rightarrow> None)"

definition modulePattern :: "string \<Rightarrow> string option" where
  "modulePattern line =
     Option.bind (Option.bind (match_word ''module'' line) match_spaces) match_last_name"

definition importPattern :: "string \<Rightarrow> string option" where
  "importPattern line =
     (case Option.bind (Option.bind (match_word ''use'' line) match_spaces) (match_word ''{'') of
        None \<Rightarrow> None
      | Some s \<Rightarrow>
          Option.bind (Option.bind (Option.bind (Option.bind (match_word ''}'' (dropWhile (\<lambda>c. c \<noteq> CHR ''}'') s)) match_spaces)
            (match_word ''from'')) match_spaces) match_last_name)"

definition stripInlineComment :: "string \<Rightarrow> string" where
  "stripInlineComment raw = (case Index raw ''//'' of Some idx \<Rightarrow> take idx raw | None \<Rightarrow> raw)"

fun join_import :: "string \<Rightarrow> string list \<Rightarrow> load_error + string \<times> string list" where
  "join_import line rest =
     (if Contains line '' from '' \<or> Contains line ''} from'' then Inr (line, rest)
      else case rest of
        [] \<Rightarrow> Inl (InvalidImportLine line)
      | l # ls \<Rightarrow> let nxt = TrimSpace (stripInlineComment l) in
          if nxt = '''' then join_import line ls else join_import (line @ '' '' @ nxt) ls)"

declare join_import.simps [simp del]

lemma join_import_length: "join_import line rest = Inr (line', rest') \<Longrightarrow> length rest' \<le> length rest"
proof (induction line rest rule: join_import.induct)
  case (1 line rest)
  then show ?case by (fastforce simp: join_import.simps [of line rest] Let_def split: if_splits list.splits)
qed

function header_loop :: "string option \<Rightarrow> string list \<Rightarrow> string list \<Rightarrow> load_error + string \<times> string list" where
  "header_loop modname imps [] = (case modname of None \<Rightarrow> Inl MissingModuleDeclaration | Some m \<Rightarrow> Inr (m, imps))"
| "header_loop modname imps (raw # rest) =
     (let line = TrimSpace (stripInlineComment raw) in
      if line = '''' then header_loop modname imps rest
      else case modname of
        None \<Rightarrow> (case modulePattern line of
            None \<Rightarrow> Inl (InvalidModuleHeader line)
          | Some m \<Rightarrow> header_loop (Some m) imps rest)
      | Some m \<Rightarrow>
          if HasPrefix line ''use ''
          then case join_import line rest of
              Inl e \<Rightarrow> Inl e
            | Inr (line1, rest1) \<Rightarrow>
                let line2 = Join '' '' (Fields line1) in
                case importPattern line2 of
                  None \<Rightarrow> Inl (InvalidImportLine line2)
                | Some i \<Rightarrow> header_loop modname (imps @ [i]) rest1
          else Inr (m, imps))"
  by pat_completeness auto
termination
  by (relation "measure (\<lambda>(modname, imps, rest). length rest)") (auto dest: join_import_length)

definition ExtractHeader :: "string \<Rightarrow> load_error + string \<times> string list" where
  "ExtractHeader src = header_loop None [] (SplitByte (CHR 0x0A) src)"

section \<open>Loading\<close>

datatype read_result = Read string | Not_Exist | Read_Error

record moduleLoadState =
  graph_Files :: "File list"
  loaded_files :: "string \<rightharpoonup> File"
  inProgress :: "string \<Rightarrow> bool"
  nextFileID :: int

fun resolve_in :: "(string \<Rightarrow> read_result) \<Rightarrow> string \<Rightarrow> string list \<Rightarrow> load_error + string option" where
  "resolve_in readFile rel [] = Inr None"
| "resolve_in readFile rel (root # roots) =
     (let candidate = path_join root rel in
      case readFile candidate of
        Read _ \<Rightarrow> Inr (Some candidate)
      | Not_Exist \<Rightarrow> resolve_in readFile rel roots
      | Read_Error \<Rightarrow> Inl (CouldNotRead candidate))"

definition resolveModulePath :: "(string \<Rightarrow> read_result) \<Rightarrow> string list \<Rightarrow> string \<Rightarrow> load_error + string option" where
  "resolveModulePath readFile roots modname =
     resolve_in readFile (map (\<lambda>c. if c = CHR ''.'' then CHR ''/'' else c) modname @ ''.wrela'') roots"

fun load_imports ::
  "(moduleLoadState \<Rightarrow> string \<Rightarrow> string \<Rightarrow> (load_error + moduleLoadState) option) \<Rightarrow> (string \<Rightarrow> load_error + string option) \<Rightarrow>
   string list \<Rightarrow> moduleLoadState \<Rightarrow> (load_error + moduleLoadState) option" where
  "load_imports load resolve [] s = Some (Inr s)"
| "load_imports load resolve (imported # imps) s =
     (case resolve imported of
        Inl e \<Rightarrow> Some (Inl e)
      | Inr None \<Rightarrow> Some (Inl (ModuleNotFound imported))
      | Inr (Some nextPath) \<Rightarrow>
          (case load s imported nextPath of
             None \<Rightarrow> None
           | Some (Inl e) \<Rightarrow> Some (Inl e)
           | Some (Inr s') \<Rightarrow> load_imports load resolve imps s'))"

definition add_file :: "moduleLoadState \<Rightarrow> string \<Rightarrow> string \<Rightarrow> string \<Rightarrow> moduleLoadState" where
  "add_file s modname path src = (let f = (NewFile (nextFileID s) path src)\<lparr>file_Module := modname\<rparr> in
     s\<lparr>nextFileID := nextFileID s + 1, graph_Files := graph_Files s @ [f], loaded_files := (loaded_files s)(modname \<mapsto> f)\<rparr>)"

primrec loadModule ::
  "nat \<Rightarrow> (string \<Rightarrow> read_result) \<Rightarrow> string list \<Rightarrow> moduleLoadState \<Rightarrow> string \<Rightarrow> string \<Rightarrow> (load_error + moduleLoadState) option" where
  "loadModule 0 = (\<lambda>readFile roots s moduleName path. None)"
| "loadModule (Suc fuel) = (\<lambda>readFile roots s moduleName path.
     if inProgress s moduleName then Some (Inl (ImportCycle moduleName))
     else case loaded_files s moduleName of
       Some existing \<Rightarrow>
         if Clean (file_Path existing) = Clean path then Some (Inr s)
         else Some (Inl (DuplicateModule (file_Module existing)))
     | None \<Rightarrow>
         let s1 = s\<lparr>inProgress := (inProgress s)(moduleName := True)\<rparr> in
         case readFile path of
           Read src \<Rightarrow>
             (case ExtractHeader src of
                Inl e \<Rightarrow> Some (Inl e)
              | Inr (actualModule, imps) \<Rightarrow>
                  if (case loaded_files s1 actualModule of
                        Some existing \<Rightarrow> Clean (file_Path existing) \<noteq> Clean path | None \<Rightarrow> False)
                  then Some (Inl (DuplicateModule actualModule))
                  else if actualModule \<noteq> moduleName then Some (Inl (ModuleMismatch actualModule moduleName))
                  else (case load_imports (loadModule fuel readFile roots) (resolveModulePath readFile roots) imps
                              (add_file s1 actualModule path src) of
                      None \<Rightarrow> None
                    | Some (Inl e) \<Rightarrow> Some (Inl e)
                    | Some (Inr s2) \<Rightarrow> Some (Inr (s2\<lparr>inProgress := (inProgress s2)(moduleName := False)\<rparr>))))
         | _ \<Rightarrow> Some (Inl (CouldNotRead path)))"

definition LoadGraph :: "nat \<Rightarrow> (string \<Rightarrow> read_result) \<Rightarrow> string \<Rightarrow> string list \<Rightarrow> (load_error + File list) option" where
  "LoadGraph fuel readFile rootPath0 roots =
     (if rootPath0 = '''' then Some (Inl MissingRootPath)
      else let rootPath = Clean rootPath0 in
        case readFile rootPath of
          Read rootSource \<Rightarrow>
            (case ExtractHeader rootSource of
               Inl e \<Rightarrow> Some (Inl e)
             | Inr (rootModule, _) \<Rightarrow>
                 (case loadModule fuel readFile roots
                         \<lparr>graph_Files = [], loaded_files = Map.empty, inProgress = (\<lambda>_. False), nextFileID = 1\<rparr> rootModule rootPath of
                    None \<Rightarrow> None
                  | Some (Inl e) \<Rightarrow> Some (Inl e)
                  | Some (Inr s) \<Rightarrow> Some (Inr (graph_Files s))))
        | _ \<Rightarrow> Some (Inl (CouldNotRead rootPath)))"

section \<open>Build orders\<close>

definition imports_of :: "File \<Rightarrow> string list" where
  "imports_of f = (case ExtractHeader (file_Source f) of Inr (m, imps) \<Rightarrow> imps | Inl e \<Rightarrow> [])"

definition deps :: "(string \<rightharpoonup> File) \<Rightarrow> string \<Rightarrow> string list" where
  "deps files m = (case files m of Some f \<Rightarrow> imports_of f | None \<Rightarrow> [])"

definition edges :: "(string \<rightharpoonup> File) \<Rightarrow> (string \<times> string) set" where
  "edges files = {(a, b). b \<in> set (deps files a)}"

text \<open>An order in which every module comes after the modules that it imports.\<close>

definition build_order :: "(string \<Rightarrow> string list) \<Rightarrow> string list \<Rightarrow> bool" where
  "build_order f ms \<longleftrightarrow> distinct ms \<and> (\<forall>i < length ms. set (f (ms ! i)) \<subseteq> set (take i ms))"

lemma build_order_snoc: "build_order f (ms @ [m]) \<longleftrightarrow> build_order f ms \<and> m \<notin> set ms \<and> set (f m) \<subseteq> set ms"
proof -
  have "(\<forall>i < length (ms @ [m]). set (f ((ms @ [m]) ! i)) \<subseteq> set (take i (ms @ [m]))) \<longleftrightarrow>
      (\<forall>i < length ms. set (f (ms ! i)) \<subseteq> set (take i ms)) \<and> set (f m) \<subseteq> set ms"
    by (auto simp: nth_append less_Suc_eq all_conj_distrib imp_conjL)
  then show ?thesis by (auto simp: build_order_def)
qed

lemma build_order_cong: "(\<And>m. m \<in> set ms \<Longrightarrow> f m = g m) \<Longrightarrow> build_order f ms \<Longrightarrow> build_order g ms"
  by (simp add: build_order_def)

lemma deps_mono: "old \<subseteq>\<^sub>m new \<Longrightarrow> old m \<noteq> None \<Longrightarrow> deps new m = deps old m"
  by (auto simp: deps_def map_le_def dom_def)

lemma edges_mono: "old \<subseteq>\<^sub>m new \<Longrightarrow> edges old \<subseteq> edges new"
  by (auto simp: edges_def deps_def map_le_def dom_def split: option.splits) force

section \<open>The invariant of the loader\<close>

definition file_ok :: "(string \<Rightarrow> read_result) \<Rightarrow> File \<Rightarrow> bool" where
  "file_ok readFile f \<longleftrightarrow> readFile (file_Path f) = Read (file_Source f) \<and> ExtractHeader (file_Source f) = Inr (file_Module f, imports_of f)"

definition located :: "(string \<Rightarrow> load_error + string option) \<Rightarrow> (string \<rightharpoonup> File) \<Rightarrow> string \<Rightarrow> bool" where
  "located resolve files m \<longleftrightarrow>
     (\<exists>g p. files m = Some g \<and> resolve m = Inr (Some p) \<and> Clean (file_Path g) = Clean p)"

definition files_inv :: "(string \<Rightarrow> read_result) \<Rightarrow> File list \<Rightarrow> (string \<rightharpoonup> File) \<Rightarrow> int \<Rightarrow> bool" where
  "files_inv readFile files loaded fid \<longleftrightarrow>
     (\<forall>m f. loaded m = Some f \<longleftrightarrow> f \<in> set files \<and> file_Module f = m) \<and>
     distinct (map file_Module files) \<and> list_all (file_ok readFile) files \<and>
     map file_ID files = map int [1..<Suc (length files)] \<and> fid = int (Suc (length files))"

definition load_inv :: "(string \<Rightarrow> read_result) \<Rightarrow> (string \<Rightarrow> load_error + string option) \<Rightarrow> moduleLoadState \<Rightarrow> string list \<Rightarrow> bool" where
  "load_inv readFile resolve s order \<longleftrightarrow>
     files_inv readFile (graph_Files s) (loaded_files s) (nextFileID s) \<and>
     set order = {m. loaded_files s m \<noteq> None \<and> \<not> inProgress s m} \<and> (\<forall>m. inProgress s m \<longrightarrow> loaded_files s m \<noteq> None) \<and>
     build_order (deps (loaded_files s)) order \<and> (\<forall>m \<in> set order. list_all (located resolve (loaded_files s)) (deps (loaded_files s) m))"

definition grows :: "moduleLoadState \<Rightarrow> string list \<Rightarrow> moduleLoadState \<Rightarrow> string list \<Rightarrow> string list \<Rightarrow> bool" where
  "grows s order s' order' from \<longleftrightarrow>
     loaded_files s \<subseteq>\<^sub>m loaded_files s' \<and> inProgress s' = inProgress s \<and> (\<exists>more. order' = order @ more) \<and>
     (\<exists>new. graph_Files s' = graph_Files s @ new \<and>
        list_all (\<lambda>f. \<exists>m \<in> set from. (m, file_Module f) \<in> (edges (loaded_files s'))\<^sup>*) new) \<and> set from \<subseteq> set order'"

lemma grows_refl: "set from \<subseteq> set order \<Longrightarrow> grows s order s order from"
  by (simp add: grows_def)

lemma rtrancl_edges_mono: "old \<subseteq>\<^sub>m new \<Longrightarrow> (a, b) \<in> (edges old)\<^sup>* \<Longrightarrow> (a, b) \<in> (edges new)\<^sup>*"
  using rtrancl_mono [OF edges_mono] by blast

lemma grows_trans:
  assumes a: "grows s order s1 order1 from1" and b: "grows s1 order1 s2 order2 from2"
  shows "grows s order s2 order2 (from1 @ from2)"
proof -
  obtain new1 where n1: "graph_Files s1 = graph_Files s @ new1"
      "list_all (\<lambda>f. \<exists>m \<in> set from1. (m, file_Module f) \<in> (edges (loaded_files s1))\<^sup>*) new1" using a by (auto simp: grows_def)
  obtain new2 where n2: "graph_Files s2 = graph_Files s1 @ new2"
      "list_all (\<lambda>f. \<exists>m \<in> set from2. (m, file_Module f) \<in> (edges (loaded_files s2))\<^sup>*) new2" using b by (auto simp: grows_def)
  have le: "loaded_files s1 \<subseteq>\<^sub>m loaded_files s2" using b by (simp add: grows_def)
  have "list_all (\<lambda>f. \<exists>m \<in> set (from1 @ from2). (m, file_Module f) \<in> (edges (loaded_files s2))\<^sup>*) (new1 @ new2)"
    using n1(2) n2(2) rtrancl_edges_mono [OF le] unfolding list_all_iff set_append by blast
  then have "\<exists>new. graph_Files s2 = graph_Files s @ new \<and>
      list_all (\<lambda>f. \<exists>m \<in> set (from1 @ from2). (m, file_Module f) \<in> (edges (loaded_files s2))\<^sup>*) new"
    using n1(1) n2(1) by auto
  with a b show ?thesis by (auto simp: grows_def intro: map_le_trans)
qed

text \<open>What a call of the loader promises.\<close>

definition load_spec ::
  "(string \<Rightarrow> read_result) \<Rightarrow> (string \<Rightarrow> load_error + string option) \<Rightarrow>
   (moduleLoadState \<Rightarrow> string \<Rightarrow> string \<Rightarrow> (load_error + moduleLoadState) option) \<Rightarrow> bool" where
  "load_spec readFile resolve load \<longleftrightarrow>
     (\<forall>s order m path s'. load_inv readFile resolve s order \<longrightarrow> load s m path = Some (Inr s') \<longrightarrow>
        (\<exists>order' g. load_inv readFile resolve s' order' \<and> grows s order s' order' [m] \<and>
           loaded_files s' m = Some g \<and> Clean (file_Path g) = Clean path))"

lemma load_specD:
  assumes "load_spec readFile resolve load" and "load_inv readFile resolve s order" and "load s m path = Some (Inr s')"
  obtains order' g where "load_inv readFile resolve s' order'" "grows s order s' order' [m]" "loaded_files s' m = Some g"
    "Clean (file_Path g) = Clean path"
  using assms unfolding load_spec_def by meson

lemma located_mono: "old \<subseteq>\<^sub>m new \<Longrightarrow> located resolve old m \<Longrightarrow> located resolve new m"
  by (force simp: located_def map_le_def dom_def)

lemma load_imports_spec:
  assumes spec: "load_spec readFile resolve load" and "load_inv readFile resolve s order"
    and "load_imports load resolve imps s = Some (Inr s')"
  shows "\<exists>order'. load_inv readFile resolve s' order' \<and> grows s order s' order' imps \<and> list_all (located resolve (loaded_files s')) imps"
  using assms(2,3)
proof (induction imps arbitrary: s order)
  case Nil
  then show ?case by (auto simp: grows_refl)
next
  case (Cons i imps)
  obtain p s1 where p: "resolve i = Inr (Some p)" and l: "load s i p = Some (Inr s1)" and rest: "load_imports load resolve imps s1 = Some (Inr s')"
    using Cons.prems(2) by (auto split: sum.splits option.splits)
  obtain order1 g where i1: "load_inv readFile resolve s1 order1" and g1: "grows s order s1 order1 [i]"
    and g: "loaded_files s1 i = Some g" "Clean (file_Path g) = Clean p"
    by (rule load_specD [OF spec Cons.prems(1) l])
  from Cons.IH [OF i1 rest] obtain order2 where i2: "load_inv readFile resolve s' order2" and g2: "grows s1 order1 s' order2 imps"
    and loc: "list_all (located resolve (loaded_files s')) imps" by blast
  have "located resolve (loaded_files s1) i" using p g by (auto simp: located_def)
  then have "located resolve (loaded_files s') i" using g2 by (auto simp: grows_def intro: located_mono)
  then show ?case using i2 loc grows_trans [OF g1 g2] by auto
qed

text \<open>Adding the file of a module that is being loaded, and finishing it.\<close>

lemma load_inv_add:
  assumes inv: "load_inv readFile resolve s order" and new: "loaded_files s m = None"
    and read: "readFile path = Read src" and header: "ExtractHeader src = Inr (m, imps)"
  defines "s1 \<equiv> add_file (s\<lparr>inProgress := (inProgress s)(m := True)\<rparr>) m path src"
  shows "load_inv readFile resolve s1 order" and "loaded_files s \<subseteq>\<^sub>m loaded_files s1" and "deps (loaded_files s1) m = imps"
proof -
  define f where "f = (NewFile (nextFileID s) path src)\<lparr>file_Module := m\<rparr>"
  have f: "file_Module f = m" "file_Path f = path" "file_Source f = src" "file_ID f = nextFileID s" by (simp_all add: f_def NewFile_def)
  have s1: "graph_Files s1 = graph_Files s @ [f]" "loaded_files s1 = (loaded_files s)(m \<mapsto> f)" "inProgress s1 = (inProgress s)(m := True)"
    "nextFileID s1 = nextFileID s + 1" by (simp_all add: s1_def add_file_def f_def Let_def)
  show le: "loaded_files s \<subseteq>\<^sub>m loaded_files s1" using new by (auto simp: s1 map_le_def)
  have imps: "imports_of f = imps" using header f by (simp add: imports_of_def)
  then show "deps (loaded_files s1) m = imps" by (simp add: deps_def s1)
  have old: "files_inv readFile (graph_Files s) (loaded_files s) (nextFileID s)" using inv by (simp add: load_inv_def)
  then have fresh: "m \<notin> file_Module ` set (graph_Files s)" using new unfolding files_inv_def by (metis (no_types, lifting) image_iff option.distinct(1))
  have known: "loaded_files s k \<noteq> None" if "k \<in> set order" for k using that inv by (auto simp: load_inv_def)
  have same: "deps (loaded_files s1) k = deps (loaded_files s) k" if "k \<in> set order" for k
    using deps_mono [OF le] known [OF that] by simp
  have "build_order (deps (loaded_files s1)) order"
    using inv build_order_cong [of order "deps (loaded_files s)"] same by (simp add: load_inv_def)
  moreover have "\<forall>k \<in> set order. list_all (located resolve (loaded_files s1)) (deps (loaded_files s1) k)"
    using inv same located_mono [OF le] by (auto simp: load_inv_def list_all_iff)
  moreover have "set order = {k. loaded_files s1 k \<noteq> None \<and> \<not> inProgress s1 k}" using inv new by (auto simp: load_inv_def s1)
  moreover have maps: "\<forall>k g. loaded_files s1 k = Some g \<longleftrightarrow> g \<in> set (graph_Files s1) \<and> file_Module g = k"
  proof (intro allI)
    fix k g
    show "loaded_files s1 k = Some g \<longleftrightarrow> g \<in> set (graph_Files s1) \<and> file_Module g = k"
      using old fresh f(1) by (cases "k = m") (auto simp: files_inv_def s1 image_iff)
  qed
  have "file_ok readFile f" using read header imps by (simp add: file_ok_def f)
  then have "files_inv readFile (graph_Files s1) (loaded_files s1) (nextFileID s1)" using maps old fresh f by (simp add: files_inv_def s1)
  moreover have "\<forall>k. inProgress s1 k \<longrightarrow> loaded_files s1 k \<noteq> None" using inv by (simp add: load_inv_def s1)
  ultimately show "load_inv readFile resolve s1 order" by (simp add: load_inv_def)
qed

lemma load_inv_finish:
  assumes inv: "load_inv readFile resolve s order" and p: "inProgress s m" and imps: "set (deps (loaded_files s) m) \<subseteq> set order"
    and loc: "list_all (located resolve (loaded_files s)) (deps (loaded_files s) m)"
  shows "load_inv readFile resolve (s\<lparr>inProgress := (inProgress s)(m := False)\<rparr>) (order @ [m])"
proof -
  have "m \<notin> set order" "loaded_files s m \<noteq> None" using inv p by (auto simp: load_inv_def)
  moreover from this have "set (order @ [m]) = {k. loaded_files s k \<noteq> None \<and> \<not> ((inProgress s)(m := False)) k}"
    using inv by (auto simp: load_inv_def)
  ultimately show ?thesis using inv imps loc by (simp add: load_inv_def build_order_snoc)
qed

lemma load_finished:
  assumes inv: "load_inv readFile resolve s order" and idle: "\<not> inProgress s m" and None: "loaded_files s m = None"
    and add: "load_inv readFile resolve s1 order" "loaded_files s \<subseteq>\<^sub>m loaded_files s1" "deps (loaded_files s1) m = imps"
    and s1: "s1 = add_file (s\<lparr>inProgress := (inProgress s)(m := True)\<rparr>) m path src"
    and i2: "load_inv readFile resolve s2 order2" and g2: "grows s1 order s2 order2 imps" and loc: "list_all (located resolve (loaded_files s2)) imps"
  defines "s' \<equiv> s2\<lparr>inProgress := (inProgress s2)(m := False)\<rparr>"
  shows "load_inv readFile resolve s' (order2 @ [m]) \<and> grows s order s' (order2 @ [m]) [m] \<and>
    (\<exists>g. loaded_files s' m = Some g \<and> Clean (file_Path g) = Clean path)"
proof -
  obtain f where f: "graph_Files s1 = graph_Files s @ [f]" "loaded_files s1 m = Some f" "file_Path f = path" "file_Module f = m"
    "inProgress s1 = (inProgress s)(m := True)" by (simp add: s1 add_file_def Let_def NewFile_def)
  have le: "loaded_files s1 \<subseteq>\<^sub>m loaded_files s2" and p2: "inProgress s2 = inProgress s1" using g2 by (simp_all add: grows_def)
  have d: "deps (loaded_files s2) m = imps" using deps_mono [OF le, of m] f(2) add(3) by simp
  have inv': "load_inv readFile resolve s' (order2 @ [m])"
    unfolding s'_def by (rule load_inv_finish [OF i2]) (use p2 f(5) d g2 loc in \<open>simp_all add: grows_def\<close>)
  have m2: "loaded_files s2 m = Some f" using le f(2) by (auto simp: map_le_def dom_def)
  obtain new where new: "graph_Files s2 = graph_Files s1 @ new"
      "list_all (\<lambda>g. \<exists>i \<in> set imps. (i, file_Module g) \<in> (edges (loaded_files s2))\<^sup>*) new" using g2 by (auto simp: grows_def)

  have "list_all (\<lambda>g. (m, file_Module g) \<in> (edges (loaded_files s2))\<^sup>*) (f # new)"
    using new(2) d f(4) by (auto simp: list_all_iff edges_def intro: converse_rtrancl_into_rtrancl)
  moreover have "(inProgress s)(m := False) = inProgress s" using idle by (simp add: fun_eq_iff)
  ultimately have "grows s order s' (order2 @ [m]) [m]"
    using g2 new(1) f add(2) idle by (auto simp: grows_def s'_def intro: map_le_trans)
  with inv' f(3) m2 show ?thesis by (simp add: s'_def)
qed

lemma loadModule_spec: "load_spec readFile (resolveModulePath readFile roots) (loadModule fuel readFile roots)"
proof (induction fuel)
  case (Suc fuel)
  let ?resolve = "resolveModulePath readFile roots"
  show ?case unfolding load_spec_def
  proof (intro allI impI)
    fix s order m path s'
    assume inv: "load_inv readFile ?resolve s order" and l: "loadModule (Suc fuel) readFile roots s m path = Some (Inr s')"
    have idle: "\<not> inProgress s m" using l by (simp split: if_splits)
    show "\<exists>order' g. load_inv readFile ?resolve s' order' \<and> grows s order s' order' [m] \<and> loaded_files s' m = Some g \<and> Clean (file_Path g) = Clean path"
    proof (cases "loaded_files s m")
      case (Some g)
      then have "s' = s" "Clean (file_Path g) = Clean path" using l idle by (simp_all split: if_splits)
      moreover have "m \<in> set order" using inv Some idle by (simp add: load_inv_def)
      ultimately show ?thesis using inv Some by (auto intro!: exI [of _ order] grows_refl)
    next
      case None
      from l idle None obtain src imps s2 where read: "readFile path = Read src" and header: "ExtractHeader src = Inr (m, imps)"
        and li: "load_imports (loadModule fuel readFile roots) ?resolve imps (add_file (s\<lparr>inProgress := (inProgress s)(m := True)\<rparr>) m path src) = Some (Inr s2)"
        and s': "s' = s2\<lparr>inProgress := (inProgress s2)(m := False)\<rparr>"
        by (auto simp: Let_def split: read_result.splits sum.splits option.splits if_splits)
      let ?s1 = "add_file (s\<lparr>inProgress := (inProgress s)(m := True)\<rparr>) m path src"
      note add = load_inv_add [OF inv None read header]
      from load_imports_spec [OF Suc add(1) li] obtain order2 where i2: "load_inv readFile ?resolve s2 order2"
        and g2: "grows ?s1 order s2 order2 imps" and loc: "list_all (located ?resolve (loaded_files s2)) imps" by blast
      show ?thesis using load_finished [OF inv idle None add refl i2 g2 loc] s' by blast
    qed
  qed
qed (simp add: load_spec_def)

section \<open>The loaded graph\<close>

definition file_map :: "File list \<Rightarrow> string \<rightharpoonup> File" where
  "file_map files = map_of (map (\<lambda>f. (file_Module f, f)) files)"

lemma files_inv_map: "files_inv readFile files loaded fid \<Longrightarrow> file_map files = loaded"
proof
  fix m
  assume inv: "files_inv readFile files loaded fid"
  then have d: "distinct (map fst (map (\<lambda>f. (file_Module f, f)) files))" by (simp add: files_inv_def comp_def)
  show "file_map files m = loaded m"
  proof (cases "loaded m")
    case None
    with inv have "m \<notin> file_Module ` set files" unfolding files_inv_def by (metis (no_types, lifting) image_iff option.distinct(1))
    with None show ?thesis by (auto simp: file_map_def map_of_eq_None_iff image_image)
  next
    case (Some f)
    with inv have "(m, f) \<in> set (map (\<lambda>f. (file_Module f, f)) files)" unfolding files_inv_def by force
    with Some map_of_is_SomeI [OF d] show ?thesis by (simp add: file_map_def)
  qed
qed

lemma load_inv_start:
  "load_inv readFile resolve \<lparr>graph_Files = [], loaded_files = Map.empty, inProgress = (\<lambda>_. False), nextFileID = 1\<rparr> []"
  by (simp add: load_inv_def files_inv_def build_order_def)

text \<open>
  C33. A loaded graph is complete, minimal and free of cycles. When loading succeeds, the modules have distinct names
  and consecutive ids; every file is what reading its path gives and its header declares its module; every import
  of every file is a file of the graph, the one that the import roots give for its name; every file is
  reachable from the root file; and the modules can be ordered so that each comes after all modules it imports.
\<close>

theorem LoadGraph_complete:
  assumes "LoadGraph fuel readFile rootPath roots = Some (Inr files)"
  shows "distinct (map file_Module files) \<and> map file_ID files = map int [1..<Suc (length files)] \<and> list_all (file_ok readFile) files \<and>
    list_all (\<lambda>f. list_all (located (resolveModulePath readFile roots) (file_map files)) (imports_of f)) files \<and>
    (\<exists>g \<in> set files. Clean (file_Path g) = Clean (Clean rootPath) \<and>
       list_all (\<lambda>f. (file_Module g, file_Module f) \<in> (edges (file_map files))\<^sup>*) files) \<and>
    (\<exists>order. build_order (deps (file_map files)) order \<and> set order = file_Module ` set files)"
proof -
  let ?resolve = "resolveModulePath readFile roots"
  let ?start = "\<lparr>graph_Files = [], loaded_files = Map.empty, inProgress = (\<lambda>_. False), nextFileID = 1\<rparr>"
  from assms obtain m s where l: "loadModule fuel readFile roots ?start m (Clean rootPath) = Some (Inr s)" and files: "files = graph_Files s"
    by (auto simp: LoadGraph_def Let_def split: if_splits read_result.splits sum.splits option.splits)
  obtain order g where inv: "load_inv readFile ?resolve s order" and gr: "grows ?start [] s order [m]" and g: "loaded_files s m = Some g"
    "Clean (file_Path g) = Clean (Clean rootPath)"
    by (rule load_specD [OF loadModule_spec load_inv_start l])
  have fi: "files_inv readFile files (loaded_files s) (nextFileID s)" using inv by (simp add: load_inv_def files)
  then have map: "file_map files = loaded_files s" by (rule files_inv_map)
  have at: "loaded_files s (file_Module f) = Some f" if "f \<in> set files" for f using fi that by (simp add: files_inv_def)
  have mg: "g \<in> set files" "file_Module g = m" using fi g unfolding files_inv_def by blast+
  have names: "set order = file_Module ` set files"
  proof -
    have "inProgress s = (\<lambda>_. False)" using gr by (simp add: grows_def)
    then have "set order = {k. loaded_files s k \<noteq> None}" using inv by (simp add: load_inv_def)
    also have "\<dots> = file_Module ` set files" using fi unfolding files_inv_def by fastforce
    finally show ?thesis .
  qed
  have "list_all (\<lambda>f. list_all (located ?resolve (file_map files)) (imports_of f)) files"
    using inv at names by (auto simp: list_all_iff load_inv_def map deps_def)
  moreover have "list_all (\<lambda>f. (file_Module g, file_Module f) \<in> (edges (file_map files))\<^sup>*) files"
    unfolding map using gr mg by (auto simp: grows_def files)
  ultimately show ?thesis using fi mg(1) g(2) names inv
    by (auto simp: files_inv_def load_inv_def map)
qed

theorem LoadGraph_complete_witness:
  "map_option (map_sum id (map (\<lambda>f. (file_Module f, file_Path f)))) (LoadGraph 3
     ((\<lambda>_. Not_Exist)(''m'' := Read (''module a'' @ [CHR 0x0A] @ ''use { X } from b''), ''r/b.wrela'' := Read ''module b'')) ''m'' [''r'']) =
     Some (Inr [(''a'', ''m''), (''b'', ''r/b.wrela'')]) \<and>
   (\<exists>files order. LoadGraph 3
     ((\<lambda>_. Not_Exist)(''m'' := Read (''module a'' @ [CHR 0x0A] @ ''use { X } from b''), ''r/b.wrela'' := Read ''module b'')) ''m'' [''r''] = Some (Inr files) \<and>
     build_order (deps (file_map files)) order)"
proof -
  let ?fs = "(\<lambda>_. Not_Exist)(''m'' := Read (''module a'' @ [CHR 0x0A] @ ''use { X } from b''), ''r/b.wrela'' := Read ''module b'')"
  have r: "map_option (map_sum id (map (\<lambda>f. (file_Module f, file_Path f)))) (LoadGraph 3 ?fs ''m'' [''r'']) =
     Some (Inr [(''a'', ''m''), (''b'', ''r/b.wrela'')])" by code_simp
  then obtain files where l: "LoadGraph 3 ?fs ''m'' [''r''] = Some (Inr files)"
    by (cases "LoadGraph 3 ?fs ''m'' [''r'']"; cases "the (LoadGraph 3 ?fs ''m'' [''r''])") auto
  from LoadGraph_complete [OF l] r l show ?thesis by blast
qed

section \<open>Enough fuel\<close>

lemma load_imports_mono:
  assumes "\<And>s m p r. load s m p = Some r \<Longrightarrow> load' s m p = Some r" and "load_imports load resolve imps s = Some r"
  shows "load_imports load' resolve imps s = Some r"
  using assms(2)
proof (induction imps arbitrary: s)
  case (Cons i imps)
  then show ?case using assms(1) by (auto split: sum.splits option.splits)
qed simp

lemma loadModule_Suc: "loadModule n readFile roots s m p = Some r \<Longrightarrow> loadModule (Suc n) readFile roots s m p = Some r"
proof (induction n arbitrary: s m p r)
  case (Suc n)
  have step: "load_imports (loadModule n readFile roots) resolve imps s1 = Some q \<Longrightarrow>
      load_imports (loadModule (Suc n) readFile roots) resolve imps s1 = Some q" for resolve imps s1 q
    using load_imports_mono [of "loadModule n readFile roots" "loadModule (Suc n) readFile roots"] Suc.IH by blast
  show ?case using Suc.prems step
    unfolding loadModule.simps(2) [of "Suc n"] loadModule.simps(2) [of n]
    by (auto simp: Let_def simp del: loadModule.simps split: read_result.splits sum.splits option.splits if_splits)
qed simp

lemma loadModule_mono: "loadModule n readFile roots s m p = Some r \<Longrightarrow> n \<le> k \<Longrightarrow> loadModule k readFile roots s m p = Some r"
proof (induction k)
  case (Suc k)
  then show ?case using loadModule_Suc by (cases "n = Suc k") auto
qed simp

lemma load_imports_inProgress:
  assumes "\<And>s m p s'. load s m p = Some (Inr s') \<Longrightarrow> inProgress s' = inProgress s" and "load_imports load resolve imps s = Some (Inr s')"
  shows "inProgress s' = inProgress s"
  using assms(2)
proof (induction imps arbitrary: s)
  case (Cons i imps)
  then show ?case using assms(1) by (auto split: sum.splits option.splits)
qed simp

lemma loadModule_inProgress: "loadModule n readFile roots s m p = Some (Inr s') \<Longrightarrow> inProgress s' = inProgress s"
proof (induction n arbitrary: s m p s')
  case (Suc n)
  have step: "load_imports (loadModule n readFile roots) resolve imps s1 = Some (Inr s2) \<Longrightarrow> inProgress s2 = inProgress s1" for resolve imps s1 s2
    using load_imports_inProgress [of "loadModule n readFile roots"] Suc.IH by blast
  show ?case using Suc.prems
    by (auto simp: Let_def add_file_def fun_eq_iff dest!: step split: read_result.splits sum.splits option.splits if_splits)
qed simp

lemma load_imports_some:
  assumes "\<And>s i p. inProgress s = busy \<Longrightarrow> resolve i = Inr (Some p) \<Longrightarrow> load s i p \<noteq> None"
    and "\<And>s m p s'. load s m p = Some (Inr s') \<Longrightarrow> inProgress s' = inProgress s" and "inProgress s = busy"
  shows "load_imports load resolve imps s \<noteq> None"
  using assms(3)
proof (induction imps arbitrary: s)
  case (Cons i imps)
  then show ?case using assms(1,2) by (fastforce split: sum.splits option.splits)
qed simp

lemma loadModule_enough:
  assumes fin: "finite M" and M: "\<And>i p. resolveModulePath readFile roots i = Inr (Some p) \<Longrightarrow> i \<in> M"
    and "m \<in> M" and "card (M - {k. inProgress s k}) < fuel"
  shows "loadModule fuel readFile roots s m path \<noteq> None"
  using assms(3,4)
proof (induction fuel arbitrary: s m path)
  case (Suc fuel)
  show ?case
  proof (cases "inProgress s m")
    case False
    define busy where "busy = (inProgress s)(m := True)"
    have "M - {k. inProgress s k} = insert m (M - {k. busy k})" using False Suc.prems(1) by (auto simp: busy_def)
    moreover have "m \<notin> M - {k. busy k}" by (simp add: busy_def)
    ultimately have less: "card (M - {k. busy k}) < fuel" using fin Suc.prems(2) by simp
    have some: "load_imports (loadModule fuel readFile roots) (resolveModulePath readFile roots) imps s1 \<noteq> None" if "inProgress s1 = busy" for imps s1
      by (rule load_imports_some [OF _ loadModule_inProgress that]) (use Suc.IH M less in blast)
    have "load_imports (loadModule fuel readFile roots) (resolveModulePath readFile roots) imps
        (add_file (s\<lparr>inProgress := (inProgress s)(m := True)\<rparr>) k path src) \<noteq> None" for imps k src
      by (rule some) (simp add: add_file_def busy_def Let_def)
    with False show ?thesis
      by (auto simp: Let_def simp del: not_None_eq split: read_result.splits sum.splits option.splits)
  qed simp
qed simp



end
