(* ===== verification/Ast.thy ===== *)
theory Ast
  imports Go_Text
begin

text \<open>
  The syntax tree, \<open>compiler/ast/ast.go\<close>, and its debug printers. Recursive nodes are datatypes with the fields in the
  order of the source; the other structures are records. A missing expression is \<open>None\<close>, a missing type the empty
  type reference, and a nil list the empty list. The back pointer from a phase to its image, which the
  parser always clears, is left out.
\<close>

section \<open>Types and expressions\<close>

record Span =
  span_Start :: nat
  span_End :: nat

datatype TypeRef = TypeRef (type_Name: string) (type_Args: "TypeRef list") (type_Span: Span)

abbreviation no_span :: Span where "no_span \<equiv> \<lparr>span_Start = 0, span_End = 0\<rparr>"

definition empty_type :: TypeRef where "empty_type = TypeRef '''' [] no_span"

primrec TypeRef_String :: "TypeRef \<Rightarrow> string" where
  "TypeRef_String (TypeRef name args sp) =
     (if args = [] then name else name @ ''<'' @ Join '', '' (map TypeRef_String args) @ ''>'')"

datatype Expr =
    NameExpr string Span
  | IntLiteral string Span
  | StringLiteral string Span
  | BoolLiteral bool Span
  | ConstructorExpr TypeRef "NamedArg list" Span
  | VariantConstructorExpr string string "NamedArg list" Span
  | SizeOfExpr TypeRef Span
  | AlignOfExpr TypeRef Span
  | TypeOperandExpr TypeRef Span
  | CallExpr Expr string "NamedArg list" Span
  | FieldExpr Expr string Span
  | BinaryExpr string Expr Expr Span
and NamedArg = NamedArg (arg_Name: string) (arg_Value: Expr) (arg_Span: Span)

primrec expr_span :: "Expr \<Rightarrow> Span" where
  "expr_span (NameExpr n sp) = sp"
| "expr_span (IntLiteral v sp) = sp"
| "expr_span (StringLiteral v sp) = sp"
| "expr_span (BoolLiteral v sp) = sp"
| "expr_span (ConstructorExpr t args sp) = sp"
| "expr_span (VariantConstructorExpr e v args sp) = sp"
| "expr_span (SizeOfExpr t sp) = sp"
| "expr_span (AlignOfExpr t sp) = sp"
| "expr_span (TypeOperandExpr t sp) = sp"
| "expr_span (CallExpr r m args sp) = sp"
| "expr_span (FieldExpr b f sp) = sp"
| "expr_span (BinaryExpr op l r sp) = sp"

section \<open>Statements\<close>

record PatternBinding =
  binding_Name :: string
  binding_Bind :: string

datatype Pattern = WildcardPattern | VariantPattern string string "PatternBinding list"

datatype Stmt =
    LetStmt string Expr Span
  | ReturnStmt "Expr option" Span
  | IfStmt Expr "Stmt list" "Stmt list" Span
  | IfLetStmt Pattern Expr "Stmt list" Span
  | MatchStmt Expr "MatchArm list" Span
  | WhileStmt Expr "Stmt list" Span
  | WithStmt Expr string "Stmt list" Span
  | ForStmt string Expr "Stmt list" Span
  | AssignStmt Expr Expr Span
  | ExprStmt Expr Span
and MatchArm = MatchArm Pattern "Stmt list" Span

section \<open>Declarations\<close>

record TypeParam =
  typeparam_Name :: string
  typeparam_Span :: Span

record TraitBound =
  bound_Param :: string
  bound_Trait :: TypeRef
  bound_Span :: Span

record Import =
  import_Names :: "string list"
  import_Path :: string
  import_Span :: Span

record Field =
  field_Name :: string
  field_Type :: TypeRef
  field_Span :: Span

record Param =
  param_Name :: string
  param_Type :: TypeRef
  param_Span :: Span

record AsmBody =
  asm_Source :: string
  asm_Span :: Span

record MethodDecl =
  method_Receiver :: string
  method_Name :: string
  method_TypeParams :: "TypeParam list"
  method_Where :: "TraitBound list"
  method_Params :: "Param list"
  method_Return :: TypeRef
  method_Body :: "Stmt list"
  method_Asm :: "AsmBody option"
  method_IsAsm :: bool
  method_IsStart :: bool
  method_Span :: Span

record EnumVariant =
  variant_Name :: string
  variant_Fields :: "Field list"
  variant_Span :: Span

record EnumDecl =
  enum_Name :: string
  enum_TypeParams :: "TypeParam list"
  enum_Variants :: "EnumVariant list"
  enum_Span :: Span

record TraitDecl =
  trait_Name :: string
  trait_TypeParams :: "TypeParam list"
  trait_Methods :: "MethodDecl list"
  trait_Span :: Span

record ImplDecl =
  impl_Trait :: TypeRef
  impl_For :: TypeRef
  impl_Span :: Span

record ConstDecl =
  const_Name :: string
  const_Type :: TypeRef
  const_Value :: Expr
  const_Span :: Span

record StaticAssertDecl =
  assert_Expr :: Expr
  assert_Message :: string
  assert_Span :: Span

record EventLayoutField =
  elf_Name :: string
  elf_Type :: TypeRef
  elf_Encode :: "Expr option"
  elf_Span :: Span

record EventLayoutDecl =
  eld_ID :: string
  eld_Current :: bool
  eld_Fields :: "EventLayoutField list"
  eld_Span :: Span

record LayoutUpcastMapping =
  mapping_From :: string
  mapping_To :: string
  mapping_Span :: Span

record LayoutUpcastDecl =
  upcast_FromID :: string
  upcast_ToID :: string
  upcast_Mappings :: "LayoutUpcastMapping list"
  upcast_Span :: Span

record EventDecl =
  event_Name :: string
  event_ID :: string
  event_Fields :: "Field list"
  event_Layouts :: "EventLayoutDecl list"
  event_Upcasts :: "LayoutUpcastDecl list"
  event_Span :: Span

record ProjectionLayoutDecl =
  pld_ID :: string
  pld_Current :: bool
  pld_Fields :: "Field list"
  pld_Span :: Span

record ProjectionDecl =
  projection_Name :: string
  projection_ID :: string
  projection_Layouts :: "ProjectionLayoutDecl list"
  projection_Upcasts :: "LayoutUpcastDecl list"
  projection_Span :: Span

record DataDecl =
  data_Name :: string
  data_TypeParams :: "TypeParam list"
  data_Where :: "TraitBound list"
  data_Fields :: "Field list"
  data_Methods :: "MethodDecl list"
  data_Span :: Span

record ClassDecl =
  class_Name :: string
  class_TypeParams :: "TypeParam list"
  class_Where :: "TraitBound list"
  class_Fields :: "Field list"
  class_Methods :: "MethodDecl list"
  class_Unique :: bool
  class_Span :: Span

record DriverDecl =
  driver_Name :: string
  driver_TypeParams :: "TypeParam list"
  driver_Where :: "TraitBound list"
  driver_Fields :: "Field list"
  driver_Methods :: "MethodDecl list"
  driver_Unique :: bool
  driver_Span :: Span

record InterruptEventDecl =
  ie_EventType :: TypeRef
  ie_Body :: "Stmt list"
  ie_Span :: Span

record DriverPathDecl =
  path_Name :: string
  path_Fields :: "Field list"
  path_Methods :: "MethodDecl list"
  path_InterruptEvents :: "InterruptEventDecl list"
  path_Span :: Span

record OnHandlerDecl =
  on_PathField :: string
  on_ParamName :: string
  on_ParamType :: TypeRef
  on_Body :: "Stmt list"
  on_Span :: Span

record ExecutorDecl =
  executor_Name :: string
  executor_Fields :: "Field list"
  executor_Methods :: "MethodDecl list"
  executor_OnHandlers :: "OnHandlerDecl list"
  executor_Span :: Span

record Transition =
  transition_From :: string
  transition_To :: string
  transition_Span :: Span

record PhaseDecl =
  phase_Name :: string
  phase_Params :: "Param list"
  phase_Return :: TypeRef
  phase_Body :: "Stmt list"
  phase_Span :: Span

record ImageDecl =
  image_Name :: string
  image_Transitions :: "Transition list"
  image_Phases :: "PhaseDecl list"
  image_Span :: Span

datatype (plugins only: code) Decl =
    EnumD EnumDecl | TraitD TraitDecl | ImplD ImplDecl | ConstD ConstDecl | StaticAssertD StaticAssertDecl | EventD EventDecl
  | ProjectionD ProjectionDecl | DataD DataDecl | ClassD ClassDecl | DriverD DriverDecl | DriverPathD DriverPathDecl
  | ExecutorD ExecutorDecl | ImageD ImageDecl

record Module =
  module_Name :: string
  module_Imports :: "Import list"
  module_Decls :: "Decl list"
  module_Span :: Span

section \<open>Debug printing\<close>

definition debugConstructorType :: "TypeRef \<Rightarrow> string" where
  "debugConstructorType ref = (if type_Name ref = '''' then '''' else TypeRef_String ref)"

definition DebugDecl :: "Decl \<Rightarrow> string" where
  "DebugDecl decl = (case decl of
     EventD d \<Rightarrow> ''event '' @ event_Name d @ '' id '' @ event_ID d
   | ProjectionD d \<Rightarrow> ''projection '' @ projection_Name d @ '' id '' @ projection_ID d
   | _ \<Rightarrow> ''<decl>'')"

primrec DebugExpr :: "Expr \<Rightarrow> string" and debugNamedArg :: "NamedArg \<Rightarrow> string" where
  "DebugExpr (NameExpr n sp) = n"
| "DebugExpr (IntLiteral v sp) = v"
| "DebugExpr (StringLiteral v sp) = [CHR 0x22] @ v @ [CHR 0x22]"
| "DebugExpr (BoolLiteral v sp) = (if v then ''true'' else ''false'')"
| "DebugExpr (ConstructorExpr t args sp) = debugConstructorType t @ ''('' @ Join '', '' (map debugNamedArg args) @ '')''"
| "DebugExpr (VariantConstructorExpr e v args sp) = e @ ''.'' @ v @ ''('' @ Join '', '' (map debugNamedArg args) @ '')''"
| "DebugExpr (SizeOfExpr t sp) = ''sizeof('' @ debugConstructorType t @ '')''"
| "DebugExpr (AlignOfExpr t sp) = ''alignof('' @ debugConstructorType t @ '')''"
| "DebugExpr (TypeOperandExpr t sp) = TypeRef_String t"
| "DebugExpr (CallExpr r m args sp) = DebugExpr r @ ''.'' @ m @ ''('' @ Join '', '' (map debugNamedArg args) @ '')''"
| "DebugExpr (FieldExpr b f sp) = DebugExpr b @ ''.'' @ f"
| "DebugExpr (BinaryExpr op l r sp) = ''('' @ op @ '' '' @ DebugExpr l @ '' '' @ DebugExpr r @ '')''"
| "debugNamedArg (NamedArg name value sp) = (if name = '''' then DebugExpr value else name @ '' = '' @ DebugExpr value)"

definition debugNamedArgs :: "NamedArg list \<Rightarrow> string" where
  "debugNamedArgs args = Join '', '' (map debugNamedArg args)"

definition debugPattern :: "Pattern \<Rightarrow> string" where
  "debugPattern p = (case p of
     WildcardPattern \<Rightarrow> ''_''
   | VariantPattern e v bs \<Rightarrow>
       if bs = [] then e @ ''.'' @ v
       else e @ ''.'' @ v @ ''('' @ Join '', '' (map (\<lambda>b. binding_Name b @ '' = '' @ binding_Bind b) bs) @ '')'')"

primrec DebugStmt :: "Stmt \<Rightarrow> string" and debugMatchArm :: "MatchArm \<Rightarrow> string" where
  "DebugStmt (LetStmt n e sp) = ''let '' @ n @ '' = '' @ DebugExpr e"
| "DebugStmt (ReturnStmt v sp) = (case v of None \<Rightarrow> ''return'' | Some e \<Rightarrow> ''return '' @ DebugExpr e)"
| "DebugStmt (IfStmt c th el sp) = ''if '' @ DebugExpr c @ '' { '' @ Join '' '' (map DebugStmt th) @ '' }''"
| "DebugStmt (IfLetStmt p v body sp) = ''if let '' @ debugPattern p @ '' = '' @ DebugExpr v @ '' { '' @ Join '' '' (map DebugStmt body) @ '' }''"
| "DebugStmt (MatchStmt v arms sp) = ''match '' @ DebugExpr v @ '' { '' @ Join '' '' (map debugMatchArm arms) @ '' }''"
| "DebugStmt (WhileStmt c body sp) = ''while '' @ DebugExpr c @ '' { '' @ Join '' '' (map DebugStmt body) @ '' }''"
| "DebugStmt (WithStmt e n body sp) = ''with '' @ DebugExpr e @ '' as '' @ n @ '' { '' @ Join '' '' (map DebugStmt body) @ '' }''"
| "DebugStmt (ForStmt x e body sp) = ''for '' @ x @ '' in '' @ DebugExpr e @ '' { '' @ Join '' '' (map DebugStmt body) @ '' }''"
| "DebugStmt (AssignStmt t v sp) = DebugExpr t @ '' = '' @ DebugExpr v"
| "DebugStmt (ExprStmt e sp) = DebugExpr e"
| "debugMatchArm (MatchArm p body sp) = debugPattern p @ '' => { '' @ Join '' '' (map DebugStmt body) @ '' }''"

end
