(* ===== verification/Parser_State.thy ===== *)
theory Parser_State
  imports Lexer Ast
begin

text \<open>
  The state of the parser and its token routines, \<open>compiler/parse/parser.go\<close>. A parser takes the state and gives a
  value and the next state, or the diagnostics with which the parse ends: the code returns as soon as a part
  reports diagnostics, so that the state after a failure is never used. \<open>Exhausted\<close> stands for a
  loop or recursion that did not end within its bound; the lemmas of \<open>Parser_Total\<close> show that it does not occur.
\<close>

section \<open>Parsers\<close>

record Parser =
  p_path :: string
  p_src :: string
  p_toks :: "Token list"
  p_idx :: nat
  p_lexDiags :: "Diagnostic list"

datatype 'a outcome = Exhausted | Failed "Diagnostic list" | Parsed 'a Parser

type_synonym 'a parser = "Parser \<Rightarrow> 'a outcome"

definition ret :: "'a \<Rightarrow> 'a parser" where
  "ret x = (\<lambda>p. Parsed x p)"

definition bindp :: "'a parser \<Rightarrow> ('a \<Rightarrow> 'b parser) \<Rightarrow> 'b parser" where
  "bindp m f = (\<lambda>p. case m p of Exhausted \<Rightarrow> Exhausted | Failed ds \<Rightarrow> Failed ds | Parsed x q \<Rightarrow> f x q)"

definition get_state :: "Parser parser" where
  "get_state = (\<lambda>p. Parsed p p)"

text \<open>The diagnostics of a part replaced by others: parts for which the code does this leave the state alone.\<close>

definition on_fail :: "'a parser \<Rightarrow> (Parser \<Rightarrow> Diagnostic list) \<Rightarrow> 'a parser" where
  "on_fail m g = (\<lambda>p. case m p of Failed ds \<Rightarrow> Failed (g p) | r \<Rightarrow> r)"

text \<open>A loop: each round goes on with \<open>Inl\<close> or ends with \<open>Inr\<close>.\<close>

primrec repeat :: "nat \<Rightarrow> ('s \<Rightarrow> ('s + 'a) parser) \<Rightarrow> 's \<Rightarrow> 'a parser" where
  "repeat 0 body s = (\<lambda>p. Exhausted)"
| "repeat (Suc n) body s = bindp (body s) (\<lambda>r. case r of Inl s' \<Rightarrow> repeat n body s' | Inr x \<Rightarrow> ret x)"

section \<open>Tokens\<close>

definition eof_token :: "Parser \<Rightarrow> Token" where
  "eof_token p = \<lparr>tok_Kind = EOF, tok_Text = '''', tok_Start = length (p_src p), tok_End = length (p_src p)\<rparr>"

definition peekN :: "Parser \<Rightarrow> nat \<Rightarrow> Token" where
  "peekN p n = (if length (p_toks p) \<le> p_idx p + n then eof_token p else p_toks p ! (p_idx p + n))"

definition peek :: "Parser \<Rightarrow> Token" where
  "peek p = (if length (p_toks p) \<le> p_idx p then eof_token p else p_toks p ! p_idx p)"

abbreviation peek_kind :: "Parser \<Rightarrow> Kind" where
  "peek_kind p \<equiv> tok_Kind (peek p)"

definition previous :: "Parser \<Rightarrow> Token" where
  "previous p = (if p_idx p = 0 then p_toks p ! 0 else p_toks p ! (p_idx p - 1))"

definition next_tok :: "Token parser" where
  "next_tok = (\<lambda>p. let q = (if p_idx p < length (p_toks p) then p\<lparr>p_idx := p_idx p + 1\<rparr> else p) in
     Parsed (p_toks q ! (p_idx q - 1)) q)"

definition span :: "nat \<Rightarrow> nat \<Rightarrow> Span" where
  "span start stop = \<lparr>span_Start = start, span_End = stop\<rparr>"

definition err :: "Parser \<Rightarrow> Token \<Rightarrow> string \<Rightarrow> string \<Rightarrow> Diagnostic list" where
  "err p tok code msg = [\<lparr>diag_Phase = ''parse'', diag_Code = code, diag_Severity = '''', diag_FilePath = p_path p,
     diag_Start = int (tok_Start tok), diag_End = int (tok_End tok), diag_Message = msg, diag_Sequence = 0\<rparr>]"

definition PAR0001 :: string where "PAR0001 = ''PAR0001''"
definition PAR0002 :: string where "PAR0002 = ''PAR0002''"

definition fail_tok :: "Token \<Rightarrow> string \<Rightarrow> string \<Rightarrow> 'a parser" where
  "fail_tok tok code msg = (\<lambda>p. Failed (err p tok code msg))"

definition fail_here :: "string \<Rightarrow> string \<Rightarrow> 'a parser" where
  "fail_here code msg = (\<lambda>p. Failed (err p (peek p) code msg))"

function skip_separators :: "Parser \<Rightarrow> Parser" where
  "skip_separators p = (if p_idx p < length (p_toks p) \<and> (peek_kind p = Newline \<or> peek_kind p = Semicolon)
     then skip_separators (p\<lparr>p_idx := p_idx p + 1\<rparr>) else p)"
  by pat_completeness auto
termination by (relation "measure (\<lambda>p. length (p_toks p) - p_idx p)") auto

declare skip_separators.simps [simp del]

definition skipSeparators :: "bool parser" where
  "skipSeparators = (\<lambda>p. let q = skip_separators p in Parsed (p_idx p < p_idx q) q)"

definition nextIf :: "Kind \<Rightarrow> Token parser" where
  "nextIf kind = (\<lambda>p. if peek_kind p = kind then next_tok p else Parsed (peek p) p)"

definition expect :: "Kind \<Rightarrow> Token parser" where
  "expect kind = (\<lambda>p. if peek_kind p = kind then next_tok p else Parsed (peek p) p)"

definition match_kind :: "Kind \<Rightarrow> bool parser" where
  "match_kind kind = (\<lambda>p. if peek_kind p = kind then bindp next_tok (\<lambda>_. ret True) p else Parsed False p)"

definition consume :: "Kind \<Rightarrow> Token parser" where
  "consume kind = (\<lambda>p. if peek_kind p = kind then next_tok p else Failed (err p (peek p) PAR0001 ''unexpected token''))"

definition consumeIdentifier :: "Kind \<Rightarrow> string \<Rightarrow> Token parser" where
  "consumeIdentifier kind msg = bindp (expect kind) (\<lambda>tok. if tok_Kind tok = kind then ret tok else fail_tok tok PAR0001 msg)"

definition consumeContextualIdentifier :: "string \<Rightarrow> string \<Rightarrow> Token parser" where
  "consumeContextualIdentifier word msg =
     (\<lambda>p. if peek_kind p = Identifier \<and> tok_Text (peek p) = word then next_tok p else Failed (err p (peek p) PAR0001 msg))"

definition isNameToken :: "Token \<Rightarrow> bool" where
  "isNameToken tok \<longleftrightarrow> tok_Kind tok \<in> {Identifier, KeywordImage, KeywordPath, KeywordEvent, KeywordProjection}"

definition isExpressionNameToken :: "Token \<Rightarrow> bool" where
  "isExpressionNameToken tok \<longleftrightarrow>
     isNameToken tok \<or> tok_Kind tok = KeywordInterrupt \<or> tok_Kind tok = KeywordStart \<or> tok_Kind tok = KeywordExecutor"

definition isSelectorNameToken :: "Token \<Rightarrow> bool" where
  "isSelectorNameToken tok \<longleftrightarrow> isExpressionNameToken tok"

definition expectIdentifier :: "string \<Rightarrow> Token parser" where
  "expectIdentifier msg = (\<lambda>p. if isNameToken (peek p) then next_tok p else Failed (err p (peek p) PAR0001 msg))"

definition expectSelectorName :: "string \<Rightarrow> Token parser" where
  "expectSelectorName msg = (\<lambda>p. if isSelectorNameToken (peek p) then next_tok p else Failed (err p (peek p) PAR0001 msg))"

text \<open>A token that must follow, with a message of its own.\<close>

definition require :: "Kind \<Rightarrow> string \<Rightarrow> unit parser" where
  "require kind msg = bindp (match_kind kind) (\<lambda>ok. if ok then ret () else fail_here PAR0001 msg)"

definition startsUpper :: "string \<Rightarrow> bool" where
  "startsUpper s \<longleftrightarrow> (case s of [] \<Rightarrow> False | c # _ \<Rightarrow> CHR ''A'' \<le> c \<and> c \<le> CHR ''Z'')"

definition lineOf :: "Parser \<Rightarrow> int \<Rightarrow> nat" where
  "lineOf p offset0 =
     (let offset1 = (if offset0 < 0 then 0 else offset0);
          offset = (if int (length (p_src p)) < offset1 then int (length (p_src p)) else offset1) in
      1 + count_list (take (nat offset) (p_src p)) (CHR 0x0A))"

end
