(* ===== verification/Parser_Expr.thy ===== *)
theory Parser_Expr
  imports Parser_State
begin

text \<open>
  Names, type references and expressions: \<open>compiler/parse/expr.go\<close> and the routines of \<open>parser.go\<close> they use.
  Type references and expressions recurse; the first argument of a routine bounds its recursion and its loops.
\<close>

section \<open>Names and types\<close>

definition parseDottedName :: "nat \<Rightarrow> string parser" where
  "parseDottedName n =
     bindp (expectIdentifier ''expected identifier'') (\<lambda>first.
     repeat n (\<lambda>parts.
       bindp (match_kind Dot) (\<lambda>dot.
       if \<not> dot then ret (Inr (Join ''.'' parts))
       else bindp (expectIdentifier ''expected identifier'') (\<lambda>part. ret (Inl (parts @ [tok_Text part])))))
     [tok_Text first])"

definition parseTypeName :: "nat \<Rightarrow> string parser" where
  "parseTypeName n = bindp get_state (\<lambda>p.
     if peek_kind p = KeywordNever then bindp next_tok (\<lambda>tok. ret (tok_Text tok)) else parseDottedName n)"

text \<open>Splitting the token \<open>>>\<close> in two: the parser stands behind the first half.\<close>

definition split_shift :: "Token parser" where
  "split_shift = bindp next_tok (\<lambda>shiftTok. (\<lambda>p.
     let first = \<lparr>tok_Kind = Greater, tok_Text = ''>'', tok_Start = tok_Start shiftTok, tok_End = tok_Start shiftTok + 1\<rparr>;
         second = \<lparr>tok_Kind = Greater, tok_Text = ''>'', tok_Start = tok_Start shiftTok + 1, tok_End = tok_End shiftTok\<rparr>;
         i = p_idx p in
     Parsed first (p\<lparr>p_toks := take (i - 1) (p_toks p) @ [first, second] @ drop i (p_toks p)\<rparr>)))"

definition consumeTypeGreater :: "Token parser" where
  "consumeTypeGreater =
     bindp (match_kind Greater) (\<lambda>ok.
     if ok then bindp get_state (\<lambda>p. ret (previous p))
     else bindp get_state (\<lambda>p.
       if peek_kind p \<noteq> ShiftRight then fail_here PAR0001 ''expected '>' after type arguments''
       else split_shift))"

text \<open>What ends a list round: a separator-tolerant comma.\<close>

definition comma_more :: "bool parser" where
  "comma_more = bindp skipSeparators (\<lambda>_. bindp (match_kind Comma) (\<lambda>comma.
     if \<not> comma then ret False else bindp skipSeparators (\<lambda>_. ret True)))"

definition parse_type_args :: "nat \<Rightarrow> TypeRef parser \<Rightarrow> TypeRef list parser" where
  "parse_type_args n type_ref = repeat n (\<lambda>args.
     bindp type_ref (\<lambda>arg. bindp comma_more (\<lambda>comma.
     ret (if comma then Inl (args @ [arg]) else Inr (args @ [arg]))))) []"

primrec parseTypeRef :: "nat \<Rightarrow> TypeRef parser" where
  "parseTypeRef 0 = (\<lambda>p. Exhausted)"
| "parseTypeRef (Suc n) =
     bindp get_state (\<lambda>p0.
     bindp (parseTypeName (Suc n)) (\<lambda>name.
     bindp get_state (\<lambda>p1.
     bindp (match_kind Less) (\<lambda>less.
     if \<not> less then ret (TypeRef name [] (span (tok_Start (peek p0)) (tok_End (previous p1))))
     else bindp (parse_type_args (Suc n) (parseTypeRef n)) (\<lambda>args.
       bindp (on_fail consumeTypeGreater (\<lambda>p. err p (peek p) PAR0001 ''expected '>' after type arguments'')) (\<lambda>_.
       bindp get_state (\<lambda>p2.
       ret (TypeRef name args (span (tok_Start (peek p0)) (tok_End (previous p2)))))))))))"

definition parseTypeParams :: "nat \<Rightarrow> TypeParam list parser" where
  "parseTypeParams n =
     bindp (match_kind Less) (\<lambda>less.
     if \<not> less then ret []
     else bindp (repeat n (\<lambda>out.
         bindp (expectIdentifier ''expected type parameter'') (\<lambda>tok.
         let out' = out @ [\<lparr>typeparam_Name = tok_Text tok, typeparam_Span = span (tok_Start tok) (tok_End tok)\<rparr>] in
         bindp comma_more (\<lambda>comma. ret (if comma then Inl out' else Inr out')))) []) (\<lambda>out.
       bindp (on_fail (consume Greater) (\<lambda>p. err p (peek p) PAR0001 ''expected '>' after type parameters'')) (\<lambda>_.
       ret out)))"

definition parseWhereClause :: "nat \<Rightarrow> TraitBound list parser" where
  "parseWhereClause n =
     bindp (match_kind KeywordWhere) (\<lambda>present.
     if \<not> present then ret []
     else repeat n (\<lambda>out.
       bindp get_state (\<lambda>p.
       bindp (expectIdentifier ''expected type parameter in where clause'') (\<lambda>param.
       bindp (consume Colon) (\<lambda>_.
       bindp (parseTypeRef n) (\<lambda>trait.
       let out' = out @ [\<lparr>bound_Param = tok_Text param, bound_Trait = trait,
             bound_Span = span (tok_Start (peek p)) (span_End (type_Span trait))\<rparr>] in
       bindp comma_more (\<lambda>comma. ret (if comma then Inl out' else Inr out'))))))) [])"

section \<open>Expressions\<close>

definition precedence :: "Kind \<rightharpoonup> nat" where
  "precedence = map_of
     [(Dot, 90), (LParen, 90), (Star, 80), (Slash, 80), (Percent, 80), (Plus, 70), (Minus, 70), (ShiftLeft, 60), (ShiftRight, 60),
      (Less, 50), (LessEqual, 50), (Greater, 50), (GreaterEqual, 50), (EqualEqual, 40), (BangEqual, 40), (Amp, 30), (Caret, 20), (Pipe, 10)]"

text \<open>The scan for a generic constructor, from the current token on, with the depth of the angle brackets.\<close>

definition followed_by_paren :: "Token list \<Rightarrow> bool" where
  "followed_by_paren rest \<longleftrightarrow> (case rest of [] \<Rightarrow> False | t # _ \<Rightarrow> tok_Kind t = LParen)"

fun generic_scan :: "int \<Rightarrow> Token list \<Rightarrow> bool" where
  "generic_scan depth [] = False"
| "generic_scan depth (t # rest) =
     (if tok_Kind t = Less then generic_scan (depth + 1) rest
      else if tok_Kind t = Greater
      then if depth - 1 = 0 then followed_by_paren rest else generic_scan (depth - 1) rest
      else if tok_Kind t = ShiftRight
      then if depth - 1 = 0 then followed_by_paren rest
           else if depth - 2 = 0 then followed_by_paren rest
           else if depth - 2 < 0 then False
           else generic_scan (depth - 2) rest
      else if tok_Kind t \<in> {EOF, Newline, Semicolon, RBrace} then False
      else generic_scan depth rest)"

definition looksLikeGenericConstructor :: "Parser \<Rightarrow> bool" where
  "looksLikeGenericConstructor p \<longleftrightarrow> (if peek_kind p \<noteq> Less then False else generic_scan 0 (drop (p_idx p) (p_toks p)))"

definition parseNamedArgs :: "nat \<Rightarrow> (nat \<Rightarrow> Expr parser) \<Rightarrow> NamedArg list parser" where
  "parseNamedArgs n expr =
     bindp skipSeparators (\<lambda>_. bindp get_state (\<lambda>p.
     if peek_kind p = RParen then ret []
     else repeat n (\<lambda>args.
       bindp skipSeparators (\<lambda>_. bindp get_state (\<lambda>p1.
       bindp (if isExpressionNameToken (peek p1) \<and> tok_Kind (peekN p1 1) = Equal
              then bindp next_tok (\<lambda>nameTok. bindp next_tok (\<lambda>_. ret (tok_Text nameTok, tok_Start nameTok)))
              else ret ('''', tok_Start (peek p1))) (\<lambda>(name, start).
       bindp (expr 0) (\<lambda>value.
       let args' = args @ [NamedArg name value (span start (span_End (expr_span value)))] in
       bindp skipSeparators (\<lambda>_. bindp (match_kind Comma) (\<lambda>comma.
       if \<not> comma then ret (Inr args')
       else bindp skipSeparators (\<lambda>_. bindp get_state (\<lambda>p2.
         if peek_kind p2 = RParen then fail_here PAR0001 ''trailing comma'' else ret (Inl args')))))))))) []))"

definition parse_type_operand :: "nat \<Rightarrow> Token \<Rightarrow> Expr parser" where
  "parse_type_operand n tok =
     bindp (match_kind LParen) (\<lambda>open.
     if \<not> open then fail_tok tok PAR0001 ''expected '(' after operator''
     else bindp (parseTypeRef n) (\<lambda>typ.
       bindp (consume RParen) (\<lambda>_. bindp get_state (\<lambda>p.
       let sp = span (tok_Start tok) (tok_End (previous p)) in
       ret (if tok_Kind tok = KeywordSizeof then SizeOfExpr typ sp else AlignOfExpr typ sp)))))"

text \<open>A name that stands for itself, seen from behind its token.\<close>

definition plain_name :: "Token \<Rightarrow> Parser \<Rightarrow> bool" where
  "plain_name tok p \<longleftrightarrow>
     tok_Kind tok = Identifier \<and> peek_kind p = Less \<and> (\<not> startsUpper (tok_Text tok) \<or> \<not> looksLikeGenericConstructor p) \<or>
     tok_Kind tok = Identifier \<and> peek_kind p \<noteq> LParen \<and> peek_kind p \<noteq> Less \<and>
       \<not> (peek_kind p = Dot \<and> tok_Kind (peekN p 1) = Identifier \<and> startsUpper (tok_Text tok) \<and>
          startsUpper (tok_Text (peekN p 1)) \<and> tok_Kind (peekN p 2) = LParen)"

definition parse_named :: "nat \<Rightarrow> (nat \<Rightarrow> Expr parser) \<Rightarrow> Token \<Rightarrow> Expr parser" where
  "parse_named n expr tok =
     bindp get_state (\<lambda>p.
     if plain_name tok p then ret (NameExpr (tok_Text tok) (span (tok_Start tok) (tok_End tok)))
     else bindp (\<lambda>p. Parsed () (p\<lparr>p_idx := p_idx p - 1\<rparr>)) (\<lambda>_.
       bindp (parseTypeRef n) (\<lambda>typ.
       bindp (match_kind LParen) (\<lambda>open.
       if open
       then bindp (parseNamedArgs n expr) (\<lambda>args.
         bindp (consume RParen) (\<lambda>close.
         let parts = SplitByte (CHR ''.'') (type_Name typ); sp = span (tok_Start tok) (tok_End close) in
         ret (if length parts = 2 \<and> startsUpper (parts ! 0) \<and> startsUpper (parts ! 1)
              then VariantConstructorExpr (parts ! 0) (parts ! 1) args sp
              else ConstructorExpr typ args sp)))
       else if type_Args typ \<noteq> []
       then fail_tok tok PAR0001 ''generic type arguments are only valid in constructor or type positions''
       else ret (NameExpr (type_Name typ) (span (tok_Start tok) (tok_End tok)))))))"

definition parsePrimary :: "nat \<Rightarrow> (nat \<Rightarrow> Expr parser) \<Rightarrow> Expr parser" where
  "parsePrimary n expr =
     bindp next_tok (\<lambda>tok.
     let kind = tok_Kind tok; sp = span (tok_Start tok) (tok_End tok) in
     if kind = KeywordSizeof \<or> kind = KeywordAlignof then parse_type_operand n tok
     else if kind = Identifier \<or> kind = KeywordNever then parse_named n expr tok
     else if kind = Integer then ret (IntLiteral (tok_Text tok) sp)
     else if kind = String then ret (StringLiteral (tok_Text tok) sp)
     else if kind = KeywordTrue then ret (BoolLiteral True sp)
     else if kind = KeywordFalse then ret (BoolLiteral False sp)
     else if kind = LParen then bindp (expr 0) (\<lambda>e. bindp (consume RParen) (\<lambda>_. ret e))
     else fail_tok tok PAR0001 ''unexpected token in expression'')"

definition parse_selector :: "nat \<Rightarrow> (nat \<Rightarrow> Expr parser) \<Rightarrow> Expr \<Rightarrow> Token \<Rightarrow> Expr parser" where
  "parse_selector n expr left op =
     bindp (expectSelectorName ''expected field or method name'') (\<lambda>name.
     bindp (match_kind LParen) (\<lambda>open.
     if open
     then bindp (parseNamedArgs n expr) (\<lambda>args.
       bindp (consume RParen) (\<lambda>close.
       ret (CallExpr left (tok_Text name) args (span (tok_Start op) (tok_End close)))))
     else ret (FieldExpr left (tok_Text name) (span (tok_Start op) (tok_End name)))))"

definition skip_newline_dot :: "unit parser" where
  "skip_newline_dot = (\<lambda>p. if peek_kind p = Newline \<and> tok_Kind (peekN p 1) = Dot then bindp next_tok (\<lambda>_. ret ()) p else Parsed () p)"

definition expr_step :: "nat \<Rightarrow> (nat \<Rightarrow> Expr parser) \<Rightarrow> nat \<Rightarrow> Expr \<Rightarrow> (Expr + Expr) parser" where
  "expr_step n expr minPrec left =
     bindp skip_newline_dot (\<lambda>_. bindp get_state (\<lambda>p.
     case precedence (peek_kind p) of
       None \<Rightarrow> ret (Inr left)
     | Some prec \<Rightarrow>
         if prec < minPrec then ret (Inr left)
         else bindp next_tok (\<lambda>op.
           if tok_Kind op = Dot then bindp (parse_selector n expr left op) (\<lambda>e. ret (Inl e))
           else bindp (expr (prec + 1)) (\<lambda>right.
             ret (Inl (BinaryExpr (tok_Text op) left right
               (span (span_Start (expr_span left)) (span_End (expr_span right)))))))))"

primrec parseExpr :: "nat \<Rightarrow> nat \<Rightarrow> Expr parser" where
  "parseExpr 0 = (\<lambda>minPrec p. Exhausted)"
| "parseExpr (Suc n) = (\<lambda>minPrec.
     bindp (parsePrimary (Suc n) (parseExpr n)) (\<lambda>left. repeat (Suc n) (expr_step (Suc n) (parseExpr n) minPrec) left))"

end
