(* ===== verification/Parser_Stmt.thy ===== *)
theory Parser_Stmt
  imports Parser_Expr
begin

text \<open>
  Statements, patterns and blocks, \<open>compiler/parse/parser.go\<close>. Statements recurse through blocks; the routines below
  the recursion take the statement parser as an argument.
\<close>

definition parseBlockStmts :: "nat \<Rightarrow> Stmt parser \<Rightarrow> Stmt list parser" where
  "parseBlockStmts n stmt =
     bindp (consume LBrace) (\<lambda>_.
     repeat n (\<lambda>out.
       bindp skipSeparators (\<lambda>_. bindp get_state (\<lambda>p.
       if peek_kind p = EOF then fail_here PAR0001 ''unterminated block''
       else if peek_kind p = RBrace then bindp next_tok (\<lambda>_. ret (Inr out))
       else bindp stmt (\<lambda>s. bindp skipSeparators (\<lambda>_. ret (Inl (out @ [s]))))))) [])"

definition parsePattern :: "nat \<Rightarrow> Pattern parser" where
  "parsePattern n =
     bindp get_state (\<lambda>p.
     if peek_kind p = Identifier \<and> tok_Text (peek p) = ''_'' then bindp next_tok (\<lambda>_. ret WildcardPattern)
     else bindp (expectIdentifier ''expected enum name in pattern'') (\<lambda>enumTok.
       bindp (on_fail (consume Dot) (\<lambda>p. err p (peek p) PAR0001 ''expected enum variant pattern'')) (\<lambda>_.
       bindp (expectIdentifier ''expected enum variant'') (\<lambda>variantTok.
       bindp (match_kind LParen) (\<lambda>open.
       if \<not> open then ret (VariantPattern (tok_Text enumTok) (tok_Text variantTok) [])
       else bindp (repeat n (\<lambda>bs.
           bindp (expectIdentifier ''expected pattern field name'') (\<lambda>name.
           bindp (consume Equal) (\<lambda>_.
           bindp (expectIdentifier ''expected pattern binding name'') (\<lambda>bind.
           let bs' = bs @ [\<lparr>binding_Name = tok_Text name, binding_Bind = tok_Text bind\<rparr>] in
           bindp (match_kind Comma) (\<lambda>comma.
           if \<not> comma then ret (Inr bs') else bindp skipSeparators (\<lambda>_. ret (Inl bs'))))))) []) (\<lambda>bs.
         bindp (consume RParen) (\<lambda>_.
         ret (VariantPattern (tok_Text enumTok) (tok_Text variantTok) bs))))))))"

definition parseLetStmt :: "nat \<Rightarrow> Stmt parser" where
  "parseLetStmt n =
     bindp next_tok (\<lambda>start.
     bindp (expectIdentifier ''expected variable name'') (\<lambda>name.
     bindp (consume Equal) (\<lambda>_.
     bindp (parseExpr n 0) (\<lambda>expr.
     ret (LetStmt (tok_Text name) expr (span (tok_Start start) (span_End (expr_span expr))))))))"

definition parseReturnStmt :: "nat \<Rightarrow> Stmt parser" where
  "parseReturnStmt n =
     bindp next_tok (\<lambda>start.
     bindp skipSeparators (\<lambda>_. bindp get_state (\<lambda>p.
     if peek_kind p \<in> {RBrace, EOF, Semicolon, Newline}
     then ret (ReturnStmt None (span (tok_Start start) (tok_End start)))
     else bindp (parseExpr n 0) (\<lambda>expr.
       ret (ReturnStmt (Some expr) (span (tok_Start start) (span_End (expr_span expr))))))))"

definition parseIfStmt :: "nat \<Rightarrow> Stmt parser \<Rightarrow> Stmt parser" where
  "parseIfStmt n stmt =
     bindp next_tok (\<lambda>start.
     bindp (parseExpr n 0) (\<lambda>cond.
     bindp (parseBlockStmts n stmt) (\<lambda>thenBody.
     bindp (match_kind KeywordElse) (\<lambda>has_else.
     bindp (if has_else then parseBlockStmts n stmt else ret []) (\<lambda>elseBody.
     bindp get_state (\<lambda>p.
     ret (IfStmt cond thenBody elseBody (span (tok_Start start) (tok_End (previous p))))))))))"

definition parseIfLetStmt :: "nat \<Rightarrow> Stmt parser \<Rightarrow> Stmt parser" where
  "parseIfLetStmt n stmt =
     bindp next_tok (\<lambda>start.
     bindp (consume KeywordLet) (\<lambda>_.
     bindp (parsePattern n) (\<lambda>pattern.
     bindp (consume Equal) (\<lambda>_.
     bindp (parseExpr n 0) (\<lambda>value.
     bindp (parseBlockStmts n stmt) (\<lambda>body.
     bindp get_state (\<lambda>p.
     ret (IfLetStmt pattern value body (span (tok_Start start) (tok_End (previous p)))))))))))"

definition match_arm :: "nat \<Rightarrow> Stmt parser \<Rightarrow> MatchArm parser" where
  "match_arm n stmt =
     bindp get_state (\<lambda>p.
     bindp (parsePattern n) (\<lambda>pat.
     bindp (consume FatArrow) (\<lambda>_.
     bindp (parseBlockStmts n stmt) (\<lambda>body.
     bindp get_state (\<lambda>p'.
     ret (MatchArm pat body (span (tok_Start (peek p)) (tok_End (previous p')))))))))"

definition parseMatchStmt :: "nat \<Rightarrow> Stmt parser \<Rightarrow> Stmt parser" where
  "parseMatchStmt n stmt =
     bindp next_tok (\<lambda>start.
     bindp (parseExpr n 0) (\<lambda>value.
     bindp (consume LBrace) (\<lambda>_.
     repeat n (\<lambda>arms.
       bindp skipSeparators (\<lambda>_. bindp get_state (\<lambda>p.
       if peek_kind p = RBrace
       then bindp next_tok (\<lambda>_. bindp get_state (\<lambda>p'.
         ret (Inr (MatchStmt value arms (span (tok_Start start) (tok_End (previous p')))))))
       else bindp (match_arm n stmt) (\<lambda>arm. ret (Inl (arms @ [arm])))))) [])))"

definition parseWhileStmt :: "nat \<Rightarrow> Stmt parser \<Rightarrow> Stmt parser" where
  "parseWhileStmt n stmt =
     bindp next_tok (\<lambda>start.
     bindp (parseExpr n 0) (\<lambda>cond.
     bindp (parseBlockStmts n stmt) (\<lambda>body.
     bindp get_state (\<lambda>p.
     ret (WhileStmt cond body (span (tok_Start start) (tok_End (previous p))))))))"

definition parseForStmt :: "nat \<Rightarrow> Stmt parser \<Rightarrow> Stmt parser" where
  "parseForStmt n stmt =
     bindp next_tok (\<lambda>start.
     bindp (expectIdentifier ''expected loop variable'') (\<lambda>name.
     bindp (require KeywordIn ''expected 'in' in for loop'') (\<lambda>_.
     bindp (parseExpr n 0) (\<lambda>expr.
     bindp (parseBlockStmts n stmt) (\<lambda>body.
     bindp get_state (\<lambda>p.
     ret (ForStmt (tok_Text name) expr body (span (tok_Start start) (tok_End (previous p))))))))))"

definition parseWithStmt :: "nat \<Rightarrow> Stmt parser \<Rightarrow> Stmt parser" where
  "parseWithStmt n stmt =
     bindp next_tok (\<lambda>start.
     bindp (parseExpr n 0) (\<lambda>expr.
     bindp (expectIdentifier ''expected as'') (\<lambda>asTok.
     if tok_Text asTok \<noteq> ''as'' then fail_tok asTok PAR0001 ''expected as''
     else bindp (expectIdentifier ''expected frame name'') (\<lambda>nameTok.
     bindp (parseBlockStmts n stmt) (\<lambda>body.
     bindp get_state (\<lambda>p.
     ret (WithStmt expr (tok_Text nameTok) body (span (tok_Start start) (tok_End (previous p))))))))))"

definition parseExprOrAssignStmt :: "nat \<Rightarrow> Stmt parser" where
  "parseExprOrAssignStmt n =
     bindp (parseExpr n 0) (\<lambda>left.
     bindp (match_kind Equal) (\<lambda>assign.
     if assign
     then bindp (parseExpr n 0) (\<lambda>right.
       ret (AssignStmt left right (span (span_Start (expr_span left)) (span_End (expr_span right)))))
     else ret (ExprStmt left (expr_span left))))"

definition stmt_body :: "nat \<Rightarrow> Stmt parser \<Rightarrow> Stmt parser" where
  "stmt_body n stmt =
     bindp get_state (\<lambda>p.
     let kind = peek_kind p in
     if kind = KeywordLet then parseLetStmt n
     else if kind = KeywordReturn then parseReturnStmt n
     else if kind = KeywordIf
     then if tok_Kind (peekN p 1) = KeywordLet then parseIfLetStmt n stmt else parseIfStmt n stmt
     else if kind = KeywordMatch then parseMatchStmt n stmt
     else if kind = KeywordWhile then parseWhileStmt n stmt
     else if kind = KeywordFor then parseForStmt n stmt
     else if kind = KeywordWith then parseWithStmt n stmt
     else if kind = KeywordAsm then fail_here PAR0001 ''inline asm blocks are not allowed in v0''
     else parseExprOrAssignStmt n)"

primrec parseStmt :: "nat \<Rightarrow> Stmt parser" where
  "parseStmt 0 = (\<lambda>p. Exhausted)"
| "parseStmt (Suc n) = stmt_body (Suc n) (parseStmt n)"

abbreviation parse_block :: "nat \<Rightarrow> Stmt list parser" where
  "parse_block n \<equiv> parseBlockStmts n (parseStmt n)"

text \<open>The source between the braces of an assembler body.\<close>

definition captureAsmBody :: "nat \<Rightarrow> AsmBody parser" where
  "captureAsmBody n =
     bindp (nextIf LBrace) (\<lambda>open.
     if tok_Kind open \<noteq> LBrace then fail_tok open PAR0001 (''asm requires '{'' @ [CHR 0x27])
     else repeat n (\<lambda>depth :: int.
       bindp get_state (\<lambda>p.
       if \<not> (0 < depth \<and> peek_kind p \<noteq> EOF) then fail_tok open PAR0001 ''unterminated asm body''
       else bindp next_tok (\<lambda>tok.
         let depth' = (if tok_Kind tok = LBrace then depth + 1 else if tok_Kind tok = RBrace then depth - 1 else depth) in
         if depth' = 0
         then ret (Inr \<lparr>asm_Source = take (tok_Start tok - tok_End open) (drop (tok_End open) (p_src p)),
                asm_Span = span (tok_End open) (tok_Start tok)\<rparr>)
         else ret (Inl depth')))) 1)"

end
