(* ===== verification/Parser_Decl.thy ===== *)
theory Parser_Decl
  imports Parser_Stmt Source_Files
begin

text \<open>
  Declarations and modules, \<open>compiler/parse/parser.go\<close>. Brace-delimited bodies are loops; the first argument of a
  routine bounds its loops and the recursion of what it parses.
\<close>

section \<open>Fields, parameters and methods\<close>

definition parseFieldDecl :: "nat \<Rightarrow> Field parser" where
  "parseFieldDecl n =
     bindp (expectIdentifier ''expected field name'') (\<lambda>name.
     bindp (consume Colon) (\<lambda>_.
     bindp (parseTypeRef n) (\<lambda>typ.
     bindp get_state (\<lambda>p.
     ret \<lparr>field_Name = tok_Text name, field_Type = typ, field_Span = span (tok_Start name) (tok_End (previous p))\<rparr>))))"

definition parseFieldListUntil :: "nat \<Rightarrow> Kind \<Rightarrow> Field list parser" where
  "parseFieldListUntil n stop =
     bindp (match_kind stop) (\<lambda>empty.
     if empty then ret []
     else repeat n (\<lambda>fields.
       bindp skipSeparators (\<lambda>_. bindp get_state (\<lambda>p.
       if peek_kind p = stop then bindp next_tok (\<lambda>_. ret (Inr fields))
       else bindp (parseFieldDecl n) (\<lambda>field.
         bindp skipSeparators (\<lambda>_. bindp (match_kind Comma) (\<lambda>comma.
         if comma
         then bindp skipSeparators (\<lambda>_. bindp get_state (\<lambda>p1.
           if peek_kind p1 = stop then fail_here PAR0001 ''trailing comma'' else ret (Inl (fields @ [field]))))
         else bindp get_state (\<lambda>p1.
           if peek_kind p1 \<noteq> stop then fail_here PAR0001 ''expected ',' or ')' in enum variant fields''
           else bindp next_tok (\<lambda>_. ret (Inr (fields @ [field])))))))))) [])"

text \<open>The check that two declarations on one line are separated.\<close>

definition separator_missing :: "Parser \<Rightarrow> int \<Rightarrow> bool \<Rightarrow> bool \<Rightarrow> bool" where
  "separator_missing p prevEnd prevHasSeparator sawSep \<longleftrightarrow>
     0 \<le> prevEnd \<and> \<not> prevHasSeparator \<and> \<not> sawSep \<and> lineOf p prevEnd = lineOf p (int (tok_Start (peek p)))"

definition separator_message :: string where
  "separator_message = ''declarations must be separated by newline or ';'' @ [CHR 0x27]"

definition parseFieldContainer :: "nat \<Rightarrow> Field list parser" where
  "parseFieldContainer n =
     bindp (consume LBrace) (\<lambda>_.
     bindp (repeat n (\<lambda>(fields, prevEnd, prevHasSeparator).
       bindp get_state (\<lambda>p0.
       if peek_kind p0 = RBrace \<or> peek_kind p0 = EOF then ret (Inr fields)
       else bindp skipSeparators (\<lambda>sawSep. bindp get_state (\<lambda>p.
         if peek_kind p = RBrace \<or> peek_kind p = EOF then ret (Inr fields)
         else if separator_missing p prevEnd prevHasSeparator sawSep then fail_here PAR0002 separator_message
         else bindp (parseFieldDecl n) (\<lambda>field.
           ret (Inl (fields @ [field], int (span_End (field_Span field)), False))))))) ([], -1, True)) (\<lambda>fields.
     bindp (consume RBrace) (\<lambda>_. ret fields)))"

definition param_more :: "Param list \<Rightarrow> (Param list + Param list) parser" where
  "param_more params =
     bindp skipSeparators (\<lambda>_. bindp (match_kind Comma) (\<lambda>comma.
     if \<not> comma then ret (Inr params)
     else bindp skipSeparators (\<lambda>_. bindp get_state (\<lambda>p.
       if peek_kind p = RParen then fail_here PAR0001 ''trailing comma'' else ret (Inl params)))))"

definition parseParams :: "nat \<Rightarrow> Param list parser" where
  "parseParams n =
     bindp skipSeparators (\<lambda>_. bindp get_state (\<lambda>p.
     if peek_kind p = RParen then ret []
     else repeat n (\<lambda>params.
       bindp skipSeparators (\<lambda>_.
       bindp (expectIdentifier ''expected parameter name'') (\<lambda>name.
       bindp get_state (\<lambda>p1.
       if tok_Text name = ''self'' \<and> params = [] \<and> peek_kind p1 \<noteq> Colon
       then param_more (params @ [\<lparr>param_Name = tok_Text name, param_Type = empty_type, param_Span = span (tok_Start name) (tok_End name)\<rparr>])
       else bindp (consume Colon) (\<lambda>_.
         bindp (parseTypeRef n) (\<lambda>typ.
         bindp get_state (\<lambda>p2.
         param_more (params @ [\<lparr>param_Name = tok_Text name, param_Type = typ,
           param_Span = span (tok_Start name) (tok_End (previous p2))\<rparr>])))))))) []))"

text \<open>The part of a method that trait methods share: name to return type.\<close>

definition method_signature :: "nat \<Rightarrow> string \<Rightarrow> MethodDecl parser" where
  "method_signature n msg =
     bindp (expectIdentifier msg) (\<lambda>name.
     bindp (parseTypeParams n) (\<lambda>typeParams.
     bindp (consume LParen) (\<lambda>_.
     bindp (parseParams n) (\<lambda>params.
     bindp (consume RParen) (\<lambda>_.
     bindp (parseWhereClause n) (\<lambda>whr.
     bindp (match_kind Arrow) (\<lambda>arrow.
     bindp (if arrow then parseTypeRef n else ret empty_type) (\<lambda>rty.
     ret \<lparr>method_Receiver = '''', method_Name = tok_Text name, method_TypeParams = typeParams, method_Where = whr,
       method_Params = params, method_Return = rty, method_Body = [], method_Asm = None, method_IsAsm = False,
       method_IsStart = False, method_Span = no_span\<rparr>))))))))"

definition method_keyword :: "Token \<Rightarrow> (bool \<times> bool) parser" where
  "method_keyword start =
     (if tok_Kind start = KeywordAsm
      then bindp next_tok (\<lambda>fnTok. if tok_Kind fnTok \<noteq> KeywordFn then fail_tok fnTok PAR0001 ''expected fn after asm'' else ret (True, False))
      else if tok_Kind start = KeywordStart
      then bindp next_tok (\<lambda>fnTok. if tok_Kind fnTok \<noteq> KeywordFn then fail_tok fnTok PAR0001 ''expected fn after start'' else ret (False, True))
      else if tok_Kind start = KeywordFn then ret (False, False)
      else fail_tok start PAR0001 ''expected method declaration'')"

definition parseMethodDecl :: "nat \<Rightarrow> MethodDecl parser" where
  "parseMethodDecl n =
     bindp next_tok (\<lambda>start.
     bindp (method_keyword start) (\<lambda>(isAsm, isStart).
     bindp (method_signature n ''expected method name'') (\<lambda>sig.
     if isAsm
     then bindp (captureAsmBody n) (\<lambda>body. bindp get_state (\<lambda>p.
       ret (sig\<lparr>method_Asm := Some body, method_IsAsm := True, method_IsStart := isStart,
         method_Span := span (tok_Start start) (tok_End (previous p))\<rparr>)))
     else bindp (parse_block n) (\<lambda>body. bindp get_state (\<lambda>p.
       ret (sig\<lparr>method_Body := body, method_IsStart := isStart, method_Span := span (tok_Start start) (tok_End (previous p))\<rparr>))))))"

definition parseTraitMethodDecl :: "nat \<Rightarrow> MethodDecl parser" where
  "parseTraitMethodDecl n =
     bindp (consume KeywordFn) (\<lambda>start.
     bindp (method_signature n ''expected trait method name'') (\<lambda>sig.
     bindp get_state (\<lambda>p.
     ret (sig\<lparr>method_Span := span (tok_Start start) (tok_End (previous p))\<rparr>))))"

definition parseInterruptEventDecl :: "nat \<Rightarrow> InterruptEventDecl parser" where
  "parseInterruptEventDecl n =
     bindp next_tok (\<lambda>start.
     bindp (consume KeywordReceiver) (\<lambda>_.
     bindp (consume Arrow) (\<lambda>_.
     bindp (parseTypeRef n) (\<lambda>eventType.
     bindp (parse_block n) (\<lambda>body.
     bindp get_state (\<lambda>p.
     ret \<lparr>ie_EventType = eventType, ie_Body = body, ie_Span = span (tok_Start start) (tok_End (previous p))\<rparr>))))))"

definition parseOnHandlerDecl :: "nat \<Rightarrow> OnHandlerDecl parser" where
  "parseOnHandlerDecl n =
     bindp next_tok (\<lambda>start.
     bindp (expectIdentifier ''expected interrupt path field name'') (\<lambda>pathField.
     bindp (consume Dot) (\<lambda>_.
     bindp (consume KeywordInterrupt) (\<lambda>_.
     bindp (consume LParen) (\<lambda>_.
     bindp (expectIdentifier ''expected interrupt event parameter name'') (\<lambda>paramName.
     bindp (consume Colon) (\<lambda>_.
     bindp (parseTypeRef n) (\<lambda>paramType.
     bindp (consume RParen) (\<lambda>_.
     bindp (parse_block n) (\<lambda>body.
     bindp get_state (\<lambda>p.
     ret \<lparr>on_PathField = tok_Text pathField, on_ParamName = tok_Text paramName, on_ParamType = paramType, on_Body = body,
       on_Span = span (tok_Start start) (tok_End (previous p))\<rparr>)))))))))))"

section \<open>Composite bodies\<close>

datatype compositeKind = compositeClass | compositeDriver | compositeDriverPath | compositeExecutor

record members =
  mem_fields :: "Field list"
  mem_methods :: "MethodDecl list"
  mem_interrupts :: "InterruptEventDecl list"
  mem_handlers :: "OnHandlerDecl list"

definition unexpected_member :: "'a parser" where
  "unexpected_member = fail_here PAR0001 ''unexpected token in declaration body''"

text \<open>One member, with the end of its span.\<close>

definition parse_member :: "nat \<Rightarrow> compositeKind \<Rightarrow> members \<Rightarrow> (members \<times> int) parser" where
  "parse_member n kind ms =
     bindp get_state (\<lambda>p.
     if peek_kind p \<in> {KeywordAsm, KeywordStart, KeywordFn}
     then bindp (parseMethodDecl n) (\<lambda>m. ret (ms\<lparr>mem_methods := mem_methods ms @ [m]\<rparr>, int (span_End (method_Span m))))
     else if peek_kind p = KeywordInterrupt
     then if kind \<noteq> compositeDriverPath then unexpected_member
          else bindp (parseInterruptEventDecl n) (\<lambda>e. ret (ms\<lparr>mem_interrupts := mem_interrupts ms @ [e]\<rparr>, int (span_End (ie_Span e))))
     else if peek_kind p = KeywordOn
     then if kind \<noteq> compositeExecutor then unexpected_member
          else bindp (parseOnHandlerDecl n) (\<lambda>h. ret (ms\<lparr>mem_handlers := mem_handlers ms @ [h]\<rparr>, int (span_End (on_Span h))))
     else if peek_kind p = Identifier
     then bindp (parseFieldDecl n) (\<lambda>f. ret (ms\<lparr>mem_fields := mem_fields ms @ [f]\<rparr>, int (span_End (field_Span f))))
     else unexpected_member)"

definition parseCompositeMembers :: "nat \<Rightarrow> compositeKind \<Rightarrow> members parser" where
  "parseCompositeMembers n kind =
     bindp (consume LBrace) (\<lambda>_.
     bindp (repeat n (\<lambda>(ms, prevEnd, prevHasSeparator).
       bindp get_state (\<lambda>p0.
       if peek_kind p0 = RBrace \<or> peek_kind p0 = EOF then ret (Inr ms)
       else bindp skipSeparators (\<lambda>sawSep. bindp get_state (\<lambda>p.
         if peek_kind p = RBrace \<or> peek_kind p = EOF then ret (Inr ms)
         else if separator_missing p prevEnd prevHasSeparator sawSep \<and> tok_Kind (previous p) \<noteq> RBrace
         then fail_here PAR0002 separator_message
         else bindp (parse_member n kind ms) (\<lambda>(ms', prevEnd'). ret (Inl (ms', prevEnd', False)))))))
       (\<lparr>mem_fields = [], mem_methods = [], mem_interrupts = [], mem_handlers = []\<rparr>, -1, True)) (\<lambda>ms.
     bindp (consume RBrace) (\<lambda>_. ret ms)))"

section \<open>Declarations\<close>

text \<open>The loop of a brace-delimited body: separators, then a check for its end, then one item.\<close>

definition at_end :: "Parser \<Rightarrow> bool" where
  "at_end p \<longleftrightarrow> peek_kind p = RBrace \<or> peek_kind p = EOF"

definition parse_variant :: "nat \<Rightarrow> EnumVariant parser" where
  "parse_variant n =
     bindp (expectIdentifier ''expected enum variant name'') (\<lambda>variantName.
     bindp (match_kind LParen) (\<lambda>open.
     bindp (if open
            then bindp (parseFieldListUntil n RParen) (\<lambda>fs. bindp get_state (\<lambda>p. ret (fs, tok_End (previous p))))
            else ret ([], tok_End variantName)) (\<lambda>(fields, spanEnd).
     bindp (match_kind Comma) (\<lambda>_.
     ret \<lparr>variant_Name = tok_Text variantName, variant_Fields = fields, variant_Span = span (tok_Start variantName) spanEnd\<rparr>))))"

definition parseEnumDecl :: "nat \<Rightarrow> Decl parser" where
  "parseEnumDecl n =
     bindp next_tok (\<lambda>start.
     bindp (expectIdentifier ''expected enum name'') (\<lambda>name.
     bindp (parseTypeParams n) (\<lambda>typeParams.
     bindp (consume LBrace) (\<lambda>_.
     bindp (repeat n (\<lambda>variants.
       bindp get_state (\<lambda>p0.
       if at_end p0 then ret (Inr variants)
       else bindp skipSeparators (\<lambda>_. bindp get_state (\<lambda>p.
         if at_end p then ret (Inr variants)
         else bindp (parse_variant n) (\<lambda>v. ret (Inl (variants @ [v]))))))) []) (\<lambda>variants.
     bindp (require RBrace ''expected '}' after enum variants'') (\<lambda>_.
     bindp get_state (\<lambda>p.
     ret (EnumD \<lparr>enum_Name = tok_Text name, enum_TypeParams = typeParams, enum_Variants = variants,
       enum_Span = span (tok_Start start) (tok_End (previous p))\<rparr>))))))))"

definition parseConstDecl :: "nat \<Rightarrow> Decl parser" where
  "parseConstDecl n =
     bindp next_tok (\<lambda>start.
     bindp (expectIdentifier ''expected const name'') (\<lambda>name.
     bindp (consume Colon) (\<lambda>_.
     bindp (parseTypeRef n) (\<lambda>typeRef.
     bindp (consume Equal) (\<lambda>_.
     bindp (parseExpr n 0) (\<lambda>value.
     ret (ConstD \<lparr>const_Name = tok_Text name, const_Type = typeRef, const_Value = value,
       const_Span = span (tok_Start start) (span_End (expr_span value))\<rparr>)))))))"

definition parseEventLayoutField :: "nat \<Rightarrow> EventLayoutField parser" where
  "parseEventLayoutField n =
     bindp (expectIdentifier ''expected layout field name'') (\<lambda>name.
     bindp (consume Colon) (\<lambda>_.
     bindp (parseTypeRef n) (\<lambda>typ.
     bindp (match_kind Equal) (\<lambda>eq.
     bindp (if eq then bindp (parseExpr n 0) (\<lambda>e. ret (Some e)) else ret None) (\<lambda>encode.
     bindp get_state (\<lambda>p.
     ret \<lparr>elf_Name = tok_Text name, elf_Type = typ, elf_Encode = encode, elf_Span = span (tok_Start name) (tok_End (previous p))\<rparr>))))))"

text \<open>The optional word \<open>current\<close> of a layout.\<close>

definition parse_current :: "bool parser" where
  "parse_current = bindp get_state (\<lambda>p.
     if peek_kind p = Identifier \<and> tok_Text (peek p) = ''current'' then bindp next_tok (\<lambda>_. ret True) else ret False)"

definition parseEventLayoutDecl :: "nat \<Rightarrow> EventLayoutDecl parser" where
  "parseEventLayoutDecl n =
     bindp (consumeContextualIdentifier ''layout'' ''expected layout declaration'') (\<lambda>start.
     bindp (on_fail (consume Integer) (\<lambda>p. err p (peek p) PAR0001 ''expected layout id'')) (\<lambda>lid.
     bindp parse_current (\<lambda>current.
     bindp (consume LBrace) (\<lambda>_.
     bindp (repeat n (\<lambda>fields.
       bindp get_state (\<lambda>p0.
       if at_end p0 then ret (Inr fields)
       else bindp skipSeparators (\<lambda>_. bindp get_state (\<lambda>p.
         if at_end p then ret (Inr fields)
         else bindp (parseEventLayoutField n) (\<lambda>f. bindp skipSeparators (\<lambda>_. ret (Inl (fields @ [f])))))))) []) (\<lambda>fields.
     bindp (consume RBrace) (\<lambda>_.
     bindp get_state (\<lambda>p.
     ret \<lparr>eld_ID = tok_Text lid, eld_Current = current, eld_Fields = fields, eld_Span = span (tok_Start start) (tok_End (previous p))\<rparr>)))))))"

definition parse_mapping :: "LayoutUpcastMapping parser" where
  "parse_mapping =
     bindp (expectIdentifier ''expected upcast source field'') (\<lambda>fromField.
     bindp (consume Arrow) (\<lambda>_.
     bindp (expectIdentifier ''expected upcast target field'') (\<lambda>toField.
     bindp skipSeparators (\<lambda>_.
     ret \<lparr>mapping_From = tok_Text fromField, mapping_To = tok_Text toField,
       mapping_Span = span (tok_Start fromField) (tok_End toField)\<rparr>))))"

definition parseLayoutUpcastDecl :: "nat \<Rightarrow> LayoutUpcastDecl parser" where
  "parseLayoutUpcastDecl n =
     bindp (consumeContextualIdentifier ''upcast'' ''expected upcast declaration'') (\<lambda>start.
     bindp (on_fail (consume Integer) (\<lambda>p. err p (peek p) PAR0001 ''expected upcast source layout id'')) (\<lambda>fromId.
     bindp (consume Arrow) (\<lambda>_.
     bindp (on_fail (consume Integer) (\<lambda>p. err p (peek p) PAR0001 ''expected upcast target layout id'')) (\<lambda>toId.
     bindp (consume LBrace) (\<lambda>_.
     bindp (repeat n (\<lambda>mappings.
       bindp get_state (\<lambda>p0.
       if at_end p0 then ret (Inr mappings)
       else bindp skipSeparators (\<lambda>_. bindp get_state (\<lambda>p.
         if at_end p then ret (Inr mappings)
         else bindp parse_mapping (\<lambda>m. ret (Inl (mappings @ [m]))))))) []) (\<lambda>mappings.
     bindp (consume RBrace) (\<lambda>_.
     bindp get_state (\<lambda>p.
     ret \<lparr>upcast_FromID = tok_Text fromId, upcast_ToID = tok_Text toId, upcast_Mappings = mappings,
       upcast_Span = span (tok_Start start) (tok_End (previous p))\<rparr>))))))))"

definition contextual :: "Parser \<Rightarrow> string \<Rightarrow> bool" where
  "contextual p word \<longleftrightarrow> peek_kind p = Identifier \<and> tok_Text (peek p) = word"

definition event_item :: "nat \<Rightarrow> Field list \<times> EventLayoutDecl list \<times> LayoutUpcastDecl list \<Rightarrow>
    (Field list \<times> EventLayoutDecl list \<times> LayoutUpcastDecl list) parser" where
  "event_item n = (\<lambda>(fields, layouts, upcasts). bindp get_state (\<lambda>p.
     if contextual p ''layout'' then bindp (parseEventLayoutDecl n) (\<lambda>l. ret (fields, layouts @ [l], upcasts))
     else if contextual p ''upcast'' then bindp (parseLayoutUpcastDecl n) (\<lambda>u. ret (fields, layouts, upcasts @ [u]))
     else bindp (parseFieldDecl n) (\<lambda>f. ret (fields @ [f], layouts, upcasts))))"

definition parseEventDecl :: "nat \<Rightarrow> Decl parser" where
  "parseEventDecl n =
     bindp next_tok (\<lambda>start.
     bindp (expectIdentifier ''expected event name'') (\<lambda>name.
     bindp (consumeContextualIdentifier ''id'' ''expected id in event declaration'') (\<lambda>_.
     bindp (on_fail (consume Integer) (\<lambda>p. err p (peek p) PAR0001 ''expected event id'')) (\<lambda>eid.
     bindp (consume LBrace) (\<lambda>_.
     bindp (repeat n (\<lambda>acc.
       bindp get_state (\<lambda>p0.
       if at_end p0 then ret (Inr acc)
       else bindp skipSeparators (\<lambda>_. bindp get_state (\<lambda>p.
         if at_end p then ret (Inr acc)
         else bindp (event_item n acc) (\<lambda>acc'. bindp skipSeparators (\<lambda>_. ret (Inl acc'))))))) ([], [], [])) (\<lambda>(fields, layouts, upcasts).
     bindp (consume RBrace) (\<lambda>_.
     bindp get_state (\<lambda>p.
     ret (EventD \<lparr>event_Name = tok_Text name, event_ID = tok_Text eid, event_Fields = fields, event_Layouts = layouts,
       event_Upcasts = upcasts, event_Span = span (tok_Start start) (tok_End (previous p))\<rparr>)))))))))"

definition parseProjectionLayoutDecl :: "nat \<Rightarrow> ProjectionLayoutDecl parser" where
  "parseProjectionLayoutDecl n =
     bindp (consumeContextualIdentifier ''layout'' ''expected layout declaration'') (\<lambda>start.
     bindp (on_fail (consume Integer) (\<lambda>p. err p (peek p) PAR0001 ''expected layout id'')) (\<lambda>lid.
     bindp parse_current (\<lambda>current.
     bindp (parseFieldContainer n) (\<lambda>fields.
     bindp get_state (\<lambda>p.
     ret \<lparr>pld_ID = tok_Text lid, pld_Current = current, pld_Fields = fields, pld_Span = span (tok_Start start) (tok_End (previous p))\<rparr>)))))"

definition projection_item :: "nat \<Rightarrow> ProjectionLayoutDecl list \<times> LayoutUpcastDecl list \<Rightarrow>
    (ProjectionLayoutDecl list \<times> LayoutUpcastDecl list) parser" where
  "projection_item n = (\<lambda>(layouts, upcasts). bindp get_state (\<lambda>p.
     if contextual p ''layout'' then bindp (parseProjectionLayoutDecl n) (\<lambda>l. ret (layouts @ [l], upcasts))
     else if contextual p ''upcast'' then bindp (parseLayoutUpcastDecl n) (\<lambda>u. ret (layouts, upcasts @ [u]))
     else fail_here PAR0001 ''unexpected token in projection declaration''))"

definition parseProjectionDecl :: "nat \<Rightarrow> Decl parser" where
  "parseProjectionDecl n =
     bindp next_tok (\<lambda>start.
     bindp (expectIdentifier ''expected projection name'') (\<lambda>name.
     bindp (consumeContextualIdentifier ''id'' ''expected id in projection declaration'') (\<lambda>_.
     bindp (on_fail (consume Integer) (\<lambda>p. err p (peek p) PAR0001 ''expected projection id'')) (\<lambda>pid.
     bindp (consume LBrace) (\<lambda>_.
     bindp (repeat n (\<lambda>acc.
       bindp get_state (\<lambda>p0.
       if at_end p0 then ret (Inr acc)
       else bindp skipSeparators (\<lambda>_. bindp get_state (\<lambda>p.
         if at_end p then ret (Inr acc)
         else bindp (projection_item n acc) (\<lambda>acc'. bindp skipSeparators (\<lambda>_. ret (Inl acc'))))))) ([], [])) (\<lambda>(layouts, upcasts).
     bindp (consume RBrace) (\<lambda>_.
     bindp get_state (\<lambda>p.
     ret (ProjectionD \<lparr>projection_Name = tok_Text name, projection_ID = tok_Text pid, projection_Layouts = layouts,
       projection_Upcasts = upcasts, projection_Span = span (tok_Start start) (tok_End (previous p))\<rparr>)))))))))"

definition parseStaticAssertDecl :: "nat \<Rightarrow> Decl parser" where
  "parseStaticAssertDecl n =
     bindp next_tok (\<lambda>start.
     bindp (require LParen ''expected '(' after static_assert'') (\<lambda>_.
     bindp (parseExpr n 0) (\<lambda>expr.
     bindp (consume Comma) (\<lambda>_.
     bindp (expectIdentifier ''expected message argument'') (\<lambda>name.
     if tok_Text name \<noteq> ''message'' then fail_tok name PAR0001 ''expected message argument''
     else bindp (consume Equal) (\<lambda>_.
     bindp (nextIf String) (\<lambda>msgTok.
     if tok_Kind msgTok \<noteq> String then fail_tok msgTok PAR0001 ''expected message string in static_assert''
     else bindp (consume RParen) (\<lambda>_.
     bindp get_state (\<lambda>p.
     ret (StaticAssertD \<lparr>assert_Expr = expr, assert_Message = tok_Text msgTok,
       assert_Span = span (tok_Start start) (tok_End (previous p))\<rparr>))))))))))"

text \<open>The heads of generic declarations: name, type parameters and bounds.\<close>

definition generic_head :: "nat \<Rightarrow> string \<Rightarrow> (string \<times> TypeParam list \<times> TraitBound list) parser" where
  "generic_head n msg =
     bindp (expectIdentifier msg) (\<lambda>name.
     bindp (parseTypeParams n) (\<lambda>typeParams.
     bindp (parseWhereClause n) (\<lambda>whr.
     ret (tok_Text name, typeParams, whr))))"

definition parseDataDecl :: "nat \<Rightarrow> Decl parser" where
  "parseDataDecl n =
     bindp next_tok (\<lambda>start.
     bindp (generic_head n ''expected data name'') (\<lambda>(name, typeParams, whr).
     bindp (parseCompositeMembers n compositeClass) (\<lambda>ms.
     bindp get_state (\<lambda>p.
     ret (DataD \<lparr>data_Name = name, data_TypeParams = typeParams, data_Where = whr, data_Fields = mem_fields ms, data_Methods = mem_methods ms,
       data_Span = span (tok_Start start) (tok_End (previous p))\<rparr>)))))"

definition parseClassDecl :: "nat \<Rightarrow> bool \<Rightarrow> Decl parser" where
  "parseClassDecl n unique =
     bindp next_tok (\<lambda>start.
     bindp (generic_head n ''expected class name'') (\<lambda>(name, typeParams, whr).
     bindp (parseCompositeMembers n compositeClass) (\<lambda>ms.
     bindp get_state (\<lambda>p.
     ret (ClassD \<lparr>class_Name = name, class_TypeParams = typeParams, class_Where = whr, class_Fields = mem_fields ms,
       class_Methods = mem_methods ms, class_Unique = unique, class_Span = span (tok_Start start) (tok_End (previous p))\<rparr>)))))"

definition parseDriverDecl :: "nat \<Rightarrow> bool \<Rightarrow> Decl parser" where
  "parseDriverDecl n unique =
     bindp get_state (\<lambda>p0.
     bindp (generic_head n ''expected driver name'') (\<lambda>(name, typeParams, whr).
     bindp (parseCompositeMembers n compositeDriver) (\<lambda>ms.
     bindp get_state (\<lambda>p.
     ret (DriverD \<lparr>driver_Name = name, driver_TypeParams = typeParams, driver_Where = whr, driver_Fields = mem_fields ms,
       driver_Methods = mem_methods ms, driver_Unique = unique, driver_Span = span (tok_Start (previous p0)) (tok_End (previous p))\<rparr>)))))"

definition parseDriverPathDecl :: "nat \<Rightarrow> Decl parser" where
  "parseDriverPathDecl n =
     bindp get_state (\<lambda>p0.
     bindp (expectIdentifier ''expected driver path name'') (\<lambda>name.
     bindp (parseCompositeMembers n compositeDriverPath) (\<lambda>ms.
     bindp get_state (\<lambda>p.
     ret (DriverPathD \<lparr>path_Name = tok_Text name, path_Fields = mem_fields ms, path_Methods = mem_methods ms,
       path_InterruptEvents = mem_interrupts ms, path_Span = span (tok_Start (previous p0)) (tok_End (previous p))\<rparr>)))))"

definition parseExecutorDecl :: "nat \<Rightarrow> Decl parser" where
  "parseExecutorDecl n =
     bindp next_tok (\<lambda>start.
     bindp (expectIdentifier ''expected executor name'') (\<lambda>name.
     bindp (parseCompositeMembers n compositeExecutor) (\<lambda>ms.
     bindp get_state (\<lambda>p.
     ret (ExecutorD \<lparr>executor_Name = tok_Text name, executor_Fields = mem_fields ms, executor_Methods = mem_methods ms,
       executor_OnHandlers = mem_handlers ms, executor_Span = span (tok_Start start) (tok_End (previous p))\<rparr>)))))"

definition parse_transition :: "Transition parser" where
  "parse_transition =
     bindp (expectIdentifier ''expected transition source'') (\<lambda>source.
     bindp (consume Arrow) (\<lambda>_.
     bindp (expectIdentifier ''expected transition destination'') (\<lambda>target.
     bindp (match_kind Comma) (\<lambda>_.
     bindp skipSeparators (\<lambda>_.
     ret \<lparr>transition_From = tok_Text source, transition_To = tok_Text target,
       transition_Span = span (tok_Start source) (tok_End target)\<rparr>)))))"

definition parseTransitions :: "nat \<Rightarrow> Transition list parser" where
  "parseTransitions n =
     bindp next_tok (\<lambda>_.
     bindp (require LBrace ''expected '{' after transitions'') (\<lambda>_.
     bindp (repeat n (\<lambda>out.
       bindp get_state (\<lambda>p0.
       if at_end p0 then ret (Inr out)
       else bindp skipSeparators (\<lambda>_. bindp get_state (\<lambda>p.
         if peek_kind p = RBrace then ret (Inr out)
         else bindp parse_transition (\<lambda>t. ret (Inl (out @ [t]))))))) []) (\<lambda>out.
     bindp (require RBrace ''unterminated transitions'') (\<lambda>_. ret out))))"

definition parsePhaseDecl :: "nat \<Rightarrow> PhaseDecl parser" where
  "parsePhaseDecl n =
     bindp next_tok (\<lambda>start.
     bindp (expectIdentifier ''expected phase name'') (\<lambda>nameTok.
     bindp (require LParen ''expected '(' after phase name'') (\<lambda>_.
     bindp (parseParams n) (\<lambda>params.
     bindp (require RParen ''expected ')' after phase params'') (\<lambda>_.
     bindp (require Arrow ''expected '->' in phase declaration'') (\<lambda>_.
     bindp (parseTypeRef n) (\<lambda>retType.
     bindp (parse_block n) (\<lambda>body.
     bindp get_state (\<lambda>p.
     ret \<lparr>phase_Name = tok_Text nameTok, phase_Params = params, phase_Return = retType, phase_Body = body,
       phase_Span = span (tok_Start start) (tok_End (previous p))\<rparr>)))))))))"

definition image_item :: "nat \<Rightarrow> Transition list \<times> PhaseDecl list \<Rightarrow> (Transition list \<times> PhaseDecl list) parser" where
  "image_item n = (\<lambda>(transitions, phases). bindp get_state (\<lambda>p.
     if peek_kind p = KeywordTransitions then bindp (parseTransitions n) (\<lambda>ts. ret (transitions @ ts, phases))
     else if peek_kind p = KeywordPhase then bindp (parsePhaseDecl n) (\<lambda>pd. ret (transitions, phases @ [pd]))
     else if peek_kind p = EOF then fail_here PAR0001 ''unterminated image declaration''
     else if peek_kind p = RBrace then ret (transitions, phases)
     else fail_here PAR0001 ''unexpected token in image body''))"

definition parseImageDecl :: "nat \<Rightarrow> Decl parser" where
  "parseImageDecl n =
     bindp next_tok (\<lambda>start.
     bindp (expectIdentifier ''expected image name'') (\<lambda>name.
     bindp (require LBrace ''expected '{' after image name'') (\<lambda>_.
     bindp (repeat n (\<lambda>acc.
       bindp get_state (\<lambda>p0.
       if at_end p0 then ret (Inr acc)
       else bindp skipSeparators (\<lambda>_. bindp (image_item n acc) (\<lambda>acc'. bindp skipSeparators (\<lambda>_. ret (Inl acc')))))) ([], [])) (\<lambda>(transitions, phases).
     bindp (require RBrace ''expected '}' after image body'') (\<lambda>_.
     bindp get_state (\<lambda>p.
     ret (ImageD \<lparr>image_Name = tok_Text name, image_Transitions = transitions, image_Phases = phases,
       image_Span = span (tok_Start start) (tok_End (previous p))\<rparr>)))))))"

definition parseTraitDecl :: "nat \<Rightarrow> Decl parser" where
  "parseTraitDecl n =
     bindp next_tok (\<lambda>start.
     bindp (expectIdentifier ''expected trait name'') (\<lambda>name.
     bindp (parseTypeParams n) (\<lambda>typeParams.
     bindp (consume LBrace) (\<lambda>_.
     bindp (repeat n (\<lambda>methods.
       bindp get_state (\<lambda>p0.
       if at_end p0 then ret (Inr methods)
       else bindp skipSeparators (\<lambda>_. bindp get_state (\<lambda>p.
         if peek_kind p = RBrace then ret (Inr methods)
         else bindp (parseTraitMethodDecl n) (\<lambda>m. bindp skipSeparators (\<lambda>_. ret (Inl (methods @ [m])))))))) []) (\<lambda>methods.
     bindp (consume RBrace) (\<lambda>_.
     bindp get_state (\<lambda>p.
     ret (TraitD \<lparr>trait_Name = tok_Text name, trait_TypeParams = typeParams, trait_Methods = methods,
       trait_Span = span (tok_Start start) (tok_End (previous p))\<rparr>))))))))"

definition parseImplDecl :: "nat \<Rightarrow> Decl parser" where
  "parseImplDecl n =
     bindp next_tok (\<lambda>start.
     bindp (parseTypeRef n) (\<lambda>trait.
     bindp (consume KeywordFor) (\<lambda>_.
     bindp (parseTypeRef n) (\<lambda>implemented.
     ret (ImplD \<lparr>impl_Trait = trait, impl_For = implemented, impl_Span = span (tok_Start start) (span_End (type_Span implemented))\<rparr>)))))"

text \<open>The declaration at the current token; the words before a declaration that may not be \<open>unique\<close>.\<close>

definition not_unique :: "bool \<Rightarrow> string \<Rightarrow> Decl parser \<Rightarrow> Decl parser" where
  "not_unique unique msg decl = (if unique then fail_here PAR0002 msg else decl)"

definition parseDecl :: "nat \<Rightarrow> Decl parser" where
  "parseDecl n =
     bindp (match_kind KeywordUnique) (\<lambda>unique. bindp get_state (\<lambda>p.
     let kind = peek_kind p in
     if kind = KeywordData then not_unique unique ''unique may not prefix data in v0'' (parseDataDecl n)
     else if kind = KeywordEnum then not_unique unique ''unique may not prefix enum in v0'' (parseEnumDecl n)
     else if kind = KeywordTrait then not_unique unique ''trait may not be unique in v0'' (parseTraitDecl n)
     else if kind = KeywordImpl then not_unique unique ''impl may not be unique in v0'' (parseImplDecl n)
     else if kind = KeywordClass then parseClassDecl n unique
     else if kind = KeywordDriver
     then bindp next_tok (\<lambda>_. bindp (match_kind KeywordPath) (\<lambda>isPath.
       if isPath then not_unique unique ''driver path is not unique in v0'' (parseDriverPathDecl n)
       else parseDriverDecl n unique))
     else if kind = KeywordExecutor then not_unique unique ''executor may not be unique in v0'' (parseExecutorDecl n)
     else if kind = KeywordImage then not_unique unique ''image may not be unique'' (parseImageDecl n)
     else if kind = KeywordEvent then not_unique unique ''event may not be unique'' (parseEventDecl n)
     else if kind = KeywordProjection then not_unique unique ''projection may not be unique'' (parseProjectionDecl n)
     else if kind = KeywordConst then not_unique unique ''unique may not prefix const in v0'' (parseConstDecl n)
     else if kind = KeywordStaticAssert
     then not_unique unique ''unique may not prefix static_assert in v0'' (parseStaticAssertDecl n)
     else if kind = KeywordFn then fail_here PAR0002 ''module-scope fn is not allowed in v0''
     else fail_here PAR0002 ''expected declaration''))"

section \<open>Modules\<close>

definition parse_import_names :: "nat \<Rightarrow> string list parser" where
  "parse_import_names n =
     bindp skipSeparators (\<lambda>_. bindp get_state (\<lambda>p.
     if peek_kind p = RBrace then ret []
     else repeat n (\<lambda>names.
       bindp skipSeparators (\<lambda>_.
       bindp (expectIdentifier ''expected imported name'') (\<lambda>name.
       bindp comma_more (\<lambda>comma.
       ret (if comma then Inl (names @ [tok_Text name]) else Inr (names @ [tok_Text name])))))) []))"

definition parseImport :: "nat \<Rightarrow> Import parser" where
  "parseImport n =
     bindp next_tok (\<lambda>start.
     if tok_Kind start \<noteq> KeywordUse then fail_tok start PAR0001 ''expected use declaration''
     else bindp (on_fail (consume LBrace) (\<lambda>p. err p (peek p) PAR0001 ''expected '{' after use'')) (\<lambda>_.
     bindp (parse_import_names n) (\<lambda>names.
     bindp (on_fail (consume RBrace) (\<lambda>p. err p (peek p) PAR0001 ''expected '}' in use declaration'')) (\<lambda>_.
     bindp (consumeIdentifier KeywordFrom ''expected from in use declaration'') (\<lambda>_.
     bindp (parseDottedName n) (\<lambda>path.
     bindp get_state (\<lambda>p.
     ret \<lparr>import_Names = names, import_Path = path, import_Span = span (tok_Start start) (tok_End (previous p))\<rparr>)))))))"

text \<open>
  A module. The code starts its list of diagnostics with those of the lexer and stops behind the module
  name when there are any: \<open>Failed []\<close> stands for that stop, and \<open>ParseModule\<close> puts the lexer's
  diagnostics in front.
\<close>

definition module_header :: "nat \<Rightarrow> (nat \<times> string) parser" where
  "module_header n =
     bindp skipSeparators (\<lambda>_.
     bindp (nextIf KeywordModule) (\<lambda>modTok.
     if tok_Kind modTok \<noteq> KeywordModule then fail_tok modTok PAR0001 ''expected module declaration''
     else bindp (parseDottedName n) (\<lambda>name. ret (tok_Start modTok, name))))"

definition parse_imports :: "nat \<Rightarrow> Import list parser" where
  "parse_imports n = bindp skipSeparators (\<lambda>_. repeat n (\<lambda>imports. bindp get_state (\<lambda>p.
     if peek_kind p \<noteq> KeywordUse then ret (Inr imports)
     else bindp (parseImport n) (\<lambda>imp. bindp skipSeparators (\<lambda>_. ret (Inl (imports @ [imp])))))) [])"

definition parse_decls :: "nat \<Rightarrow> Decl list parser" where
  "parse_decls n = repeat n (\<lambda>decls. bindp get_state (\<lambda>p0.
     if peek_kind p0 = EOF then ret (Inr decls)
     else bindp skipSeparators (\<lambda>_. bindp get_state (\<lambda>p.
       if peek_kind p = EOF then ret (Inr decls)
       else bindp (parseDecl n) (\<lambda>d. ret (Inl (decls @ [d]))))))) []"

definition parse_module :: "nat \<Rightarrow> Module parser" where
  "parse_module n =
     bindp (module_header n) (\<lambda>(start, name). bindp get_state (\<lambda>p0.
     if p_lexDiags p0 \<noteq> [] then (\<lambda>p. Failed [])
     else bindp (parse_imports n) (\<lambda>imports.
       bindp (parse_decls n) (\<lambda>decls.
       bindp get_state (\<lambda>p.
       ret \<lparr>module_Name = name, module_Imports = imports, module_Decls = decls,
         module_Span = span start (tok_End (previous p))\<rparr>)))))"

definition newParser :: "unicode_tables \<Rightarrow> string \<Rightarrow> string \<Rightarrow> Parser" where
  "newParser U path src = (let (toks, lexDiags) = All U src in
     \<lparr>p_path = path, p_src = src, p_toks = toks, p_idx = 0, p_lexDiags = lexDiags\<rparr>)"

text \<open>The bound on recursion and loops: twice the number of tokens and one, see \<open>Parser_Total\<close>.\<close>

definition parse_bound :: "Parser \<Rightarrow> nat" where
  "parse_bound p = 2 * length (p_toks p) + 1"

definition ParseModule :: "Parser \<Rightarrow> (Module option \<times> Diagnostic list) option" where
  "ParseModule p = (case parse_module (parse_bound p) p of
     Exhausted \<Rightarrow> None
   | Failed ds \<Rightarrow> Some (None, p_lexDiags p @ ds)
   | Parsed m q \<Rightarrow> Some (Some m, []))"

fun parse_files :: "unicode_tables \<Rightarrow> File list \<Rightarrow> (Module list \<times> Diagnostic list) option" where
  "parse_files U [] = Some ([], [])"
| "parse_files U (file # rest) = (case ParseModule (newParser U (file_Path file) (file_Source file)) of
     None \<Rightarrow> None
   | Some (m, ds) \<Rightarrow> (case parse_files U rest of
       None \<Rightarrow> None
     | Some (modules, out) \<Rightarrow> Some ((case m of None \<Rightarrow> modules | Some md \<Rightarrow> md # modules), ds @ out)))"

definition ParseGraph :: "unicode_tables \<Rightarrow> File list \<Rightarrow> (Module list \<times> Diagnostic list) option" where
  "ParseGraph U files = map_option (\<lambda>(modules, out). (modules, Sort out)) (parse_files U files)"

end
