(* ===== verification/Parser_Total.thy ===== *)
theory Parser_Total
  imports Parser_Decl
begin

text \<open>
  The parser always returns. Every routine, run on a token list that ends with the end-of-file token and with a bound
  above the weight of the remaining tokens, ends with a value or with diagnostics, and it consumes what it should:
  \<open>ok\<close> says so of a routine and is closed under the ways in which routines are composed, so that
  the lemma of each routine is found by resolution. The weight counts \<open>>>\<close> twice, since a type argument list
  may split that token in two. The properties are that the parser returns on every source, and that
  it reports at least one diagnostic with a span inside the source exactly when it returns no module.
\<close>

named_theorems ok_intros

section \<open>States and results\<close>

definition tok_weight :: "Token \<Rightarrow> nat" where
  "tok_weight t = (if tok_Kind t = ShiftRight then 2 else 1)"

definition weight :: "Parser \<Rightarrow> nat" where
  "weight p = sum_list (map tok_weight (drop (p_idx p) (p_toks p)))"

definition good_tok :: "Parser \<Rightarrow> Token \<Rightarrow> bool" where
  "good_tok p0 t \<longleftrightarrow> tok_Start t \<le> tok_End t \<and> tok_End t \<le> length (p_src p0) \<and>
     (tok_Kind t = ShiftRight \<longrightarrow> tok_Start t < tok_End t)"

definition sane :: "Parser \<Rightarrow> Parser \<Rightarrow> bool" where
  "sane p0 p \<longleftrightarrow> p_toks p \<noteq> [] \<and> tok_Kind (last (p_toks p)) = EOF \<and> p_idx p \<le> length (p_toks p) \<and>
     (\<forall>t \<in> set (p_toks p). good_tok p0 t) \<and> p_src p = p_src p0 \<and> p_path p = p_path p0 \<and> p_lexDiags p = p_lexDiags p0"

text \<open>A diagnostic of the parser for the file of \<open>p0\<close>.\<close>

definition parse_diag :: "Parser \<Rightarrow> Diagnostic \<Rightarrow> bool" where
  "parse_diag p0 d \<longleftrightarrow> diag_Phase d = ''parse'' \<and> diag_Code d \<in> {PAR0001, PAR0002} \<and> diag_FilePath d = p_path p0 \<and>
     0 \<le> diag_Start d \<and> diag_Start d \<le> diag_End d \<and> diag_End d \<le> int (length (p_src p0))"

definition fine :: "Parser \<Rightarrow> Diagnostic list \<Rightarrow> bool" where
  "fine p0 ds \<longleftrightarrow> (\<exists>d. ds = [d] \<and> parse_diag p0 d)"

fun result_ok :: "Parser \<Rightarrow> ('a \<Rightarrow> nat) \<Rightarrow> ('a \<Rightarrow> bool) \<Rightarrow> Parser \<Rightarrow> 'a outcome \<Rightarrow> bool" where
  "result_ok p0 f R p Exhausted = False"
| "result_ok p0 f R p (Failed ds) = fine p0 ds"
| "result_ok p0 f R p (Parsed x q) = (sane p0 q \<and> weight q + f x \<le> weight p \<and> R x)"

text \<open>
  On every state of weight at most \<open>k\<close> the routine ends; a value \<open>x\<close> satisfies \<open>R\<close> and took tokens of weight at
  least \<open>f x\<close>.
\<close>

definition ok :: "Parser \<Rightarrow> nat \<Rightarrow> ('a \<Rightarrow> nat) \<Rightarrow> ('a \<Rightarrow> bool) \<Rightarrow> 'a parser \<Rightarrow> bool" where
  "ok p0 k f R m \<longleftrightarrow> (\<forall>p. sane p0 p \<and> weight p \<le> k \<longrightarrow> result_ok p0 f R p (m p))"

abbreviation yes :: "'a \<Rightarrow> bool" where
  "yes \<equiv> \<lambda>_. True"

lemma okI: "(\<And>p. sane p0 p \<Longrightarrow> weight p \<le> k \<Longrightarrow> result_ok p0 f R p (m p)) \<Longrightarrow> ok p0 k f R m"
  by (simp add: ok_def)

lemma okD: "ok p0 k f R m \<Longrightarrow> sane p0 p \<Longrightarrow> weight p \<le> k \<Longrightarrow> result_ok p0 f R p (m p)"
  by (simp add: ok_def)

lemma result_ok_weaken: "result_ok p0 g R p r \<Longrightarrow> (\<And>y. f y \<le> g y) \<Longrightarrow> (\<And>y. R y \<Longrightarrow> Q y) \<Longrightarrow> result_ok p0 f Q p r"
  by (cases r) (auto intro: le_trans [OF add_left_mono])

lemma ok_weaken: "(\<And>y. f y \<le> g y) \<Longrightarrow> (\<And>y. R y \<Longrightarrow> Q y) \<Longrightarrow> ok p0 k g R m \<Longrightarrow> ok p0 k f Q m"
  using result_ok_weaken [of p0 g R _ _ f Q] by (fastforce simp: ok_def)

text \<open>The form in which the lemma of a routine is applied: at the end of another routine or, with \<open>f\<close> and \<open>Q\<close> open, before more.\<close>

lemma ok_tail: "ok p0 k (\<lambda>_. c) yes m \<Longrightarrow> (\<And>y. f y \<le> c) \<Longrightarrow> (\<And>y. Q y) \<Longrightarrow> ok p0 k f Q m"
  by (rule ok_weaken [where g = "\<lambda>_. c" and R = yes])


section \<open>Composition\<close>

lemma ok_ret [ok_intros]: "f x = 0 \<Longrightarrow> Q x \<Longrightarrow> ok p0 k f Q (ret x)"
  by (simp add: ok_def ret_def)

lemma result_ok_bind:
  assumes "result_ok p0 g R p (m p)" and "weight p \<le> k"
    and "\<And>x. R x \<Longrightarrow> g x \<le> k \<Longrightarrow> ok p0 (k - g x) (\<lambda>y. f y - g x) Q (F x)"
  shows "result_ok p0 f Q p (bindp m F p)"
proof (cases "m p")
  case (Parsed x q)
  with assms(1) have q: "sane p0 q" "weight q + g x \<le> weight p" "R x" by simp_all
  then have "weight q \<le> k - g x" "g x \<le> k" using assms(2) by linarith+
  from okD [OF assms(3) [OF q(3) this(2)] q(1) this(1)] q(2) have "result_ok p0 f Q p (F x q)"
    by (cases "F x q") (auto)
  with Parsed show ?thesis by (simp add: bindp_def)
qed (use assms in \<open>auto simp: bindp_def\<close>)

lemma ok_bind [ok_intros]:
  assumes "ok p0 k g R m" and "\<And>x. R x \<Longrightarrow> g x \<le> k \<Longrightarrow> ok p0 (k - g x) (\<lambda>y. f y - g x) Q (F x)"
  shows "ok p0 k f Q (bindp m F)"
proof (rule okI)
  fix p
  assume p: "sane p0 p" "weight p \<le> k"
  show "result_ok p0 f Q p (bindp m F p)" using p assms by (intro result_ok_bind [where g = g and R = R and k = k]) (auto intro: okD)
qed

lemma ok_get_state [ok_intros]: "ok p0 k (\<lambda>_. 0) yes get_state"
  by (simp add: ok_def get_state_def)

lemma bind_get_state: "bindp get_state F p = F p p"
  by (simp add: bindp_def get_state_def)

lemma ok_if [ok_intros]: "(c \<Longrightarrow> ok p0 k f Q m) \<Longrightarrow> (\<not> c \<Longrightarrow> ok p0 k f Q m') \<Longrightarrow> ok p0 k f Q (if c then m else m')"
  by simp

text \<open>A part that may be absent consumes nothing that counts.\<close>

lemma ok_bind_if:
  "ok p0 k (\<lambda>_. 0) yes (if c then m else m') \<Longrightarrow> (\<And>x. ok p0 k f Q (F x)) \<Longrightarrow> ok p0 k f Q (bindp (if c then m else m') F)"
  by (rule ok_bind [where g = "\<lambda>_. 0" and R = yes]) simp_all

lemma ok_let [ok_intros]: "ok p0 k f Q (F v) \<Longrightarrow> ok p0 k f Q (Let v F)"
  by simp

lemma ok_option [ok_intros]:
  "(x = None \<Longrightarrow> ok p0 k f Q m) \<Longrightarrow> (\<And>a. x = Some a \<Longrightarrow> ok p0 k f Q (F a)) \<Longrightarrow> ok p0 k f Q (case x of None \<Rightarrow> m | Some a \<Rightarrow> F a)"
  by (cases x) simp_all

lemma ok_prod [ok_intros]: "(\<And>a b. x = (a, b) \<Longrightarrow> ok p0 k f Q (F a b)) \<Longrightarrow> ok p0 k f Q (case x of (a, b) \<Rightarrow> F a b)"
  by (cases x) simp

lemma ok_on_fail [ok_intros]:
  "ok p0 k f Q m \<Longrightarrow> (\<And>p. sane p0 p \<Longrightarrow> fine p0 (g p)) \<Longrightarrow> ok p0 k f Q (on_fail m g)"
  unfolding ok_def on_fail_def by (fastforce split: outcome.splits)

text \<open>A loop ends when every round that goes on takes a token.\<close>

abbreviation goes_on :: "'s + 'a \<Rightarrow> nat" where
  "goes_on r \<equiv> (case r of Inl _ \<Rightarrow> 1 | Inr _ \<Rightarrow> 0)"

lemma result_ok_goes_on:
  "result_ok p0 (\<lambda>_. c) yes q r \<Longrightarrow> weight q + 1 \<le> weight p + c \<Longrightarrow> result_ok p0 goes_on yes p r"
  by (cases r) (auto split: sum.splits)

lemma ok_repeat [THEN ok_tail, ok_intros]:
  assumes "k < n" and "\<And>s. ok p0 k goes_on yes (body s)"
  shows "ok p0 k (\<lambda>_. 0) yes (repeat n body s)"
proof (rule okI)
  fix p
  assume "sane p0 p" and "weight p \<le> k"
  moreover from this assms(1) have "weight p < n" by simp
  ultimately show "result_ok p0 (\<lambda>_. 0) yes p (repeat n body s p)"
  proof (induction n arbitrary: s p)
    case (Suc n)
    from okD [OF assms(2) Suc.prems(1,2)] have b: "result_ok p0 goes_on yes p (body s p)" .
    show ?case
    proof (cases "body s p")
      case (Parsed r q)
      show ?thesis
      proof (cases r)
        case (Inl s')
        with b Parsed have q: "sane p0 q" "weight q < weight p" by auto
        with Suc.prems have "weight q \<le> k" "weight q < n" by simp_all
        from Suc.IH [OF q(1) this, of s'] q(2) Parsed Inl show ?thesis
          by (cases "repeat n body s' q") (auto simp: bindp_def)
      qed (use b Parsed in \<open>auto simp: bindp_def ret_def\<close>)
    qed (use b in \<open>auto simp: bindp_def\<close>)
  qed simp
qed

section \<open>Tokens\<close>

lemma good_eof: "good_tok p0 (eof_token p)" if "p_src p = p_src p0"
  using that by (simp add: good_tok_def eof_token_def)

lemma good_peek: "sane p0 p \<Longrightarrow> good_tok p0 (peek p)"
  by (auto simp: peek_def sane_def good_eof)

lemma fine_err: "sane p0 p \<Longrightarrow> good_tok p0 t \<Longrightarrow> code \<in> {PAR0001, PAR0002} \<Longrightarrow> fine p0 (err p t code msg)"
  by (auto simp: fine_def err_def parse_diag_def sane_def good_tok_def)

lemma fine_here: "sane p0 p \<Longrightarrow> fine p0 (err p (peek p) PAR0001 msg)"
  by (rule fine_err [OF _ good_peek]) simp_all

lemma ok_fail_tok [ok_intros]: "good_tok p0 t \<Longrightarrow> code \<in> {PAR0001, PAR0002} \<Longrightarrow> ok p0 k f Q (fail_tok t code msg)"
  by (simp add: ok_def fail_tok_def fine_err del: insert_iff)

lemma ok_fail_here [ok_intros]: "code \<in> {PAR0001, PAR0002} \<Longrightarrow> ok p0 k f Q (fail_here code msg)"
  by (simp add: ok_def fail_here_def fine_err good_peek del: insert_iff)

lemma weight_step: "p_idx p < length (p_toks p) \<Longrightarrow> weight (p\<lparr>p_idx := p_idx p + 1\<rparr>) + tok_weight (p_toks p ! p_idx p) = weight p"
  by (simp add: weight_def flip: Cons_nth_drop_Suc)

lemma tok_weight_pos: "1 \<le> tok_weight t"
  by (simp add: tok_weight_def)

lemma sane_step: "sane p0 p \<Longrightarrow> p_idx p < length (p_toks p) \<Longrightarrow> sane p0 (p\<lparr>p_idx := p_idx p + 1\<rparr>)"
  by (simp add: sane_def)

text \<open>The two cases of \<open>next_tok\<close>.\<close>

lemma next_tok_inside:
  assumes "sane p0 p" and "p_idx p < length (p_toks p)"
  shows "next_tok p = Parsed (peek p) (p\<lparr>p_idx := p_idx p + 1\<rparr>)" and "sane p0 (p\<lparr>p_idx := p_idx p + 1\<rparr>)"
    and "weight (p\<lparr>p_idx := p_idx p + 1\<rparr>) + 1 \<le> weight p"
  using assms weight_step [of p] tok_weight_pos [of "p_toks p ! p_idx p"] sane_step [of p0 p] by (simp_all add: next_tok_def peek_def)

lemma next_tok_end:
  assumes "sane p0 p" and "\<not> p_idx p < length (p_toks p)"
  shows "next_tok p = Parsed (last (p_toks p)) p" and "tok_Kind (last (p_toks p)) = EOF" and "peek_kind p = EOF"
  using assms by (auto simp: next_tok_def sane_def last_conv_nth Let_def peek_def eof_token_def)

lemma peek_inside: "peek_kind p \<noteq> EOF \<Longrightarrow> p_idx p < length (p_toks p)"
  by (auto simp: peek_def eof_token_def split: if_splits)

lemma next_tok_kind:
  assumes "sane p0 p" and "next_tok p = Parsed t q"
  shows "tok_Kind t = peek_kind p" and "good_tok p0 t"
proof (atomize (full))
  show "tok_Kind t = peek_kind p \<and> good_tok p0 t"
  proof (cases "p_idx p < length (p_toks p)")
    case True
    then show ?thesis using assms next_tok_inside(1) [OF assms(1)] good_peek [OF assms(1)] by simp
  next
    case False
    have "last (p_toks p) \<in> set (p_toks p)" using assms(1) by (auto simp: sane_def)
    then show ?thesis using assms next_tok_end [OF assms(1) False] by (auto simp: sane_def)
  qed
qed

lemma ok_next_tok [ok_intros]: "ok p0 k (\<lambda>_. 0) (good_tok p0) next_tok"
proof (rule okI)
  fix p
  assume p: "sane p0 p"
  show "result_ok p0 (\<lambda>_. 0) (good_tok p0) p (next_tok p)"
  proof (cases "p_idx p < length (p_toks p)")
    case True
    from next_tok_inside [OF p True] good_peek [OF p] show ?thesis by simp
  next
    case False
    note e = next_tok_end(1) [OF p False]
    with next_tok_kind(2) [OF p e] p show ?thesis by simp
  qed
qed

text \<open>A token that is not the end of the file is taken.\<close>

lemma taken: "sane p0 p \<Longrightarrow> peek_kind p \<noteq> EOF \<Longrightarrow> result_ok p0 (\<lambda>_. 1) (\<lambda>t. t = peek p \<and> good_tok p0 t) p (next_tok p)"
  using next_tok_inside [OF _ peek_inside] good_peek [of p0 p] by (simp del: One_nat_def)

lemma taken_good: "sane p0 p \<Longrightarrow> peek_kind p \<noteq> EOF \<Longrightarrow> result_ok p0 (\<lambda>_. 1) (good_tok p0) p (next_tok p)"
  by (rule result_ok_weaken [OF taken]) simp_all

lemma skip_separators_ok: "sane p0 p \<Longrightarrow> sane p0 (skip_separators p) \<and> weight (skip_separators p) + (p_idx (skip_separators p) - p_idx p) \<le> weight p \<and>
  p_idx p \<le> p_idx (skip_separators p)"
proof (induction p rule: skip_separators.induct)
  case (1 p)
  show ?case
  proof (cases "p_idx p < length (p_toks p) \<and> (peek_kind p = Newline \<or> peek_kind p = Semicolon)")
    case True
    have "skip_separators p = skip_separators (p\<lparr>p_idx := p_idx p + 1\<rparr>)" using True by (simp add: skip_separators.simps [of p])
    with "1.IH" [OF True] True sane_step [OF "1.prems"] weight_step [of p] tok_weight_pos [of "p_toks p ! p_idx p"] show ?thesis
      by auto
  next
    case False
    then have "skip_separators p = p" by (subst skip_separators.simps) auto
    with "1.prems" show ?thesis by simp
  qed
qed

lemma skip_separators_idx: "p_idx p \<le> p_idx (skip_separators p)"
proof (induction p rule: skip_separators.induct)
  case (1 p)
  then show ?case by (subst skip_separators.simps) auto
qed

lemma skip_separators_same: "p_idx (skip_separators p) = p_idx p \<Longrightarrow> skip_separators p = p"
  using skip_separators_idx [of "p\<lparr>p_idx := p_idx p + 1\<rparr>"] by (subst (asm) skip_separators.simps, subst skip_separators.simps) (auto split: if_splits)

lemma ok_skipSeparators [ok_intros]: "ok p0 k (\<lambda>b. if b then 1 else 0) yes skipSeparators"
  using skip_separators_ok by (fastforce simp: ok_def skipSeparators_def Let_def)

lemma ok_nextIf: "kind \<noteq> EOF \<Longrightarrow> ok p0 k (\<lambda>t. if tok_Kind t = kind then 1 else 0) (good_tok p0) (nextIf kind)"
  using taken by (fastforce simp: ok_def nextIf_def good_peek intro: result_ok_weaken [OF taken])

lemma ok_expect: "kind \<noteq> EOF \<Longrightarrow> ok p0 k (\<lambda>t. if tok_Kind t = kind then 1 else 0) (good_tok p0) (expect kind)"
  using ok_nextIf [of kind p0 k] by (simp add: nextIf_def expect_def)

lemma ok_match_kind: "kind \<noteq> EOF \<Longrightarrow> ok p0 k (\<lambda>b. if b then 1 else 0) yes (match_kind kind)"
  using taken by (fastforce simp: ok_def match_kind_def bindp_def ret_def split: outcome.splits)

lemma ok_consume: "kind \<noteq> EOF \<Longrightarrow> ok p0 k (\<lambda>_. 1) (good_tok p0) (consume kind)"
  using taken_good by (auto simp: ok_def consume_def fine_here)

lemma ok_consumeContextualIdentifier [ok_intros]: "ok p0 k (\<lambda>_. 1) (good_tok p0) (consumeContextualIdentifier word msg)"
  using taken_good by (auto simp: ok_def consumeContextualIdentifier_def fine_here)

lemma ok_expectIdentifier [ok_intros]: "ok p0 k (\<lambda>_. 1) (good_tok p0) (expectIdentifier msg)"
  using taken_good by (auto simp: ok_def expectIdentifier_def fine_here isNameToken_def)

lemma ok_expectSelectorName [ok_intros]: "ok p0 k (\<lambda>_. 1) (good_tok p0) (expectSelectorName msg)"
  using taken_good by (auto simp: ok_def expectSelectorName_def fine_here isSelectorNameToken_def isExpressionNameToken_def isNameToken_def)

lemmas ok_tokens [ok_intros] = ok_nextIf ok_expect ok_match_kind ok_consume


section \<open>Routines\<close>

text \<open>
  The lemma of a routine follows its definition: the first goal is always resolved first, the part
  before the parts that use its result, and what remains is arithmetic on the consumption.
\<close>

lemmas ok_rules = order_refl TrueI ok_bind_if

lemma ok_consumeIdentifier [ok_intros]: "kind \<noteq> EOF \<Longrightarrow> ok p0 k (\<lambda>_. 1) (good_tok p0) (consumeIdentifier kind msg)"
  unfolding consumeIdentifier_def by ((rule ok_rules ok_intros | (simp; fail))+)

lemma ok_require [THEN ok_tail, ok_intros]: "kind \<noteq> EOF \<Longrightarrow> ok p0 k (\<lambda>_. 1) yes (require kind msg)"
  unfolding require_def by ((rule ok_rules ok_intros | (simp; fail))+)

lemma ok_parseDottedName: "k < n \<Longrightarrow> ok p0 k (\<lambda>_. 1) yes (parseDottedName n)"
  unfolding parseDottedName_def by ((rule ok_rules ok_intros | (simp; fail))+)

declare ok_parseDottedName [THEN ok_tail, ok_intros]

lemma ok_comma_more [ok_intros]: "ok p0 k (\<lambda>b. if b then 1 else 0) yes comma_more"
  unfolding comma_more_def by ((rule ok_rules ok_intros | (simp; fail))+)

lemma ok_parseTypeName [THEN ok_tail, ok_intros]:
  assumes "k < n"
  shows "ok p0 k (\<lambda>_. 1) yes (parseTypeName n)"
proof (rule okI)
  fix p
  assume p: "sane p0 p" "weight p \<le> k"
  show "result_ok p0 (\<lambda>_. 1) yes p (parseTypeName n p)"
  proof (cases "peek_kind p = KeywordNever")
    case True
    have "result_ok p0 (\<lambda>_. 1) yes p (bindp next_tok (\<lambda>tok. ret (tok_Text tok)) p)"
      by (rule result_ok_bind [where k = k, OF taken]) (use True p in \<open>auto intro: ok_ret\<close>)
    with True show ?thesis by (simp add: parseTypeName_def bind_get_state)
  next
    case False
    with okD [OF ok_parseDottedName [OF assms] p] show ?thesis by (simp add: parseTypeName_def bind_get_state)
  qed
qed


lemma split_shift_ok:
  assumes p: "sane p0 p" and s: "peek_kind p = ShiftRight"
  shows "result_ok p0 (\<lambda>_. 1) (good_tok p0) p (split_shift p)"
proof -
  let ?i = "p_idx p" and ?ts = "p_toks p"
  have i: "?i < length ?ts" using peek_inside [of p] s by simp
  then have k: "tok_Kind (?ts ! ?i) = ShiftRight" and g: "good_tok p0 (?ts ! ?i)"
    using s p by (simp_all add: peek_def sane_def)
  have "?ts ! ?i \<noteq> last ?ts" using p k by (auto simp: sane_def)
  then have "?i \<noteq> length ?ts - 1" using p by (auto simp: sane_def last_conv_nth)
  then have "drop (?i + 1) ?ts \<noteq> []" using i by simp
  moreover from this have "last (drop (?i + 1) ?ts) = last ?ts" by simp
  ultimately show ?thesis using p i g k
    by (auto simp: split_shift_def bindp_def next_tok_def Let_def sane_def good_tok_def weight_def tok_weight_def
        simp flip: Cons_nth_drop_Suc [OF i] dest: in_set_takeD in_set_dropD)
qed

lemma ok_consumeTypeGreater [ok_intros]: "ok p0 k (\<lambda>_. 1) (good_tok p0) consumeTypeGreater"
proof (rule okI)
  fix p
  assume p: "sane p0 p"
  show "result_ok p0 (\<lambda>_. 1) (good_tok p0) p (consumeTypeGreater p)"
  proof (cases "peek_kind p = Greater")
    case True
    then have "p_idx p < length (p_toks p)" using peek_inside by simp
    with next_tok_inside [OF p this] good_peek [OF p] True show ?thesis
      by (simp add: consumeTypeGreater_def match_kind_def bindp_def ret_def get_state_def previous_def peek_def)
  next
    case False
    then show ?thesis using split_shift_ok [OF p]
      by (simp add: consumeTypeGreater_def match_kind_def bindp_def get_state_def fail_here_def fine_here [OF p])
  qed
qed

lemma ok_parse_type_args:
  assumes tr [THEN ok_tail, ok_intros]: "\<And>j. j < m \<Longrightarrow> ok p0 j (\<lambda>_. 1) yes tr" and "k < m" "k < n"
  shows "ok p0 k (\<lambda>_. 0) yes (parse_type_args n tr)"
  unfolding parse_type_args_def using assms(2,3) by - ((rule ok_rules ok_intros | (simp; fail))+)

lemma ok_parseTypeRef: "k < n \<Longrightarrow> ok p0 k (\<lambda>_. 1) yes (parseTypeRef n)"
proof (induction n arbitrary: k)
  case (Suc n)
  note [THEN ok_tail, ok_intros] = ok_parse_type_args [OF Suc.IH]
  from Suc.prems show ?case unfolding parseTypeRef.simps by - ((rule ok_rules ok_intros fine_here | (simp; fail) | assumption)+)
qed simp

declare ok_parseTypeRef [THEN ok_tail, ok_intros]


lemma ok_parseTypeParams [THEN ok_tail, ok_intros]: "k < n \<Longrightarrow> ok p0 k (\<lambda>_. 0) yes (parseTypeParams n)"
  unfolding parseTypeParams_def by ((rule ok_rules ok_intros fine_here | (simp; fail))+)

lemma ok_parseWhereClause [THEN ok_tail, ok_intros]: "k < n \<Longrightarrow> ok p0 k (\<lambda>_. 0) yes (parseWhereClause n)"
  unfolding parseWhereClause_def by ((rule ok_rules ok_intros | (simp; fail))+)

section \<open>Expressions\<close>

lemma ok_parseNamedArgs:
  assumes e [THEN ok_tail, ok_intros]: "\<And>j prec. j < m \<Longrightarrow> ok p0 j (\<lambda>_. 1) yes (expr prec)" and "k < m" "k < n"
  shows "ok p0 k (\<lambda>_. 0) yes (parseNamedArgs n expr)"
  unfolding parseNamedArgs_def using assms(2,3) by - ((rule ok_rules ok_intros | (simp; fail))+)

lemma ok_parse_type_operand: "good_tok p0 tok \<Longrightarrow> k < n \<Longrightarrow> ok p0 k (\<lambda>_. 0) yes (parse_type_operand n tok)"
  unfolding parse_type_operand_def by ((rule ok_rules ok_intros | (simp; fail))+)

lemma next_tok_eof:
  assumes p: "sane p0 p" and "peek_kind p = EOF"
  shows "result_ok p0 (\<lambda>_. 0) (\<lambda>t. tok_Kind t = EOF \<and> good_tok p0 t) p (next_tok p)"
proof (cases "next_tok p")
  case (Parsed t q)
  with okD [OF ok_next_tok p, of "weight p"] next_tok_kind [OF p Parsed] assms(2) show ?thesis by simp
qed (use okD [OF ok_next_tok p, of "weight p"] in simp_all)

lemma ok_parse_selector [THEN ok_tail, ok_intros]:
  assumes "\<And>j prec. j < m \<Longrightarrow> ok p0 j (\<lambda>_. 1) yes (expr prec)" and "k < m" "k < n"
  shows "ok p0 k (\<lambda>_. 1) yes (parse_selector n expr left op)"
proof -
  note [THEN ok_tail, ok_intros] = ok_parseNamedArgs [OF assms(1)]
  from assms(2,3) show ?thesis unfolding parse_selector_def by - ((rule ok_rules ok_intros | (simp; fail) | assumption)+)
qed

lemma ok_skip_newline_dot [THEN ok_tail, ok_intros]: "ok p0 k (\<lambda>_. 0) yes skip_newline_dot"
  unfolding skip_newline_dot_def using okD [OF ok_next_tok]
  by (fastforce simp: ok_def bindp_def ret_def split: outcome.splits)


text \<open>A name, parsed from behind its first token: the parser steps back to it unless the name is plain.\<close>

lemma parse_named_ok:
  assumes e: "\<And>j prec. j < m \<Longrightarrow> ok p0 j (\<lambda>_. 1) yes (expr prec)" and k: "k < Suc m" "k < n"
    and p: "sane p0 p" "weight p \<le> k" "p_idx p < length (p_toks p)" and tok: "good_tok p0 tok"
  shows "result_ok p0 (\<lambda>_. 1) yes p (parse_named n expr tok (p\<lparr>p_idx := p_idx p + 1\<rparr>))"
proof -
  note [THEN ok_tail, ok_intros] = ok_parseNamedArgs [OF e]
  define again where "again = bindp (parseTypeRef n) (\<lambda>typ.
       bindp (match_kind LParen) (\<lambda>open.
       if open
       then bindp (parseNamedArgs n expr) (\<lambda>args.
         bindp (consume RParen) (\<lambda>close.
         let parts = SplitByte (CHR ''.'') (type_Name typ); sp = span (tok_Start tok) (tok_End close) in
         ret (if length parts = 2 \<and> startsUpper (parts ! 0) \<and> startsUpper (parts ! 1)
              then VariantConstructorExpr (parts ! 0) (parts ! 1) args sp
              else ConstructorExpr typ args sp)))
       else if type_Args typ \<noteq> []
       then fail_tok tok PAR0001 ''generic type arguments are only valid in constructor or type positions''
       else ret (NameExpr (type_Name typ) (span (tok_Start tok) (tok_End tok)))))"
  from k tok have "ok p0 k (\<lambda>_. 1) yes again" unfolding again_def by - ((rule ok_rules ok_intros | (simp; fail) | assumption)+)
  from okD [OF this p(1,2)] have "result_ok p0 (\<lambda>_. 1) yes p (again p)" .
  moreover have "parse_named n expr tok (p\<lparr>p_idx := p_idx p + 1\<rparr>) =
      (if plain_name tok (p\<lparr>p_idx := p_idx p + 1\<rparr>)
       then Parsed (NameExpr (tok_Text tok) (span (tok_Start tok) (tok_End tok))) (p\<lparr>p_idx := p_idx p + 1\<rparr>) else again p)"
    unfolding parse_named_def again_def [symmetric] by (simp add: bindp_def get_state_def ret_def)
  ultimately show ?thesis using next_tok_inside(2,3) [OF p(1,3)] by simp
qed

lemma ok_parsePrimary:
  assumes e: "\<And>j prec. j < m \<Longrightarrow> ok p0 j (\<lambda>_. 1) yes (expr prec)" and k: "k < Suc m" "k < n"
  shows "ok p0 k (\<lambda>_. 1) yes (parsePrimary n expr)"
proof (rule okI)
  fix p
  assume p: "sane p0 p" "weight p \<le> k"
  note [ok_intros] = e [THEN ok_tail] ok_parse_type_operand [THEN ok_tail]
  consider "peek_kind p = EOF" | "peek_kind p = Identifier \<or> peek_kind p = KeywordNever"
    | "peek_kind p \<noteq> EOF" "peek_kind p \<noteq> Identifier" "peek_kind p \<noteq> KeywordNever" by blast
  then show "result_ok p0 (\<lambda>_. 1) yes p (parsePrimary n expr p)"
  proof cases
    case 1
    show ?thesis unfolding parsePrimary_def
      by (rule result_ok_bind [where m = next_tok, OF next_tok_eof [OF p(1) 1] p(2)]) (auto simp: Let_def intro: ok_fail_tok)
  next
    case 2
    then have i: "p_idx p < length (p_toks p)" by (intro peek_inside) auto
    from 2 parse_named_ok [OF e k p i good_peek [OF p(1)]] next_tok_inside(1) [OF p(1) i] show ?thesis
      by (auto simp: parsePrimary_def bindp_def Let_def)
  next
    case 3
    show ?thesis unfolding parsePrimary_def
      by (rule result_ok_bind [where m = next_tok, OF taken [OF p(1) 3(1)] p(2)], (rule ok_rules ok_intros | (use 3 k in \<open>simp; fail\<close>))+)
  qed
qed

lemma ok_expr_step:
  assumes e: "\<And>j prec. j < m \<Longrightarrow> ok p0 j (\<lambda>_. 1) yes (expr prec)" and "k < m" "k < n"
  shows "ok p0 k goes_on yes (expr_step n expr minPrec left)"
proof -
  note [ok_intros] = e [THEN ok_tail] ok_parse_selector [OF e, THEN ok_tail]
  from assms(2,3) show ?thesis unfolding expr_step_def by - ((rule ok_rules ok_intros | (simp; fail) | assumption)+)
qed

lemma ok_parseExpr: "k < n \<Longrightarrow> ok p0 k (\<lambda>_. 1) yes (parseExpr n prec)"
proof (induction n arbitrary: k prec)
  case (Suc n)
  note [ok_intros] = ok_parsePrimary [OF Suc.IH, THEN ok_tail] ok_expr_step [OF Suc.IH]
  from Suc.prems show ?case unfolding parseExpr.simps by - ((rule ok_rules ok_intros | (simp; fail) | assumption)+)
qed simp

declare ok_parseExpr [THEN ok_tail, ok_intros]


section \<open>Statements\<close>

lemma ok_parsePattern [THEN ok_tail, ok_intros]: "k < n \<Longrightarrow> ok p0 k (\<lambda>_. 0) yes (parsePattern n)"
  unfolding parsePattern_def by ((rule ok_rules ok_intros fine_here | (simp; fail))+)

lemma ok_parseBlockStmts:
  assumes s [THEN ok_tail, ok_intros]: "\<And>j. j < m \<Longrightarrow> ok p0 j (\<lambda>_. 1) yes stmt" and "k < Suc m" "k < n"
  shows "ok p0 k (\<lambda>_. 1) yes (parseBlockStmts n stmt)"
  unfolding parseBlockStmts_def using assms(2,3) by - ((rule ok_rules ok_intros | (simp; fail))+)

lemma ok_parseLetStmt: "k < n \<Longrightarrow> ok p0 k (\<lambda>_. 1) yes (parseLetStmt n)"
  unfolding parseLetStmt_def by ((rule ok_rules ok_intros | (simp; fail))+)

lemma ok_parseExprOrAssignStmt: "k < n \<Longrightarrow> ok p0 k (\<lambda>_. 1) yes (parseExprOrAssignStmt n)"
  unfolding parseExprOrAssignStmt_def by ((rule ok_rules ok_intros | (simp; fail))+)

lemma parseReturnStmt_ok:
  assumes "sane p0 p" "peek_kind p = KeywordReturn" "weight p \<le> k" "k < n"
  shows "result_ok p0 (\<lambda>_. 1) yes p (parseReturnStmt n p)"
  unfolding parseReturnStmt_def
  by (rule result_ok_bind [where m = next_tok, OF taken [OF assms(1)] assms(3)],
      use assms in simp, (rule ok_rules ok_intros | (use assms in \<open>simp; fail\<close>))+)

text \<open>The statements that hold blocks.\<close>

lemma ok_compound_stmts:
  assumes s: "\<And>j. j < m \<Longrightarrow> ok p0 j (\<lambda>_. 1) yes stmt" and k: "k < Suc m" "k < n"
  shows ok_parseIfStmt: "ok p0 k (\<lambda>_. 1) yes (parseIfStmt n stmt)"
    and ok_parseIfLetStmt: "ok p0 k (\<lambda>_. 1) yes (parseIfLetStmt n stmt)"
    and ok_parseMatchStmt: "ok p0 k (\<lambda>_. 1) yes (parseMatchStmt n stmt)"
    and ok_parseWhileStmt: "ok p0 k (\<lambda>_. 1) yes (parseWhileStmt n stmt)"
    and ok_parseForStmt: "ok p0 k (\<lambda>_. 1) yes (parseForStmt n stmt)"
    and ok_parseWithStmt: "ok p0 k (\<lambda>_. 1) yes (parseWithStmt n stmt)"
proof -
  note [THEN ok_tail, ok_intros] = ok_parseBlockStmts [OF s]
  show "ok p0 k (\<lambda>_. 1) yes (parseIfStmt n stmt)"
    unfolding parseIfStmt_def using k by - ((rule ok_rules ok_intros | (simp; fail) | assumption)+)
  show "ok p0 k (\<lambda>_. 1) yes (parseIfLetStmt n stmt)"
    unfolding parseIfLetStmt_def using k by - ((rule ok_rules ok_intros | (simp; fail) | assumption)+)
  have arm [THEN ok_tail, ok_intros]: "ok p0 k (\<lambda>_. 1) yes (match_arm n stmt)" if "k < Suc m" "k < n" for k
    unfolding match_arm_def using that by - ((rule ok_rules ok_intros | (simp; fail) | assumption)+)
  show "ok p0 k (\<lambda>_. 1) yes (parseMatchStmt n stmt)"
    unfolding parseMatchStmt_def using k by - ((rule ok_rules ok_intros | (simp; fail) | assumption)+)
  show "ok p0 k (\<lambda>_. 1) yes (parseWhileStmt n stmt)"
    unfolding parseWhileStmt_def using k by - ((rule ok_rules ok_intros | (simp; fail) | assumption)+)
  show "ok p0 k (\<lambda>_. 1) yes (parseForStmt n stmt)"
    unfolding parseForStmt_def using k by - ((rule ok_rules ok_intros | (simp; fail) | assumption)+)
  show "ok p0 k (\<lambda>_. 1) yes (parseWithStmt n stmt)"
    unfolding parseWithStmt_def using k by - ((rule ok_rules ok_intros | (simp; fail) | assumption)+)
qed

lemma ok_stmt_body:
  assumes s: "\<And>j. j < m \<Longrightarrow> ok p0 j (\<lambda>_. 1) yes stmt" and k: "k < Suc m" "k < n"
  shows "ok p0 k (\<lambda>_. 1) yes (stmt_body n stmt)"
proof (rule okI)
  fix p
  assume p: "sane p0 p" "weight p \<le> k"
  show "result_ok p0 (\<lambda>_. 1) yes p (stmt_body n stmt p)"
    using ok_compound_stmts [OF s k, THEN okD, OF _ p] ok_parseLetStmt [OF k(2), THEN okD, OF p]
      ok_parseExprOrAssignStmt [OF k(2), THEN okD, OF p] parseReturnStmt_ok [OF p(1) _ p(2) k(2)] fine_here [OF p(1)]
    by (simp add: stmt_body_def bind_get_state Let_def fail_here_def)
qed

lemma ok_parseStmt: "k < n \<Longrightarrow> ok p0 k (\<lambda>_. 1) yes (parseStmt n)"
proof (induction n arbitrary: k)
  case (Suc n)
  then show ?case unfolding parseStmt.simps by (intro ok_stmt_body [OF Suc.IH]) simp_all
qed simp

lemma ok_parse_block [THEN ok_tail, ok_intros]: "k < n \<Longrightarrow> ok p0 k (\<lambda>_. 1) yes (parse_block n)"
  by (rule ok_parseBlockStmts [where m = n, OF ok_parseStmt]) auto

lemma captureAsmBody_round:
  assumes t: "good_tok p0 t"
  shows "ok p0 k goes_on yes (bindp get_state (\<lambda>p.
       if \<not> (0 < depth \<and> peek_kind p \<noteq> EOF) then fail_tok t PAR0001 msg
       else bindp next_tok (\<lambda>tok.
         let depth' = (if tok_Kind tok = LBrace then depth + 1 else if tok_Kind tok = RBrace then depth - 1 else depth) in
         if depth' = 0 then ret (Inr (F p tok)) else ret (Inl depth'))))" (is "ok p0 k _ yes (bindp get_state ?body)")
proof (rule okI)
  fix p
  assume p: "sane p0 p" "weight p \<le> k"
  have "result_ok p0 goes_on yes p (?body p p)"
  proof (cases "0 < depth \<and> peek_kind p \<noteq> EOF")
    case True
    with p have "result_ok p0 goes_on yes p (bindp next_tok (\<lambda>tok.
         let depth' = (if tok_Kind tok = LBrace then depth + 1 else if tok_Kind tok = RBrace then depth - 1 else depth) in
         if depth' = 0 then ret (Inr (F p tok)) else ret (Inl depth')) p)"
      by - (rule result_ok_bind [where m = next_tok, OF taken [OF p(1)] p(2)], simp, (rule ok_rules ok_intros | (simp; fail))+)
    with True show ?thesis by simp
  next
    case False
    with p(1) t show ?thesis by (auto simp: fail_tok_def fine_err)
  qed
  then show "result_ok p0 goes_on yes p (bindp get_state ?body p)" by (simp add: bind_get_state)
qed

lemma ok_captureAsmBody [THEN ok_tail, ok_intros]: "k < n \<Longrightarrow> ok p0 k (\<lambda>_. 0) yes (captureAsmBody n)"
  unfolding captureAsmBody_def by ((rule ok_rules captureAsmBody_round ok_intros | (simp; fail))+)


section \<open>Declarations\<close>

lemma ok_parseFieldDecl [THEN ok_tail, ok_intros]: "k < n \<Longrightarrow> ok p0 k (\<lambda>_. 1) yes (parseFieldDecl n)"
  unfolding parseFieldDecl_def by ((rule ok_rules ok_intros | (simp; fail))+)

lemma ok_parseFieldListUntil [THEN ok_tail, ok_intros]: "k < n \<Longrightarrow> stop \<noteq> EOF \<Longrightarrow> ok p0 k (\<lambda>_. 0) yes (parseFieldListUntil n stop)"
  unfolding parseFieldListUntil_def by ((rule ok_rules ok_intros | (simp; fail))+)

lemma ok_parseFieldContainer [THEN ok_tail, ok_intros]: "k < n \<Longrightarrow> ok p0 k (\<lambda>_. 1) yes (parseFieldContainer n)"
  unfolding parseFieldContainer_def by ((rule ok_rules ok_intros | (simp; fail))+)

lemma ok_param_more [ok_intros]: "(\<And>y. f y \<le> goes_on y) \<Longrightarrow> (\<And>y. Q y) \<Longrightarrow> ok p0 k f Q (param_more ps)"
  by (rule ok_weaken [where g = goes_on and R = yes], simp_all, unfold param_more_def) ((rule ok_rules ok_intros | (simp; fail))+)

lemma ok_parseParams [THEN ok_tail, ok_intros]: "k < n \<Longrightarrow> ok p0 k (\<lambda>_. 0) yes (parseParams n)"
  unfolding parseParams_def by ((rule ok_rules ok_intros | (simp; fail))+)

lemma ok_method_signature [THEN ok_tail, ok_intros]: "k < n \<Longrightarrow> ok p0 k (\<lambda>_. 1) yes (method_signature n msg)"
  unfolding method_signature_def by ((rule ok_rules ok_intros | (simp; fail))+)

lemma ok_method_keyword [THEN ok_tail, ok_intros]: "good_tok p0 t \<Longrightarrow> ok p0 k (\<lambda>_. 0) yes (method_keyword t)"
  unfolding method_keyword_def by ((rule ok_rules ok_intros | (simp; fail))+)

lemma ok_parseMethodDecl [THEN ok_tail, ok_intros]: "k < n \<Longrightarrow> ok p0 k (\<lambda>_. 1) yes (parseMethodDecl n)"
  unfolding parseMethodDecl_def by ((rule ok_rules ok_intros | (simp; fail))+)

lemma ok_parseTraitMethodDecl [THEN ok_tail, ok_intros]: "k < n \<Longrightarrow> ok p0 k (\<lambda>_. 1) yes (parseTraitMethodDecl n)"
  unfolding parseTraitMethodDecl_def by ((rule ok_rules ok_intros | (simp; fail))+)

lemma ok_parseInterruptEventDecl [THEN ok_tail, ok_intros]: "k < n \<Longrightarrow> ok p0 k (\<lambda>_. 1) yes (parseInterruptEventDecl n)"
  unfolding parseInterruptEventDecl_def by ((rule ok_rules ok_intros | (simp; fail))+)

lemma ok_parseOnHandlerDecl [THEN ok_tail, ok_intros]: "k < n \<Longrightarrow> ok p0 k (\<lambda>_. 1) yes (parseOnHandlerDecl n)"
  unfolding parseOnHandlerDecl_def by ((rule ok_rules ok_intros | (simp; fail))+)


lemma ok_parse_member [THEN ok_tail, ok_intros]: "k < n \<Longrightarrow> ok p0 k (\<lambda>_. 1) yes (parse_member n kind ms)"
  unfolding parse_member_def unexpected_member_def by ((rule ok_rules ok_intros | (simp; fail))+)

lemma ok_parseCompositeMembers [THEN ok_tail, ok_intros]: "k < n \<Longrightarrow> ok p0 k (\<lambda>_. 1) yes (parseCompositeMembers n kind)"
  unfolding parseCompositeMembers_def by ((rule ok_rules ok_intros | (simp; fail))+)

lemma ok_parse_variant [THEN ok_tail, ok_intros]: "k < n \<Longrightarrow> ok p0 k (\<lambda>_. 1) yes (parse_variant n)"
  unfolding parse_variant_def by ((rule ok_rules ok_intros | (simp; fail))+)

lemma ok_parseEnumDecl [THEN ok_tail, ok_intros]: "k < n \<Longrightarrow> ok p0 k (\<lambda>_. 1) yes (parseEnumDecl n)"
  unfolding parseEnumDecl_def by ((rule ok_rules ok_intros | (simp; fail))+)

lemma ok_parseConstDecl [THEN ok_tail, ok_intros]: "k < n \<Longrightarrow> ok p0 k (\<lambda>_. 1) yes (parseConstDecl n)"
  unfolding parseConstDecl_def by ((rule ok_rules ok_intros | (simp; fail))+)

lemma ok_parseEventLayoutField [THEN ok_tail, ok_intros]: "k < n \<Longrightarrow> ok p0 k (\<lambda>_. 1) yes (parseEventLayoutField n)"
  unfolding parseEventLayoutField_def by ((rule ok_rules ok_intros | (simp; fail))+)

lemma ok_parse_current [THEN ok_tail, ok_intros]: "ok p0 k (\<lambda>_. 0) yes parse_current"
  unfolding parse_current_def by ((rule ok_rules ok_intros | (simp; fail))+)

lemma ok_parseEventLayoutDecl [THEN ok_tail, ok_intros]: "k < n \<Longrightarrow> ok p0 k (\<lambda>_. 1) yes (parseEventLayoutDecl n)"
  unfolding parseEventLayoutDecl_def by ((rule ok_rules ok_intros fine_here | (simp; fail))+)

lemma ok_parse_mapping [THEN ok_tail, ok_intros]: "ok p0 k (\<lambda>_. 1) yes parse_mapping"
  unfolding parse_mapping_def by ((rule ok_rules ok_intros | (simp; fail))+)

lemma ok_parseLayoutUpcastDecl [THEN ok_tail, ok_intros]: "k < n \<Longrightarrow> ok p0 k (\<lambda>_. 1) yes (parseLayoutUpcastDecl n)"
  unfolding parseLayoutUpcastDecl_def by ((rule ok_rules ok_intros fine_here | (simp; fail))+)

lemma ok_event_item [THEN ok_tail, ok_intros]: "k < n \<Longrightarrow> ok p0 k (\<lambda>_. 1) yes (event_item n acc)"
  unfolding event_item_def by ((rule ok_rules ok_intros | (simp; fail))+)

lemma ok_parseEventDecl [THEN ok_tail, ok_intros]: "k < n \<Longrightarrow> ok p0 k (\<lambda>_. 1) yes (parseEventDecl n)"
  unfolding parseEventDecl_def by ((rule ok_rules ok_intros fine_here | (simp; fail))+)

lemma ok_parseProjectionLayoutDecl [THEN ok_tail, ok_intros]: "k < n \<Longrightarrow> ok p0 k (\<lambda>_. 1) yes (parseProjectionLayoutDecl n)"
  unfolding parseProjectionLayoutDecl_def by ((rule ok_rules ok_intros fine_here | (simp; fail))+)

lemma ok_projection_item [THEN ok_tail, ok_intros]: "k < n \<Longrightarrow> ok p0 k (\<lambda>_. 1) yes (projection_item n acc)"
  unfolding projection_item_def by ((rule ok_rules ok_intros | (simp; fail))+)

lemma ok_parseProjectionDecl [THEN ok_tail, ok_intros]: "k < n \<Longrightarrow> ok p0 k (\<lambda>_. 1) yes (parseProjectionDecl n)"
  unfolding parseProjectionDecl_def by ((rule ok_rules ok_intros fine_here | (simp; fail))+)

lemma ok_parseStaticAssertDecl [THEN ok_tail, ok_intros]: "k < n \<Longrightarrow> ok p0 k (\<lambda>_. 1) yes (parseStaticAssertDecl n)"
  unfolding parseStaticAssertDecl_def by ((rule ok_rules ok_intros | (simp; fail))+)


lemma ok_generic_head [THEN ok_tail, ok_intros]: "k < n \<Longrightarrow> ok p0 k (\<lambda>_. 1) yes (generic_head n msg)"
  unfolding generic_head_def by ((rule ok_rules ok_intros | (simp; fail))+)

lemma ok_parseDataDecl [THEN ok_tail, ok_intros]: "k < n \<Longrightarrow> ok p0 k (\<lambda>_. 1) yes (parseDataDecl n)"
  unfolding parseDataDecl_def by ((rule ok_rules ok_intros | (simp; fail))+)

lemma ok_parseClassDecl [THEN ok_tail, ok_intros]: "k < n \<Longrightarrow> ok p0 k (\<lambda>_. 1) yes (parseClassDecl n unique)"
  unfolding parseClassDecl_def by ((rule ok_rules ok_intros | (simp; fail))+)

lemma ok_parseDriverDecl [THEN ok_tail, ok_intros]: "k < n \<Longrightarrow> ok p0 k (\<lambda>_. 1) yes (parseDriverDecl n unique)"
  unfolding parseDriverDecl_def by ((rule ok_rules ok_intros | (simp; fail))+)

lemma ok_parseDriverPathDecl [THEN ok_tail, ok_intros]: "k < n \<Longrightarrow> ok p0 k (\<lambda>_. 1) yes (parseDriverPathDecl n)"
  unfolding parseDriverPathDecl_def by ((rule ok_rules ok_intros | (simp; fail))+)

lemma ok_parseExecutorDecl [THEN ok_tail, ok_intros]: "k < n \<Longrightarrow> ok p0 k (\<lambda>_. 1) yes (parseExecutorDecl n)"
  unfolding parseExecutorDecl_def by ((rule ok_rules ok_intros | (simp; fail))+)

lemma ok_parse_transition [THEN ok_tail, ok_intros]: "ok p0 k (\<lambda>_. 1) yes parse_transition"
  unfolding parse_transition_def by ((rule ok_rules ok_intros | (simp; fail))+)

lemma ok_parseTransitions [THEN ok_tail, ok_intros]: "k < n \<Longrightarrow> ok p0 k (\<lambda>_. 1) yes (parseTransitions n)"
  unfolding parseTransitions_def by ((rule ok_rules ok_intros | (simp; fail))+)

lemma ok_parsePhaseDecl [THEN ok_tail, ok_intros]: "k < n \<Longrightarrow> ok p0 k (\<lambda>_. 1) yes (parsePhaseDecl n)"
  unfolding parsePhaseDecl_def by ((rule ok_rules ok_intros | (simp; fail))+)

text \<open>An image item consumes something unless the parser stands at the closing brace.\<close>

lemma image_item_ok:
  assumes p: "sane p0 p" "weight p \<le> k" and k: "k < n"
  shows "result_ok p0 (\<lambda>_. if peek_kind p = RBrace then 0 else 1) yes p (image_item n acc p)"
proof -
  obtain ts phs where acc: "acc = (ts, phs)" by force
  have t: "ok p0 k (\<lambda>_. 1) yes (bindp (parseTransitions n) (\<lambda>ts'. ret (ts @ ts', phs)))"
    using k by - ((rule ok_rules ok_intros | (simp; fail))+)
  have ph: "ok p0 k (\<lambda>_. 1) yes (bindp (parsePhaseDecl n) (\<lambda>pd. ret (ts, phs @ [pd])))"
    using k by - ((rule ok_rules ok_intros | (simp; fail))+)
  show ?thesis using t [THEN okD, OF p] ph [THEN okD, OF p] fine_here [OF p(1)] p(1)
    by (simp add: acc image_item_def bind_get_state fail_here_def) (simp add: ret_def)
qed

lemma image_round:
  assumes k: "k < n"
  shows "ok p0 k goes_on yes (bindp get_state (\<lambda>p1. if at_end p1 then ret (Inr acc)
       else bindp skipSeparators (\<lambda>_. bindp (image_item n acc) (\<lambda>acc'. bindp skipSeparators (\<lambda>_. ret (Inl acc'))))))"
proof (rule okI)
  fix p
  assume p: "sane p0 p" "weight p \<le> k"
  let ?q = "skip_separators p"
  define rest :: "(Transition list \<times> PhaseDecl list + Transition list \<times> PhaseDecl list) parser" where
    "rest = bindp (image_item n acc) (\<lambda>acc'. bindp skipSeparators (\<lambda>_. ret (Inl acc')))"
  from skip_separators_ok [OF p(1)] p(2) have q: "sane p0 ?q" "weight ?q \<le> weight p" "weight ?q \<le> k" by simp_all
  have moved: "weight ?q < weight p" if "\<not> at_end p" "peek_kind ?q = RBrace"
  proof -
    from that have "?q \<noteq> p" by (auto simp: at_end_def)
    then have "p_idx ?q \<noteq> p_idx p" using skip_separators_same by blast
    with skip_separators_ok [OF p(1)] show ?thesis by linarith
  qed
  let ?c = "if peek_kind ?q = RBrace then 0 else 1 :: nat"
  have "result_ok p0 (\<lambda>_. ?c) yes ?q (rest ?q)"
    unfolding rest_def by (rule result_ok_bind [where m = "image_item n acc", OF image_item_ok [OF q(1,3) k] q(3)])
      ((rule ok_rules ok_intros | (simp; fail))+)
  moreover have "weight ?q + 1 \<le> weight p + ?c" if "\<not> at_end p" using moved [OF that] q(2) by (auto simp: Suc_le_eq)
  ultimately have "result_ok p0 goes_on yes p (rest ?q)" if "\<not> at_end p" using that result_ok_goes_on by blast
  then show "result_ok p0 goes_on yes p (bindp get_state (\<lambda>p1. if at_end p1 then ret (Inr acc)
      else bindp skipSeparators (\<lambda>_. bindp (image_item n acc) (\<lambda>acc'. bindp skipSeparators (\<lambda>_. ret (Inl acc'))))) p)"
    unfolding rest_def [symmetric] using p(1) by (simp add: bind_get_state) (simp add: bindp_def ret_def skipSeparators_def Let_def)
qed

lemma ok_parseImageDecl [THEN ok_tail, ok_intros]: "k < n \<Longrightarrow> ok p0 k (\<lambda>_. 1) yes (parseImageDecl n)"
  unfolding parseImageDecl_def by ((rule ok_rules image_round ok_intros | (simp; fail))+)

lemma ok_parseTraitDecl [THEN ok_tail, ok_intros]: "k < n \<Longrightarrow> ok p0 k (\<lambda>_. 1) yes (parseTraitDecl n)"
  unfolding parseTraitDecl_def by ((rule ok_rules ok_intros | (simp; fail))+)

lemma ok_parseImplDecl [THEN ok_tail, ok_intros]: "k < n \<Longrightarrow> ok p0 k (\<lambda>_. 1) yes (parseImplDecl n)"
  unfolding parseImplDecl_def by ((rule ok_rules ok_intros | (simp; fail))+)

lemma ok_parseDecl [THEN ok_tail, ok_intros]: "k < n \<Longrightarrow> ok p0 k (\<lambda>_. 1) yes (parseDecl n)"
  unfolding parseDecl_def not_unique_def by ((rule ok_rules ok_intros | (simp; fail))+)

section \<open>Modules\<close>

lemma ok_parse_import_names [THEN ok_tail, ok_intros]: "k < n \<Longrightarrow> ok p0 k (\<lambda>_. 0) yes (parse_import_names n)"
  unfolding parse_import_names_def by ((rule ok_rules ok_intros | (simp; fail))+)

lemma ok_parseImport [THEN ok_tail, ok_intros]: "k < n \<Longrightarrow> ok p0 k (\<lambda>_. 1) yes (parseImport n)"
  unfolding parseImport_def by ((rule ok_rules ok_intros fine_here | (simp; fail))+)

lemma ok_module_header [THEN ok_tail, ok_intros]: "k < n \<Longrightarrow> ok p0 k (\<lambda>_. 0) yes (module_header n)"
  unfolding module_header_def by ((rule ok_rules ok_intros | (simp; fail))+)

lemma ok_parse_imports [THEN ok_tail, ok_intros]: "k < n \<Longrightarrow> ok p0 k (\<lambda>_. 0) yes (parse_imports n)"
  unfolding parse_imports_def by ((rule ok_rules ok_intros | (simp; fail))+)

lemma ok_parse_decls [THEN ok_tail, ok_intros]: "k < n \<Longrightarrow> ok p0 k (\<lambda>_. 0) yes (parse_decls n)"
  unfolding parse_decls_def by ((rule ok_rules ok_intros | (simp; fail))+)


lemma sane_newParser: "sane (newParser U path src) (newParser U path src)"
proof -
  let ?ts = "fst (lex_loop U src 0)"
  have "list_all (token_ok src) ?ts" using lex_loop_piece [of 0 src U] by (auto simp: piece_def list_all_iff)
  then show ?thesis
    by (auto simp: sane_def newParser_def All_def split_beta Let_def good_tok_def token_ok_def list_all_iff less_imp_le)
qed

lemma weight_bound: "weight p < parse_bound p"
proof -
  have "sum_list (map tok_weight ts) \<le> 2 * length ts" for ts
    by (induction ts) (auto simp: tok_weight_def)
  from this [of "drop (p_idx p) (p_toks p)"] show ?thesis by (simp add: weight_def parse_bound_def)
qed

text \<open>A module ends in one of three ways: with its tree, with one diagnostic, or at the diagnostics of the lexer.\<close>

lemma parse_module_cases:
  assumes p: "sane p0 p" "weight p < n"
  shows "(\<exists>m q. parse_module n p = Parsed m q \<and> p_lexDiags p0 = []) \<or> (\<exists>ds. parse_module n p = Failed ds \<and> fine p0 ds) \<or>
    parse_module n p = Failed [] \<and> p_lexDiags p0 \<noteq> []"
proof -
  from okD [OF ok_module_header p(1), OF _ order_refl] p(2)
  have h: "result_ok p0 (\<lambda>_. 0) yes p (module_header n p)" by simp
  show ?thesis
  proof (cases "module_header n p")
    case (Parsed sn q)
    with h have q: "sane p0 q" "weight q < n" using p(2) by auto
    obtain start name where sn: "sn = (start, name)" by force
    have "ok p0 (weight q) (\<lambda>_. 0) yes (bindp (parse_imports n) (\<lambda>imports. bindp (parse_decls n) (\<lambda>decls. bindp get_state (\<lambda>p.
       ret \<lparr>module_Name = name, module_Imports = imports, module_Decls = decls, module_Span = span start (tok_End (previous p))\<rparr>))))"
      using q(2) by - ((rule ok_rules ok_intros | (simp; fail))+)
    from okD [OF this q(1) order_refl] Parsed q(1) sn show ?thesis
      unfolding parse_module_def bindp_def [of "module_header n"] by (auto simp: bind_get_state sane_def elim: result_ok.elims)
  qed (use h in \<open>auto simp: parse_module_def bindp_def\<close>)
qed

lemma ParseModule_new:
  "\<exists>m es. ParseModule (newParser U path src) = Some (m, snd (All U src) @ es) \<and> (m = None \<longleftrightarrow> snd (All U src) @ es \<noteq> []) \<and>
    length es \<le> 1 \<and> list_all (parse_diag (newParser U path src)) es"
proof -
  let ?p = "newParser U path src"
  have l: "p_lexDiags ?p = snd (All U src)" by (simp add: newParser_def split_beta Let_def)
  from parse_module_cases [OF sane_newParser weight_bound, of U path src] show ?thesis
  proof (elim disjE exE conjE)
    fix m q
    assume "parse_module (parse_bound ?p) ?p = Parsed m q" "p_lexDiags ?p = []"
    then show ?thesis using l by (intro exI [of _ "Some m"] exI [of _ "[]"]) (simp add: ParseModule_def)
  next
    fix ds
    assume "parse_module (parse_bound ?p) ?p = Failed ds" "fine ?p ds"
    then show ?thesis using l by (intro exI [of _ None] exI [of _ ds]) (auto simp: ParseModule_def fine_def)
  next
    assume "parse_module (parse_bound ?p) ?p = Failed []" "p_lexDiags ?p \<noteq> []"
    then show ?thesis using l by (intro exI [of _ None] exI [of _ "[]"]) (simp add: ParseModule_def)
  qed
qed

text \<open>
  C35. Parsing returns for every list of files, whatever their contents: no loop of the parser and no
  recursion of its routines goes on forever, and there is a module for every file that has no diagnostic.
\<close>

theorem ParseGraph_returns:
  "\<exists>modules ds. ParseGraph U files = Some (modules, ds) \<and> length modules \<le> length files \<and>
    (ds = [] \<longleftrightarrow> length modules = length files)"
proof -
  have "\<exists>modules ds. parse_files U files = Some (modules, ds) \<and> length modules \<le> length files \<and>
    (ds = [] \<longleftrightarrow> length modules = length files)"
  proof (induction files)
    case (Cons f files)
    then obtain modules ds where r: "parse_files U files = Some (modules, ds)" "length modules \<le> length files"
      "ds = [] \<longleftrightarrow> length modules = length files" by blast
    from ParseModule_new [of U "file_Path f" "file_Source f"] r show ?case
      by (auto split: option.splits)
  qed simp
  moreover have "Sort ds = [] \<longleftrightarrow> ds = []" for ds by (simp add: Sort_def flip: set_empty)
  ultimately show ?thesis by (auto simp: ParseGraph_def)
qed

text \<open>
  C36. Parsing a file reports errors as it should: it gives no module exactly when there is a diagnostic; what it
  reports are the diagnostics of the lexer and at most one of the parser, which has one of the codes of the parser, the path
  of the file and a span inside the source.
\<close>

theorem ParseModule_reports:
  "\<exists>m es. ParseModule (newParser U path src) = Some (m, snd (All U src) @ es) \<and> (m = None \<longleftrightarrow> snd (All U src) @ es \<noteq> []) \<and>
    length es \<le> 1 \<and> list_all (\<lambda>d. diag_Phase d = ''parse'' \<and> diag_Code d \<in> {PAR0001, PAR0002} \<and> diag_FilePath d = path \<and>
      0 \<le> diag_Start d \<and> diag_Start d \<le> diag_End d \<and> diag_End d \<le> int (length src)) es"
proof -
  have "parse_diag (newParser U path src) = (\<lambda>d. diag_Phase d = ''parse'' \<and> diag_Code d \<in> {PAR0001, PAR0002} \<and> diag_FilePath d = path \<and>
      0 \<le> diag_Start d \<and> diag_Start d \<le> diag_End d \<and> diag_End d \<le> int (length src))"
    by (rule ext) (simp add: parse_diag_def newParser_def split_beta Let_def)
  with ParseModule_new [of U path src] show ?thesis by simp
qed

end
