(* ===== verification/Parser_Roundtrip.thy ===== *)
theory Parser_Roundtrip
  imports Parser_Total Lexer_Roundtrip
begin

text \<open>
  Parsing undoes printing, for expressions. An expression is printed with the parentheses that the precedence of
  its operators makes necessary and no others; lexing and parsing the text gives the expression back, up to spans. The
  lemmas follow the loop of \<open>parseExpr\<close>: a printed operand leaves the loop in the state in which it would be
  had the operand just been read. They hold for every bound as long as it is not exhausted, which
  \<open>Parser_Total\<close> rules out.
\<close>

section \<open>Printing\<close>

type_synonym printed = "(Kind \<times> string) list"

definition binary_ops :: "(string \<times> Kind) list" where
  "binary_ops = [(''*'', Star), (''/'', Slash), (''%'', Percent), (''+'', Plus), (''-'', Minus), (''<<'', ShiftLeft), (''>>'', ShiftRight),
     (''<'', Less), (''<='', LessEqual), (''>'', Greater), (''>='', GreaterEqual), (''=='', EqualEqual), (''!='', BangEqual),
     (''&'', Amp), (''^'', Caret), (''|'', Pipe)]"

definition op_kind :: "string \<Rightarrow> Kind" where
  "op_kind op = the (map_of binary_ops op)"

text \<open>The operators by how tightly they bind, the loosest first; each level is ten above the one before.\<close>

definition op_levels :: "string list list" where
  "op_levels = [[''|''], [''^''], [''&''], [''=='', ''!=''], [''<'', ''<='', ''>'', ''>=''], [''<<'', ''>>''], [''+'', ''-''], [''*'', ''/'', ''%'']]"

definition op_prec :: "string \<Rightarrow> nat" where
  "op_prec op = 10 * Suc (length (takeWhile (\<lambda>ops. op \<notin> set ops) op_levels))"

definition paren :: "printed \<Rightarrow> printed" where
  "paren ts = [(LParen, ''('')] @ ts @ [(RParen, '')'')]"

fun commas :: "printed list \<Rightarrow> printed" where
  "commas [] = []"
| "commas [x] = x"
| "commas (x # y # xs) = x @ [(Comma, '','')] @ commas (y # xs)"

primrec print_expr :: "Expr \<Rightarrow> nat \<Rightarrow> printed" and print_arg :: "NamedArg \<Rightarrow> printed" where
  "print_expr (NameExpr n sp) = (\<lambda>m. [(Identifier, n)])"
| "print_expr (IntLiteral v sp) = (\<lambda>m. [(Integer, v)])"
| "print_expr (StringLiteral v sp) = (\<lambda>m. [(String, v)])"
| "print_expr (BoolLiteral v sp) = (\<lambda>m. [if v then (KeywordTrue, ''true'') else (KeywordFalse, ''false'')])"
| "print_expr (ConstructorExpr t args sp) = (\<lambda>m. (Identifier, type_Name t) # paren (commas (map print_arg args)))"
| "print_expr (VariantConstructorExpr e v args sp) = (\<lambda>m. [])"
| "print_expr (SizeOfExpr t sp) = (\<lambda>m. [])"
| "print_expr (AlignOfExpr t sp) = (\<lambda>m. [])"
| "print_expr (TypeOperandExpr t sp) = (\<lambda>m. [])"
| "print_expr (CallExpr r name args sp) = (\<lambda>m. print_expr r 90 @ [(Dot, ''.''), (Identifier, name)] @ paren (commas (map print_arg args)))"
| "print_expr (FieldExpr b f sp) = (\<lambda>m. print_expr b 90 @ [(Dot, ''.''), (Identifier, f)])"
| "print_expr (BinaryExpr op l r sp) = (\<lambda>m.
     let ts = print_expr l (op_prec op) @ [(op_kind op, op)] @ print_expr r (op_prec op + 1) in if op_prec op < m then paren ts else ts)"
| "print_arg (NamedArg name value sp) = (if name = '''' then [] else [(Identifier, name), (Equal, ''='')]) @ print_expr value 0"

text \<open>
  The expressions that are printed: names in lower case, literals, constructions of types without arguments, method
  calls, fields and binary operators.
\<close>

primrec writable :: "Expr \<Rightarrow> bool" and writable_arg :: "NamedArg \<Rightarrow> bool" where
  "writable (NameExpr n sp) = (\<not> startsUpper n)"
| "writable (IntLiteral v sp) = True"
| "writable (StringLiteral v sp) = True"
| "writable (BoolLiteral v sp) = True"
| "writable (ConstructorExpr t args sp) = (type_Args t = [] \<and> CHR ''.'' \<notin> set (type_Name t) \<and> list_all writable_arg args)"
| "writable (VariantConstructorExpr e v args sp) = False"
| "writable (SizeOfExpr t sp) = False"
| "writable (AlignOfExpr t sp) = False"
| "writable (TypeOperandExpr t sp) = False"
| "writable (CallExpr r name args sp) = (writable r \<and> list_all writable_arg args)"
| "writable (FieldExpr b f sp) = writable b"
| "writable (BinaryExpr op l r sp) = (op \<in> fst ` set binary_ops \<and> writable l \<and> writable r)"
| "writable_arg (NamedArg name value sp) = writable value"

text \<open>Expressions without their spans.\<close>

definition erase_type :: "TypeRef \<Rightarrow> TypeRef" where
  "erase_type t = TypeRef (type_Name t) (type_Args t) no_span"

primrec erase :: "Expr \<Rightarrow> Expr" and erase_arg :: "NamedArg \<Rightarrow> NamedArg" where
  "erase (NameExpr n sp) = NameExpr n no_span"
| "erase (IntLiteral v sp) = IntLiteral v no_span"
| "erase (StringLiteral v sp) = StringLiteral v no_span"
| "erase (BoolLiteral v sp) = BoolLiteral v no_span"
| "erase (ConstructorExpr t args sp) = ConstructorExpr (erase_type t) (map erase_arg args) no_span"
| "erase (VariantConstructorExpr e v args sp) = VariantConstructorExpr e v (map erase_arg args) no_span"
| "erase (SizeOfExpr t sp) = SizeOfExpr (erase_type t) no_span"
| "erase (AlignOfExpr t sp) = AlignOfExpr (erase_type t) no_span"
| "erase (TypeOperandExpr t sp) = TypeOperandExpr (erase_type t) no_span"
| "erase (CallExpr r name args sp) = CallExpr (erase r) name (map erase_arg args) no_span"
| "erase (FieldExpr b f sp) = FieldExpr (erase b) f no_span"
| "erase (BinaryExpr op l r sp) = BinaryExpr op (erase l) (erase r) no_span"
| "erase_arg (NamedArg name value sp) = NamedArg name (erase value) no_span"

lemma binary_ops_table:
  "list_all (\<lambda>op. precedence (op_kind op) = Some (op_prec op) \<and> op_prec op < 90 \<and> 0 < op_prec op \<and>
     op_kind op \<noteq> Dot \<and> op_kind op \<noteq> Equal \<and> op_kind op \<noteq> LParen \<and> op_kind op \<noteq> Newline) (map fst binary_ops)"
  by code_simp

lemma op_props:
  assumes "op \<in> fst ` set binary_ops"
  shows "precedence (op_kind op) = Some (op_prec op)" and "op_prec op < 90" and "0 < op_prec op" and "op_kind op \<noteq> Dot"
    and "op_kind op \<noteq> Equal" and "op_kind op \<noteq> LParen" and "op_kind op \<noteq> Newline"
  using assms binary_ops_table by (auto simp: list_all_iff)

section \<open>Token states\<close>

text \<open>The kinds and texts of the remaining tokens.\<close>

definition shape :: "Parser \<Rightarrow> printed" where
  "shape p = map spelling (drop (p_idx p) (p_toks p))"

definition adv :: "Parser \<Rightarrow> Parser" where
  "adv p = p\<lparr>p_idx := p_idx p + 1\<rparr>"

lemma shape_inside: "shape p = t # ts \<Longrightarrow> p_idx p < length (p_toks p)"
  by (rule ccontr) (simp add: shape_def)

lemma shape_cons:
  assumes "shape p = (k, s) # ts"
  shows shape_kind: "peek_kind p = k" and shape_text: "tok_Text (peek p) = s" and shape_adv: "shape (adv p) = ts"
    and shape_next: "next_tok p = Parsed (peek p) (adv p)"
proof -
  note i = shape_inside [OF assms]
  have "drop (p_idx p) (p_toks p) = p_toks p ! p_idx p # drop (p_idx p + 1) (p_toks p)" using i by (simp add: Cons_nth_drop_Suc)
  with assms have "spelling (p_toks p ! p_idx p) = (k, s)" "map spelling (drop (p_idx p + 1) (p_toks p)) = ts" by (simp_all add: shape_def)
  with i show "peek_kind p = k" "tok_Text (peek p) = s" "shape (adv p) = ts" "next_tok p = Parsed (peek p) (adv p)"
    by (simp_all add: peek_def shape_def adv_def next_tok_def)
qed

lemma shape_second: "shape p = t # (k, s) # ts \<Longrightarrow> tok_Kind (peekN p 1) = k"
proof -
  assume a: "shape p = t # (k, s) # ts"
  obtain k0 s0 where "t = (k0, s0)" by force
  with shape_adv [of p k0 s0] a have "shape (adv p) = (k, s) # ts" by simp
  from shape_kind [OF this] shape_inside [OF this] show ?thesis by (simp add: peek_def peekN_def adv_def)
qed

lemma bind_next: "shape p = (k, s) # ts \<Longrightarrow> bindp next_tok F p = F (peek p) (adv p)"
  by (simp add: bindp_def shape_next)

lemma bind_match: "shape p = (k, s) # ts \<Longrightarrow> bindp (match_kind kind) F p = (if k = kind then F True (adv p) else F False p)"
  by (simp add: bindp_def match_kind_def shape_kind shape_next ret_def)

lemma bind_consume: "shape p = (k, s) # ts \<Longrightarrow> k = kind \<Longrightarrow> bindp (consume kind) F p = F (peek p) (adv p)"
  by (simp add: bindp_def consume_def shape_kind shape_next)

lemma bind_expect: "shape p = (Identifier, s) # ts \<Longrightarrow> bindp (expectIdentifier msg) F p = F (peek p) (adv p)"
  by (simp add: bindp_def expectIdentifier_def isNameToken_def shape_kind shape_next)

lemma bind_selector: "shape p = (Identifier, s) # ts \<Longrightarrow> bindp (expectSelectorName msg) F p = F (peek p) (adv p)"
  by (simp add: bindp_def expectSelectorName_def isSelectorNameToken_def isExpressionNameToken_def isNameToken_def shape_kind shape_next)

lemma bind_skip: "shape p = (k, s) # ts \<Longrightarrow> k \<noteq> Newline \<Longrightarrow> k \<noteq> Semicolon \<Longrightarrow> bindp skipSeparators F p = F False p"
  by (simp add: bindp_def skipSeparators_def skip_separators.simps [of p] shape_kind)

lemma bind_ret: "bindp (ret x) F = F x"
  by (simp add: bindp_def ret_def)

lemma bind_bind: "bindp (bindp m F) G = bindp m (\<lambda>x. bindp (F x) G)"
  by (rule ext) (auto simp: bindp_def split: outcome.splits)

lemmas run_simps = bind_get_state bind_ret bind_next bind_match bind_consume bind_expect bind_selector bind_skip


section \<open>Parsing printed expressions\<close>

text \<open>What may follow an operand at level \<open>m\<close>: no token that the loop of \<open>parseExpr\<close> would take at that level.\<close>

definition stops :: "nat \<Rightarrow> printed \<Rightarrow> bool" where
  "stops m rest \<longleftrightarrow> (case rest of [] \<Rightarrow> False
    | (k, s) # ts \<Rightarrow> k \<noteq> LParen \<and> k \<noteq> Newline \<and> k \<noteq> Equal \<and> (case precedence k of None \<Rightarrow> True | Some q \<Rightarrow> q < m))"

lemma stops_mono: "stops m rest \<Longrightarrow> m \<le> m' \<Longrightarrow> stops m' rest"
  by (auto simp: stops_def split: list.splits option.splits)

text \<open>The first tokens of an expression: no separator, no closing parenthesis and no name with an equals sign.\<close>

definition starts :: "printed \<Rightarrow> bool" where
  "starts ts \<longleftrightarrow> (case ts of [] \<Rightarrow> False
    | (k, s) # ts' \<Rightarrow> k \<in> {Identifier, Integer, String, KeywordTrue, KeywordFalse, LParen} \<and>
        (k = Identifier \<longrightarrow> ts' \<noteq> [] \<and> fst (hd ts') \<noteq> Equal))"

lemma print_starts: "writable e \<Longrightarrow> rest \<noteq> [] \<Longrightarrow> fst (hd rest) \<noteq> Equal \<Longrightarrow> starts (print_expr e m @ rest)"
proof (induction e arbitrary: m rest rule: Expr.induct [of _ "\<lambda>_. True"])
  case (BinaryExpr op l r sp)
  then show ?case by (auto simp: Let_def paren_def starts_def op_props)
qed (auto simp: starts_def paren_def)

definition parse_rest :: "nat \<Rightarrow> nat \<Rightarrow> nat \<Rightarrow> Expr \<Rightarrow> Expr parser" where
  "parse_rest n k minPrec left = repeat k (expr_step (Suc n) (parseExpr n) minPrec) left"

definition parse_from :: "nat \<Rightarrow> nat \<Rightarrow> nat \<Rightarrow> Expr parser" where
  "parse_from n k minPrec = bindp (parsePrimary (Suc n) (parseExpr n)) (parse_rest n k minPrec)"

lemma parseExpr_from: "parseExpr (Suc n) minPrec = parse_from n (Suc n) minPrec"
  by (simp only: parseExpr.simps parse_from_def parse_rest_def [abs_def])

text \<open>Reading an operand leaves the loop as if the operand were the left side so far.\<close>

definition reads :: "Expr \<Rightarrow> nat \<Rightarrow> bool" where
  "reads e m \<longleftrightarrow> (\<forall>n k minPrec rest p. minPrec \<le> m \<longrightarrow> stops (m + 1) rest \<longrightarrow> shape p = print_expr e m @ rest \<longrightarrow>
     parse_from n k minPrec p = Exhausted \<or>
     (\<exists>k' e' q. parse_from n k minPrec p = parse_rest n k' minPrec e' q \<and> erase e' = erase e \<and> shape q = rest))"

lemma readsI:
  assumes "\<And>n k minPrec rest p. minPrec \<le> m \<Longrightarrow> stops (m + 1) rest \<Longrightarrow> shape p = print_expr e m @ rest \<Longrightarrow>
     parse_from n k minPrec p \<noteq> Exhausted \<Longrightarrow>
     \<exists>k' e' q. parse_from n k minPrec p = parse_rest n k' minPrec e' q \<and> erase e' = erase e \<and> shape q = rest"
  shows "reads e m"
  unfolding reads_def using assms by blast

lemma readsE:
  assumes "reads e m" "minPrec \<le> m" "stops (m + 1) rest" "shape p = print_expr e m @ rest" "parse_from n k minPrec p \<noteq> Exhausted"
  obtains k' e' q where "parse_from n k minPrec p = parse_rest n k' minPrec e' q" "erase e' = erase e" "shape q = rest"
  using assms unfolding reads_def by blast

lemma parse_rest_stops:
  assumes "stops m rest" "shape q = rest" "parse_rest n k m e q \<noteq> Exhausted"
  shows "parse_rest n k m e q = Parsed e q"
proof (cases k)
  case 0
  with assms show ?thesis by (simp add: parse_rest_def)
next
  case (Suc j)
  from assms(1,2) obtain kd s ts where sh: "shape q = (kd, s) # ts" by (cases rest) (auto simp: stops_def)
  with assms(1,2) have "expr_step (Suc n) (parseExpr n) m e q = Parsed (Inr e) q"
    by (auto simp: expr_step_def skip_newline_dot_def bindp_def get_state_def ret_def shape_kind stops_def split: option.splits)
  with Suc show ?thesis by (simp add: parse_rest_def bindp_def ret_def)
qed

text \<open>A whole expression.\<close>

lemma reads_expr:
  assumes "reads e m" "stops m rest" "shape p = print_expr e m @ rest" "parseExpr n m p \<noteq> Exhausted"
  obtains e' q where "parseExpr n m p = Parsed e' q" "erase e' = erase e" "shape q = rest"
proof (cases n)
  case 0
  with assms(4) show ?thesis by simp
next
  case (Suc j)
  from assms(4) have "parse_from j (Suc j) m p \<noteq> Exhausted" unfolding Suc parseExpr_from .
  from readsE [OF assms(1) order_refl stops_mono [OF assms(2)] assms(3) this]
  obtain k' e' q where r: "parse_from j (Suc j) m p = parse_rest j k' m e' q" "erase e' = erase e" "shape q = rest" by auto
  with assms(4) have "parse_rest j k' m e' q \<noteq> Exhausted" unfolding Suc parseExpr_from by simp
  from parse_rest_stops [OF assms(2) r(3) this] r show ?thesis by (intro that [of e' q]) (simp_all add: Suc parseExpr_from del: parseExpr.simps)
qed


text \<open>An operand that is a primary: it is read, and the loop begins.\<close>

lemma reads_primary:
  assumes "\<And>n rest p. stops (m + 1) rest \<Longrightarrow> shape p = print_expr e m @ rest \<Longrightarrow> parsePrimary (Suc n) (parseExpr n) p \<noteq> Exhausted \<Longrightarrow>
    \<exists>e' q. parsePrimary (Suc n) (parseExpr n) p = Parsed e' q \<and> erase e' = erase e \<and> shape q = rest"
  shows "reads e m"
proof (rule readsI)
  fix n k minPrec rest p
  assume r: "stops (m + 1) rest" "shape p = print_expr e m @ rest" and "parse_from n k minPrec p \<noteq> Exhausted"
  then have "parsePrimary (Suc n) (parseExpr n) p \<noteq> Exhausted" by (auto simp: parse_from_def bindp_def)
  from assms [OF r this] obtain e' q where "parsePrimary (Suc n) (parseExpr n) p = Parsed e' q" "erase e' = erase e" "shape q = rest" by blast
  then show "\<exists>k' e' q. parse_from n k minPrec p = parse_rest n k' minPrec e' q \<and> erase e' = erase e \<and> shape q = rest"
    by (intro exI [of _ k] exI [of _ e'] exI [of _ q]) (simp add: parse_from_def bindp_def)
qed

text \<open>An operand that ends with one round of the loop behind a left part.\<close>

lemma reads_round:
  assumes l: "reads l q" and m: "m \<le> q" and after: "\<And>rest. stops (m + 1) rest \<Longrightarrow> stops (q + 1) (after @ rest)"
    and e: "print_expr e m = print_expr l q @ after"
    and round: "\<And>n minPrec rest l' p. minPrec \<le> q \<Longrightarrow> stops (m + 1) rest \<Longrightarrow> erase l' = erase l \<Longrightarrow> shape p = after @ rest \<Longrightarrow>
      expr_step (Suc n) (parseExpr n) minPrec l' p \<noteq> Exhausted \<Longrightarrow>
      \<exists>e' q. expr_step (Suc n) (parseExpr n) minPrec l' p = Parsed (Inl e') q \<and> erase e' = erase e \<and> shape q = rest"
  shows "reads e m"
proof (rule readsI)
  fix n k minPrec rest p
  assume r: "minPrec \<le> m" "stops (m + 1) rest" "shape p = print_expr e m @ rest" and ne: "parse_from n k minPrec p \<noteq> Exhausted"
  have "minPrec \<le> q" using r(1) m by simp
  moreover have "shape p = print_expr l q @ after @ rest" using r(3) e by simp
  ultimately obtain k' l' s where s: "parse_from n k minPrec p = parse_rest n k' minPrec l' s" "erase l' = erase l" "shape s = after @ rest"
    using readsE [OF l _ after [OF r(2)] _ ne] by blast
  with ne obtain j where k': "k' = Suc j" by (cases k') (auto simp: parse_rest_def)
  with s(1) ne have "expr_step (Suc n) (parseExpr n) minPrec l' s \<noteq> Exhausted" by (auto simp: parse_rest_def bindp_def)
  from round [OF \<open>minPrec \<le> q\<close> r(2) s(2,3) this] obtain e' t where
    "expr_step (Suc n) (parseExpr n) minPrec l' s = Parsed (Inl e') t" "erase e' = erase e" "shape t = rest" by blast
  with s(1) k' show "\<exists>k' e' q. parse_from n k minPrec p = parse_rest n k' minPrec e' q \<and> erase e' = erase e \<and> shape q = rest"
    by (intro exI [of _ j] exI [of _ e'] exI [of _ t]) (simp add: parse_rest_def bindp_def)
qed

subsection \<open>Arguments\<close>

definition reads_arg :: "NamedArg \<Rightarrow> bool" where
  "reads_arg a \<longleftrightarrow> writable_arg a \<longrightarrow> reads (arg_Value a) 0"

lemma print_arg_eq: "print_arg a = (if arg_Name a = '''' then [] else [(Identifier, arg_Name a), (Equal, ''='')]) @ print_expr (arg_Value a) 0"
  by (cases a) simp

lemma writable_arg_eq: "writable_arg a = writable (arg_Value a)"
  by (cases a) simp

lemma erase_arg_eq: "erase_arg a = NamedArg (arg_Name a) (erase (arg_Value a)) no_span"
  by (cases a) simp

text \<open>One round of the argument loop.\<close>

definition arg_round :: "(nat \<Rightarrow> Expr parser) \<Rightarrow> NamedArg list \<Rightarrow> (NamedArg list + NamedArg list) parser" where
  "arg_round expr args =
       bindp skipSeparators (\<lambda>_. bindp get_state (\<lambda>p1.
       bindp (if isExpressionNameToken (peek p1) \<and> tok_Kind (peekN p1 1) = Equal
              then bindp next_tok (\<lambda>nameTok. bindp next_tok (\<lambda>_. ret (tok_Text nameTok, tok_Start nameTok)))
              else ret ('''', tok_Start (peek p1))) (\<lambda>(name, start).
       bindp (expr 0) (\<lambda>value.
       let args' = args @ [NamedArg name value (span start (span_End (expr_span value)))] in
       bindp skipSeparators (\<lambda>_. bindp (match_kind Comma) (\<lambda>comma.
       if \<not> comma then ret (Inr args')
       else bindp skipSeparators (\<lambda>_. bindp get_state (\<lambda>p2.
         if peek_kind p2 = RParen then fail_here PAR0001 ''trailing comma'' else ret (Inl args')))))))))"

lemma parseNamedArgs_rounds: "parseNamedArgs n expr =
  bindp skipSeparators (\<lambda>_. bindp get_state (\<lambda>p. if peek_kind p = RParen then ret [] else repeat n (arg_round expr) []))"
  unfolding parseNamedArgs_def arg_round_def [abs_def] ..

lemma starts_cons: "starts ts \<Longrightarrow> \<exists>k s ts'. ts = (k, s) # ts' \<and> k \<noteq> Newline \<and> k \<noteq> Semicolon \<and> k \<noteq> RParen"
  by (cases ts) (auto simp: starts_def)

lemma starts_arg: "writable_arg a \<Longrightarrow> rest \<noteq> [] \<Longrightarrow> fst (hd rest) \<noteq> Equal \<Longrightarrow>
  \<exists>k s ts'. print_arg a @ rest = (k, s) # ts' \<and> k \<noteq> Newline \<and> k \<noteq> Semicolon \<and> k \<noteq> RParen"
  using print_starts [of "arg_Value a" rest 0] starts_cons by (auto simp: print_arg_eq writable_arg_eq)

text \<open>The name of an argument, or none.\<close>

lemma arg_name:
  assumes "writable_arg a" "rest \<noteq> []" "fst (hd rest) \<noteq> Equal" "shape p = print_arg a @ rest"
  shows "\<exists>start q.
    bindp (if isExpressionNameToken (peek p) \<and> tok_Kind (peekN p 1) = Equal
        then bindp next_tok (\<lambda>nameTok. bindp next_tok (\<lambda>_. ret (tok_Text nameTok, tok_Start nameTok)))
        else ret ([], tok_Start (peek p))) F p = F (arg_Name a, start) q \<and>
    shape q = print_expr (arg_Value a) 0 @ rest"
proof (cases "arg_Name a = ''''")
  case True
  with assms print_starts [of "arg_Value a" rest 0] have st: "starts (shape p)" by (simp add: print_arg_eq writable_arg_eq)
  then obtain k s ts where sh: "shape p = (k, s) # ts" by (auto dest: starts_cons)
  have "\<not> (isExpressionNameToken (peek p) \<and> tok_Kind (peekN p 1) = Equal)"
  proof (cases ts)
    case (Cons t ts')
    obtain k' s' where "t = (k', s')" by force
    with Cons sh st shape_second [of p "(k, s)" k' s' ts'] shape_kind [OF sh] show ?thesis
      by (auto simp: starts_def isExpressionNameToken_def isNameToken_def)
  qed (use sh st shape_kind [OF sh] in \<open>auto simp: starts_def isExpressionNameToken_def isNameToken_def\<close>)
  then show ?thesis using True assms(4) by (intro exI [of _ "tok_Start (peek p)"] exI [of _ p]) (auto simp: bind_ret print_arg_eq)
next
  case False
  with assms(4) have sh: "shape p = (Identifier, arg_Name a) # (Equal, ''='') # print_expr (arg_Value a) 0 @ rest" by (simp add: print_arg_eq)
  note sh2 = shape_adv [OF sh]
  from shape_kind [OF sh] shape_second [OF sh] show ?thesis
    by (intro exI [of _ "tok_Start (peek p)"] exI [of _ "adv (adv p)"])
      (simp_all add: isExpressionNameToken_def isNameToken_def bind_bind bind_next [OF sh] bind_next [OF sh2] bind_ret shape_text [OF sh] shape_adv [OF sh2])
qed


text \<open>The loop reads the arguments up to the closing parenthesis.\<close>

lemma bind_expr: "bindp m F p \<noteq> Exhausted \<Longrightarrow> m p \<noteq> Exhausted"
  by (auto simp: bindp_def)

lemma arg_round_reads:
  assumes "writable_arg a" "reads (arg_Value a) 0" "shape p = print_arg a @ (k, s) # ts" "k = Comma \<or> k = RParen"
    and "arg_round (parseExpr n) acc p \<noteq> Exhausted" and "k = Comma \<Longrightarrow> \<exists>k' s' ts'. ts = (k', s') # ts' \<and> k' \<noteq> Newline \<and> k' \<noteq> Semicolon \<and> k' \<noteq> RParen"
  obtains a' q where "arg_round (parseExpr n) acc p = Parsed (if k = Comma then Inl (acc @ [a']) else Inr (acc @ [a'])) q"
    "erase_arg a' = erase_arg a" "shape q = (if k = Comma then ts else (k, s) # ts)"
proof -
  have ks: "k \<noteq> Equal" "k \<noteq> Newline" "k \<noteq> Semicolon" "stops 0 ((k, s) # ts)" using assms(4) by (auto simp: stops_def precedence_def)
  from starts_arg [OF assms(1), of "(k, s) # ts"] assms(3) ks(1) obtain k0 s0 ts0 where
    sh: "shape p = (k0, s0) # ts0" "k0 \<noteq> Newline" "k0 \<noteq> Semicolon" by auto
  let ?more = "\<lambda>name start value. let args' = acc @ [NamedArg name value (span start (span_End (expr_span value)))] in
       bindp skipSeparators (\<lambda>_. bindp (match_kind Comma) (\<lambda>comma.
       if \<not> comma then ret (Inr args')
       else bindp skipSeparators (\<lambda>_. bindp get_state (\<lambda>p2.
         if peek_kind p2 = RParen then fail_here PAR0001 ''trailing comma'' else ret (Inl args')))))"
  have hd: "fst (hd ((k, s) # ts)) \<noteq> Equal" using ks(1) by simp
  define F where "F = (\<lambda>(name, start). bindp (parseExpr n 0) (?more name start))"
  have "arg_round (parseExpr n) acc p =
      bindp (if isExpressionNameToken (peek p) \<and> tok_Kind (peekN p 1) = Equal
        then bindp next_tok (\<lambda>nameTok. bindp next_tok (\<lambda>_. ret (tok_Text nameTok, tok_Start nameTok)))
        else ret ('''', tok_Start (peek p))) F p"
    unfolding arg_round_def bind_skip [OF sh] bind_get_state F_def ..
  moreover obtain start q where
    "bindp (if isExpressionNameToken (peek p) \<and> tok_Kind (peekN p 1) = Equal
        then bindp next_tok (\<lambda>nameTok. bindp next_tok (\<lambda>_. ret (tok_Text nameTok, tok_Start nameTok)))
        else ret ('''', tok_Start (peek p))) F p = F (arg_Name a, start) q"
    and qs: "shape q = print_expr (arg_Value a) 0 @ (k, s) # ts"
    using arg_name [OF assms(1) list.distinct(2) hd assms(3), of F] by (elim exE conjE) (rule that)
  ultimately have q: "arg_round (parseExpr n) acc p = bindp (parseExpr n 0) (?more (arg_Name a) start) q" by (simp only: F_def prod.case)
  note q = q qs
  from assms(5) have "parseExpr n 0 q \<noteq> Exhausted" unfolding q(1) by (rule bind_expr)
  from reads_expr [OF assms(2) ks(4) q(2) this] obtain v r where
    v: "parseExpr n 0 q = Parsed v r" "erase v = erase (arg_Value a)" "shape r = (k, s) # ts" by blast
  let ?a = "NamedArg (arg_Name a) v (span start (span_End (expr_span v)))"
  have e: "erase_arg ?a = erase_arg a" using v(2) by (simp add: erase_arg_eq)
  have run: "arg_round (parseExpr n) acc p = ?more (arg_Name a) start v r" unfolding q(1) using v(1) by (simp add: bindp_def)
  show ?thesis
  proof (cases "k = Comma")
    case True
    from assms(6) [OF True] obtain k' s' ts' where t: "ts = (k', s') # ts'" "k' \<noteq> Newline" "k' \<noteq> Semicolon" "k' \<noteq> RParen" by blast
    note sh2 = shape_adv [OF v(3)]
    from sh2 t(1) have sh3: "shape (adv r) = (k', s') # ts'" by simp
    show ?thesis using True e sh2
      by (intro that [of ?a "adv r"])
        (simp_all add: run Let_def bind_skip [OF v(3) ks(2,3)] bind_match [OF v(3)] bind_skip [OF sh3 t(2,3)] bind_get_state shape_kind [OF sh3] t(4) ret_def)
  next
    case False
    show ?thesis using False e v(3)
      by (intro that [of ?a r]) (simp_all add: run Let_def bind_skip [OF v(3) ks(2,3)] bind_match [OF v(3)] ret_def)
  qed
qed


lemma args_loop:
  assumes "list_all writable_arg args" "\<And>a. a \<in> set args \<Longrightarrow> reads (arg_Value a) 0" "args \<noteq> []"
    and "shape p = commas (map print_arg args) @ (RParen, s) # rest" and "repeat k (arg_round (parseExpr n)) acc p \<noteq> Exhausted"
  shows "\<exists>args' q. repeat k (arg_round (parseExpr n)) acc p = Parsed (acc @ args') q \<and> map erase_arg args' = map erase_arg args \<and>
    shape q = (RParen, s) # rest"
  using assms
proof (induction args arbitrary: k acc p)
  case (Cons a args)
  from Cons.prems(5) obtain j where k: "k = Suc j" by (cases k) auto
  with Cons.prems(5) have ne: "arg_round (parseExpr n) acc p \<noteq> Exhausted" by (auto simp: bindp_def)
  have w: "writable_arg a" "reads (arg_Value a) 0" using Cons.prems by simp_all
  show ?case
  proof (cases args)
    case Nil
    with Cons.prems(4) have "shape p = print_arg a @ (RParen, s) # rest" by simp
    from arg_round_reads [OF w this _ ne] obtain a' q where "arg_round (parseExpr n) acc p = Parsed (Inr (acc @ [a'])) q"
      "erase_arg a' = erase_arg a" "shape q = (RParen, s) # rest" by auto
    with Nil k show ?thesis by (intro exI [of _ "[a']"] exI [of _ q]) (simp add: bindp_def ret_def)
  next
    case (Cons b bs)
    let ?ts = "commas (map print_arg args) @ (RParen, s) # rest"
    from Cons.prems(4) Cons have sh: "shape p = print_arg a @ (Comma, '','') # ?ts" by simp
    have "\<exists>k' s' ts'. ?ts = (k', s') # ts' \<and> k' \<noteq> Newline \<and> k' \<noteq> Semicolon \<and> k' \<noteq> RParen"
      using starts_arg [of b "(case bs of [] \<Rightarrow> [] | _ \<Rightarrow> [(Comma, '','')] @ commas (map print_arg bs)) @ (RParen, s) # rest"] Cons.prems(1) Cons
      by (cases bs) auto
    from arg_round_reads [OF w sh _ ne this] obtain a' q where a: "arg_round (parseExpr n) acc p = Parsed (Inl (acc @ [a'])) q"
      "erase_arg a' = erase_arg a" "shape q = ?ts" by auto
    have "repeat j (arg_round (parseExpr n)) (acc @ [a']) q \<noteq> Exhausted" using Cons.prems(5) k a(1) by (simp add: bindp_def)
    from Cons.IH [OF _ _ _ a(3) this] Cons.prems Cons obtain args' r where
      "repeat j (arg_round (parseExpr n)) (acc @ [a']) q = Parsed ((acc @ [a']) @ args') r" "map erase_arg args' = map erase_arg args"
      "shape r = (RParen, s) # rest" by auto
    with a k show ?thesis by (intro exI [of _ "a' # args'"] exI [of _ r]) (simp add: bindp_def)
  qed
qed simp

lemma args_read:
  assumes "list_all writable_arg args" "\<And>a. a \<in> set args \<Longrightarrow> reads (arg_Value a) 0"
    and "shape p = commas (map print_arg args) @ (RParen, s) # rest" and "parseNamedArgs k (parseExpr n) p \<noteq> Exhausted"
  obtains args' q where "parseNamedArgs k (parseExpr n) p = Parsed args' q" "map erase_arg args' = map erase_arg args" "shape q = (RParen, s) # rest"
proof (cases args)
  case Nil
  with assms(3) have sh: "shape p = (RParen, s) # rest" by simp
  with Nil show ?thesis by (intro that [of "[]" p]) (simp_all add: parseNamedArgs_rounds bind_skip [OF sh] bind_get_state shape_kind [OF sh] ret_def)
next
  case (Cons a as)
  then have ne: "args \<noteq> []" by simp
  obtain k0 s0 ts0 where sh: "shape p = (k0, s0) # ts0" "k0 \<noteq> Newline" "k0 \<noteq> Semicolon" "k0 \<noteq> RParen"
    using starts_arg [of a "(case as of [] \<Rightarrow> [] | _ \<Rightarrow> [(Comma, '','')] @ commas (map print_arg as)) @ (RParen, s) # rest"] assms(1,3) Cons
    by (cases as) auto
  have run: "parseNamedArgs k (parseExpr n) p = repeat k (arg_round (parseExpr n)) [] p"
    by (simp add: parseNamedArgs_rounds bind_skip [OF sh(1-3)] bind_get_state shape_kind [OF sh(1)] sh(4))
  with assms(4) have "repeat k (arg_round (parseExpr n)) [] p \<noteq> Exhausted" by simp
  from args_loop [OF assms(1,2) ne assms(3) this] run that show ?thesis by fastforce
qed


subsection \<open>Operands\<close>

lemma bind_parsed: "m p = Parsed x q \<Longrightarrow> bindp m F p = F x q"
  by (simp add: bindp_def)

lemma reads_name: "\<not> startsUpper n \<Longrightarrow> reads (NameExpr n sp) m"
proof (rule reads_primary)
  fix k rest p
  assume low: "\<not> startsUpper n" and st: "stops (m + 1) rest" and "shape p = print_expr (NameExpr n sp) m @ rest"
  then have sh: "shape p = (Identifier, n) # rest" by simp
  from st obtain kd s ts where rest: "rest = (kd, s) # ts" "kd \<noteq> LParen" by (cases rest) (auto simp: stops_def)
  have "plain_name (peek p) (adv p)"
    using shape_cons [OF sh] shape_kind [of "adv p" kd s ts] low rest by (simp add: plain_name_def)
  then have "parsePrimary (Suc k) (parseExpr k) p = Parsed (NameExpr n (span (tok_Start (peek p)) (tok_End (peek p)))) (adv p)"
    by (simp add: parsePrimary_def parse_named_def bind_next [OF sh] shape_kind [OF sh] shape_text [OF sh] bind_get_state ret_def)
  then show "\<exists>e' q. parsePrimary (Suc k) (parseExpr k) p = Parsed e' q \<and> erase e' = erase (NameExpr n sp) \<and> shape q = rest"
    using shape_adv [OF sh] by simp
qed

lemma reads_literal:
  assumes "print_expr e m = [(k, s)]"
    and "\<And>n p. peek_kind p = k \<Longrightarrow> tok_Text (peek p) = s \<Longrightarrow> next_tok p = Parsed (peek p) (adv p) \<Longrightarrow>
      \<exists>e'. parsePrimary (Suc n) (parseExpr n) p = Parsed e' (adv p) \<and> erase e' = erase e"
  shows "reads e m"
proof (rule reads_primary)
  fix n rest p
  assume "shape p = print_expr e m @ rest"
  with assms(1) have sh: "shape p = (k, s) # rest" by simp
  from assms(2) [OF shape_kind [OF sh] shape_text [OF sh] shape_next [OF sh]] shape_adv [OF sh]
  show "\<exists>e' q. parsePrimary (Suc n) (parseExpr n) p = Parsed e' q \<and> erase e' = erase e \<and> shape q = rest" by blast
qed

lemma reads_int: "reads (IntLiteral v sp) m"
  by (rule reads_literal, simp) (simp add: parsePrimary_def bindp_def ret_def)

lemma reads_string: "reads (StringLiteral v sp) m"
  by (rule reads_literal, simp) (simp add: parsePrimary_def bindp_def ret_def)

lemma reads_bool: "reads (BoolLiteral b sp) m"
  by (cases b; rule reads_literal, simp) (simp_all add: parsePrimary_def bindp_def ret_def)

lemma parseTypeRef_simple:
  assumes sh: "shape p = (Identifier, name) # (LParen, s) # ts"
  shows "\<exists>sp. parseTypeRef (Suc n) p = Parsed (TypeRef name [] sp) (adv p)"
proof -
  note sh2 = shape_adv [OF sh]
  have "parseDottedName (Suc n) p = Parsed name (adv p)"
    by (simp add: parseDottedName_def bind_expect [OF sh] bind_bind bind_match [OF sh2] bind_ret shape_text [OF sh]) (simp add: ret_def)
  then have "parseTypeName (Suc n) p = Parsed name (adv p)"
    by (simp add: parseTypeName_def bind_get_state shape_kind [OF sh])
  then show ?thesis by (simp add: bind_get_state bind_parsed bind_match [OF sh2]) (simp add: ret_def)
qed

lemma SplitByte_none: "sep \<notin> set s \<Longrightarrow> SplitByte sep s = [s]"
  by (induction s) auto


lemma reads_constructor:
  assumes t: "type_Args t = []" "CHR ''.'' \<notin> set (type_Name t)"
    and args: "list_all writable_arg args" "\<And>a. a \<in> set args \<Longrightarrow> reads (arg_Value a) 0"
  shows "reads (ConstructorExpr t args sp) m"
proof (rule reads_primary)
  fix n rest p
  assume "shape p = print_expr (ConstructorExpr t args sp) m @ rest" and ne: "parsePrimary (Suc n) (parseExpr n) p \<noteq> Exhausted"
  then have sh: "shape p = (Identifier, type_Name t) # (LParen, ''('') # commas (map print_arg args) @ (RParen, '')'') # rest"
    by (simp add: paren_def)
  note sh2 = shape_adv [OF sh]
  note sh3 = shape_adv [OF sh2]
  from parseTypeRef_simple [OF sh, of n] obtain tsp where ty: "parseTypeRef (Suc n) p = Parsed (TypeRef (type_Name t) [] tsp) (adv p)" by blast
  have plain: "\<not> plain_name (peek p) (adv p)" using shape_kind [OF sh2] by (simp add: plain_name_def)
  have step_back: "bindp (\<lambda>p. Parsed () (p\<lparr>p_idx := p_idx p - Suc 0\<rparr>)) F (adv p) = F () p" for F :: "unit \<Rightarrow> Expr parser"
    by (simp add: bindp_def adv_def)
  have run: "parsePrimary (Suc n) (parseExpr n) p = bindp (parseNamedArgs (Suc n) (parseExpr n)) (\<lambda>args.
      bindp (consume RParen) (\<lambda>close. ret (ConstructorExpr (TypeRef (type_Name t) [] tsp) args (span (tok_Start (peek p)) (tok_End close))))) (adv (adv p))"
    using plain t(2) shape_kind [OF sh]
    by (simp add: parsePrimary_def parse_named_def bind_next [OF sh] bind_get_state step_back bind_parsed [of "parseTypeRef (Suc n)", OF ty]
        bind_match [OF sh2] SplitByte_none del: parseTypeRef.simps)
  from ne have "parseNamedArgs (Suc n) (parseExpr n) (adv (adv p)) \<noteq> Exhausted" unfolding run by (rule bind_expr)
  from args_read [OF args sh3 this] obtain args' q where
    a: "parseNamedArgs (Suc n) (parseExpr n) (adv (adv p)) = Parsed args' q" "map erase_arg args' = map erase_arg args" "shape q = (RParen, '')'') # rest" by blast
  then show "\<exists>e' q. parsePrimary (Suc n) (parseExpr n) p = Parsed e' q \<and> erase e' = erase (ConstructorExpr t args sp) \<and> shape q = rest"
    unfolding run bind_parsed [of "parseNamedArgs (Suc n) (parseExpr n)", OF a(1)] bind_consume [OF a(3) refl] using t(1) shape_adv [OF a(3)] by (simp add: ret_def erase_type_def)
qed

lemma step_operator:
  assumes sh: "shape p = (k, s) # ts" and "k \<noteq> Newline" "precedence k = Some q" "minPrec \<le> q"
  shows "expr_step (Suc n) (parseExpr n) minPrec l p =
    (if k = Dot then bindp (parse_selector (Suc n) (parseExpr n) l (peek p)) (\<lambda>e. ret (Inl e))
     else bindp (parseExpr n (q + 1)) (\<lambda>right. ret (Inl (BinaryExpr s l right
       (span (span_Start (expr_span l)) (span_End (expr_span right))))))) (adv p)"
proof -
  have "skip_newline_dot p = Parsed () p" using assms(2) shape_kind [OF sh] by (simp add: skip_newline_dot_def)
  then show ?thesis unfolding expr_step_def bind_parsed [of skip_newline_dot p, OF \<open>skip_newline_dot p = Parsed () p\<close>] bind_get_state
    using assms(3,4) shape_kind [OF sh] shape_text [OF sh] by (simp add: bind_next [OF sh])
qed

lemma step_selector:
  assumes sh: "shape p = (Dot, ''.'') # (Identifier, name) # ts" and "minPrec \<le> 90"
  shows "expr_step (Suc n) (parseExpr n) minPrec l p = bindp (parse_selector (Suc n) (parseExpr n) l (peek p)) (\<lambda>e. ret (Inl e)) (adv p)"
  using step_operator [OF sh, of 90 minPrec n l] assms(2) by (simp add: precedence_def)

lemma reads_field:
  assumes "reads b 90" "m \<le> 90"
  shows "reads (FieldExpr b f sp) m"
proof (rule reads_round [OF assms])
  show "print_expr (FieldExpr b f sp) m = print_expr b 90 @ [(Dot, ''.''), (Identifier, f)]" by simp
  show "stops (90 + 1) ([(Dot, ''.''), (Identifier, f)] @ rest)" for rest by (simp add: stops_def precedence_def)
next
  fix n minPrec :: nat and rest l' p
  assume mp: "minPrec \<le> 90" and st: "stops (m + 1) rest" and l: "erase l' = erase b" and "shape p = [(Dot, ''.''), (Identifier, f)] @ rest"
  then have sh: "shape p = (Dot, ''.'') # (Identifier, f) # rest" by simp
  note sh2 = shape_adv [OF sh]
  note sh3 = shape_adv [OF sh2]
  from st obtain kd s ts where rest: "shape (adv (adv p)) = (kd, s) # ts" "kd \<noteq> LParen" unfolding sh3 by (cases rest) (auto simp: stops_def)
  from l rest(2) sh3 show "\<exists>e' q. expr_step (Suc n) (parseExpr n) minPrec l' p = Parsed (Inl e') q \<and> erase e' = erase (FieldExpr b f sp) \<and> shape q = rest"
    by (simp add: step_selector [OF sh mp] parse_selector_def bind_bind bind_selector [OF sh2] bind_match [OF rest(1)] bind_ret shape_text [OF sh2]) (simp add: ret_def)
qed

lemma reads_call:
  assumes r: "reads r 90" "m \<le> 90" and args: "list_all writable_arg args" "\<And>a. a \<in> set args \<Longrightarrow> reads (arg_Value a) 0"
  shows "reads (CallExpr r name args sp) m"
proof (rule reads_round [OF r])
  let ?after = "[(Dot, ''.''), (Identifier, name), (LParen, ''('')] @ commas (map print_arg args) @ [(RParen, '')'')]"
  show "print_expr (CallExpr r name args sp) m = print_expr r 90 @ ?after" by (simp add: paren_def)
  show "stops (90 + 1) (?after @ rest)" for rest by (simp add: stops_def precedence_def)
  fix n minPrec :: nat and rest l' p
  assume mp: "minPrec \<le> 90" and l: "erase l' = erase r" and "shape p = ?after @ rest"
    and ne: "expr_step (Suc n) (parseExpr n) minPrec l' p \<noteq> Exhausted"
  then have sh: "shape p = (Dot, ''.'') # (Identifier, name) # (LParen, ''('') # commas (map print_arg args) @ (RParen, '')'') # rest" by simp
  note sh2 = shape_adv [OF sh]
  note sh3 = shape_adv [OF sh2]
  note sh4 = shape_adv [OF sh3]
  have run: "expr_step (Suc n) (parseExpr n) minPrec l' p = bindp (parseNamedArgs (Suc n) (parseExpr n)) (\<lambda>args.
      bindp (consume RParen) (\<lambda>close. ret (Inl (CallExpr l' name args (span (tok_Start (peek p)) (tok_End close)))))) (adv (adv (adv p)))"
    by (simp add: step_selector [OF sh mp] parse_selector_def bind_bind bind_selector [OF sh2] bind_match [OF sh3] bind_ret shape_text [OF sh2])
  from ne have "parseNamedArgs (Suc n) (parseExpr n) (adv (adv (adv p))) \<noteq> Exhausted" unfolding run by (rule bind_expr)
  from args_read [OF args sh4 this] obtain args' q where
    a: "parseNamedArgs (Suc n) (parseExpr n) (adv (adv (adv p))) = Parsed args' q" "map erase_arg args' = map erase_arg args" "shape q = (RParen, '')'') # rest" by blast
  then show "\<exists>e' q. expr_step (Suc n) (parseExpr n) minPrec l' p = Parsed (Inl e') q \<and> erase e' = erase (CallExpr r name args sp) \<and> shape q = rest"
    unfolding run bind_parsed [of "parseNamedArgs (Suc n) (parseExpr n)", OF a(1)] bind_consume [OF a(3) refl] using l shape_adv [OF a(3)] by (simp add: ret_def)
qed


text \<open>Binary operators: first without parentheses, then with them.\<close>

lemma reads_binary_open:
  assumes op: "op \<in> fst ` set binary_ops" "m \<le> op_prec op" and l: "reads l (op_prec op)" and r: "reads r (op_prec op + 1)"
  shows "reads (BinaryExpr op l r sp) m"
proof (rule reads_round [OF l op(2)])
  note o = op_props [OF op(1)]
  let ?q = "op_prec op"
  let ?after = "[(op_kind op, op)] @ print_expr r (?q + 1)"
  show "print_expr (BinaryExpr op l r sp) m = print_expr l ?q @ ?after" using op(2) by (simp add: Let_def)
  show "stops (?q + 1) (?after @ rest)" for rest using o by (simp add: stops_def)
  fix n minPrec :: nat and rest l' p
  assume mp: "minPrec \<le> ?q" and st: "stops (m + 1) rest" and l': "erase l' = erase l" and "shape p = ?after @ rest"
    and ne: "expr_step (Suc n) (parseExpr n) minPrec l' p \<noteq> Exhausted"
  then have sh: "shape p = (op_kind op, op) # print_expr r (?q + 1) @ rest" by simp
  note run = step_operator [OF sh o(7,1) mp, of n l', unfolded if_not_P [OF o(4)]]
  have "stops (?q + 1) rest" by (rule stops_mono [OF st]) (use op(2) in simp)
  moreover from ne have "parseExpr n (?q + 1) (adv p) \<noteq> Exhausted" unfolding run by (rule bind_expr)
  ultimately obtain e' s where e: "parseExpr n (?q + 1) (adv p) = Parsed e' s" "erase e' = erase r" "shape s = rest"
    using reads_expr [OF r _ shape_adv [OF sh]] by blast
  then show "\<exists>e' q. expr_step (Suc n) (parseExpr n) minPrec l' p = Parsed (Inl e') q \<and> erase e' = erase (BinaryExpr op l r sp) \<and> shape q = rest"
    unfolding run bind_parsed [of "parseExpr n (?q + 1)", OF e(1)] using l' by (simp add: ret_def)
qed

lemma reads_paren:
  assumes "reads e 0" "print_expr e m = paren (print_expr e 0)"
  shows "reads e m"
proof (rule reads_primary)
  fix n rest p
  assume "shape p = print_expr e m @ rest" and ne: "parsePrimary (Suc n) (parseExpr n) p \<noteq> Exhausted"
  with assms(2) have sh: "shape p = (LParen, ''('') # print_expr e 0 @ (RParen, '')'') # rest" by (simp add: paren_def)
  have run: "parsePrimary (Suc n) (parseExpr n) p = bindp (parseExpr n 0) (\<lambda>e. bindp (consume RParen) (\<lambda>_. ret e)) (adv p)"
    using shape_kind [OF sh] by (simp add: parsePrimary_def bind_next [OF sh])
  have "stops 0 ((RParen, '')'') # rest)" by (simp add: stops_def precedence_def)
  moreover from ne have "parseExpr n 0 (adv p) \<noteq> Exhausted" unfolding run by (rule bind_expr)
  ultimately obtain e' q where e: "parseExpr n 0 (adv p) = Parsed e' q" "erase e' = erase e" "shape q = (RParen, '')'') # rest"
    using reads_expr [OF assms(1) _ shape_adv [OF sh]] by blast
  then show "\<exists>e' q. parsePrimary (Suc n) (parseExpr n) p = Parsed e' q \<and> erase e' = erase e \<and> shape q = rest"
    unfolding run bind_parsed [of "parseExpr n 0", OF e(1)] bind_consume [OF e(3) refl] using shape_adv [OF e(3)] by (simp add: ret_def)
qed

lemma reads_binary:
  assumes "op \<in> fst ` set binary_ops" "reads l (op_prec op)" "reads r (op_prec op + 1)"
  shows "reads (BinaryExpr op l r sp) m"
proof (cases "m \<le> op_prec op")
  case True
  then show ?thesis by (rule reads_binary_open [OF assms(1) _ assms(2,3)])
next
  case False
  then show ?thesis using reads_paren [OF reads_binary_open [OF assms(1) le0 assms(2,3), of sp], of m] by (simp add: Let_def)
qed

lemma printed_reads:
  shows "writable e \<Longrightarrow> m \<le> 90 \<Longrightarrow> reads e m" and "writable_arg a \<Longrightarrow> reads (arg_Value a) 0"
proof (induction e and a arbitrary: m)
  case (BinaryExpr op l r sp)
  then have "op_prec op < 90" using op_props(2) by simp
  with BinaryExpr show ?case by (intro reads_binary) simp_all
next
  case (ConstructorExpr t args sp)
  then show ?case by (intro reads_constructor) (simp_all add: list_all_iff)
next
  case (CallExpr r name args sp)
  then show ?case by (intro reads_call) (simp_all add: list_all_iff)
next
  case (FieldExpr b f sp)
  then show ?case by (intro reads_field) simp_all
qed (simp_all add: reads_name reads_int reads_string reads_bool)

lemma shape_newParser:
  assumes "list_all (\<lambda>(kind, s). printable U kind s) ts"
  shows "shape (newParser U path (print_tokens ts)) = ts @ [(EOF, '''')]"
  using lex_loop_printed [OF assms, of "[]"] by (auto simp: shape_def newParser_def All_def)



definition sample_expr :: Expr where
  "sample_expr = BinaryExpr ''*'' (BinaryExpr ''+'' (NameExpr ''a'' no_span) (NameExpr ''b'' no_span) no_span)
     (CallExpr (NameExpr ''c'' no_span) ''d'' [NamedArg ''x'' (IntLiteral ''1'' no_span) no_span] no_span) no_span"

lemma printable_letter: "c \<in> set ''abcdx'' \<Longrightarrow> printable \<lparr>wide_letter = \<lambda>_. False, wide_digit = \<lambda>_. False\<rparr> Identifier [c]"
proof -
  let ?U = "\<lparr>wide_letter = \<lambda>_. False, wide_digit = \<lambda>_. False\<rparr> :: unicode_tables"
  assume "c \<in> set ''abcdx''"
  then have "(of_char c :: nat) < 0x80" by auto
  then have "runes_of [of_char c] = [c]" by (simp add: runes_of_def encode_ascii)
  moreover from \<open>c \<in> set ''abcdx''\<close> have "valid_rune (of_char c)" "isIdentStartRune ?U (of_char c)" "\<not> isDigitRune ?U (of_char c)" "keywordKinds [c] = None"
    by (auto simp: valid_rune_def isIdentStartRune_def isDigitRune_def IsLetter_def IsDigit_def keywordKinds_def)
  ultimately show ?thesis using printable.name [of "of_char c" "[]" ?U Identifier] by simp
qed


end
