(* ===== verification/Sem_Layout.thy ===== *)
theory Sem_Layout
  imports Wrela_Prelude Ast
begin

text \<open>
  Types and their layout in the checker, \<open>compiler/sem/types.go\<close> and \<open>compiler/sem/topic_payload.go\<close>. The checker's
  types refer to each other by pointers, possibly in circles; they are modelled as a list of types in which
  a pointer is an index and nil is \<open>None\<close>. What \<open>Key\<close>, \<open>Display\<close> and \<open>MangledName\<close> read of a type, its module, name
  and type arguments, is a tree. The lemmas show that computing a layout ends on every graph of types, that it gives a layout to
  exactly the types that do not contain themselves and are built from sized parts, and that sizes are
  multiples of alignments even where the sum of sizes wraps around.
\<close>

section \<open>Types\<close>

datatype SemKind =
    KindPrimitive | KindData | KindClass | KindDriver | KindDriverPath | KindExecutor | KindImage | KindEnum | KindTrait
  | KindTypeParam | KindEvent | KindProjection

fun Kind_String :: "SemKind \<Rightarrow> string" where
  "Kind_String KindPrimitive = ''primitive''"
| "Kind_String KindData = ''data''"
| "Kind_String KindClass = ''class''"
| "Kind_String KindDriver = ''driver''"
| "Kind_String KindDriverPath = ''driver path''"
| "Kind_String KindExecutor = ''executor''"
| "Kind_String KindImage = ''image''"
| "Kind_String KindEnum = ''enum''"
| "Kind_String KindTrait = ''trait''"
| "Kind_String KindTypeParam = ''type param''"
| "Kind_String KindEvent = ''event''"
| "Kind_String KindProjection = ''projection''"

datatype TypeName = TypeName (tn_Module: string) (tn_Name: string) (tn_Args: "TypeName option list")

type_synonym pointer = "nat option"

record SemField =
  sf_Name :: string
  sf_Type :: pointer
  sf_Span :: Span

record SemVariant =
  sv_Name :: string
  sv_Fields :: "SemField list"
  sv_Span :: Span

record SemType =
  st_Ident :: TypeName
  st_Kind :: SemKind
  st_Fields :: "SemField list"
  st_EnumVariants :: "SemVariant list"

definition qualifiedTypeName :: "TypeName option \<Rightarrow> string" where
  "qualifiedTypeName t = (case t of None \<Rightarrow> ''''
     | Some n \<Rightarrow> if tn_Module n = '''' \<or> tn_Module n = ''builtin'' then tn_Name n else tn_Module n @ ''.'' @ tn_Name n)"

text \<open>A nil type argument has the empty key and the empty display.\<close>

primrec type_key :: "TypeName \<Rightarrow> string" where
  "type_key (TypeName m n args) = (let base = qualifiedTypeName (Some (TypeName m n args)) in
     if args = [] then base
     else base @ ''['' @ Join '','' (map (\<lambda>a. case a of None \<Rightarrow> '''' | Some k \<Rightarrow> k) (map (map_option type_key) args)) @ '']'')"

definition Key :: "TypeName option \<Rightarrow> string" where
  "Key t = (case t of None \<Rightarrow> '''' | Some n \<Rightarrow> type_key n)"

primrec type_display :: "TypeName \<Rightarrow> string" where
  "type_display (TypeName m n args) =
     (if args = [] then n
      else n @ ''<'' @ Join '', '' (map (\<lambda>a. case a of None \<Rightarrow> '''' | Some k \<Rightarrow> k) (map (map_option type_display) args)) @ ''>'')"

definition Display :: "TypeName option \<Rightarrow> string" where
  "Display t = (case t of None \<Rightarrow> '''' | Some n \<Rightarrow> type_display n)"

definition hex_digit :: "nat \<Rightarrow> char" where
  "hex_digit n = ''0123456789abcdef'' ! n"

definition symbol_char :: "char \<Rightarrow> bool" where
  "symbol_char c \<longleftrightarrow> list_ex (\<lambda>(low, high). low \<le> c \<and> c \<le> high) [(CHR ''a'', CHR ''z''), (CHR ''A'', CHR ''Z''), (CHR ''0'', CHR ''9'')] \<or> c = CHR ''_''"

definition mangleSymbolPart :: "string \<Rightarrow> string" where
  "mangleSymbolPart s = concat (map (\<lambda>c. if symbol_char c then [c]
     else ''_x'' @ [hex_digit (of_char c div 16), hex_digit (of_char c mod 16), CHR ''_'']) s)"

definition MangledName :: "TypeName \<Rightarrow> string" where
  "MangledName t = (let name = mangleSymbolPart (tn_Name t) in
     if tn_Args t = [] then name
     else name @ ''_g'' @ mangleSymbolPart (''['' @ Join '','' (map (\<lambda>arg. case arg of
           Some a \<Rightarrow> if tn_Args a = [] \<and> (tn_Module a = '''' \<or> tn_Module a = tn_Module t) then tn_Name a else Key arg
         | None \<Rightarrow> Key arg) (tn_Args t)) @ '']''))"

section \<open>Layout\<close>


definition primitivePayloadLayout :: "string \<Rightarrow> (u64 \<times> u64) option" where
  "primitivePayloadLayout name =
     (if name \<in> {''Bool'', ''U8''} then Some (1, 1)
      else if name = ''U16'' then Some (2, 2)
      else if name = ''U32'' then Some (4, 4)
      else if name \<in> {''U64'', ''I64'', ''PhysicalAddress'', ''VirtualAddress''} then Some (8, 8)
      else None)"

definition alignPayloadOffset :: "u64 \<Rightarrow> u64 \<Rightarrow> u64" where
  "alignPayloadOffset off align = (if align = 0 \<or> off mod align = 0 then off else off + align - off mod align)"

record semanticFieldLayout =
  valueSize :: u64
  valueAlign :: u64
  storageSize :: u64
  isData :: bool

definition isSemanticHandleValue :: "SemKind \<Rightarrow> bool" where
  "isSemanticHandleValue kind \<longleftrightarrow> kind \<in> {KindData, KindClass, KindDriver, KindDriverPath, KindExecutor}"

text \<open>The layout of a field, from its type and the value size, alignment and storage size of that type.\<close>

definition semanticFieldSizeAndStorage :: "SemType list \<Rightarrow> pointer \<Rightarrow> (u64 \<times> u64 \<times> u64) option \<Rightarrow> semanticFieldLayout option" where
  "semanticFieldSizeAndStorage types fieldType inner = (case fieldType of None \<Rightarrow> None
     | Some i \<Rightarrow> (case inner of None \<Rightarrow> None
       | Some (vs, al, ss) \<Rightarrow>
           if isSemanticHandleValue (st_Kind (types ! i))
           then Some \<lparr>valueSize = 8, valueAlign = 8, storageSize = ss, isData = st_Kind (types ! i) = KindData\<rparr>
           else Some \<lparr>valueSize = vs, valueAlign = al, storageSize = ss, isData = st_Kind (types ! i) = KindData\<rparr>))"

definition variant_step :: "semanticFieldLayout \<Rightarrow> u64 \<times> u64 \<Rightarrow> u64 \<times> u64" where
  "variant_step fl = (\<lambda>(offset, payloadAlign).
     (alignPayloadOffset offset (valueAlign fl) + storageSize fl, if payloadAlign < valueAlign fl then valueAlign fl else payloadAlign))"

definition semanticVariantPayloadSize :: "semanticFieldLayout list \<Rightarrow> u64 \<times> u64" where
  "semanticVariantPayloadSize fls = (let (offset, payloadAlign) = fold variant_step fls (8, 1) in
     (alignPayloadOffset (offset - 8) payloadAlign, payloadAlign))"

definition enum_step :: "u64 \<times> u64 \<Rightarrow> u64 \<times> u64 \<Rightarrow> u64 \<times> u64" where
  "enum_step = (\<lambda>(variantSize, variantAlign) (enumSize, enumAlign).
     (if enumSize < 8 + variantSize then 8 + variantSize else enumSize, if enumAlign < variantAlign then variantAlign else enumAlign))"

definition enum_layout :: "semanticFieldLayout list list \<Rightarrow> u64 \<times> u64 \<times> u64" where
  "enum_layout variants =
     (let (enumSize, enumAlign) = fold enum_step (map semanticVariantPayloadSize variants) (8, 8);
          size = alignPayloadOffset enumSize enumAlign;
          size' = (if size = 0 then 8 else size) in
      (size', enumAlign, size'))"

definition value_step :: "semanticFieldLayout \<Rightarrow> u64 \<times> u64 \<Rightarrow> u64 \<times> u64" where
  "value_step fl = (\<lambda>(size, align).
     (alignPayloadOffset size (valueAlign fl) + valueSize fl, if align < valueAlign fl then valueAlign fl else align))"

definition storage_step :: "semanticFieldLayout \<Rightarrow> u64 \<Rightarrow> u64" where
  "storage_step fl offset =
     (if \<not> isData fl then offset
      else alignPayloadOffset offset (if valueAlign fl = 0 then 8 else valueAlign fl) + storageSize fl)"

definition record_layout :: "semanticFieldLayout list \<Rightarrow> u64 \<times> u64 \<times> u64" where
  "record_layout fls =
     (let (size, align0) = fold value_step fls (0, 0);
          align = (if align0 = 0 then 8 else align0);
          value = alignPayloadOffset size align;
          storage = alignPayloadOffset (fold storage_step fls value) align in
      (value, align, if storage = 0 then value else storage))"

text \<open>
  The recursion over the graph of types. A loop over fields stops at the first field without a layout;
  since computing a layout has no effect, the layouts of all fields are asked for first. The keys that are being visited are
  an argument: the code takes its own key out again when it returns.
\<close>

definition keys_of :: "SemType list \<Rightarrow> string set" where
  "keys_of types = (\<lambda>t. Key (Some (st_Ident t))) ` set types"

lemma card_visit:
  assumes "\<not> length types \<le> i" and "Key (Some (st_Ident (types ! i))) \<notin> V"
  shows "card (keys_of types - insert (Key (Some (st_Ident (types ! i)))) V) < card (keys_of types - V)"
  using assms by (intro psubset_card_mono) (auto simp: keys_of_def)

function semanticSizeAlignAndStorageSeen :: "SemType list \<Rightarrow> string set \<Rightarrow> pointer \<Rightarrow> (u64 \<times> u64 \<times> u64) option" where
  "semanticSizeAlignAndStorageSeen types visiting p = (case p of None \<Rightarrow> None
     | Some i \<Rightarrow>
       if length types \<le> i then None
       else let t = types ! i in
       if st_Kind t = KindPrimitive
       then map_option (\<lambda>(size, align). (size, align, size)) (primitivePayloadLayout (tn_Name (st_Ident t)))
       else let key = Key (Some (st_Ident t)) in
       if key \<in> visiting then None
       else
         let field = (\<lambda>f. semanticFieldSizeAndStorage types (sf_Type f)
               (semanticSizeAlignAndStorageSeen types (insert key visiting) (sf_Type f))) in
         if st_Kind t = KindEnum
         then map_option enum_layout (those (map (\<lambda>v. those (map field (sv_Fields v))) (st_EnumVariants t)))
         else if st_Kind t \<noteq> KindData \<and> st_Kind t \<noteq> KindClass then None
         else if st_Fields t = [] then Some (8, 8, 8)
         else map_option record_layout (those (map field (st_Fields t))))"
  by pat_completeness auto
termination
  by (relation "measure (\<lambda>(types, visiting, p). card (keys_of types - visiting))") (auto intro!: card_visit simp del: card_Diff_insert)

declare semanticSizeAlignAndStorageSeen.simps [simp del]

definition semanticSizeAlign :: "SemType list \<Rightarrow> pointer \<Rightarrow> (u64 \<times> u64) option" where
  "semanticSizeAlign types p = map_option (\<lambda>(value, align, storage). (storage, align)) (semanticSizeAlignAndStorageSeen types {} p)"


section \<open>Which types have a layout\<close>

text \<open>Sized types: built from primitives by records and enums, in finitely many steps.\<close>

inductive sized :: "SemType list \<Rightarrow> nat \<Rightarrow> bool" for types where
  primitive: "i < length types \<Longrightarrow> st_Kind (types ! i) = KindPrimitive \<Longrightarrow> primitivePayloadLayout (tn_Name (st_Ident (types ! i))) \<noteq> None \<Longrightarrow> sized types i"
| enum: "i < length types \<Longrightarrow> st_Kind (types ! i) = KindEnum \<Longrightarrow>
    (\<And>v f. v \<in> set (st_EnumVariants (types ! i)) \<Longrightarrow> f \<in> set (sv_Fields v) \<Longrightarrow> \<exists>j. sf_Type f = Some j \<and> sized types j) \<Longrightarrow> sized types i"
| composite: "i < length types \<Longrightarrow> st_Kind (types ! i) \<in> {KindData, KindClass} \<Longrightarrow>
    (\<And>f. f \<in> set (st_Fields (types ! i)) \<Longrightarrow> \<exists>j. sf_Type f = Some j \<and> sized types j) \<Longrightarrow> sized types i"

text \<open>The fields whose types a layout depends on.\<close>

definition parts :: "SemType \<Rightarrow> SemField list" where
  "parts t = (if st_Kind t = KindEnum then concat (map sv_Fields (st_EnumVariants t))
     else if st_Kind t \<in> {KindData, KindClass} then st_Fields t else [])"

definition part_of :: "SemType list \<Rightarrow> nat \<Rightarrow> nat \<Rightarrow> bool" where
  "part_of types j i \<longleftrightarrow> i < length types \<and> (\<exists>f \<in> set (parts (types ! i)). sf_Type f = Some j)"

lemma sized_length: "sized types i \<Longrightarrow> i < length types"
  by (cases rule: sized.cases)

lemma sized_parts:
  assumes "sized types i" and "f \<in> set (parts (types ! i))"
  shows "\<exists>j. sf_Type f = Some j \<and> sized types j"
  using assms(1)
proof (cases rule: sized.cases)
  case primitive
  with assms(2) show ?thesis by (simp add: parts_def)
next
  case enum
  from assms(2) enum(2) obtain v where "v \<in> set (st_EnumVariants (types ! i))" "f \<in> set (sv_Fields v)" by (auto simp: parts_def)
  then show ?thesis by (rule enum(3))
next
  case composite
  from assms(2) composite(2) have "f \<in> set (st_Fields (types ! i))" by (auto simp: parts_def)
  then show ?thesis by (rule composite(3))
qed

lemma sized_of_parts:
  assumes "i < length types" and "st_Kind (types ! i) \<in> {KindEnum, KindData, KindClass}"
    and "\<And>f. f \<in> set (parts (types ! i)) \<Longrightarrow> \<exists>j. sf_Type f = Some j \<and> sized types j"
  shows "sized types i"
proof (cases "st_Kind (types ! i) = KindEnum")
  case True
  show ?thesis by (rule sized.enum [OF assms(1) True]) (use assms(3) True in \<open>auto simp: parts_def\<close>)
next
  case False
  with assms(2) have k: "st_Kind (types ! i) \<in> {KindData, KindClass}" by simp
  show ?thesis by (rule sized.composite [OF assms(1) k]) (use assms(3) k in \<open>auto simp: parts_def\<close>)
qed

lemma sized_wf: "sized types i \<Longrightarrow> Wellfounded.accp (part_of types) i"
proof (induction rule: sized.induct)
  case (primitive i)
  then show ?case by (intro accp.accI [of _ i]) (simp add: part_of_def parts_def)
next
  case (enum i)
  show ?case
  proof (rule accp.accI)
    fix j
    assume "part_of types j i"
    with enum.hyps(2) obtain v f where "v \<in> set (st_EnumVariants (types ! i))" "f \<in> set (sv_Fields v)" "sf_Type f = Some j"
      by (auto simp: part_of_def parts_def)
    with enum.IH show "Wellfounded.accp (part_of types) j" by fastforce
  qed
next
  case (composite i)
  show ?case
  proof (rule accp.accI)
    fix j
    assume "part_of types j i"
    with composite.hyps(2) obtain f where "f \<in> set (st_Fields (types ! i))" "sf_Type f = Some j" by (auto simp: part_of_def parts_def)
    with composite.IH show "Wellfounded.accp (part_of types) j" by fastforce
  qed
qed

lemma accp_irrefl: "Wellfounded.accp r x \<Longrightarrow> \<not> r\<^sup>+\<^sup>+ x x"
proof (induction rule: accp.induct)
  case (accI x)
  show ?case
  proof
    assume "r\<^sup>+\<^sup>+ x x"
    then obtain y where y: "r\<^sup>*\<^sup>* x y" "r y x" by (cases rule: tranclp.cases) (auto dest: tranclp_into_rtranclp)
    from rtranclp_into_tranclp2 [OF y(2,1)] accI.IH [OF y(2)] show False by simp
  qed
qed

lemma those_map: "those (map h xs) = None \<longleftrightarrow> (\<exists>x \<in> set xs. h x = None)"
  by (induction xs) (auto split: option.splits)

lemma field_none: "semanticFieldSizeAndStorage types p inner = None \<longleftrightarrow> p = None \<or> inner = None"
  by (auto simp: semanticFieldSizeAndStorage_def split: option.splits)

definition part_layout :: "SemType list \<Rightarrow> string set \<Rightarrow> SemField \<Rightarrow> semanticFieldLayout option" where
  "part_layout types visiting f = semanticFieldSizeAndStorage types (sf_Type f) (semanticSizeAlignAndStorageSeen types visiting (sf_Type f))"

lemma layout_run:
  assumes "i < length types" and "st_Kind (types ! i) \<noteq> KindPrimitive"
  shows "semanticSizeAlignAndStorageSeen types visiting (Some i) =
    (let t = types ! i; key = Key (Some (st_Ident t)); field = part_layout types (insert key visiting) in
     if key \<in> visiting then None
     else if st_Kind t = KindEnum then map_option enum_layout (those (map (\<lambda>v. those (map field (sv_Fields v))) (st_EnumVariants t)))
     else if st_Kind t \<noteq> KindData \<and> st_Kind t \<noteq> KindClass then None
     else if st_Fields t = [] then Some (8, 8, 8)
     else map_option record_layout (those (map field (st_Fields t))))"
  using assms by (simp add: semanticSizeAlignAndStorageSeen.simps [of types visiting "Some i"] Let_def part_layout_def [abs_def])

text \<open>One step of the recursion, as a question whether every part has a layout.\<close>

lemma layout_step:
  assumes "i < length types" and "st_Kind (types ! i) \<noteq> KindPrimitive"
  shows "semanticSizeAlignAndStorageSeen types visiting (Some i) \<noteq> None \<longleftrightarrow>
    Key (Some (st_Ident (types ! i))) \<notin> visiting \<and> st_Kind (types ! i) \<in> {KindEnum, KindData, KindClass} \<and>
    (\<forall>f \<in> set (parts (types ! i)). sf_Type f \<noteq> None \<and>
      semanticSizeAlignAndStorageSeen types (insert (Key (Some (st_Ident (types ! i)))) visiting) (sf_Type f) \<noteq> None)"
proof -
  let ?t = "types ! i"
  let ?key = "Key (Some (st_Ident ?t))"
  have "semanticSizeAlignAndStorageSeen types visiting (Some i) = None \<longleftrightarrow>
    ?key \<in> visiting \<or> st_Kind ?t \<notin> {KindEnum, KindData, KindClass} \<or> (\<exists>f \<in> set (parts ?t). part_layout types (insert ?key visiting) f = None)"
    unfolding layout_run [OF assms] Let_def by (cases "st_Fields ?t = []") (auto simp: parts_def those_map)
  then show ?thesis by (simp add: part_layout_def field_none del: not_None_eq)
qed


lemma layout_primitive:
  assumes "i < length types" and "st_Kind (types ! i) = KindPrimitive"
  shows "semanticSizeAlignAndStorageSeen types visiting (Some i) =
    map_option (\<lambda>(size, align). (size, align, size)) (primitivePayloadLayout (tn_Name (st_Ident (types ! i))))"
  using assms by (simp add: semanticSizeAlignAndStorageSeen.simps [of types visiting "Some i"])

lemma layout_dangling: "\<not> i < length types \<Longrightarrow> semanticSizeAlignAndStorageSeen types visiting (Some i) = None"
  by (simp add: semanticSizeAlignAndStorageSeen.simps [of types visiting "Some i"])

lemma layout_sized: "semanticSizeAlignAndStorageSeen types visiting p \<noteq> None \<Longrightarrow> \<exists>i. p = Some i \<and> sized types i"
proof (induction "card (keys_of types - visiting)" arbitrary: visiting p rule: less_induct)
  case less
  then obtain i where p: "p = Some i" by (cases p) (simp_all add: semanticSizeAlignAndStorageSeen.simps [of types visiting None])
  have i: "i < length types"
  proof (rule ccontr)
    assume "\<not> i < length types"
    from layout_dangling [OF this, of visiting] less.prems p show False by simp
  qed
  show ?case
  proof (cases "st_Kind (types ! i) = KindPrimitive")
    case True
    with less.prems layout_primitive [OF i True] p i show ?thesis by (auto intro: sized.primitive)
  next
    case False
    note step = layout_step [OF i False, THEN iffD1, OF less.prems [unfolded p]]
    let ?visiting = "insert (Key (Some (st_Ident (types ! i)))) visiting"
    from step i have "card (keys_of types - ?visiting) < card (keys_of types - visiting)" by (intro card_visit) simp_all
    have fields: "\<exists>j. sf_Type f = Some j \<and> sized types j" if f: "f \<in> set (parts (types ! i))" for f
      by (rule less.hyps [OF \<open>card (keys_of types - ?visiting) < card (keys_of types - visiting)\<close>]) (use step f in simp)
    have "sized types i" by (rule sized_of_parts [OF i _ fields]) (use step in simp_all)
    with p show ?thesis by simp
  qed
qed

text \<open>A sized type is never met again below itself, so that its key is free when its turn comes.\<close>

lemma sized_layout:
  assumes inj: "\<And>i j. i < length types \<Longrightarrow> j < length types \<Longrightarrow> Key (Some (st_Ident (types ! i))) = Key (Some (st_Ident (types ! j))) \<Longrightarrow> i = j"
  shows "sized types i \<Longrightarrow> (\<And>j. (part_of types)\<^sup>*\<^sup>* j i \<Longrightarrow> j < length types \<Longrightarrow> Key (Some (st_Ident (types ! j))) \<notin> visiting) \<Longrightarrow>
    semanticSizeAlignAndStorageSeen types visiting (Some i) \<noteq> None"
proof (induction "card (keys_of types - visiting)" arbitrary: visiting i rule: less_induct)
  case less
  note i = sized_length [OF less.prems(1)]
  show ?case
  proof (cases "st_Kind (types ! i) = KindPrimitive")
    case True
    from less.prems(1) True layout_primitive [OF i True] show ?thesis by (cases rule: sized.cases) auto
  next
    case False
    let ?key = "Key (Some (st_Ident (types ! i)))"
    have key: "?key \<notin> visiting" using less.prems(2) [of i] i by simp
    have smaller: "card (keys_of types - insert ?key visiting) < card (keys_of types - visiting)" using i key by (intro card_visit) simp_all
    have below: "semanticSizeAlignAndStorageSeen types (insert ?key visiting) (Some j) \<noteq> None" if "part_of types j i" "sized types j" for j
    proof (rule less.hyps [OF smaller that(2)])
      fix l
      assume l: "(part_of types)\<^sup>*\<^sup>* l j" "l < length types"
      from rtranclp_into_tranclp1 [OF l(1) that(1)] accp_irrefl [OF sized_wf [OF less.prems(1)]] have "l \<noteq> i" by auto
      moreover have "(part_of types)\<^sup>*\<^sup>* l i" using l(1) that(1) by simp
      ultimately show "Key (Some (st_Ident (types ! l))) \<notin> insert ?key visiting" using inj [OF l(2) i] less.prems(2) [of l] l(2) by auto
    qed
    have "sf_Type f \<noteq> None \<and> semanticSizeAlignAndStorageSeen types (insert ?key visiting) (sf_Type f) \<noteq> None"
      if f: "f \<in> set (parts (types ! i))" for f
    proof -
      from sized_parts [OF less.prems(1) f] obtain j where j: "sf_Type f = Some j" "sized types j" by blast
      from f i j(1) have "part_of types j i" by (auto simp: part_of_def)
      from below [OF this j(2)] j(1) show ?thesis by simp
    qed
    moreover have "st_Kind (types ! i) \<in> {KindEnum, KindData, KindClass}" using less.prems(1) False by (cases rule: sized.cases) auto
    ultimately show ?thesis using layout_step [OF i False] key by blast
  qed
qed


section \<open>Sizes and alignments\<close>

definition natural_align :: "u64 \<Rightarrow> bool" where
  "natural_align a \<longleftrightarrow> a \<in> {1, 2, 4, 8}"

lemma natural_align_dvd: "natural_align a \<Longrightarrow> unat a dvd 2 ^ 64"
  by (auto simp: natural_align_def)

text \<open>Rounding up gives a multiple even when it wraps around, since the alignment divides the modulus.\<close>

lemma alignPayloadOffset_multiple:
  assumes "natural_align a"
  shows "unat a dvd unat (alignPayloadOffset x a)"
proof (cases "x mod a = 0")
  case True
  then have "unat x mod unat a = 0" by (metis unat_mod unat_0)
  with True show ?thesis by (simp add: alignPayloadOffset_def mod_0_imp_dvd)
next
  case False
  have a: "0 < unat a" using assms by (auto simp: natural_align_def)
  let ?r = "unat x mod unat a"
  have r: "x mod a \<le> a" using a by (simp add: word_le_nat_alt unat_mod less_imp_le)
  have d: "unat (a - x mod a) = unat a - ?r" using r by (simp add: unat_sub unat_mod)
  have "alignPayloadOffset x a = x + (a - x mod a)" using False a by (auto simp: alignPayloadOffset_def)
  then have "unat (alignPayloadOffset x a) = (unat x + unat (a - x mod a)) mod 2 ^ 64" by (simp only: unat_word_ariths) simp
  then have u: "unat (alignPayloadOffset x a) = (unat x + (unat a - ?r)) mod 2 ^ 64" unfolding d .
  have "unat x + (unat a - ?r) = unat a * (unat x div unat a) + unat a"
    using mult_div_mod_eq [of "unat a" "unat x"] mod_less_divisor [OF a, of "unat x"] by linarith
  then have "unat a dvd unat x + (unat a - ?r)" by simp
  with natural_align_dvd [OF assms] show ?thesis unfolding u by (simp only: dvd_mod)
qed


text \<open>Layouts whose alignment is natural and divides both sizes; the layouts of fields are such.\<close>

definition aligned_layout :: "u64 \<times> u64 \<times> u64 \<Rightarrow> bool" where
  "aligned_layout = (\<lambda>(value, align, storage). natural_align align \<and> unat align dvd unat value \<and> unat align dvd unat storage)"

lemma natural_max: "natural_align a \<Longrightarrow> natural_align b \<Longrightarrow> natural_align (if a < b then b else a)"
  by simp

lemma variant_align:
  assumes "list_all (\<lambda>fl. natural_align (valueAlign fl)) fls"
  shows "natural_align (snd (semanticVariantPayloadSize fls))"
proof -
  have "natural_align (snd (fold variant_step fls (8, 1)))"
    by (rule fold_invariant [where Q = "\<lambda>fl. natural_align (valueAlign fl)"])
      (use assms in \<open>auto simp: list_all_iff variant_step_def natural_align_def split: prod.splits\<close>)
  then show ?thesis by (simp add: semanticVariantPayloadSize_def split_beta Let_def)
qed

lemma enum_layout_aligned:
  assumes "list_all (list_all (\<lambda>fl. natural_align (valueAlign fl))) variants"
  shows "aligned_layout (enum_layout variants)"
proof -
  obtain sz align where f: "fold enum_step (map semanticVariantPayloadSize variants) (8, 8) = (sz, align)" by force
  have v: "natural_align (snd va)" if "va \<in> set (map semanticVariantPayloadSize variants)" for va
    using that assms by (auto simp: list_all_iff intro!: variant_align)
  have "snd (fold enum_step (map semanticVariantPayloadSize variants) (8, 8)) = 8"
    by (rule fold_invariant [where Q = "\<lambda>va. natural_align (snd va)", OF v])
      (auto simp: enum_step_def natural_align_def word_less_nat_alt split: prod.splits if_splits)
  with f have "align = 8" by simp
  with alignPayloadOffset_multiple [of 8 sz] show ?thesis
    by (simp add: enum_layout_def f Let_def aligned_layout_def natural_align_def)
qed

lemma record_layout_aligned:
  assumes "list_all (\<lambda>fl. natural_align (valueAlign fl)) fls"
  shows "aligned_layout (record_layout fls)"
proof -
  obtain sz align where f: "fold value_step fls (0, 0) = (sz, align)" by force
  have "snd (fold value_step fls (0, 0)) = 0 \<or> natural_align (snd (fold value_step fls (0, 0)))"
    by (rule fold_invariant [where Q = "\<lambda>fl. natural_align (valueAlign fl)" and P = "\<lambda>acc. snd acc = 0 \<or> natural_align (snd acc)"])
      (use assms in \<open>auto simp: list_all_iff value_step_def split: prod.splits\<close>)
  with f have "natural_align (if align = 0 then 8 else align)" by (auto simp: natural_align_def)
  then show ?thesis using alignPayloadOffset_multiple
    by (simp add: record_layout_def f Let_def aligned_layout_def)
qed

lemma those_some: "those (map h xs) = Some ys \<Longrightarrow> y \<in> set ys \<Longrightarrow> \<exists>x \<in> set xs. h x = Some y"
  by (induction xs arbitrary: ys) (auto split: option.splits)

lemma field_align:
  assumes "semanticFieldSizeAndStorage types p inner = Some fl" and "\<And>l. inner = Some l \<Longrightarrow> aligned_layout l"
  shows "natural_align (valueAlign fl)"
  using assms by (auto simp: semanticFieldSizeAndStorage_def aligned_layout_def natural_align_def split: option.splits if_splits)

lemma fields_align:
  assumes "those (map (part_layout types visiting) fs) = Some fls"
    and "\<And>q l. semanticSizeAlignAndStorageSeen types visiting q = Some l \<Longrightarrow> aligned_layout l"
  shows "list_all (\<lambda>fl. natural_align (valueAlign fl)) fls"
  using those_some [OF assms(1)] field_align [OF _ assms(2)] by (fastforce simp: list_all_iff part_layout_def)

lemma primitive_aligned: "primitivePayloadLayout name = Some (sz, align) \<Longrightarrow> aligned_layout (sz, align, sz)"
  by (auto simp: primitivePayloadLayout_def aligned_layout_def natural_align_def split: if_splits)

lemma layout_aligned: "semanticSizeAlignAndStorageSeen types visiting p = Some l \<Longrightarrow> aligned_layout l"
proof (induction "card (keys_of types - visiting)" arbitrary: visiting p l rule: less_induct)
  case less
  then obtain i where p: "p = Some i" by (cases p) (simp_all add: semanticSizeAlignAndStorageSeen.simps [of types visiting None])
  have i: "i < length types"
  proof (rule ccontr)
    assume "\<not> i < length types"
    from layout_dangling [OF this, of visiting] less.prems p show False by simp
  qed
  let ?t = "types ! i"
  let ?key = "Key (Some (st_Ident ?t))"
  show ?case
  proof (cases "st_Kind ?t = KindPrimitive")
    case True
    with less.prems layout_primitive [OF i True] p show ?thesis by (auto simp: primitive_aligned)
  next
    case False
    let ?field = "part_layout types (insert ?key visiting)"
    from less.prems have run: "?key \<notin> visiting" "
      (if st_Kind ?t = KindEnum then map_option enum_layout (those (map (\<lambda>v. those (map ?field (sv_Fields v))) (st_EnumVariants ?t)))
       else if st_Kind ?t \<noteq> KindData \<and> st_Kind ?t \<noteq> KindClass then None
       else if st_Fields ?t = [] then Some (8, 8, 8)
       else map_option record_layout (those (map ?field (st_Fields ?t)))) = Some l"
      unfolding p layout_run [OF i False] Let_def by (simp_all split: if_splits)
    have "card (keys_of types - insert ?key visiting) < card (keys_of types - visiting)" using run(1) i by (intro card_visit) simp_all
    note al = less.hyps [OF this]
    consider "st_Kind ?t = KindEnum" | "st_Kind ?t \<in> {KindData, KindClass}" using run(2) by (auto split: if_splits)
    then show ?thesis
    proof cases
      case 1
      with run(2) obtain vs where vs: "those (map (\<lambda>v. those (map ?field (sv_Fields v))) (st_EnumVariants ?t)) = Some vs" "l = enum_layout vs" by auto
      have "list_all (list_all (\<lambda>fl. natural_align (valueAlign fl))) vs"
        using those_some [OF vs(1)] fields_align [OF _ al] by (fastforce simp: list_all_iff)
      with vs(2) show ?thesis by (simp add: enum_layout_aligned)
    next
      case 2
      then show ?thesis
      proof (cases "st_Fields ?t = []")
        case True
        with 2 run(2) show ?thesis by (auto simp: aligned_layout_def natural_align_def)
      next
        case False
        with 2 run(2) obtain fls where fls: "those (map ?field (st_Fields ?t)) = Some fls" "l = record_layout fls" by auto
        with fields_align [OF fls(1) al] show ?thesis by (simp add: record_layout_aligned)
      qed
    qed
  qed
qed


text \<open>
  C38. When different types have different keys, the checker gives a layout to exactly the types that are built
  from sized primitives by records and enums in finitely many steps: a type that contains itself, a driver, an executor or
  an unknown primitive is refused, and the search ends on every graph of types. A layout has an alignment of 1, 2, 4 or 8 bytes
  that divides the size.
\<close>

theorem semanticSizeAlign_sized:
  assumes "inj_on (\<lambda>i. Key (Some (st_Ident (types ! i)))) {..<length types}"
  shows "(semanticSizeAlign types (Some i) \<noteq> None \<longleftrightarrow> sized types i) \<and>
    (semanticSizeAlign types (Some i) = Some (sz, align) \<longrightarrow> align \<in> {1, 2, 4, 8} \<and> unat align dvd unat sz)"
proof -
  have "sized types i \<Longrightarrow> semanticSizeAlignAndStorageSeen types {} (Some i) \<noteq> None"
    by (rule sized_layout) (use assms in \<open>auto simp: inj_on_def\<close>)
  moreover have "semanticSizeAlignAndStorageSeen types {} (Some i) \<noteq> None \<Longrightarrow> sized types i"
    using layout_sized by blast
  moreover have "align \<in> {1, 2, 4, 8} \<and> unat align dvd unat sz" if "semanticSizeAlign types (Some i) = Some (sz, align)"
    using that layout_aligned [of types "{}" "Some i"] by (auto simp: semanticSizeAlign_def aligned_layout_def natural_align_def)
  ultimately show ?thesis by (auto simp: semanticSizeAlign_def)
qed

definition sample_types :: "SemType list" where
  "sample_types =
    [\<lparr>st_Ident = TypeName '''' ''U8'' [], st_Kind = KindPrimitive, st_Fields = [], st_EnumVariants = []\<rparr>,
     \<lparr>st_Ident = TypeName ''m'' ''Pair'' [], st_Kind = KindData, st_Fields = [\<lparr>sf_Name = ''a'', sf_Type = Some 0, sf_Span = no_span\<rparr>, \<lparr>sf_Name = ''b'', sf_Type = Some 0, sf_Span = no_span\<rparr>], st_EnumVariants = []\<rparr>,
     \<lparr>st_Ident = TypeName ''m'' ''List'' [], st_Kind = KindData, st_Fields = [\<lparr>sf_Name = ''tail'', sf_Type = Some 2, sf_Span = no_span\<rparr>], st_EnumVariants = []\<rparr>]"

theorem semanticSizeAlign_sized_witness:
  "sized sample_types 1 \<and> \<not> sized sample_types 2 \<and> semanticSizeAlign sample_types (Some 1) = Some (2, 1)"
proof -
  have "inj_on (\<lambda>i. Key (Some (st_Ident (sample_types ! i)))) {..<length sample_types}"
    by (auto simp: inj_on_def sample_types_def Key_def qualifiedTypeName_def less_Suc_eq numeral_eq_Suc)
  note f = semanticSizeAlign_sized [OF this]
  have "semanticSizeAlign sample_types (Some 1) = Some (2, 1)" "semanticSizeAlign sample_types (Some 2) = None" by code_simp+
  with f [of 1] f [of 2] show ?thesis by simp
qed

end
