(* ===== verification/Sem_Traits.thy ===== *)
theory Sem_Traits
  imports Sem_Layout
begin

text \<open>
  Trait implementations of the checker, \<open>compiler/sem/trait.go\<close>: matching the pattern of an \<open>impl\<close> against a type, the
  search for an implementation and the test for overlapping ones. A type is given by what matching reads, its
  module, name and type arguments. The lemmas show that keys identify types, that matching finds exactly the
  instances of a pattern, and that the overlap test is sound but misses pairs of which neither is an instance of the other.
\<close>

section \<open>Matching\<close>

type_synonym bindings = "string \<rightharpoonup> TypeName"

text \<open>
  \<open>None\<close> is the answer false. A failed match leaves its bindings behind in the code; every caller drops them.
\<close>

fun matchImplPattern :: "string set \<Rightarrow> TypeName option \<Rightarrow> TypeName option \<Rightarrow> bindings \<Rightarrow> bindings option"
  and matchArgs :: "string set \<Rightarrow> TypeName option list \<Rightarrow> TypeName option list \<Rightarrow> bindings \<Rightarrow> bindings option" where
  "matchImplPattern typeParams None concrete subst = None"
| "matchImplPattern typeParams pattern None subst = None"
| "matchImplPattern typeParams (Some (TypeName m n args)) (Some concrete) subst =
     (if m = '''' \<and> args = [] \<and> n \<in> typeParams
      then (case subst n of
          Some existing \<Rightarrow> if Key (Some existing) = Key (Some concrete) then Some subst else None
        | None \<Rightarrow> Some (subst(n \<mapsto> concrete)))
      else if qualifiedTypeName (Some (TypeName m n args)) \<noteq> qualifiedTypeName (Some concrete) \<or> length args \<noteq> length (tn_Args concrete)
      then None
      else matchArgs typeParams args (tn_Args concrete) subst)"
| "matchArgs typeParams (p # ps) (c # cs) subst =
     (case matchImplPattern typeParams p c subst of None \<Rightarrow> None | Some subst' \<Rightarrow> matchArgs typeParams ps cs subst')"
| "matchArgs typeParams ps cs subst = Some subst"

record 'p Impl =
  im_Trait :: 'p
  im_For :: 'p
  im_TypeParams :: "string set"
  im_Span :: Span

definition matchImpl :: "TypeName option Impl \<Rightarrow> TypeName option \<Rightarrow> TypeName option \<Rightarrow> bool" where
  "matchImpl impl trait forType =
     (case matchImplPattern (im_TypeParams impl) (im_Trait impl) trait Map.empty of None \<Rightarrow> False
      | Some subst \<Rightarrow> matchImplPattern (im_TypeParams impl) (im_For impl) forType subst \<noteq> None)"

definition hasImpl :: "TypeName option Impl list \<Rightarrow> TypeName option \<Rightarrow> TypeName option \<Rightarrow> bool" where
  "hasImpl impls trait forType \<longleftrightarrow> trait \<noteq> None \<and> forType \<noteq> None \<and> list_ex (\<lambda>impl. matchImpl impl trait forType) impls"

definition implsOverlap :: "TypeName option Impl \<Rightarrow> TypeName option Impl \<Rightarrow> bool" where
  "implsOverlap left right =
     (if im_Trait left = None \<or> im_For left = None \<or> im_Trait right = None \<or> im_For right = None then False
      else if matchImpl left (im_Trait right) (im_For right) then True
      else matchImpl right (im_Trait left) (im_For left))"

section \<open>Keys identify types\<close>

text \<open>Equal types: the same qualified names all the way down. A nil type argument is equal to nothing.\<close>

fun same_type :: "TypeName option \<Rightarrow> TypeName option \<Rightarrow> bool"
  and same_args :: "TypeName option list \<Rightarrow> TypeName option list \<Rightarrow> bool" where
  "same_type (Some (TypeName m n args)) (Some (TypeName m' n' args')) \<longleftrightarrow>
     qualifiedTypeName (Some (TypeName m n args)) = qualifiedTypeName (Some (TypeName m' n' args')) \<and> same_args args args'"
| "same_type s t \<longleftrightarrow> False"
| "same_args [] [] \<longleftrightarrow> True"
| "same_args (s # ss) (t # ts) \<longleftrightarrow> same_type s t \<and> same_args ss ts"
| "same_args ss ts \<longleftrightarrow> False"

text \<open>Names as the parser gives them: not empty and without brackets and commas.\<close>

fun plain :: "TypeName option \<Rightarrow> bool" and plain_args :: "TypeName option list \<Rightarrow> bool" where
  "plain (Some (TypeName m n args)) \<longleftrightarrow>
     (let q = qualifiedTypeName (Some (TypeName m n args)) in q \<noteq> [] \<and> list_all (\<lambda>c. c \<notin> set ''[,]'') q) \<and> plain_args args"
| "plain None \<longleftrightarrow> False"
| "plain_args [] \<longleftrightarrow> True"
| "plain_args (t # ts) \<longleftrightarrow> plain t \<and> plain_args ts"

fun inst :: "(string \<Rightarrow> TypeName) \<Rightarrow> string set \<Rightarrow> TypeName option \<Rightarrow> TypeName option"
  and inst_args :: "(string \<Rightarrow> TypeName) \<Rightarrow> string set \<Rightarrow> TypeName option list \<Rightarrow> TypeName option list" where
  "inst \<tau> typeParams None = None"
| "inst \<tau> typeParams (Some (TypeName m n args)) =
     Some (if m = [] \<and> args = [] \<and> n \<in> typeParams then \<tau> n else TypeName m n (inst_args \<tau> typeParams args))"
| "inst_args \<tau> typeParams [] = []"
| "inst_args \<tau> typeParams (t # ts) = inst \<tau> typeParams t # inst_args \<tau> typeParams ts"

lemma same_type_refl: "plain t \<Longrightarrow> same_type t t" and same_args_refl: "plain_args ts \<Longrightarrow> same_args ts ts"
  by (induction t and ts rule: plain_plain_args.induct) auto

lemma same_type_sym: "same_type s t \<Longrightarrow> same_type t s" and same_args_sym: "same_args ss ts \<Longrightarrow> same_args ts ss"
  by (induction s t and ss ts rule: same_type_same_args.induct) auto

lemma same_type_trans: "same_type s t \<Longrightarrow> same_type t u \<Longrightarrow> same_type s u"
  and same_args_trans: "same_args ss ts \<Longrightarrow> same_args ts us \<Longrightarrow> same_args ss us"
proof (induction s t and ss ts arbitrary: u and us rule: same_type_same_args.induct)
  case (1 m n args m' n' args')
  then obtain m'' n'' args'' where "u = Some (TypeName m'' n'' args'')" by (cases u) (auto, metis TypeName.exhaust)
  with 1 show ?case by auto
next
  case (4 s ss t ts)
  then show ?case by (cases us) auto
qed auto

lemma same_args_length: "same_args ss ts \<Longrightarrow> length ss = length ts"
  by (induction ss arbitrary: ts) (case_tac ts; simp)+

lemma Key_Some: "Key (Some (TypeName m n args)) =
    qualifiedTypeName (Some (TypeName m n args)) @ (if args = [] then [] else CHR ''['' # Join '','' (map Key args) @ '']'')"
  by (auto simp: Key_def Let_def split: option.splits intro!: arg_cong [of _ _ "Join '',''"])

lemma same_Key: "same_type s t \<Longrightarrow> Key s = Key t" and same_Key_args: "same_args ss ts \<Longrightarrow> map Key ss = map Key ts"
proof (induction s t and ss ts rule: same_type_same_args.induct)
  case (1 m n args m' n' args')
  then show ?case using same_args_length [of args args'] by (auto simp: Key_Some)
qed auto

lemma Join_Cons: "Join sep (s # ss) = s @ (if ss = [] then [] else sep @ Join sep ss)"
  by (cases ss) auto

definition ends :: "string \<Rightarrow> bool" where
  "ends u \<longleftrightarrow> u = [] \<or> hd u \<in> set ''[,]''"

lemma name_ends:
  assumes "q @ r = q' @ r'" and "list_all (\<lambda>c. c \<notin> set ''[,]'') q" and "list_all (\<lambda>c. c \<notin> set ''[,]'') q'" and "ends r" and "ends r'"
  shows "q = q' \<and> r = r'"
proof -
  let ?P = "\<lambda>c. c \<notin> set ''[,]''"
  have take: "takeWhile ?P (x @ y) = x" if "list_all ?P x" "ends y" for x y
    using that by (cases y) (auto simp: takeWhile_append list_all_iff ends_def takeWhile_eq_all_conv)
  have "q = q'" using take [OF assms(2,4)] take [OF assms(3,5)] unfolding assms(1) by (rule trans [OF sym])
  then show ?thesis using assms(1) by simp
qed

lemma Key_inj: "plain s \<Longrightarrow> plain t \<Longrightarrow> Key s @ u = Key t @ v \<Longrightarrow> u = [] \<or> hd u \<in> set '',]'' \<Longrightarrow> v = [] \<or> hd v \<in> set '',]'' \<Longrightarrow> same_type s t \<and> u = v"
  and Key_inj_args: "plain_args ss \<Longrightarrow> plain_args ts \<Longrightarrow> ss \<noteq> [] \<Longrightarrow> ts \<noteq> [] \<Longrightarrow>
    Join '','' (map Key ss) @ '']'' @ u = Join '','' (map Key ts) @ '']'' @ v \<Longrightarrow> same_args ss ts \<and> u = v"
proof (induction s and ss arbitrary: t u v and ts u v rule: plain_plain_args.induct)
  case (1 m n args)
  then obtain m' n' args' where t: "t = Some (TypeName m' n' args')" by (metis TypeName.exhaust option.exhaust plain.simps(2))
  let ?rest = "\<lambda>as. if as = [] then [] else CHR ''['' # Join '','' (map Key as) @ '']''"
  have q: "qualifiedTypeName (Some (TypeName m n args)) = qualifiedTypeName (Some (TypeName m' n' args'))" and r: "?rest args @ u = ?rest args' @ v"
    using name_ends [of "qualifiedTypeName (Some (TypeName m n args))" "?rest args @ u" "qualifiedTypeName (Some (TypeName m' n' args'))" "?rest args' @ v"]
      1(2-) t by (auto simp: Key_Some ends_def Let_def)
  have "same_args args args' \<and> u = v"
  proof (cases "args = [] \<or> args' = []")
    case True
    with r 1(5,6) have "args = [] \<and> args' = [] \<and> u = v" by (auto split: if_splits)
    then show ?thesis by simp
  next
    case False
    then show ?thesis by (intro 1(1)) (use 1(2,3) r t in simp_all)
  qed
  with q t show ?case by simp
next
  case (4 s ss)
  then obtain t ts' where ts: "ts = t # ts'" by (cases ts) auto
  let ?rest = "\<lambda>as. if as = [] then '']'' else CHR '','' # Join '','' (map Key as) @ '']''"
  have s: "same_type s t" and r: "?rest ss @ u = ?rest ts' @ v"
    using 4(1) [of t "?rest ss @ u" "?rest ts' @ v"] 4(3-) ts by (simp_all add: Join_Cons split: if_splits)
  have "same_args ss ts' \<and> u = v"
  proof (cases "ss = [] \<or> ts' = []")
    case True
    with r have "ss = [] \<and> ts' = [] \<and> u = v" by (auto split: if_splits)
    then show ?thesis by simp
  next
    case False
    then show ?thesis by (intro 4(2)) (use 4(3,4) r ts in simp_all)
  qed
  with s ts show ?case by simp
qed auto

lemma Key_same: "plain s \<Longrightarrow> plain t \<Longrightarrow> Key s = Key t \<longleftrightarrow> same_type s t"
  using Key_inj [of s t "[]" "[]"] same_Key by auto

section \<open>Matching finds the instances of a pattern\<close>

definition agrees :: "bindings \<Rightarrow> (string \<Rightarrow> TypeName) \<Rightarrow> bool" where
  "agrees subst \<tau> \<longleftrightarrow> (\<forall>n t. subst n = Some t \<longrightarrow> same_type (Some (\<tau> n)) (Some t))"

definition plain_bindings :: "bindings \<Rightarrow> bool" where
  "plain_bindings subst \<longleftrightarrow> (\<forall>n t. subst n = Some t \<longrightarrow> plain (Some t))"

lemma match_complete: "same_type (inst \<tau> ps p) c \<Longrightarrow> agrees subst \<tau> \<Longrightarrow> \<exists>subst'. matchImplPattern ps p c subst = Some subst' \<and> agrees subst' \<tau>"
  and matchArgs_complete: "same_args (inst_args \<tau> ps as) cs \<Longrightarrow> agrees subst \<tau> \<Longrightarrow> \<exists>subst'. matchArgs ps as cs subst = Some subst' \<and> agrees subst' \<tau>"
proof (induction ps p c subst and ps as cs subst rule: matchImplPattern_matchArgs.induct)
  case (3 ps m n args concrete subst)
  obtain m' n' args' where c: "concrete = TypeName m' n' args'" by (cases concrete)
  show ?case
  proof (cases "m = [] \<and> args = [] \<and> n \<in> ps")
    case True
    with 3 have same: "same_type (Some (\<tau> n)) (Some concrete)" by simp
    then have "Key (Some existing) = Key (Some concrete)" if "subst n = Some existing" for existing
      using 3(3) that by (metis agrees_def same_Key)
    with True 3(3) same show ?thesis by (auto simp: agrees_def split: option.splits)
  next
    case False
    then have args: "same_args (inst_args \<tau> ps args) args'"
      and q: "qualifiedTypeName (Some (TypeName m n (inst_args \<tau> ps args))) = qualifiedTypeName (Some concrete)" using 3(2) c by auto
    have "length (inst_args \<tau> ps args) = length args" by (induction args) auto
    with False q args c have head: "\<not> (qualifiedTypeName (Some (TypeName m n args)) \<noteq> qualifiedTypeName (Some concrete) \<or> length args \<noteq> length (tn_Args concrete))"
      by (auto simp: qualifiedTypeName_def dest: same_args_length)
    from 3(1) [OF False head] args 3(3) c show ?thesis using False head by (auto simp del: de_Morgan_disj)
  qed
next
  case (4 ps p as c cs subst)
  then show ?case by fastforce
qed (auto split: option.splits)

lemma match_sound: "matchImplPattern ps p c subst = Some subst' \<Longrightarrow> plain c \<Longrightarrow> plain_bindings subst \<Longrightarrow>
    plain_bindings subst' \<and> subst \<subseteq>\<^sub>m subst' \<and> (\<forall>\<tau>. agrees subst' \<tau> \<longrightarrow> same_type (inst \<tau> ps p) c)"
  and matchArgs_sound: "matchArgs ps as cs subst = Some subst' \<Longrightarrow> length as = length cs \<Longrightarrow> plain_args cs \<Longrightarrow> plain_bindings subst \<Longrightarrow>
    plain_bindings subst' \<and> subst \<subseteq>\<^sub>m subst' \<and> (\<forall>\<tau>. agrees subst' \<tau> \<longrightarrow> same_args (inst_args \<tau> ps as) cs)"
proof (induction ps p c subst and ps as cs subst arbitrary: subst' and subst' rule: matchImplPattern_matchArgs.induct)
  case (3 ps m n args concrete subst)
  obtain m' n' args' where c: "concrete = TypeName m' n' args'" by (cases concrete)
  show ?case
  proof (cases "m = [] \<and> args = [] \<and> n \<in> ps")
    case True
    show ?thesis
    proof (cases "subst n")
      case None
      with True 3(2-) show ?thesis by (auto simp: plain_bindings_def map_le_def agrees_def split: if_splits)
    next
      case (Some existing)
      with True 3(2) have "subst' = subst" "Key (Some existing) = Key (Some concrete)" by (auto split: if_splits)
      moreover from this Some 3(3,4) have "same_type (Some existing) (Some concrete)"
        using Key_same [of "Some existing" "Some concrete"] by (auto simp: plain_bindings_def)
      ultimately show ?thesis using 3(4) True Some by (auto simp: agrees_def intro: same_type_trans [of "Some (\<tau> n)" "Some existing" for \<tau>])
    qed
  next
    case False
    with 3(2) have head: "\<not> (qualifiedTypeName (Some (TypeName m n args)) \<noteq> qualifiedTypeName (Some concrete) \<or> length args \<noteq> length (tn_Args concrete))"
      and args: "matchArgs ps args (tn_Args concrete) subst = Some subst'" by (auto split: if_splits)
    have "plain_args (tn_Args concrete)" using 3(3) c by simp
    from 3(1) [OF False head args _ this 3(4)] head
    show ?thesis using False c by (auto simp: qualifiedTypeName_def)
  qed
next
  case (4 ps p as c cs subst)
  then obtain middle where m: "matchImplPattern ps p c subst = Some middle" "matchArgs ps as cs middle = Some subst'"
    by (auto split: option.splits)
  have first: "plain_bindings middle \<and> subst \<subseteq>\<^sub>m middle \<and> (\<forall>\<tau>. agrees middle \<tau> \<longrightarrow> same_type (inst \<tau> ps p) c)"
    using 4(1) [OF m(1)] 4(5,6) by simp
  with 4(2) [OF m] 4(4,5) have rest: "plain_bindings subst' \<and> middle \<subseteq>\<^sub>m subst' \<and> (\<forall>\<tau>. agrees subst' \<tau> \<longrightarrow> same_args (inst_args \<tau> ps as) cs)"
    by simp
  moreover have "agrees middle \<tau>" if "agrees subst' \<tau>" for \<tau>
    using that rest by (auto simp: agrees_def map_le_def dom_def)
  ultimately show ?case using first map_le_trans by auto
qed auto

lemma agrees_exists: "plain_bindings subst \<Longrightarrow> \<exists>\<tau>. agrees subst \<tau>"
  by (rule exI [of _ "\<lambda>n. the (subst n)"]) (auto simp: agrees_def plain_bindings_def same_type_refl)

definition instance_of :: "TypeName option Impl \<Rightarrow> TypeName option \<Rightarrow> TypeName option \<Rightarrow> bool" where
  "instance_of impl trait forType \<longleftrightarrow>
     (\<exists>\<tau>. same_type (inst \<tau> (im_TypeParams impl) (im_Trait impl)) trait \<and> same_type (inst \<tau> (im_TypeParams impl) (im_For impl)) forType)"

lemma matchImpl_iff:
  assumes "plain trait" and "plain forType"
  shows "matchImpl impl trait forType \<longleftrightarrow> instance_of impl trait forType"
proof
  assume "matchImpl impl trait forType"
  then obtain s s' where s: "matchImplPattern (im_TypeParams impl) (im_Trait impl) trait Map.empty = Some s"
    "matchImplPattern (im_TypeParams impl) (im_For impl) forType s = Some s'" by (auto simp: matchImpl_def split: option.splits)
  from match_sound [OF s(1) assms(1)] have 1: "plain_bindings s" "\<And>\<tau>. agrees s \<tau> \<Longrightarrow> same_type (inst \<tau> (im_TypeParams impl) (im_Trait impl)) trait"
    by (auto simp: plain_bindings_def)
  from match_sound [OF s(2) assms(2) 1(1)] have 2: "plain_bindings s'" "s \<subseteq>\<^sub>m s'"
    "\<And>\<tau>. agrees s' \<tau> \<Longrightarrow> same_type (inst \<tau> (im_TypeParams impl) (im_For impl)) forType" by auto
  obtain \<tau> where \<tau>: "agrees s' \<tau>" using agrees_exists [OF 2(1)] by auto
  then have "agrees s \<tau>" using 2(2) by (auto simp: agrees_def map_le_def dom_def)
  with 1 2 \<tau> show "instance_of impl trait forType" unfolding instance_of_def by blast
next
  assume "instance_of impl trait forType"
  then obtain \<tau> where \<tau>: "same_type (inst \<tau> (im_TypeParams impl) (im_Trait impl)) trait"
    "same_type (inst \<tau> (im_TypeParams impl) (im_For impl)) forType" by (auto simp: instance_of_def)
  from match_complete [OF \<tau>(1), of Map.empty] obtain s
    where s: "matchImplPattern (im_TypeParams impl) (im_Trait impl) trait Map.empty = Some s" "agrees s \<tau>" by (auto simp: agrees_def)
  with match_complete [OF \<tau>(2) s(2)] show "matchImpl impl trait forType" by (auto simp: matchImpl_def)
qed

lemma plain_not_nil: "plain t \<Longrightarrow> t \<noteq> None"
  by (cases t) auto

text \<open>
  C26. For types whose names are plain, the checker finds an implementation exactly when some \<open>impl\<close> has the trait and the
  type as an instance: one choice of types for its parameters, the same in trait and type, turns its trait into
  the trait and its type into the type asked for.
\<close>

theorem hasImpl_instances:
  assumes "plain trait" and "plain forType"
  shows "hasImpl impls trait forType \<longleftrightarrow> (\<exists>impl \<in> set impls. instance_of impl trait forType)"
  using matchImpl_iff [OF assms] plain_not_nil [OF assms(1)] plain_not_nil [OF assms(2)] by (simp add: hasImpl_def list_ex_iff)

definition sample_impl :: "TypeName option Impl" where
  "sample_impl = \<lparr>im_Trait = Some (TypeName ''m'' ''Show'' []),
     im_For = Some (TypeName ''m'' ''Pair'' [Some (TypeName '''' ''T'' []), Some (TypeName '''' ''T'' [])]), im_TypeParams = {''T''}, im_Span = no_span\<rparr>"

definition sample_pair :: "string \<Rightarrow> string \<Rightarrow> TypeName option" where
  "sample_pair s t = Some (TypeName ''m'' ''Pair'' [Some (TypeName ''builtin'' s []), Some (TypeName ''builtin'' t [])])"

theorem hasImpl_instances_witness:
  "instance_of sample_impl (Some (TypeName ''m'' ''Show'' [])) (sample_pair ''U8'' ''U8'') \<and>
   \<not> instance_of sample_impl (Some (TypeName ''m'' ''Show'' [])) (sample_pair ''U8'' ''U64'')"
proof -
  have "plain (Some (TypeName ''m'' ''Show'' []))" "plain (sample_pair ''U8'' ''U8'')" "plain (sample_pair ''U8'' ''U64'')" by code_simp+
  note f = hasImpl_instances [OF this(1) this(2), of "[sample_impl]"] hasImpl_instances [OF this(1) this(3), of "[sample_impl]"]
  have "hasImpl [sample_impl] (Some (TypeName ''m'' ''Show'' [])) (sample_pair ''U8'' ''U8'')"
    "\<not> hasImpl [sample_impl] (Some (TypeName ''m'' ''Show'' [])) (sample_pair ''U8'' ''U64'')" by code_simp+
  with f show ?thesis by simp
qed

section \<open>Overlapping implementations\<close>

lemma inst_self: "inst (\<lambda>n. TypeName [] n []) ps t = t" and inst_args_self: "inst_args (\<lambda>n. TypeName [] n []) ps ts = ts"
  by (induction "\<lambda>n. TypeName [] n []" ps t and "\<lambda>n. TypeName [] n []" ps ts rule: inst_inst_args.induct) auto

lemma instance_of_self: "plain (im_Trait impl) \<Longrightarrow> plain (im_For impl) \<Longrightarrow> instance_of impl (im_Trait impl) (im_For impl)"
  unfolding instance_of_def by (rule exI [of _ "\<lambda>n. TypeName [] n []"]) (simp add: inst_self same_type_refl)

text \<open>Implementations that are reported as overlapping have an instance in common.\<close>

lemma implsOverlap_sound:
  assumes "implsOverlap left right"
    and "plain (im_Trait left)" and "plain (im_For left)" and "plain (im_Trait right)" and "plain (im_For right)"
  shows "\<exists>trait forType. instance_of left trait forType \<and> instance_of right trait forType"
  using assms instance_of_self [of left] instance_of_self [of right] matchImpl_iff
  unfolding implsOverlap_def by (metis (full_types))

text \<open>
  The converse fails: an implementation for pairs with a first component of type \<open>U8\<close> and one for pairs with a second component of
  type \<open>U64\<close> both implement the trait for the pair of the two, and the test does not report them.
\<close>

lemma implsOverlap_incomplete:
  fixes left right :: "TypeName option Impl"
  defines "left \<equiv> \<lparr>im_Trait = Some (TypeName ''m'' ''Show'' []),
      im_For = Some (TypeName ''m'' ''Pair'' [Some (TypeName ''builtin'' ''U8'' []), Some (TypeName '''' ''T'' [])]), im_TypeParams = {''T''}, im_Span = no_span\<rparr>"
    and "right \<equiv> \<lparr>im_Trait = Some (TypeName ''m'' ''Show'' []),
      im_For = Some (TypeName ''m'' ''Pair'' [Some (TypeName '''' ''T'' []), Some (TypeName ''builtin'' ''U64'' [])]), im_TypeParams = {''T''}, im_Span = no_span\<rparr>"
  shows "\<not> implsOverlap left right" and "matchImpl left (Some (TypeName ''m'' ''Show'' [])) (sample_pair ''U8'' ''U64'')"
    and "matchImpl right (Some (TypeName ''m'' ''Show'' [])) (sample_pair ''U8'' ''U64'')"
  unfolding assms by code_simp+

end
