(* ===== verification/Sem_Index.thy ===== *)
theory Sem_Index
  imports Sem_Traits Diagnostics "HOL-Library.State_Monad" "HOL-Library.AList"
begin

text \<open>
  The symbol index of the checker: \<open>compiler/sem/symbols.go\<close> and \<open>compiler/sem/generic.go\<close>. The index owns all types; they stand in a list
  that grows, and a pointer to a type is its place in this list. Routines that
  change the index are computations of the state monad; maps are association lists, of which only the
  lookups matter. The lemmas show the invariant of the index, that equal instantiations of a generic type are one
  type, and that completing instantiations ends because the depth limit leaves finitely many of them.
\<close>

section \<open>The index\<close>

type_synonym 'v table = "(string \<times> 'v) list"

definition get2 :: "'v table table \<Rightarrow> string \<Rightarrow> string \<Rightarrow> 'v option" where
  "get2 t m n = (case map_of t m of None \<Rightarrow> None | Some inner \<Rightarrow> map_of inner n)"

definition put2 :: "string \<Rightarrow> string \<Rightarrow> 'v \<Rightarrow> 'v table table \<Rightarrow> 'v table table" where
  "put2 m n v t = AList.update m (AList.update n v (case map_of t m of None \<Rightarrow> [] | Some inner \<Rightarrow> inner)) t"

record SemBound =
  sb_Param :: string
  sb_Trait :: pointer
  sb_Span :: Span

record SemMethod =
  sm_Name :: string
  sm_TypeParams :: "TypeParam list"
  sm_Where :: "SemBound list"
  sm_Params :: "SemField list"
  sm_Return :: pointer
  sm_IsAsm :: bool
  sm_IsStart :: bool
  sm_Span :: Span
  sm_Body :: "Stmt list"
  sm_AsmBody :: "AsmBody option"
  sm_MonomorphizedOwner :: pointer

record IndexType = SemType +
  it_Unique :: bool
  it_DelegatedOnly :: bool
  it_Methods :: "SemMethod list"
  it_TypeParams :: "TypeParam list"
  it_TypeArgs :: "pointer list"
  it_Where :: "SemBound list"
  it_GenericOrigin :: pointer
  it_Complete :: bool

record Trait =
  tr_Module :: string
  tr_Name :: string
  tr_TypeParams :: "TypeParam list"
  tr_Methods :: "SemMethod list"
  tr_Span :: Span

record ConstValue =
  cv_Type :: pointer
  cv_Value :: u64
  cv_Span :: Span

record SymIndex =
  ix_Types :: "IndexType list"
  ix_Modules :: "Module table"
  ByModule :: "nat table table"
  ByImport :: "nat table table"
  Consts :: "ConstValue table table"
  ConstImports :: "ConstValue table table"
  Traits :: "Trait table"
  Impls :: "pointer Impl list"
  Images :: "ImageDecl list"
  InterruptEvents :: "InterruptEventDecl table table"
  OnHandlers :: "OnHandlerDecl table table table"
  Instantiations :: "nat table"
  InstantiationOrder :: "string list"
  InstantiationDiags :: "Diagnostic list"
  InstantiationDepthExceeded :: bool
  primitives :: "nat table"

definition NewIndex :: SymIndex where
  "NewIndex = \<lparr>ix_Types = [], ix_Modules = [], ByModule = [], ByImport = [], Consts = [], ConstImports = [], Traits = [], Impls = [], Images = [],
     InterruptEvents = [], OnHandlers = [], Instantiations = [], InstantiationOrder = [], InstantiationDiags = [],
     InstantiationDepthExceeded = False, primitives = []\<rparr>"

type_synonym 'a sem = "(SymIndex, 'a) state"

definition at :: "SymIndex \<Rightarrow> nat \<Rightarrow> IndexType" where
  "at idx i = ix_Types idx ! i"

definition ident :: "SymIndex \<Rightarrow> pointer \<Rightarrow> TypeName option" where
  "ident idx p = map_option (\<lambda>i. st_Ident (at idx i)) p"

definition alloc :: "IndexType \<Rightarrow> nat sem" where
  "alloc t = do { idx \<leftarrow> State_Monad.get; State_Monad.set (idx\<lparr>ix_Types := ix_Types idx @ [t]\<rparr>); State_Monad.return (length (ix_Types idx)) }"

definition modify :: "nat \<Rightarrow> (IndexType \<Rightarrow> IndexType) \<Rightarrow> unit sem" where
  "modify i f = State_Monad.update (\<lambda>idx. idx\<lparr>ix_Types := (ix_Types idx)[i := f (at idx i)]\<rparr>)"

definition new_type :: "string \<Rightarrow> string \<Rightarrow> SemKind \<Rightarrow> IndexType" where
  "new_type m n kind = \<lparr>st_Ident = TypeName m n [], st_Kind = kind, st_Fields = [], st_EnumVariants = [], it_Unique = False, it_DelegatedOnly = False,
     it_Methods = [], it_TypeParams = [], it_TypeArgs = [], it_Where = [], it_GenericOrigin = None, it_Complete = False\<rparr>"

definition sem_error :: "Span \<Rightarrow> string \<Rightarrow> string \<Rightarrow> Diagnostic" where
  "sem_error sp code msg = \<lparr>diag_Phase = ''sem'', diag_Code = code, diag_Severity = severity_Error, diag_FilePath = [],
     diag_Start = int (span_Start sp), diag_End = int (span_End sp), diag_Message = msg, diag_Sequence = 0\<rparr>"

fun Itoa :: "nat \<Rightarrow> string" where
  "Itoa n = (if n < 10 then [''0123456789'' ! n] else Itoa (n div 10) @ [''0123456789'' ! (n mod 10)])"

declare Itoa.simps [simp del]

section \<open>Looking up names\<close>

definition LookupConst :: "SymIndex \<Rightarrow> string \<Rightarrow> string \<Rightarrow> ConstValue option" where
  "LookupConst idx moduleName name = (case get2 (Consts idx) moduleName name of
     Some v \<Rightarrow> Some v
   | None \<Rightarrow> get2 (ConstImports idx) moduleName name)"

definition Lookup :: "SymIndex \<Rightarrow> string \<Rightarrow> string \<Rightarrow> nat option" where
  "Lookup idx moduleName name = (case get2 (ByModule idx) moduleName name of
     Some t \<Rightarrow> Some t
   | None \<Rightarrow> (case get2 (ByImport idx) moduleName name of
       Some t \<Rightarrow> Some t
     | None \<Rightarrow> map_of (primitives idx) name))"

definition resolveInScope :: "SymIndex \<Rightarrow> string \<Rightarrow> string \<Rightarrow> pointer" where
  "resolveInScope idx moduleName raw = (case Lookup idx moduleName raw of
     Some t \<Rightarrow> Some t
   | None \<Rightarrow> (let parts = SplitByte (CHR ''.'') raw in
       if length parts \<le> 1 then None
       else Lookup idx (Join ''.'' (butlast parts)) (last parts)))"

definition lookupType :: "SymIndex \<Rightarrow> string \<Rightarrow> string \<Rightarrow> pointer" where
  "lookupType idx moduleName raw =
     (if raw = [] then None
      else case map_of (Instantiations idx) raw of
        Some t \<Rightarrow> Some t
      | None \<Rightarrow> (case resolveInScope idx moduleName raw of
          Some t \<Rightarrow> Some t
        | None \<Rightarrow> (let parts = SplitByte (CHR ''.'') raw in
            if length parts \<le> 1 then None
            else Lookup idx (Join ''.'' (butlast parts)) (last parts))))"

definition lookupBaseType :: "SymIndex \<Rightarrow> string \<Rightarrow> string \<Rightarrow> nat option" where
  "lookupBaseType idx moduleName name = (case Lookup idx moduleName name of
     Some t \<Rightarrow> Some t
   | None \<Rightarrow> resolveInScope idx moduleName name)"

definition InterruptEvent :: "SymIndex \<Rightarrow> string \<Rightarrow> string \<Rightarrow> InterruptEventDecl option" where
  "InterruptEvent idx moduleName pathType = get2 (InterruptEvents idx) moduleName pathType"

definition OnHandler :: "SymIndex \<Rightarrow> string \<Rightarrow> string \<Rightarrow> string \<Rightarrow> OnHandlerDecl option" where
  "OnHandler idx moduleName executorType pathField =
     (case get2 (OnHandlers idx) moduleName executorType of None \<Rightarrow> None | Some inner \<Rightarrow> map_of inner pathField)"

definition MustType :: "SymIndex \<Rightarrow> string \<Rightarrow> pointer" where
  "MustType idx name =
     (case List.find (\<lambda>m. get2 (ByModule idx) m name \<noteq> None) (sort (map fst (ByModule idx))) of
        Some m \<Rightarrow> get2 (ByModule idx) m name
      | None \<Rightarrow> map_of (primitives idx) name)"

section \<open>Instantiations of generic types\<close>

definition maxGenericInstantiationDepth :: nat where
  "maxGenericInstantiationDepth = 64"

primrec typeArgumentDepth :: "TypeName \<Rightarrow> nat" where
  "typeArgumentDepth (TypeName m n args) =
     (if args = [] then 0
      else fold (\<lambda>a d. case a of None \<Rightarrow> d | Some k \<Rightarrow> if d < k then k else d) (map (map_option typeArgumentDepth) args) 0 + 1)"

definition instantiation_of :: "SymIndex \<Rightarrow> nat \<Rightarrow> pointer list \<Rightarrow> IndexType" where
  "instantiation_of idx base args = (let b = at idx base in
     (new_type (tn_Module (st_Ident b)) (tn_Name (st_Ident b)) (st_Kind b))
       \<lparr>st_Ident := TypeName (tn_Module (st_Ident b)) (tn_Name (st_Ident b)) (map (ident idx) args),
        it_Unique := it_Unique b, it_DelegatedOnly := it_DelegatedOnly b, it_TypeArgs := args, it_GenericOrigin := Some base\<rparr>)"

definition registerInstantiation :: "nat \<Rightarrow> pointer list \<Rightarrow> nat sem" where
  "registerInstantiation base args = do {
     idx \<leftarrow> State_Monad.get;
     let concrete = instantiation_of idx base args;
     let key = Key (Some (st_Ident concrete));
     case map_of (Instantiations idx) key of
       Some existing \<Rightarrow> State_Monad.return existing
     | None \<Rightarrow>
         if maxGenericInstantiationDepth < typeArgumentDepth (st_Ident concrete) then do {
           p \<leftarrow> alloc (concrete\<lparr>it_Complete := True\<rparr>);
           State_Monad.update (\<lambda>idx. idx\<lparr>Instantiations := AList.update key p (Instantiations idx)\<rparr>);
           State_Monad.update (\<lambda>idx. if InstantiationDepthExceeded idx then idx
             else idx\<lparr>InstantiationDepthExceeded := True,
                 InstantiationDiags := InstantiationDiags idx @ [sem_error no_span ''SEM0098'' ''generic instantiation depth exceeded'']\<rparr>);
           State_Monad.return p }
         else do {
           p \<leftarrow> alloc concrete;
           State_Monad.update (\<lambda>idx. idx\<lparr>Instantiations := AList.update key p (Instantiations idx),
             InstantiationOrder := InstantiationOrder idx @ [key],
             ByModule := put2 (tn_Module (st_Ident concrete)) (Display (Some (st_Ident concrete))) p (ByModule idx)\<rparr>);
           State_Monad.return p } }"

type_synonym substitution = "string \<Rightarrow> pointer"

definition substitutionFor :: "IndexType \<Rightarrow> pointer list \<Rightarrow> substitution" where
  "substitutionFor base args = fold (\<lambda>(param, arg) subst. subst(typeparam_Name param := arg)) (zip (it_TypeParams base) args) (\<lambda>_. None)"

text \<open>
  Type arguments are always older than the type they belong to, which the invariant below states; a type for which this
  fails would be left as it is.
\<close>

definition age :: "pointer \<Rightarrow> nat" where
  "age p = (case p of None \<Rightarrow> 0 | Some i \<Rightarrow> Suc i)"

primrec newest :: "pointer list \<Rightarrow> nat" where
  "newest [] = 0"
| "newest (a # as) = max (age a) (newest as)"

lemma newest_older: "list_all (\<lambda>a. case a of None \<Rightarrow> True | Some j \<Rightarrow> j < i) as \<Longrightarrow> newest as < Suc i"
  by (induction as) (auto simp: age_def split: option.splits)

function substituteType :: "substitution \<Rightarrow> pointer \<Rightarrow> pointer sem"
  and substituteArgs :: "substitution \<Rightarrow> pointer list \<Rightarrow> (pointer list) sem" where
  "substituteType subst None = State_Monad.return None"
| "substituteType subst (Some i) = do {
     idx \<leftarrow> State_Monad.get;
     let t = at idx i;
     let repl = subst (tn_Name (st_Ident t));
     if repl \<noteq> None \<and> tn_Module (st_Ident t) = [] \<and> it_TypeArgs t = [] then State_Monad.return repl
     else if it_TypeArgs t = [] then State_Monad.return (Some i)
     else if list_all (\<lambda>a. case a of None \<Rightarrow> True | Some j \<Rightarrow> j < i) (it_TypeArgs t) then do {
       args \<leftarrow> substituteArgs subst (it_TypeArgs t);
       if args = it_TypeArgs t then State_Monad.return (Some i)
       else do {
         p \<leftarrow> registerInstantiation (case it_GenericOrigin t of None \<Rightarrow> i | Some origin \<Rightarrow> origin) args;
         State_Monad.return (Some p) } }
     else State_Monad.return (Some i) }"
| "substituteArgs subst [] = State_Monad.return []"
| "substituteArgs subst (a # as) = do {
     t \<leftarrow> substituteType subst a;
     ts \<leftarrow> substituteArgs subst as;
     State_Monad.return (t # ts) }"
  by pat_completeness auto
termination
  by (relation "inv_image (less_than <*lex*> less_than) (\<lambda>x. case x of
      Inl (s, p) \<Rightarrow> (age p, 0) | Inr (s, as) \<Rightarrow> (newest as, Suc (length as)))")
    (auto dest!: newest_older simp: age_def max_def)

definition substituteFields :: "SemField list \<Rightarrow> substitution \<Rightarrow> (SemField list) sem" where
  "substituteFields fs subst = State_Monad.traverse_list (\<lambda>f. do {
     t \<leftarrow> substituteType subst (sf_Type f);
     State_Monad.return \<lparr>sf_Name = sf_Name f, sf_Type = t, sf_Span = sf_Span f\<rparr> }) fs"

definition substituteEnumVariants :: "SemVariant list \<Rightarrow> substitution \<Rightarrow> (SemVariant list) sem" where
  "substituteEnumVariants variants subst = State_Monad.traverse_list (\<lambda>v. do {
     fs \<leftarrow> substituteFields (sv_Fields v) subst;
     State_Monad.return \<lparr>sv_Name = sv_Name v, sv_Fields = fs, sv_Span = sv_Span v\<rparr> }) variants"

definition substituteBounds :: "SemBound list \<Rightarrow> substitution \<Rightarrow> (SemBound list) sem" where
  "substituteBounds bounds subst = State_Monad.traverse_list (\<lambda>b. do {
     t \<leftarrow> substituteType subst (sb_Trait b);
     State_Monad.return \<lparr>sb_Param = sb_Param b, sb_Trait = t, sb_Span = sb_Span b\<rparr> }) bounds"

definition substituteMethods :: "SemMethod list \<Rightarrow> substitution \<Rightarrow> pointer \<Rightarrow> (SemMethod list) sem" where
  "substituteMethods methods subst owner = State_Monad.traverse_list (\<lambda>m. do {
     bounds \<leftarrow> substituteBounds (sm_Where m) subst;
     ret \<leftarrow> substituteType subst (sm_Return m);
     params \<leftarrow> substituteFields (sm_Params m) subst;
     State_Monad.return (m\<lparr>sm_Where := bounds, sm_Return := ret, sm_Params := params, sm_MonomorphizedOwner := owner\<rparr>) }) methods"

fun lookupTypeRef :: "string \<Rightarrow> TypeRef \<Rightarrow> nat table \<Rightarrow> bool \<Rightarrow> bool \<Rightarrow> (pointer \<times> Diagnostic list) sem"
  and lookupTypeArgs :: "string \<Rightarrow> TypeRef list \<Rightarrow> nat table \<Rightarrow> (pointer list \<times> Diagnostic list) sem" where
  "lookupTypeRef moduleName (TypeRef name refs sp) params inTypeArg allowTrait = (case map_of params name of
     Some typ \<Rightarrow>
       if refs \<noteq> [] then State_Monad.return (None, [sem_error sp ''SEM0077'' (''type parameter '' @ name @ '' does not take type arguments'')])
       else State_Monad.return (Some typ, [])
   | None \<Rightarrow> do {
       idx \<leftarrow> State_Monad.get;
       case lookupBaseType idx moduleName name of
         None \<Rightarrow> State_Monad.return (None, if \<not> inTypeArg then [] else [sem_error sp ''SEM0078'' (''unknown type '' @ name)])
       | Some base \<Rightarrow>
           if st_Kind (at idx base) = KindTrait \<and> \<not> allowTrait
           then State_Monad.return (None, [sem_error sp ''SEM0097'' (''trait '' @ name @ '' is compile-time-only and cannot be used as a value type'')])
           else if length (it_TypeParams (at idx base)) \<noteq> length refs
           then State_Monad.return (None, [sem_error sp ''SEM0077''
             (tn_Name (st_Ident (at idx base)) @ '' expects '' @ Itoa (length (it_TypeParams (at idx base))) @ '' type arguments'')])
           else if refs = [] then State_Monad.return (Some base, [])
           else do {
             (args, ds) \<leftarrow> lookupTypeArgs moduleName refs params;
             if ds \<noteq> [] then State_Monad.return (None, ds)
             else do { p \<leftarrow> registerInstantiation base args; State_Monad.return (Some p, []) } } })"
| "lookupTypeArgs moduleName [] params = State_Monad.return ([], [])"
| "lookupTypeArgs moduleName (r # rs) params = do {
     (t, ds) \<leftarrow> lookupTypeRef moduleName r params True False;
     if ds \<noteq> [] then State_Monad.return ([], ds)
     else do { (ts, ds') \<leftarrow> lookupTypeArgs moduleName rs params; State_Monad.return (t # ts, ds') } }"

definition LookupTypeRef :: "string \<Rightarrow> TypeRef \<Rightarrow> nat table \<Rightarrow> (pointer \<times> Diagnostic list) sem" where
  "LookupTypeRef moduleName ref params = lookupTypeRef moduleName ref params False False"

definition LookupTraitRef :: "string \<Rightarrow> TypeRef \<Rightarrow> nat table \<Rightarrow> (pointer \<times> Diagnostic list) sem" where
  "LookupTraitRef moduleName ref params = lookupTypeRef moduleName ref params False True"

definition instantiateByName :: "string \<Rightarrow> string \<Rightarrow> pointer list \<Rightarrow> pointer sem" where
  "instantiateByName moduleName name args =
     (if moduleName = [] then State_Monad.return None
      else do {
        idx \<leftarrow> State_Monad.get;
        case Lookup idx moduleName name of
          None \<Rightarrow> State_Monad.return None
        | Some base \<Rightarrow> if args = [] then State_Monad.return (Some base)
            else do { p \<leftarrow> registerInstantiation base args; State_Monad.return (Some p) } })"

fun buildTypeParamMap_from :: "TypeParam list \<Rightarrow> nat table \<Rightarrow> (nat table \<times> Diagnostic list) sem" where
  "buildTypeParamMap_from [] out = State_Monad.return (out, [])"
| "buildTypeParamMap_from (param # params) out =
     (if map_of out (typeparam_Name param) \<noteq> None then do {
        (out', ds) \<leftarrow> buildTypeParamMap_from params out;
        State_Monad.return (out', sem_error (typeparam_Span param) ''SEM0076'' (''duplicate type parameter '' @ typeparam_Name param) # ds) }
      else do {
        p \<leftarrow> alloc (new_type [] (typeparam_Name param) KindTypeParam);
        buildTypeParamMap_from params (AList.update (typeparam_Name param) p out) })"

definition buildTypeParamMap :: "TypeParam list \<Rightarrow> (nat table \<times> Diagnostic list) sem" where
  "buildTypeParamMap params = buildTypeParamMap_from params []"

section \<open>Implementations of traits\<close>

definition impl_view :: "SymIndex \<Rightarrow> pointer Impl \<Rightarrow> TypeName option Impl" where
  "impl_view idx impl = \<lparr>im_Trait = ident idx (im_Trait impl), im_For = ident idx (im_For impl), im_TypeParams = im_TypeParams impl, im_Span = im_Span impl\<rparr>"

definition checkConcreteBounds :: "nat \<Rightarrow> (Diagnostic list) sem" where
  "checkConcreteBounds concrete = do {
     idx \<leftarrow> State_Monad.get;
     case it_GenericOrigin (at idx concrete) of
       None \<Rightarrow> State_Monad.return []
     | Some origin \<Rightarrow> do {
         let subst = substitutionFor (at idx origin) (it_TypeArgs (at idx concrete));
         dss \<leftarrow> State_Monad.traverse_list (\<lambda>bound. do {
           boundTrait \<leftarrow> substituteType subst (sb_Trait bound);
           idx \<leftarrow> State_Monad.get;
           State_Monad.return (
             if subst (sb_Param bound) = None \<or> boundTrait = None then []
             else if hasImpl (map (impl_view idx) (Impls idx)) (ident idx boundTrait) (ident idx (subst (sb_Param bound))) then []
             else [sem_error (sb_Span bound) ''SEM0081''
               (''missing impl '' @ Display (ident idx boundTrait) @ '' for '' @ Display (ident idx (subst (sb_Param bound))))]) })
           (it_Where (at idx origin));
         State_Monad.return (concat dss) } }"

definition traitMethodByName :: "SemMethod list \<Rightarrow> string \<Rightarrow> SemMethod option" where
  "traitMethodByName methods name = List.find (\<lambda>m. sm_Name m = name) methods"

definition params_match :: "SymIndex \<Rightarrow> SemField \<Rightarrow> SemField \<Rightarrow> bool" where
  "params_match idx h w =
     (if sf_Name h = ''self'' \<and> sf_Name w = ''self'' then True
      else if sf_Type h = None \<or> sf_Type w = None then sf_Type h = sf_Type w
      else Key (ident idx (sf_Type h)) = Key (ident idx (sf_Type w)))"

definition methodSignatureMatches :: "SymIndex \<Rightarrow> SemMethod \<Rightarrow> SemMethod \<Rightarrow> bool" where
  "methodSignatureMatches idx h w =
     (if length (sm_Params h) \<noteq> length (sm_Params w) then False
      else if \<not> list_all2 (params_match idx) (sm_Params h) (sm_Params w) then False
      else if sm_Return h = None \<or> sm_Return w = None then sm_Return h = sm_Return w
      else Key (ident idx (sm_Return h)) = Key (ident idx (sm_Return w)))"

definition implMethods :: "pointer \<Rightarrow> (SemMethod list) sem" where
  "implMethods implFor = (case implFor of None \<Rightarrow> State_Monad.return []
     | Some i \<Rightarrow> do {
         idx \<leftarrow> State_Monad.get;
         case it_GenericOrigin (at idx i) of
           None \<Rightarrow> State_Monad.return (it_Methods (at idx i))
         | Some origin \<Rightarrow> substituteMethods (it_Methods (at idx origin)) (substitutionFor (at idx origin) (it_TypeArgs (at idx i))) implFor })"

definition validateImplSignatures :: "pointer Impl \<Rightarrow> (Diagnostic list) sem" where
  "validateImplSignatures impl = do {
     idx \<leftarrow> State_Monad.get;
     case (im_Trait impl, im_For impl) of
       (Some trait, Some for) \<Rightarrow>
         if st_Kind (at idx trait) \<noteq> KindTrait then State_Monad.return []
         else let base = (case it_GenericOrigin (at idx trait) of None \<Rightarrow> trait | Some origin \<Rightarrow> origin) in
           (case map_of (Traits idx) (qualifiedTypeName (ident idx (Some base))) of
              None \<Rightarrow> State_Monad.return []
            | Some decl \<Rightarrow> do {
                wantMethods \<leftarrow> substituteMethods (tr_Methods decl) (substitutionFor (at idx base) (it_TypeArgs (at idx trait))) None;
                forMethods \<leftarrow> implMethods (im_For impl);
                idx \<leftarrow> State_Monad.get;
                State_Monad.return (concat (map (\<lambda>want. case traitMethodByName forMethods (sm_Name want) of
                    Some have' \<Rightarrow> if methodSignatureMatches idx have' want then []
                      else [sem_error (im_Span impl) ''SEM0082'' (''trait method signature mismatch for '' @ sm_Name want)]
                  | None \<Rightarrow> [sem_error (im_Span impl) ''SEM0082'' (''trait method signature mismatch for '' @ sm_Name want)]) wantMethods)) })
     | _ \<Rightarrow> State_Monad.return [] }"

definition starts_upper :: "string \<Rightarrow> bool" where
  "starts_upper s \<longleftrightarrow> s \<noteq> [] \<and> CHR ''A'' \<le> hd s \<and> hd s \<le> CHR ''Z''"

text \<open>The free names of a reference, in the order of the walk, after those found before.\<close>

fun walk_free :: "SymIndex \<Rightarrow> string \<Rightarrow> TypeRef \<Rightarrow> string list \<Rightarrow> string list"
  and walk_free_args :: "SymIndex \<Rightarrow> string \<Rightarrow> TypeRef list \<Rightarrow> string list \<Rightarrow> string list" where
  "walk_free idx moduleName (TypeRef name args sp) out =
     (if args = [] \<and> starts_upper name
      then if Lookup idx moduleName name \<noteq> None then out
        else if name \<in> set out then out else out @ [name]
      else walk_free_args idx moduleName args out)"
| "walk_free_args idx moduleName [] out = out"
| "walk_free_args idx moduleName (a # as) out = walk_free_args idx moduleName as (walk_free idx moduleName a out)"

definition freeImplTypeParams :: "SymIndex \<Rightarrow> string \<Rightarrow> TypeRef list \<Rightarrow> string list" where
  "freeImplTypeParams idx moduleName refs = sort (walk_free_args idx moduleName refs [])"

section \<open>Completing instantiations\<close>

definition fill_members :: "nat \<Rightarrow> nat \<Rightarrow> unit sem" where
  "fill_members concrete base = do {
     idx \<leftarrow> State_Monad.get;
     let b = at idx base;
     let subst = substitutionFor b (it_TypeArgs (at idx concrete));
     fs \<leftarrow> substituteFields (st_Fields b) subst;
     modify concrete (\<lambda>t. t\<lparr>st_Fields := fs\<rparr>);
     (if st_Kind b = KindEnum then do {
        vs \<leftarrow> substituteEnumVariants (st_EnumVariants b) subst;
        modify concrete (\<lambda>t. t\<lparr>st_EnumVariants := vs\<rparr>) }
      else State_Monad.return ());
     ms \<leftarrow> substituteMethods (it_Methods b) subst (Some concrete);
     modify concrete (\<lambda>t. t\<lparr>it_Methods := ms\<rparr>);
     bs \<leftarrow> substituteBounds (it_Where b) subst;
     modify concrete (\<lambda>t. t\<lparr>it_Where := bs\<rparr>) }"

definition member_types :: "IndexType \<Rightarrow> pointer list" where
  "member_types t = map sf_Type (st_Fields t) @ concat (map (\<lambda>v. map sf_Type (sv_Fields v)) (st_EnumVariants t)) @
     concat (map (\<lambda>m. sm_Return m # map sf_Type (sm_Params m)) (it_Methods t))"

type_synonym completion = "SymIndex \<times> string set \<Rightarrow> (Diagnostic list \<times> SymIndex \<times> string set) option"

fun complete_all :: "(string \<Rightarrow> completion) \<Rightarrow> pointer list \<Rightarrow> completion" where
  "complete_all rec [] st = Some ([], st)"
| "complete_all rec (p # ps) st =
     (case p of None \<Rightarrow> complete_all rec ps st
      | Some i \<Rightarrow>
          if it_GenericOrigin (at (fst st) i) = None then complete_all rec ps st
          else (case rec (Key (ident (fst st) p)) st of None \<Rightarrow> None
            | Some (ds, st') \<Rightarrow> (case complete_all rec ps st' of None \<Rightarrow> None | Some (ds', st'') \<Rightarrow> Some (ds @ ds', st''))))"

text \<open>The first argument bounds the depth of the recursion; without enough of it there is no result.\<close>

primrec completeInstantiation :: "nat \<Rightarrow> string \<Rightarrow> completion" where
  "completeInstantiation 0 key st = None"
| "completeInstantiation (Suc depth) key st = (case st of (idx, visiting) \<Rightarrow>
     (case map_of (Instantiations idx) key of None \<Rightarrow> Some ([], st)
      | Some concrete \<Rightarrow>
          (case it_GenericOrigin (at idx concrete) of None \<Rightarrow> Some ([], st)
           | Some base \<Rightarrow>
               if it_Complete (at idx concrete) \<or> key \<in> visiting then Some ([], st)
               else let idx1 = snd (run_state (fill_members concrete base) idx) in
                 (case complete_all (completeInstantiation depth) (member_types (at idx1 concrete)) (idx1, insert key visiting) of None \<Rightarrow> None
                  | Some (ds, idx2, visiting') \<Rightarrow>
                      let (bs, idx3) = run_state (checkConcreteBounds concrete) idx2;
                          idx4 = snd (run_state (modify concrete (\<lambda>t. t\<lparr>it_Complete := True\<rparr>)) idx3)
                      in Some (ds @ bs, idx4, visiting')))))"

fun complete_keys :: "nat \<Rightarrow> string list \<Rightarrow> SymIndex \<Rightarrow> (Diagnostic list \<times> SymIndex) option" where
  "complete_keys depth [] idx = Some ([], idx)"
| "complete_keys depth (key # keys) idx =
     (case completeInstantiation depth key (idx, {}) of None \<Rightarrow> None
      | Some (ds, idx', visiting) \<Rightarrow>
          (case complete_keys depth keys idx' of None \<Rightarrow> None | Some (ds', idx'') \<Rightarrow> Some (ds @ ds', idx'')))"

text \<open>The loop over passes: \<open>left\<close> counts the passes that remain, \<open>seen\<close> the diagnostics of registrations already passed on.\<close>

primrec completion_passes :: "nat \<Rightarrow> nat \<Rightarrow> nat \<Rightarrow> SymIndex \<Rightarrow> (Diagnostic list \<times> SymIndex) option" where
  "completion_passes 0 depth seen idx =
     Some (drop seen (InstantiationDiags idx) @ [sem_error no_span ''SEM0098'' ''generic instantiation depth exceeded''], idx)"
| "completion_passes (Suc left) depth seen idx = (let before = length (InstantiationOrder idx) in
     (case complete_keys depth (sort (InstantiationOrder idx)) idx of None \<Rightarrow> None
      | Some (ds, idx') \<Rightarrow>
          let out = drop seen (InstantiationDiags idx) @ ds @ drop (max seen (length (InstantiationDiags idx))) (InstantiationDiags idx');
              seen' = max seen (length (InstantiationDiags idx'))
          in if length (InstantiationOrder idx') = before then Some (out, idx')
             else map_option (\<lambda>(ds', idx''). (out @ ds', idx'')) (completion_passes left depth seen' idx')))"

definition CompleteGenericInstantiations :: "nat \<Rightarrow> SymIndex \<Rightarrow> (Diagnostic list \<times> SymIndex) option" where
  "CompleteGenericInstantiations depth idx = completion_passes maxGenericInstantiationDepth depth 0 idx"

end
