(* ===== verification/Sem_Build.thy ===== *)
theory Sem_Build
  imports Sem_Index
begin

text \<open>
  Building the symbol index from the modules of a program, \<open>BuildIndex\<close> of \<open>compiler/sem/symbols.go\<close>: the passes over modules,
  declarations, imports and bodies in the order of the code, and the closure of delegated types.
\<close>

section \<open>Declarations\<close>

definition typeKind :: "Decl \<Rightarrow> SemKind option" where
  "typeKind decl = (case decl of
     DataD d \<Rightarrow> Some KindData | ClassD d \<Rightarrow> Some KindClass | DriverD d \<Rightarrow> Some KindDriver | DriverPathD d \<Rightarrow> Some KindDriverPath
   | EnumD d \<Rightarrow> Some KindEnum | TraitD d \<Rightarrow> Some KindTrait | EventD d \<Rightarrow> Some KindEvent | ProjectionD d \<Rightarrow> Some KindProjection
   | ExecutorD d \<Rightarrow> Some KindExecutor | ImageD d \<Rightarrow> Some KindImage | _ \<Rightarrow> None)"

definition declarationName :: "Decl \<Rightarrow> string" where
  "declarationName decl = (case decl of
     DataD d \<Rightarrow> data_Name d | ClassD d \<Rightarrow> class_Name d | ConstD d \<Rightarrow> const_Name d | DriverD d \<Rightarrow> driver_Name d
   | DriverPathD d \<Rightarrow> path_Name d | EnumD d \<Rightarrow> enum_Name d | TraitD d \<Rightarrow> trait_Name d | EventD d \<Rightarrow> event_Name d
   | ProjectionD d \<Rightarrow> projection_Name d | ExecutorD d \<Rightarrow> executor_Name d | ImageD d \<Rightarrow> image_Name d | _ \<Rightarrow> [])"

definition decl_span :: "Decl \<Rightarrow> Span" where
  "decl_span decl = (case decl of
     EnumD d \<Rightarrow> enum_Span d | TraitD d \<Rightarrow> trait_Span d | ImplD d \<Rightarrow> impl_Span d | ConstD d \<Rightarrow> const_Span d
   | StaticAssertD d \<Rightarrow> assert_Span d | EventD d \<Rightarrow> event_Span d | ProjectionD d \<Rightarrow> projection_Span d | DataD d \<Rightarrow> data_Span d
   | ClassD d \<Rightarrow> class_Span d | DriverD d \<Rightarrow> driver_Span d | DriverPathD d \<Rightarrow> path_Span d | ExecutorD d \<Rightarrow> executor_Span d
   | ImageD d \<Rightarrow> image_Span d)"

definition toTypeParams :: "TypeParam list \<Rightarrow> TypeParam list" where
  "toTypeParams params = map (\<lambda>p. \<lparr>typeparam_Name = typeparam_Name p, typeparam_Span = typeparam_Span p\<rparr>) params"

definition convertParams :: "Param list \<Rightarrow> Field list" where
  "convertParams params = map (\<lambda>p. \<lparr>field_Name = param_Name p, field_Type = param_Type p, field_Span = param_Span p\<rparr>) params"

definition primitive_names :: "string list" where
  "primitive_names = [''Bool'', ''U8'', ''U16'', ''U32'', ''U64'', ''I64'', ''PhysicalAddress'', ''VirtualAddress'', ''never'']"

definition add_primitive :: "IndexType \<Rightarrow> unit sem" where
  "add_primitive t = do {
     p \<leftarrow> alloc t;
     State_Monad.update (\<lambda>idx. idx\<lparr>primitives := AList.update (tn_Name (st_Ident t)) p (primitives idx)\<rparr>) }"

definition buildPrimitives :: "unit sem" where
  "buildPrimitives = do {
     _ \<leftarrow> State_Monad.traverse_list (\<lambda>n. add_primitive (new_type ''builtin'' n KindPrimitive)) primitive_names;
     idx \<leftarrow> State_Monad.get;
     add_primitive ((new_type ''builtin'' ''StringLiteral'' KindPrimitive)\<lparr>st_Fields :=
       [\<lparr>sf_Name = ''address'', sf_Type = map_of (primitives idx) ''PhysicalAddress'', sf_Span = no_span\<rparr>,
        \<lparr>sf_Name = ''length'', sf_Type = map_of (primitives idx) ''U64'', sf_Span = no_span\<rparr>]\<rparr>) }"

section \<open>Members\<close>

definition buildFields :: "string \<Rightarrow> Field list \<Rightarrow> nat table \<Rightarrow> (SemField list \<times> Diagnostic list) sem" where
  "buildFields moduleName fs params = do {
     rs \<leftarrow> State_Monad.traverse_list (\<lambda>f. do {
       (typ, ds) \<leftarrow> LookupTypeRef moduleName (field_Type f) params;
       State_Monad.return (if typ = None then [] else [\<lparr>sf_Name = field_Name f, sf_Type = typ, sf_Span = field_Span f\<rparr>], ds) }) fs;
     State_Monad.return (concat (map fst rs), concat (map snd rs)) }"

definition buildEnumVariants :: "string \<Rightarrow> EnumVariant list \<Rightarrow> nat table \<Rightarrow> (SemVariant list \<times> Diagnostic list) sem" where
  "buildEnumVariants moduleName variants params = do {
     rs \<leftarrow> State_Monad.traverse_list (\<lambda>v. do {
       (fs, ds) \<leftarrow> buildFields moduleName (variant_Fields v) params;
       State_Monad.return (\<lparr>sv_Name = variant_Name v, sv_Fields = fs, sv_Span = variant_Span v\<rparr>, ds) }) variants;
     State_Monad.return (map fst rs, concat (map snd rs)) }"

definition buildParams :: "string \<Rightarrow> Field list \<Rightarrow> nat table \<Rightarrow> (SemField list \<times> Diagnostic list) sem" where
  "buildParams moduleName params typeParams = do {
     rs \<leftarrow> State_Monad.traverse_list (\<lambda>param.
       if field_Name param = ''self'' \<and> type_Name (field_Type param) = []
       then State_Monad.return ([\<lparr>sf_Name = ''self'', sf_Type = None, sf_Span = field_Span param\<rparr>], [])
       else do {
         (typ, ds) \<leftarrow> LookupTypeRef moduleName (field_Type param) typeParams;
         State_Monad.return (if typ = None then [] else [\<lparr>sf_Name = field_Name param, sf_Type = typ, sf_Span = field_Span param\<rparr>], ds) }) params;
     State_Monad.return (concat (map fst rs), concat (map snd rs)) }"

definition buildWhereBounds :: "string \<Rightarrow> TraitBound list \<Rightarrow> nat table \<Rightarrow> (SemBound list \<times> Diagnostic list) sem" where
  "buildWhereBounds moduleName bounds typeParams = do {
     rs \<leftarrow> State_Monad.traverse_list (\<lambda>b. do {
       (trait, ds) \<leftarrow> LookupTraitRef moduleName (bound_Trait b) typeParams;
       State_Monad.return (\<lparr>sb_Param = bound_Param b, sb_Trait = trait, sb_Span = bound_Span b\<rparr>, ds) }) bounds;
     State_Monad.return (map fst rs, concat (map snd rs)) }"

definition buildMethod :: "string \<Rightarrow> nat table \<Rightarrow> MethodDecl \<Rightarrow> (SemMethod \<times> Diagnostic list) sem" where
  "buildMethod moduleName params m = do {
     (methodParams, ds1) \<leftarrow> buildTypeParamMap (method_TypeParams m);
     let scope = fold (\<lambda>(k, v) t. AList.update k v t) methodParams params;
     (bounds, ds2) \<leftarrow> buildWhereBounds moduleName (method_Where m) scope;
     (ps, ds3) \<leftarrow> buildParams moduleName (convertParams (method_Params m)) scope;
     (ret, ds4) \<leftarrow> (if type_Name (method_Return m) = []
        then do { idx \<leftarrow> State_Monad.get; State_Monad.return (MustType idx ''void'', []) }
        else LookupTypeRef moduleName (method_Return m) scope);
     State_Monad.return (\<lparr>sm_Name = method_Name m, sm_TypeParams = toTypeParams (method_TypeParams m), sm_Where = bounds, sm_Params = ps, sm_Return = ret,
       sm_IsAsm = method_IsAsm m, sm_IsStart = method_IsStart m, sm_Span = method_Span m, sm_Body = method_Body m,
       sm_AsmBody = method_Asm m, sm_MonomorphizedOwner = None\<rparr>, ds1 @ ds2 @ ds3 @ ds4) }"

definition buildMethods :: "string \<Rightarrow> MethodDecl list \<Rightarrow> nat table \<Rightarrow> (SemMethod list \<times> Diagnostic list) sem" where
  "buildMethods moduleName methods params = do {
     rs \<leftarrow> State_Monad.traverse_list (buildMethod moduleName params) methods;
     State_Monad.return (map fst rs, concat (map snd rs)) }"

section \<open>Delegated types\<close>

definition explicitDelegatedOnly :: "string set" where
  "explicitDelegatedOnly = {''DelegatedHardware'', ''UefiBootServices'', ''DelegatedMemory'', ''DelegatedBytes'', ''DelegatedMutableBytes'',
     ''UefiMemoryMap'', ''UefiMemoryMapResult''}"

definition type_path :: "SemType list \<Rightarrow> nat \<Rightarrow> string" where
  "type_path types i = tn_Module (st_Ident (types ! i)) @ ''.'' @ tn_Name (st_Ident (types ! i))"

text \<open>
  The depth-first search of \<open>DelegatedOnlyOffender\<close> for a type with a delegated name, with the calls that are still to be made as a list.
  \<open>IsDelegatedOnly\<close> makes the same search and tells only whether it finds one.
\<close>

function DelegatedOnlyOffender :: "SemType list \<Rightarrow> string set \<Rightarrow> pointer list \<Rightarrow> string" where
  "DelegatedOnlyOffender types seen [] = []"
| "DelegatedOnlyOffender types seen (p # ps) = (case p of None \<Rightarrow> DelegatedOnlyOffender types seen ps
     | Some i \<Rightarrow>
         if length types \<le> i then DelegatedOnlyOffender types seen ps
         else if tn_Name (st_Ident (types ! i)) \<in> explicitDelegatedOnly then tn_Name (st_Ident (types ! i))
         else if type_path types i \<in> seen then DelegatedOnlyOffender types seen ps
         else DelegatedOnlyOffender types (insert (type_path types i) seen) (map sf_Type (st_Fields (types ! i)) @ ps))"
  by pat_completeness auto
termination
proof (relation "inv_image (less_than <*lex*> less_than) (\<lambda>(types, seen, ps).
    (card (type_path types ` {..<length types} - seen), length ps))", goal_cases)
  case (5 types seen p ps i)
  then have "card (type_path types ` {..<length types} - insert (type_path types i) seen) < card (type_path types ` {..<length types} - seen)"
    by (intro psubset_card_mono) auto
  then show ?case by simp
qed auto

definition IsDelegatedOnly :: "SymIndex \<Rightarrow> nat \<Rightarrow> bool" where
  "IsDelegatedOnly idx i \<longleftrightarrow> DelegatedOnlyOffender (map SemType.truncate (ix_Types idx)) {} [Some i] \<noteq> []"

section \<open>The passes\<close>

definition ensure :: "string \<Rightarrow> 'v table table \<Rightarrow> 'v table table" where
  "ensure m t = (if map_of t m = None then AList.update m [] t else t)"

definition add_module :: "Module \<Rightarrow> SymIndex \<Rightarrow> SymIndex" where
  "add_module md idx = idx\<lparr>ix_Modules := AList.update (module_Name md) md (ix_Modules idx), ByModule := ensure (module_Name md) (ByModule idx),
     ByImport := ensure (module_Name md) (ByImport idx), Consts := ensure (module_Name md) (Consts idx), ConstImports := ensure (module_Name md) (ConstImports idx)\<rparr>"

definition declared_type :: "string \<Rightarrow> SemKind \<Rightarrow> Decl \<Rightarrow> IndexType" where
  "declared_type moduleName kind decl = (let typ = new_type moduleName (declarationName decl) kind in (case decl of
     ClassD d \<Rightarrow> typ\<lparr>it_Unique := class_Unique d, it_TypeParams := toTypeParams (class_TypeParams d)\<rparr>
   | DriverD d \<Rightarrow> typ\<lparr>it_Unique := driver_Unique d, it_TypeParams := toTypeParams (driver_TypeParams d)\<rparr>
   | DataD d \<Rightarrow> typ\<lparr>it_TypeParams := toTypeParams (data_TypeParams d)\<rparr>
   | EnumD d \<Rightarrow> typ\<lparr>it_TypeParams := toTypeParams (enum_TypeParams d)\<rparr>
   | TraitD d \<Rightarrow> typ\<lparr>it_TypeParams := toTypeParams (trait_TypeParams d)\<rparr>
   | _ \<Rightarrow> typ))"

text \<open>A declared name has no character that the verb \<open>%q\<close> of \<open>fmt.Sprintf\<close> escapes.\<close>

fun declare_all :: "string \<Rightarrow> Decl list \<Rightarrow> string list \<Rightarrow> (Diagnostic list) sem" where
  "declare_all moduleName [] seen = State_Monad.return []"
| "declare_all moduleName (decl # decls) seen = (let name = declarationName decl in
     if name = [] then declare_all moduleName decls seen
     else if name \<in> set seen then do {
       ds \<leftarrow> declare_all moduleName decls seen;
       State_Monad.return (sem_error (decl_span decl) ''SEM0001'' (''duplicate declaration '' @ [CHR 0x22] @ name @ [CHR 0x22]) # ds) }
     else do {
       (case typeKind decl of
          None \<Rightarrow> (case decl of
              ConstD d \<Rightarrow> State_Monad.update (\<lambda>idx. idx\<lparr>Consts := put2 moduleName (const_Name d) \<lparr>cv_Type = None, cv_Value = 0, cv_Span = const_Span d\<rparr> (Consts idx)\<rparr>)
            | _ \<Rightarrow> State_Monad.return ())
        | Some kind \<Rightarrow> do {
            p \<leftarrow> alloc (declared_type moduleName kind decl);
            State_Monad.update (\<lambda>idx. idx\<lparr>ByModule := put2 moduleName name p (ByModule idx)\<rparr>) });
       declare_all moduleName decls (name # seen) })"

definition import_name :: "string \<Rightarrow> Import \<Rightarrow> string \<Rightarrow> SymIndex \<times> string list \<Rightarrow> Diagnostic list \<times> SymIndex \<times> string list" where
  "import_name moduleName imp name = (\<lambda>(idx, seen).
     if get2 (ByModule idx) moduleName name \<noteq> None \<or> name \<in> set seen \<or> get2 (Consts idx) moduleName name \<noteq> None
     then ([sem_error (import_Span imp) ''SEM0001'' (''duplicate declaration '' @ name)], idx, seen)
     else (case get2 (ByModule idx) (import_Path imp) name of
         Some typ \<Rightarrow> ([], idx\<lparr>ByImport := put2 moduleName name typ (ByImport idx)\<rparr>, name # seen)
       | None \<Rightarrow> (case get2 (Consts idx) (import_Path imp) name of
           Some cv \<Rightarrow> ([], idx\<lparr>ConstImports := put2 moduleName name cv (ConstImports idx)\<rparr>, name # seen)
         | None \<Rightarrow> ([sem_error (import_Span imp) ''SEM0002'' (''unknown imported declaration '' @ name)], idx, name # seen))))"

fun import_names :: "string \<Rightarrow> Import \<Rightarrow> string list \<Rightarrow> SymIndex \<times> string list \<Rightarrow> Diagnostic list \<times> SymIndex \<times> string list" where
  "import_names moduleName imp [] st = ([], st)"
| "import_names moduleName imp (name # names) st = (let (ds, st') = import_name moduleName imp name st; (ds', st'') = import_names moduleName imp names st'
     in (ds @ ds', st''))"

text \<open>The name of a module that is in the index is its key there.\<close>

fun import_all :: "string \<Rightarrow> Import list \<Rightarrow> SymIndex \<times> string list \<Rightarrow> Diagnostic list \<times> SymIndex \<times> string list" where
  "import_all moduleName [] st = ([], st)"
| "import_all moduleName (imp # imps) st =
     (let (ds, st') = (if map_of (ix_Modules (fst st)) (import_Path imp) = None
            then ([sem_error (import_Span imp) ''SEM0002'' (''unknown imported module: '' @ import_Path imp)], st)
            else import_names moduleName imp (import_Names imp) st);
          (ds', st'') = import_all moduleName imps st'
      in (ds @ ds', st''))"

definition processImpl :: "string \<Rightarrow> ImplDecl \<Rightarrow> (Diagnostic list) sem" where
  "processImpl moduleName d = do {
     idx \<leftarrow> State_Monad.get;
     let paramNames = freeImplTypeParams idx moduleName [impl_Trait d, impl_For d];
     ps \<leftarrow> State_Monad.traverse_list (\<lambda>name. alloc (new_type [] name KindTypeParam)) paramNames;
     let params = fold (\<lambda>(name, p) t. AList.update name p t) (zip paramNames ps) [];
     (implTrait, ds1) \<leftarrow> LookupTraitRef moduleName (impl_Trait d) params;
     (implFor, ds2) \<leftarrow> LookupTypeRef moduleName (impl_For d) params;
     if implTrait = None \<or> implFor = None then State_Monad.return (ds1 @ ds2)
     else do {
       idx \<leftarrow> State_Monad.get;
       let impl = \<lparr>im_Trait = implTrait, im_For = implFor, im_TypeParams = set paramNames, im_Span = impl_Span d\<rparr>;
       let overlap = list_ex (\<lambda>existing. implsOverlap (impl_view idx existing) (impl_view idx impl)) (Impls idx);
       State_Monad.set (idx\<lparr>Impls := Impls idx @ [impl]\<rparr>);
       (if overlap then State_Monad.return (ds1 @ ds2 @ [sem_error (impl_Span d) ''SEM0083'' ''overlapping impl''])
        else do { ds3 \<leftarrow> validateImplSignatures impl; State_Monad.return (ds1 @ ds2 @ ds3) }) } }"

text \<open>A declaration with type parameters, bounds, fields and methods: \<open>data\<close>, \<open>class\<close> and \<open>driver\<close>.\<close>

definition build_composite :: "string \<Rightarrow> nat \<Rightarrow> TypeParam list \<Rightarrow> TraitBound list \<Rightarrow> Field list \<Rightarrow> MethodDecl list \<Rightarrow> (Diagnostic list) sem" where
  "build_composite moduleName typ typeParams bounds fs methods = do {
     (params, ds1) \<leftarrow> buildTypeParamMap typeParams;
     modify typ (\<lambda>t. t\<lparr>it_TypeParams := toTypeParams typeParams\<rparr>);
     (bs, ds2) \<leftarrow> buildWhereBounds moduleName bounds params;
     modify typ (\<lambda>t. t\<lparr>it_Where := bs\<rparr>);
     (fields', ds3) \<leftarrow> buildFields moduleName fs params;
     modify typ (\<lambda>t. t\<lparr>st_Fields := fields'\<rparr>);
     (ms, ds4) \<leftarrow> buildMethods moduleName methods params;
     modify typ (\<lambda>t. t\<lparr>it_Methods := ms\<rparr>);
     State_Monad.return (ds1 @ ds2 @ ds3 @ ds4) }"

text \<open>The same without parameters: driver paths and executors.\<close>

definition build_plain :: "string \<Rightarrow> nat \<Rightarrow> Field list \<Rightarrow> MethodDecl list \<Rightarrow> (Diagnostic list) sem" where
  "build_plain moduleName typ fs methods = do {
     (fields', ds1) \<leftarrow> buildFields moduleName fs [];
     modify typ (\<lambda>t. t\<lparr>st_Fields := fields'\<rparr>);
     (ms, ds2) \<leftarrow> buildMethods moduleName methods [];
     modify typ (\<lambda>t. t\<lparr>it_Methods := ms\<rparr>);
     State_Monad.return (ds1 @ ds2) }"

fun add_interrupt_events :: "string \<Rightarrow> string \<Rightarrow> InterruptEventDecl list \<Rightarrow> InterruptEventDecl table table \<Rightarrow> Diagnostic list \<times> InterruptEventDecl table table" where
  "add_interrupt_events m n [] t = ([], t)"
| "add_interrupt_events m n (e # es) t =
     (if get2 t m n \<noteq> None then (let (ds, t') = add_interrupt_events m n es t in (sem_error (ie_Span e) ''SEM0014'' ''duplicate interrupt receiver'' # ds, t'))
      else add_interrupt_events m n es (put2 m n e t))"

fun add_handlers :: "OnHandlerDecl list \<Rightarrow> OnHandlerDecl table \<Rightarrow> Diagnostic list \<times> OnHandlerDecl table" where
  "add_handlers [] t = ([], t)"
| "add_handlers (h # hs) t =
     (if map_of t (on_PathField h) \<noteq> None
      then (let (ds, t') = add_handlers hs t in (sem_error (on_Span h) ''SEM0014'' (''duplicate on handler '' @ on_PathField h @ ''.interrupt'') # ds, t'))
      else add_handlers hs (AList.update (on_PathField h) h t))"

definition build_members :: "string \<Rightarrow> nat \<Rightarrow> Decl \<Rightarrow> (Diagnostic list) sem" where
  "build_members moduleName typ decl = (case decl of
       DataD d \<Rightarrow> build_composite moduleName typ (data_TypeParams d) (data_Where d) (data_Fields d) (data_Methods d)
     | ClassD d \<Rightarrow> build_composite moduleName typ (class_TypeParams d) (class_Where d) (class_Fields d) (class_Methods d)
     | DriverD d \<Rightarrow> build_composite moduleName typ (driver_TypeParams d) (driver_Where d) (driver_Fields d) (driver_Methods d)
     | EnumD d \<Rightarrow> do {
         (params, ds1) \<leftarrow> buildTypeParamMap (enum_TypeParams d);
         modify typ (\<lambda>t. t\<lparr>it_TypeParams := toTypeParams (enum_TypeParams d)\<rparr>);
         (vs, ds2) \<leftarrow> buildEnumVariants moduleName (enum_Variants d) params;
         modify typ (\<lambda>t. t\<lparr>st_EnumVariants := vs\<rparr>);
         State_Monad.return (ds1 @ ds2) }
     | EventD d \<Rightarrow> do {
         (fs, ds) \<leftarrow> buildFields moduleName (event_Fields d) [];
         modify typ (\<lambda>t. t\<lparr>st_Fields := fs\<rparr>);
         State_Monad.return ds }
     | TraitD d \<Rightarrow> do {
         (params, ds1) \<leftarrow> buildTypeParamMap (trait_TypeParams d);
         modify typ (\<lambda>t. t\<lparr>it_TypeParams := toTypeParams (trait_TypeParams d)\<rparr>);
         (ms, ds2) \<leftarrow> buildMethods moduleName (trait_Methods d) params;
         modify typ (\<lambda>t. t\<lparr>it_Methods := ms\<rparr>);
         State_Monad.update (\<lambda>idx. idx\<lparr>Traits := AList.update (qualifiedTypeName (ident idx (Some typ)))
           \<lparr>tr_Module = moduleName, tr_Name = tn_Name (st_Ident (at idx typ)), tr_TypeParams = it_TypeParams (at idx typ), tr_Methods = ms, tr_Span = trait_Span d\<rparr> (Traits idx)\<rparr>);
         State_Monad.return (ds1 @ ds2) }
     | DriverPathD d \<Rightarrow> do {
         ds1 \<leftarrow> build_plain moduleName typ (path_Fields d) (path_Methods d);
         idx \<leftarrow> State_Monad.get;
         let (ds2, t) = add_interrupt_events moduleName (path_Name d) (path_InterruptEvents d) (ensure moduleName (InterruptEvents idx));
         State_Monad.set (idx\<lparr>InterruptEvents := t\<rparr>);
         State_Monad.return (ds1 @ ds2) }
     | ExecutorD d \<Rightarrow> do {
         ds1 \<leftarrow> build_plain moduleName typ (executor_Fields d) (executor_Methods d);
         idx \<leftarrow> State_Monad.get;
         let (ds2, t) = add_handlers (executor_OnHandlers d) (case get2 (OnHandlers idx) moduleName (executor_Name d) of None \<Rightarrow> [] | Some t \<Rightarrow> t);
         State_Monad.set (idx\<lparr>OnHandlers := put2 moduleName (executor_Name d) t (OnHandlers idx)\<rparr>);
         State_Monad.return (ds1 @ ds2) }
     | ImageD d \<Rightarrow> do { State_Monad.update (\<lambda>idx. idx\<lparr>Images := Images idx @ [d]\<rparr>); State_Monad.return [] }
     | _ \<Rightarrow> State_Monad.return [])"

definition build_decl :: "string \<Rightarrow> Decl \<Rightarrow> (Diagnostic list) sem" where
  "build_decl moduleName decl = do {
     idx \<leftarrow> State_Monad.get;
     case resolveInScope idx moduleName (declarationName decl) of
       None \<Rightarrow> (case decl of ImplD d \<Rightarrow> processImpl moduleName d | _ \<Rightarrow> State_Monad.return [])
     | Some typ \<Rightarrow> build_members moduleName typ decl }"

text \<open>Whether a type is delegated depends on names and fields only, so all types get their mark at once.\<close>

definition mark_delegated :: "string \<Rightarrow> SymIndex \<Rightarrow> SymIndex" where
  "mark_delegated moduleName idx = (let is = (case map_of (ByModule idx) moduleName of None \<Rightarrow> [] | Some t \<Rightarrow> map snd t) in
     idx\<lparr>ix_Types := map (\<lambda>i. if i \<in> set is then (at idx i)\<lparr>it_DelegatedOnly := IsDelegatedOnly idx i\<rparr> else at idx i) [0..<length (ix_Types idx)]\<rparr>)"

definition image_diags :: "ImageDecl list \<Rightarrow> Diagnostic list" where
  "image_diags images = (case images of
     [] \<Rightarrow> [sem_error no_span ''SEM0004'' ''missing image declaration'']
   | [i] \<Rightarrow> []
   | i # j # rest \<Rightarrow> [sem_error (image_Span j) ''SEM0003'' ''import graph contains more than one image''])"

definition import_pass :: "Module \<Rightarrow> (Diagnostic list) sem" where
  "import_pass md = State (\<lambda>idx. let (ds, idx', seen) = import_all (module_Name md) (module_Imports md) (idx, []) in (ds, idx'))"

definition index_modules :: "Module list \<Rightarrow> (Diagnostic list) sem" where
  "index_modules modules = do {
     buildPrimitives;
     State_Monad.update (fold add_module modules);
     dss1 \<leftarrow> State_Monad.traverse_list (\<lambda>md. declare_all (module_Name md) (module_Decls md) []) modules;
     dss2 \<leftarrow> State_Monad.traverse_list import_pass modules;
     dss3 \<leftarrow> State_Monad.traverse_list (\<lambda>md. do {
       dss \<leftarrow> State_Monad.traverse_list (build_decl (module_Name md)) (module_Decls md);
       State_Monad.return (concat dss) }) modules;
     State_Monad.update (fold (\<lambda>md. mark_delegated (module_Name md)) modules);
     idx \<leftarrow> State_Monad.get;
     State_Monad.return (concat dss1 @ concat dss2 @ concat dss3 @ image_diags (Images idx)) }"

definition BuildIndex :: "nat \<Rightarrow> Module list \<Rightarrow> (SymIndex \<times> Diagnostic list) option" where
  "BuildIndex depth modules = (let (ds, idx) = run_state (index_modules modules) NewIndex in
     map_option (\<lambda>(ds', idx'). (idx', ds @ ds')) (CompleteGenericInstantiations depth idx))"

end
