(* ===== verification/Sem_Completion.thy ===== *)
theory Sem_Completion
  imports Sem_Build
begin

text \<open>
  The invariant of the symbol index and its use: every routine of \<open>compiler/sem/generic.go\<close> and \<open>compiler/sem/symbols.go\<close> keeps pointers valid and
  equal instantiations shared, and completing instantiations ends. The termination argument: substitution
  builds types only from the names and numbers of arguments that are there already, and the depth limit leaves finitely many such types.
\<close>

section \<open>Types built from given heads\<close>

primrec heads :: "TypeName \<Rightarrow> (string \<times> string \<times> nat) set" where
  "heads (TypeName m n args) = insert (m, n, length args) (\<Union>a \<in> set (map (map_option heads) args). case a of None \<Rightarrow> {} | Some hs \<Rightarrow> hs)"

lemma heads_arg: "Some t \<in> set args \<Longrightarrow> heads t \<subseteq> heads (TypeName m n args)"
  by force

lemma finite_heads: "finite (heads t)"
proof (induction t)
  case (TypeName m n args)
  have "finite (case map_option heads a of None \<Rightarrow> {} | Some hs \<Rightarrow> hs)" if "a \<in> set args" for a
    using TypeName [OF that] by (cases a) auto
  then show ?case by auto
qed

lemma depth_fold:
  fixes ds :: "nat option list"
  shows "d \<le> fold (\<lambda>a d. case a of None \<Rightarrow> d | Some k \<Rightarrow> if d < k then k else d) ds d \<and>
    (Some k \<in> set ds \<longrightarrow> k \<le> fold (\<lambda>a d. case a of None \<Rightarrow> d | Some k \<Rightarrow> if d < k then k else d) ds d)"
proof (induction ds arbitrary: d)
  case (Cons a ds)
  show ?case
  proof (cases a)
    case None
    then show ?thesis using Cons [of d] by auto
  next
    case (Some x)
    then show ?thesis using Cons [of d] Cons [of x] by auto
  qed
qed simp

lemma depth_arg: "Some t \<in> set args \<Longrightarrow> typeArgumentDepth t < typeArgumentDepth (TypeName m n args)"
  using depth_fold [of 0 "map (map_option typeArgumentDepth) args" "typeArgumentDepth t"] by force

definition within :: "(string \<times> string \<times> nat) set \<Rightarrow> nat \<Rightarrow> TypeName set" where
  "within H d = {t. heads t \<subseteq> H \<and> typeArgumentDepth t \<le> d}"

lemma within_args: "TypeName m n args \<in> within H (Suc d) \<Longrightarrow> (m, n, length args) \<in> H \<and> set args \<subseteq> insert None (Some ` within H d)"
proof (intro conjI subsetI)
  assume t: "TypeName m n args \<in> within H (Suc d)"
  then show "(m, n, length args) \<in> H" by (auto simp: within_def)
  fix a assume a: "a \<in> set args"
  show "a \<in> insert None (Some ` within H d)"
  proof (cases a)
    case (Some u)
    with a t have "heads u \<subseteq> H" "typeArgumentDepth u < Suc (Suc d)"
      using heads_arg [of u args m n] depth_arg [of u args m n] by (auto simp: within_def simp del: heads.simps typeArgumentDepth.simps)
    moreover have "typeArgumentDepth u \<le> d"
      using a t Some depth_arg [of u args m n] by (simp add: within_def del: heads.simps typeArgumentDepth.simps)
    ultimately show ?thesis using Some by (simp add: within_def)
  qed simp
qed

lemma finite_within: "finite H \<Longrightarrow> finite (within H d)"
proof (induction d)
  case 0
  have "within H 0 \<subseteq> (\<lambda>(m, n, k). TypeName m n []) ` H"
  proof
    fix t assume t: "t \<in> within H 0"
    obtain m n args where "t = TypeName m n args" by (cases t)
    with t have "args = []" "(m, n, 0) \<in> H" by (auto simp: within_def split: if_splits)
    with \<open>t = _\<close> show "t \<in> (\<lambda>(m, n, k). TypeName m n []) ` H" by force
  qed
  then show ?case using 0 finite_surj by blast
next
  case (Suc d)
  let ?A = "insert None (Some ` within H d)"
  have "within H (Suc d) \<subseteq> (\<Union>(m, n, k) \<in> H. TypeName m n ` {args. set args \<subseteq> ?A \<and> length args = k})"
  proof
    fix t assume t: "t \<in> within H (Suc d)"
    obtain m n args where "t = TypeName m n args" by (cases t)
    with within_args [of m n args H d] t have "(m, n, length args) \<in> H" "set args \<subseteq> ?A" by auto
    then show "t \<in> (\<Union>(m, n, k) \<in> H. TypeName m n ` {args. set args \<subseteq> ?A \<and> length args = k})"
      using \<open>t = _\<close> by (intro UN_I [of "(m, n, length args)"]) auto
  qed
  moreover have "finite (\<Union>(m, n, k) \<in> H. TypeName m n ` {args. set args \<subseteq> ?A \<and> length args = k})"
    using Suc finite_lists_length_eq [of ?A] by (auto intro!: finite_imageI)
  ultimately show ?case by (rule finite_subset)
qed

section \<open>The invariant\<close>

definition valid :: "SymIndex \<Rightarrow> pointer \<Rightarrow> bool" where
  "valid idx p \<longleftrightarrow> (case p of None \<Rightarrow> True | Some i \<Rightarrow> i < length (ix_Types idx))"

definition method_pointers :: "SemMethod \<Rightarrow> pointer set" where
  "method_pointers m = insert (sm_Return m) (sf_Type ` set (sm_Params m) \<union> sb_Trait ` set (sm_Where m))"

definition pointers :: "IndexType \<Rightarrow> pointer set" where
  "pointers t = sf_Type ` set (st_Fields t) \<union> (\<Union>v \<in> set (st_EnumVariants t). sf_Type ` set (sv_Fields v)) \<union>
     (\<Union>m \<in> set (it_Methods t). method_pointers m) \<union> sb_Trait ` set (it_Where t)"

definition older :: "nat \<Rightarrow> pointer \<Rightarrow> bool" where
  "older i a \<longleftrightarrow> (case a of None \<Rightarrow> True | Some j \<Rightarrow> j < i)"

text \<open>
  A type at place \<open>i\<close>: its type arguments are older and give the arguments of its name, its generic origin is older and has
  its module and name, and its members have valid types.
\<close>

definition wf_type :: "SymIndex \<Rightarrow> nat \<Rightarrow> IndexType \<Rightarrow> bool" where
  "wf_type idx i t \<longleftrightarrow>
     (\<forall>a \<in> set (it_TypeArgs t). older i a) \<and> tn_Args (st_Ident t) = map (ident idx) (it_TypeArgs t) \<and>
     (\<forall>b. it_GenericOrigin t = Some b \<longrightarrow> b < i \<and> tn_Module (st_Ident (at idx b)) = tn_Module (st_Ident t) \<and> tn_Name (st_Ident (at idx b)) = tn_Name (st_Ident t)) \<and>
     (\<forall>p \<in> pointers t. valid idx p)"

definition wf_types :: "(string \<times> string \<times> nat) set \<Rightarrow> SymIndex \<Rightarrow> bool" where
  "wf_types H idx \<longleftrightarrow> (\<forall>i < length (ix_Types idx). wf_type idx i (at idx i) \<and> heads (st_Ident (at idx i)) \<subseteq> H)"

definition wf_instantiations :: "SymIndex \<Rightarrow> bool" where
  "wf_instantiations idx \<longleftrightarrow>
     (\<forall>key p. map_of (Instantiations idx) key = Some p \<longrightarrow> p < length (ix_Types idx) \<and> it_GenericOrigin (at idx p) \<noteq> None \<and> Key (ident idx (Some p)) = key \<and>
        (it_Complete (at idx p) \<or> typeArgumentDepth (st_Ident (at idx p)) \<le> maxGenericInstantiationDepth \<and> key \<in> set (InstantiationOrder idx))) \<and>
     (\<forall>i < length (ix_Types idx). it_GenericOrigin (at idx i) \<noteq> None \<longrightarrow> map_of (Instantiations idx) (Key (ident idx (Some i))) = Some i) \<and>
     (\<forall>key \<in> set (InstantiationOrder idx). map_of (Instantiations idx) key \<noteq> None)"

definition wf_tables :: "SymIndex \<Rightarrow> bool" where
  "wf_tables idx \<longleftrightarrow>
     (\<forall>m n i. get2 (ByModule idx) m n = Some i \<longrightarrow> valid idx (Some i)) \<and> (\<forall>m n i. get2 (ByImport idx) m n = Some i \<longrightarrow> valid idx (Some i)) \<and>
     (\<forall>n i. map_of (primitives idx) n = Some i \<longrightarrow> valid idx (Some i)) \<and>
     (\<forall>q t. map_of (Traits idx) q = Some t \<longrightarrow> (\<forall>m \<in> set (tr_Methods t). \<forall>p \<in> method_pointers m. valid idx p)) \<and>
     (\<forall>impl \<in> set (Impls idx). valid idx (im_Trait impl) \<and> valid idx (im_For impl))"

definition index_inv :: "(string \<times> string \<times> nat) set \<Rightarrow> SymIndex \<Rightarrow> bool" where
  "index_inv H idx \<longleftrightarrow> wf_types H idx \<and> wf_instantiations idx \<and> wf_tables idx"

text \<open>How an index may change: types stay where they are with name, arguments and origin, and instantiations stay registered and complete.\<close>

definition extends :: "SymIndex \<Rightarrow> SymIndex \<Rightarrow> bool" where
  "extends s s' \<longleftrightarrow> length (ix_Types s) \<le> length (ix_Types s') \<and>
     (\<forall>i < length (ix_Types s). st_Ident (at s' i) = st_Ident (at s i) \<and> it_TypeArgs (at s' i) = it_TypeArgs (at s i) \<and>
        it_GenericOrigin (at s' i) = it_GenericOrigin (at s i) \<and> (it_Complete (at s i) \<longrightarrow> it_Complete (at s' i))) \<and>
     map_of (Instantiations s) \<subseteq>\<^sub>m map_of (Instantiations s') \<and> (\<exists>xs. InstantiationOrder s' = InstantiationOrder s @ xs)"

lemma extends_refl [simp]: "extends s s"
  by (simp add: extends_def)

lemma extends_trans: "extends s s' \<Longrightarrow> extends s' s'' \<Longrightarrow> extends s s''"
  unfolding extends_def by (intro conjI allI impI) (auto elim: map_le_trans)

lemma extends_valid: "extends s s' \<Longrightarrow> valid s p \<Longrightarrow> valid s' p"
  by (auto simp: extends_def valid_def split: option.splits)

lemma extends_ident: "extends s s' \<Longrightarrow> valid s p \<Longrightarrow> ident s' p = ident s p"
  by (auto simp: extends_def ident_def valid_def split: option.splits)

lemma valid_None [simp]: "valid idx None"
  by (simp add: valid_def)

section \<open>Computations that keep the invariant\<close>

definition keeps :: "(string \<times> string \<times> nat) set \<Rightarrow> SymIndex \<Rightarrow> 'a sem \<Rightarrow> ('a \<Rightarrow> SymIndex \<Rightarrow> bool) \<Rightarrow> bool" where
  "keeps H s m Q \<longleftrightarrow> (index_inv H s \<longrightarrow> (case run_state m s of (x, s') \<Rightarrow> index_inv H s' \<and> extends s s' \<and> Q x s'))"

named_theorems keeps_intros

lemma keeps_return [keeps_intros]: "Q x s \<Longrightarrow> keeps H s (State_Monad.return x) Q"
  by (simp add: keeps_def)

lemma keeps_get [keeps_intros]: "keeps H s (f s) Q \<Longrightarrow> keeps H s (State_Monad.bind State_Monad.get f) Q"
  by (simp add: keeps_def)

lemma keeps_bind:
  assumes "keeps H s m Q" and "\<And>x s'. index_inv H s' \<Longrightarrow> extends s s' \<Longrightarrow> Q x s' \<Longrightarrow> keeps H s' (f x) R"
  shows "keeps H s (State_Monad.bind m f) R"
  unfolding keeps_def
proof
  assume s: "index_inv H s"
  obtain x s' where m: "run_state m s = (x, s')" by fastforce
  with assms(1) s have s': "index_inv H s'" "extends s s'" "Q x s'" by (auto simp: keeps_def)
  obtain y s'' where f: "run_state (f x) s' = (y, s'')" by fastforce
  with assms(2) [OF s'] s' have "index_inv H s''" "extends s' s''" "R y s''" by (auto simp: keeps_def)
  with m f extends_trans [OF s'(2)] show "case run_state (State_Monad.bind m f) s of (x, s') \<Rightarrow> index_inv H s' \<and> extends s s' \<and> R x s'" by simp
qed

lemma keeps_conseq: "keeps H s m Q \<Longrightarrow> (\<And>x s'. index_inv H s' \<Longrightarrow> extends s s' \<Longrightarrow> Q x s' \<Longrightarrow> R x s') \<Longrightarrow> keeps H s m R"
  by (auto simp: keeps_def split: prod.splits)

lemma keeps_inv: "(index_inv H s \<Longrightarrow> keeps H s m Q) \<Longrightarrow> keeps H s m Q"
  by (simp add: keeps_def)

lemma keeps_traverse:
  assumes "\<And>x s'. x \<in> set xs \<Longrightarrow> index_inv H s' \<Longrightarrow> extends s s' \<Longrightarrow> keeps H s' (f x) R"
    and "\<And>x s' s''. R x s' \<Longrightarrow> extends s' s'' \<Longrightarrow> R x s''"
  shows "keeps H s (State_Monad.traverse_list f xs) (\<lambda>ys s'. length ys = length xs \<and> (\<forall>y \<in> set ys. R y s'))"
  using assms(1)
proof (induction xs arbitrary: s)
  case Nil
  then show ?case by (simp add: keeps_return)
next
  case (Cons x xs)
  show ?case
    unfolding traverse_list.simps
  proof (rule keeps_bind [OF keeps_inv [OF Cons(2)]])
    fix y s' assume s': "index_inv H s'" "extends s s'" "R y s'"
    show "keeps H s' (State_Monad.bind (traverse_list f xs) (\<lambda>ys. State_Monad.return (y # ys))) (\<lambda>ys s'. length ys = length (x # xs) \<and> (\<forall>y \<in> set ys. R y s'))"
    proof (rule keeps_bind [OF Cons(1)])
      fix z s'' assume "z \<in> set xs" "index_inv H s''" "extends s' s''"
      then show "keeps H s'' (f z) R" by (intro Cons(2)) (auto intro: extends_trans [OF s'(2)])
    next
      fix ys s'' assume "extends s' s''" "length ys = length xs \<and> (\<forall>y \<in> set ys. R y s'')"
      then show "keeps H s'' (State_Monad.return (y # ys)) (\<lambda>ys s'. length ys = length (x # xs) \<and> (\<forall>y \<in> set ys. R y s'))"
        using assms(2) [OF s'(3)] by (intro keeps_return) simp
    qed
  qed auto
qed

section \<open>New types and changed members\<close>

lemma wf_type_extends:
  assumes "extends s s'" and "wf_type s i t" and "i \<le> length (ix_Types s)"
  shows "wf_type s' i t"
proof -
  have "ident s' a = ident s a" if "a \<in> set (it_TypeArgs t)" for a
    using that assms by (intro extends_ident) (auto simp: wf_type_def older_def valid_def split: option.splits)
  moreover have "b < length (ix_Types s)" if "it_GenericOrigin t = Some b" for b
    using that assms(2,3) by (auto simp: wf_type_def)
  ultimately show ?thesis
    using assms extends_valid [OF assms(1)] unfolding wf_type_def by (auto simp: extends_def)
qed

definition registers :: "SymIndex \<Rightarrow> IndexType \<Rightarrow> SymIndex \<Rightarrow> bool" where
  "registers s t s' \<longleftrightarrow> (let key = Key (Some (st_Ident t)) in
     if it_GenericOrigin t = None then Instantiations s' = Instantiations s \<and> InstantiationOrder s' = InstantiationOrder s
     else map_of (Instantiations s) key = None \<and> Instantiations s' = AList.update key (length (ix_Types s)) (Instantiations s) \<and>
       (it_Complete t \<and> InstantiationOrder s' = InstantiationOrder s \<or>
        typeArgumentDepth (st_Ident t) \<le> maxGenericInstantiationDepth \<and> InstantiationOrder s' = InstantiationOrder s @ [key]))"

lemma at_push: "ix_Types s' = ix_Types s @ [t] \<Longrightarrow> i < length (ix_Types s) \<Longrightarrow> at s' i = at s i"
  "ix_Types s' = ix_Types s @ [t] \<Longrightarrow> at s' (length (ix_Types s)) = t"
  by (simp_all add: at_def nth_append)

lemma push_extends:
  assumes "ix_Types s' = ix_Types s @ [t]" and "registers s t s'"
  shows "extends s s'"
  using assms at_push(1) [OF assms(1)] unfolding extends_def registers_def
  by (auto simp: Let_def map_le_def update_conv' split: if_splits)

lemma push_instantiations:
  assumes "wf_instantiations s" and "ix_Types s' = ix_Types s @ [t]" and "registers s t s'"
  shows "wf_instantiations s'"
proof -
  have ext: "extends s s'" by (rule push_extends [OF assms(2,3)])
  have at: "at s' i = at s i" "ident s' (Some i) = ident s (Some i)" if "i < length (ix_Types s)" for i
    using that at_push(1) [OF assms(2)] by (auto simp: ident_def)
  have at': "at s' (length (ix_Types s)) = t" "ident s' (Some (length (ix_Types s))) = Some (st_Ident t)"
    using at_push(2) [OF assms(2)] by (auto simp: ident_def)
  let ?n = "length (ix_Types s)"
  have old: "p < ?n \<and> it_GenericOrigin (at s p) \<noteq> None \<and> Key (ident s (Some p)) = key \<and>
      (it_Complete (at s p) \<or> typeArgumentDepth (st_Ident (at s p)) \<le> maxGenericInstantiationDepth \<and> key \<in> set (InstantiationOrder s))"
    if "map_of (Instantiations s) key = Some p" for key p
    using assms(1) that by (auto simp: wf_instantiations_def)
  show ?thesis
    unfolding wf_instantiations_def
  proof (intro conjI allI impI)
    fix key p assume p: "map_of (Instantiations s') key = Some p"
    show "p < length (ix_Types s')" "it_GenericOrigin (at s' p) \<noteq> None" "Key (ident s' (Some p)) = key"
      "it_Complete (at s' p) \<or> typeArgumentDepth (st_Ident (at s' p)) \<le> maxGenericInstantiationDepth \<and> key \<in> set (InstantiationOrder s')"
      using p assms(2,3) old [of key p] at [of p] at'
      by (auto simp: registers_def Let_def update_conv' split: if_splits)
  next
    fix i assume i: "i < length (ix_Types s')" "it_GenericOrigin (at s' i) \<noteq> None"
    show "map_of (Instantiations s') (Key (ident s' (Some i))) = Some i"
    proof (cases "i < ?n")
      case True
      with i at [of i] assms(1) have "map_of (Instantiations s) (Key (ident s' (Some i))) = Some i" by (auto simp: wf_instantiations_def)
      then show ?thesis using ext by (auto simp: extends_def map_le_def dom_def)
    next
      case False
      with i assms(2) have "i = ?n" by simp
      with i at' assms(3) show ?thesis by (auto simp: registers_def Let_def update_conv')
    qed
  next
    show "\<forall>key \<in> set (InstantiationOrder s'). map_of (Instantiations s') key \<noteq> None"
      using assms(1,3) by (auto simp: wf_instantiations_def registers_def Let_def update_conv' split: if_splits)
  qed
qed

lemma push_inv:
  assumes "index_inv H s" and "ix_Types s' = ix_Types s @ [t]" and "registers s t s'"
    and "wf_type s (length (ix_Types s)) t" and "heads (st_Ident t) \<subseteq> H" and "wf_tables s'"
  shows "index_inv H s' \<and> extends s s'"
proof -
  have ext: "extends s s'" by (rule push_extends [OF assms(2,3)])
  have "wf_type s' i (at s' i) \<and> heads (st_Ident (at s' i)) \<subseteq> H" if "i < length (ix_Types s')" for i
  proof (cases "i < length (ix_Types s)")
    case True
    with assms(1) have "wf_type s i (at s i)" "heads (st_Ident (at s i)) \<subseteq> H" by (auto simp: index_inv_def wf_types_def)
    then show ?thesis using True wf_type_extends [OF ext, of i "at s i"] at_push(1) [OF assms(2), of i] by simp
  next
    case False
    with that assms(2) have "i = length (ix_Types s)" by simp
    then show ?thesis using wf_type_extends [OF ext assms(4)] assms(5) at_push(2) [OF assms(2)] by simp
  qed
  then show ?thesis
    using ext push_instantiations [OF _ assms(2,3)] assms(1,6) by (auto simp: index_inv_def wf_types_def)
qed

lemma tables_extends:
  assumes "wf_tables s" and "extends s s'" and "ByModule s' = ByModule s" and "ByImport s' = ByImport s" and "primitives s' = primitives s"
    and "Traits s' = Traits s" and "Impls s' = Impls s"
  shows "wf_tables s'"
  using assms extends_valid [OF assms(2)] unfolding wf_tables_def by auto

lemma get2_put2: "get2 (put2 m n v t) m' n' = (if m = m' \<and> n = n' then Some v else get2 t m' n')"
  by (auto simp: get2_def put2_def update_conv' split: option.splits)

lemma keeps_alloc [keeps_intros]:
  assumes "index_inv H s \<Longrightarrow> wf_type s (length (ix_Types s)) t" and "heads (st_Ident t) \<subseteq> H" and "it_GenericOrigin t = None"
    and "\<And>s'. extends s s' \<Longrightarrow> index_inv H s' \<Longrightarrow> valid s' (Some (length (ix_Types s))) \<Longrightarrow> Q (length (ix_Types s)) s'"
  shows "keeps H s (alloc t) Q"
  unfolding keeps_def
proof
  assume s: "index_inv H s"
  let ?s = "s\<lparr>ix_Types := ix_Types s @ [t]\<rparr>"
  have "index_inv H ?s \<and> extends s ?s"
    by (rule push_inv [OF s _ _ assms(1) [OF s] assms(2)])
      (use s assms(3) push_extends [of ?s s t] in \<open>auto simp: registers_def index_inv_def intro!: tables_extends [of s]\<close>)
  then show "case run_state (alloc t) s of (x, s') \<Rightarrow> index_inv H s' \<and> extends s s' \<and> Q x s'"
    using assms(4) [of ?s] by (auto simp: alloc_def valid_def)
qed

lemma heads_ident: "index_inv H s \<Longrightarrow> valid s p \<Longrightarrow> ident s p = Some t \<Longrightarrow> heads t \<subseteq> H"
  by (auto simp: index_inv_def wf_types_def valid_def ident_def split: option.splits)

lemma instantiation_heads:
  assumes "index_inv H s" and "\<forall>a \<in> set args. valid s a" and "(m, n, length args) \<in> H"
  shows "heads (TypeName m n (map (ident s) args)) \<subseteq> H"
  using assms(3) heads_ident [OF assms(1)] assms(2) by (fastforce split: option.splits)

lemma instantiation_of_simps [simp]:
  "st_Ident (instantiation_of s base args) = TypeName (tn_Module (st_Ident (at s base))) (tn_Name (st_Ident (at s base))) (map (ident s) args)"
  "it_TypeArgs (instantiation_of s base args) = args" "it_GenericOrigin (instantiation_of s base args) = Some base"
  "it_Complete (instantiation_of s base args) = False" "pointers (instantiation_of s base args) = {}"
  "pointers (instantiation_of s base args\<lparr>it_Complete := True\<rparr>) = {}"
  by (simp_all add: instantiation_of_def new_type_def Let_def pointers_def)

lemma wf_instantiation:
  assumes "valid s (Some base)" and "\<forall>a \<in> set args. valid s a"
  shows "wf_type s (length (ix_Types s)) (instantiation_of s base args)" "wf_type s (length (ix_Types s)) (instantiation_of s base args\<lparr>it_Complete := True\<rparr>)"
  using assms by (auto simp: wf_type_def valid_def older_def split: option.splits)

lemma keeps_registerInstantiation:
  assumes "valid s (Some base)" and "\<forall>a \<in> set args. valid s a"
    and "(tn_Module (st_Ident (at s base)), tn_Name (st_Ident (at s base)), length args) \<in> H"
  shows "keeps H s (registerInstantiation base args) (\<lambda>p s'. valid s' (Some p))"
  unfolding keeps_def
proof
  assume s: "index_inv H s"
  let ?t = "instantiation_of s base args"
  let ?key = "Key (Some (st_Ident ?t))" and ?n = "length (ix_Types s)"
  have H: "heads (st_Ident ?t) \<subseteq> H" using instantiation_heads [OF s assms(2,3)] by simp
  have tables: "wf_tables s" using s by (simp add: index_inv_def)
  show "case run_state (registerInstantiation base args) s of (p, s') \<Rightarrow> index_inv H s' \<and> extends s s' \<and> valid s' (Some p)"
  proof (cases "map_of (Instantiations s) ?key")
    case (Some p)
    then show ?thesis using s by (auto simp: registerInstantiation_def Let_def index_inv_def wf_instantiations_def valid_def)
  next
    case None
    show ?thesis
    proof (cases "maxGenericInstantiationDepth < typeArgumentDepth (st_Ident ?t)")
      case True
      obtain s' where run: "run_state (registerInstantiation base args) s = (?n, s')"
        and s': "ix_Types s' = ix_Types s @ [?t\<lparr>it_Complete := True\<rparr>]" "Instantiations s' = AList.update ?key ?n (Instantiations s)"
          "InstantiationOrder s' = InstantiationOrder s"
          "ByModule s' = ByModule s" "ByImport s' = ByImport s" "primitives s' = primitives s" "Traits s' = Traits s" "Impls s' = Impls s"
        using None True by (auto simp: registerInstantiation_def Let_def alloc_def State_Monad.update_def simp del: instantiation_of_simps)
      have reg: "registers s (?t\<lparr>it_Complete := True\<rparr>) s'" using None s' by (simp add: registers_def Let_def)
      have "index_inv H s' \<and> extends s s'"
        by (rule push_inv [OF s s'(1) reg]) (use wf_instantiation [OF assms(1,2)] H tables tables_extends [OF tables push_extends [OF s'(1) reg]] s' in auto)
      then show ?thesis using run s' by (simp add: valid_def)
    next
      case False
      obtain s' where run: "run_state (registerInstantiation base args) s = (?n, s')"
        and s': "ix_Types s' = ix_Types s @ [?t]" "Instantiations s' = AList.update ?key ?n (Instantiations s)"
          "InstantiationOrder s' = InstantiationOrder s @ [?key]"
          "ByModule s' = put2 (tn_Module (st_Ident ?t)) (Display (Some (st_Ident ?t))) ?n (ByModule s)" "ByImport s' = ByImport s" "primitives s' = primitives s" "Traits s' = Traits s" "Impls s' = Impls s"
        using None False by (auto simp: registerInstantiation_def Let_def alloc_def State_Monad.update_def simp del: instantiation_of_simps)
      have reg: "registers s ?t s'" using None False s' by (simp add: registers_def Let_def)
      note ext = push_extends [OF s'(1) reg]
      have "valid s' (Some ?n)" using s'(1) by (simp add: valid_def)
      then have "wf_tables s'"
        using tables extends_valid [OF ext] unfolding wf_tables_def s'(4-) by (auto simp: get2_put2 split: if_splits)
      then have "index_inv H s' \<and> extends s s'"
        by (intro push_inv [OF s s'(1) reg]) (use wf_instantiation [OF assms(1,2)] H in auto)
      then show ?thesis using run s' by (simp add: valid_def)
    qed
  qed
qed

lemma same_instantiations:
  assumes "wf_instantiations s" and ext: "extends s s'" and len: "length (ix_Types s') = length (ix_Types s)"
    and "Instantiations s' = Instantiations s" and "InstantiationOrder s' = InstantiationOrder s"
  shows "wf_instantiations s'"
proof -
  have same: "st_Ident (at s' i) = st_Ident (at s i)" "it_GenericOrigin (at s' i) = it_GenericOrigin (at s i)" "it_Complete (at s i) \<longrightarrow> it_Complete (at s' i)"
    "ident s' (Some i) = ident s (Some i)" if "i < length (ix_Types s)" for i
    using that ext by (auto simp: extends_def ident_def)
  show ?thesis
    unfolding wf_instantiations_def assms(4,5) len
  proof (intro conjI allI impI)
    fix key p assume "map_of (Instantiations s) key = Some p"
    with assms(1) have p: "p < length (ix_Types s)" "it_GenericOrigin (at s p) \<noteq> None" "Key (ident s (Some p)) = key"
      "it_Complete (at s p) \<or> typeArgumentDepth (st_Ident (at s p)) \<le> maxGenericInstantiationDepth \<and> key \<in> set (InstantiationOrder s)"
      by (auto simp: wf_instantiations_def)
    then show "p < length (ix_Types s)" "it_GenericOrigin (at s' p) \<noteq> None" "Key (ident s' (Some p)) = key"
      "it_Complete (at s' p) \<or> typeArgumentDepth (st_Ident (at s' p)) \<le> maxGenericInstantiationDepth \<and> key \<in> set (InstantiationOrder s)"
      using same [of p] by auto
  next
    fix i assume "i < length (ix_Types s)" "it_GenericOrigin (at s' i) \<noteq> None"
    then show "map_of (Instantiations s) (Key (ident s' (Some i))) = Some i"
      using same [of i] assms(1) by (auto simp: wf_instantiations_def)
  next
    show "\<forall>key \<in> set (InstantiationOrder s). map_of (Instantiations s) key \<noteq> None" using assms(1) by (simp add: wf_instantiations_def)
  qed
qed

lemma keeps_modify [keeps_intros]:
  assumes "valid s (Some i)" and "\<forall>p \<in> pointers (f (at s i)). valid s p"
    and "\<And>t. st_Ident (f t) = st_Ident t \<and> it_TypeArgs (f t) = it_TypeArgs t \<and> it_GenericOrigin (f t) = it_GenericOrigin t \<and> (it_Complete t \<longrightarrow> it_Complete (f t))"
    and "\<And>s'. extends s s' \<Longrightarrow> index_inv H s' \<Longrightarrow> at s' i = f (at s i) \<Longrightarrow> Q () s'"
  shows "keeps H s (modify i f) Q"
  unfolding keeps_def
proof
  assume s: "index_inv H s"
  let ?s = "s\<lparr>ix_Types := (ix_Types s)[i := f (at s i)]\<rparr>"
  have i: "i < length (ix_Types s)" using assms(1) by (simp add: valid_def)
  have at: "at ?s j = (if j = i then f (at s i) else at s j)" if "j < length (ix_Types s)" for j
    using that i by (simp add: at_def)
  have ident: "st_Ident (at ?s j) = st_Ident (at s j)" "it_TypeArgs (at ?s j) = it_TypeArgs (at s j)" "it_GenericOrigin (at ?s j) = it_GenericOrigin (at s j)"
    if "j < length (ix_Types s)" for j using at [OF that] assms(3) [of "at s i"] by auto
  have ext: "extends s ?s" using at assms(3) by (auto simp: extends_def)
  have "wf_type ?s j (at ?s j) \<and> heads (st_Ident (at ?s j)) \<subseteq> H" if j: "j < length (ix_Types s)" for j
  proof -
    have w: "wf_type s j (at s j)" "heads (st_Ident (at s j)) \<subseteq> H" using s j by (auto simp: index_inv_def wf_types_def)
    then have "wf_type s j (at ?s j)" using at [OF j] ident [OF j] assms(2) by (auto simp: wf_type_def)
    with w ident [OF j] show ?thesis using wf_type_extends [OF ext, of j "at ?s j"] j by simp
  qed
  moreover have "wf_instantiations ?s" using s by (auto simp: index_inv_def intro: same_instantiations [OF _ ext])
  moreover have "wf_tables ?s" using s ext by (auto simp: index_inv_def intro: tables_extends)
  ultimately have "index_inv H ?s" by (simp add: index_inv_def wf_types_def)
  then show "case run_state (modify i f) s of (x, s') \<Rightarrow> index_inv H s' \<and> extends s s' \<and> Q x s'"
    using ext assms(4) [OF ext] at [OF i] by (simp add: modify_def State_Monad.update_def)
qed

section \<open>Substitution\<close>

lemma own_head:
  assumes "index_inv H s" and "valid s (Some i)"
  shows "(tn_Module (st_Ident (at s i)), tn_Name (st_Ident (at s i)), length (it_TypeArgs (at s i))) \<in> H"
proof -
  have "heads (st_Ident (at s i)) \<subseteq> H" "tn_Args (st_Ident (at s i)) = map (ident s) (it_TypeArgs (at s i))"
    using assms by (auto simp: index_inv_def wf_types_def wf_type_def valid_def)
  then show ?thesis by (cases "st_Ident (at s i)") auto
qed

lemma origin_of:
  assumes "index_inv H s" and "valid s (Some i)"
  defines "base \<equiv> case it_GenericOrigin (at s i) of None \<Rightarrow> i | Some origin \<Rightarrow> origin"
  shows "valid s (Some base)" "tn_Module (st_Ident (at s base)) = tn_Module (st_Ident (at s i))" "tn_Name (st_Ident (at s base)) = tn_Name (st_Ident (at s i))"
  using assms by (auto simp: index_inv_def wf_types_def wf_type_def valid_def split: option.splits)

lemma args_valid:
  assumes "index_inv H s" and "valid s (Some i)" and "a \<in> set (it_TypeArgs (at s i))"
  shows "valid s a" and "case a of None \<Rightarrow> True | Some j \<Rightarrow> j < i"
proof -
  have "older i a" using assms by (auto simp: index_inv_def wf_types_def wf_type_def valid_def)
  with assms(2) show "valid s a" "case a of None \<Rightarrow> True | Some j \<Rightarrow> j < i" by (auto simp: older_def valid_def split: option.splits)
qed

lemma keeps_substituteType: "\<forall>n. valid s (subst n) \<Longrightarrow> valid s p \<Longrightarrow> keeps H s (substituteType subst p) (\<lambda>q s'. valid s' q)"
  and keeps_substituteArgs: "\<forall>n. valid s (subst n) \<Longrightarrow> \<forall>a \<in> set as. valid s a \<Longrightarrow>
    keeps H s (substituteArgs subst as) (\<lambda>qs s'. length qs = length as \<and> (\<forall>q \<in> set qs. valid s' q))"
proof (induction subst p and subst as arbitrary: s and s rule: substituteType_substituteArgs.induct)
  case (1 subst)
  then show ?case by (simp add: keeps_return)
next
  case (2 subst i)
  show ?case
  proof (rule keeps_inv)
    assume s: "index_inv H s"
    let ?t = "at s i"
    have older: "list_all (\<lambda>a. case a of None \<Rightarrow> True | Some j \<Rightarrow> j < i) (it_TypeArgs ?t)"
      using args_valid(2) [OF s 2(3)] by (auto simp: list_all_iff)
    show "keeps H s (substituteType subst (Some i)) (\<lambda>q s'. valid s' q)"
    proof (cases "it_TypeArgs ?t = []")
      case True
      then show ?thesis using 2(2,3) by (auto intro!: keeps_get keeps_return simp: Let_def)
    next
      case False
      have register: "keeps H s' (registerInstantiation (case it_GenericOrigin ?t of None \<Rightarrow> i | Some origin \<Rightarrow> origin) args) (\<lambda>p s'. valid s' (Some p))"
        if s': "index_inv H s'" "extends s s'" and args: "length args = length (it_TypeArgs ?t)" "\<forall>q \<in> set args. valid s' q" for args s'
      proof -
        have v: "valid s' (Some i)" by (rule extends_valid [OF s'(2) 2(3)])
        have same: "it_GenericOrigin (at s' i) = it_GenericOrigin ?t" "it_TypeArgs (at s' i) = it_TypeArgs ?t"
          using s'(2) 2(3) by (auto simp: extends_def valid_def)
        show ?thesis using origin_of [OF s'(1) v] own_head [OF s'(1) v] args same
          by (intro keeps_registerInstantiation) auto
      qed
      show ?thesis
        using False older
        apply (simp add: Let_def)
        apply (intro keeps_get)
        apply (simp add: Let_def)
        apply (rule keeps_bind [OF 2(1) [OF refl refl _ _ _ 2(2)]])
             apply (use False older args_valid(1) [OF s 2(3)] in auto)[4]
        subgoal for args s'
          using register [of s' args] extends_valid [of s s' "Some i"] 2(3)
          by (auto intro!: keeps_return keeps_bind [of H s' "registerInstantiation _ args" "\<lambda>p s'. valid s' (Some p)"])
        done
    qed
  qed
next
  case (3 subst)
  then show ?case by (simp add: keeps_return)
next
  case (4 subst a as)
  show ?case
    unfolding substituteArgs.simps
  proof (rule keeps_bind [OF 4(1)])
    fix t s' assume s': "index_inv H s'" "extends s s'" "valid s' t"
    show "keeps H s' (State_Monad.bind (substituteArgs subst as) (\<lambda>ts. State_Monad.return (t # ts))) (\<lambda>qs s'. length qs = length (a # as) \<and> (\<forall>q \<in> set qs. valid s' q))"
      by (rule keeps_bind [OF 4(2)]) (use 4(3,4) s' extends_valid in \<open>auto intro!: keeps_return\<close>)
  qed (use 4 in auto)
qed

lemma keeps_substituteFields:
  assumes "\<forall>n. valid s (subst n)" and "\<forall>f \<in> set fs. valid s (sf_Type f)"
  shows "keeps H s (substituteFields fs subst) (\<lambda>fs' s'. \<forall>f \<in> set fs'. valid s' (sf_Type f))"
  unfolding substituteFields_def
  by (rule keeps_conseq [OF keeps_traverse [where R = "\<lambda>f s'. valid s' (sf_Type f)"]])
    (use assms extends_valid in \<open>auto intro!: keeps_bind [OF keeps_substituteType] keeps_return\<close>)

lemma keeps_substituteBounds:
  assumes "\<forall>n. valid s (subst n)" and "\<forall>b \<in> set bs. valid s (sb_Trait b)"
  shows "keeps H s (substituteBounds bs subst) (\<lambda>bs' s'. \<forall>b \<in> set bs'. valid s' (sb_Trait b))"
  unfolding substituteBounds_def
  by (rule keeps_conseq [OF keeps_traverse [where R = "\<lambda>b s'. valid s' (sb_Trait b)"]])
    (use assms extends_valid in \<open>auto intro!: keeps_bind [OF keeps_substituteType] keeps_return\<close>)

lemma keeps_substituteEnumVariants:
  assumes "\<forall>n. valid s (subst n)" and "\<forall>v \<in> set vs. \<forall>f \<in> set (sv_Fields v). valid s (sf_Type f)"
  shows "keeps H s (substituteEnumVariants vs subst) (\<lambda>vs' s'. \<forall>v \<in> set vs'. \<forall>f \<in> set (sv_Fields v). valid s' (sf_Type f))"
  unfolding substituteEnumVariants_def
  by (rule keeps_conseq [OF keeps_traverse [where R = "\<lambda>v s'. \<forall>f \<in> set (sv_Fields v). valid s' (sf_Type f)"]])
    (use assms extends_valid in \<open>auto intro!: keeps_bind [OF keeps_substituteFields] keeps_return\<close>)

lemma keeps_substituteMethods:
  assumes "\<forall>n. valid s (subst n)" and "\<forall>m \<in> set ms. \<forall>p \<in> method_pointers m. valid s p"
  shows "keeps H s (substituteMethods ms subst owner) (\<lambda>ms' s'. \<forall>m \<in> set ms'. \<forall>p \<in> method_pointers m. valid s' p)"
  unfolding substituteMethods_def
proof (rule keeps_conseq [OF keeps_traverse [where R = "\<lambda>m s'. \<forall>p \<in> method_pointers m. valid s' p"]], goal_cases)
  case (1 m s1)
  have v: "p \<in> method_pointers m \<Longrightarrow> valid s2 p" "valid s2 (subst n)" if "extends s1 s2" for s2 p n
    using extends_valid [OF extends_trans [OF 1(3) that]] assms 1(1) by auto
  show ?case
  proof (rule keeps_bind [OF keeps_substituteBounds])
    fix bs :: "SemBound list" and s2 assume s2: "extends s1 s2" "\<forall>b \<in> set bs. valid s2 (sb_Trait b)"
    show "keeps H s2 (do { ret \<leftarrow> substituteType subst (sm_Return m); params \<leftarrow> substituteFields (sm_Params m) subst;
        State_Monad.return (m\<lparr>sm_Where := bs, sm_Return := ret, sm_Params := params, sm_MonomorphizedOwner := owner\<rparr>) }) (\<lambda>m s'. \<forall>p \<in> method_pointers m. valid s' p)"
    proof (rule keeps_bind [OF keeps_substituteType])
      fix ret s3 assume s3: "extends s2 s3" "valid s3 ret"
      show "keeps H s3 (do { params \<leftarrow> substituteFields (sm_Params m) subst;
          State_Monad.return (m\<lparr>sm_Where := bs, sm_Return := ret, sm_Params := params, sm_MonomorphizedOwner := owner\<rparr>) }) (\<lambda>m s'. \<forall>p \<in> method_pointers m. valid s' p)"
      proof (rule keeps_bind [OF keeps_substituteFields])
        fix params :: "SemField list" and s4 assume s4: "extends s3 s4" "\<forall>f \<in> set params. valid s4 (sf_Type f)"
        have "valid s4 ret" "\<forall>b \<in> set bs. valid s4 (sb_Trait b)"
          using extends_valid [OF s4(1) s3(2)] s2(2) extends_valid [OF extends_trans [OF s3(1) s4(1)]] by auto
        then show "keeps H s4 (State_Monad.return (m\<lparr>sm_Where := bs, sm_Return := ret, sm_Params := params, sm_MonomorphizedOwner := owner\<rparr>)) (\<lambda>m s'. \<forall>p \<in> method_pointers m. valid s' p)"
          using s4(2) by (intro keeps_return) (auto simp: method_pointers_def)
      qed (use v [OF extends_trans [OF s2(1) s3(1)]] in \<open>auto simp: method_pointers_def\<close>)
    qed (use s2 v in \<open>auto simp: method_pointers_def\<close>)
  qed (use v in \<open>auto simp: method_pointers_def\<close>)
qed (use extends_valid in auto)

lemma substitutionFor_valid:
  assumes "\<forall>a \<in> set args. valid s a"
  shows "valid s (substitutionFor base args n)"
proof -
  have "valid s (fold (\<lambda>(param, arg) subst. subst(typeparam_Name param := arg)) ps subst n)"
    if "\<forall>a \<in> set (map snd ps). valid s a" "\<forall>n. valid s (subst n)" for ps :: "(TypeParam \<times> pointer) list" and subst :: substitution
    using that by (induction ps arbitrary: subst) auto
  moreover have "\<forall>a \<in> set (map snd (zip (it_TypeParams base) args)). valid s a" using assms by (auto dest: set_zip_rightD)
  ultimately show ?thesis unfolding substitutionFor_def by simp
qed

lemma pointers_valid: "index_inv H s \<Longrightarrow> valid s (Some i) \<Longrightarrow> p \<in> pointers (at s i) \<Longrightarrow> valid s p"
  by (auto simp: index_inv_def wf_types_def wf_type_def valid_def)

lemma keeps_fill:
  assumes "valid s (Some i)" and "keeps H s m Q"
    and "\<And>xs s' p. Q xs s' \<Longrightarrow> p \<in> pointers (f xs (at s' i)) \<Longrightarrow> p \<in> pointers (at s' i) \<or> valid s' p"
    and "\<And>xs t. st_Ident (f xs t) = st_Ident t \<and> it_TypeArgs (f xs t) = it_TypeArgs t \<and> it_GenericOrigin (f xs t) = it_GenericOrigin t \<and> (it_Complete t \<longrightarrow> it_Complete (f xs t))"
  shows "keeps H s (State_Monad.bind m (\<lambda>xs. modify i (f xs))) (\<lambda>_ _. True)"
proof (rule keeps_bind [OF assms(2)])
  fix xs s' assume s': "index_inv H s'" "extends s s'" "Q xs s'"
  have v: "valid s' (Some i)" by (rule extends_valid [OF s'(2) assms(1)])
  show "keeps H s' (modify i (f xs)) (\<lambda>_ _. True)"
  proof (rule keeps_modify)
    show "\<forall>p \<in> pointers (f xs (at s' i)). valid s' p" using assms(3) [OF s'(3)] pointers_valid [OF s'(1) v] by blast
  qed (use v assms(4) in auto)
qed

lemma keeps_then:
  assumes "keeps H s m (\<lambda>_ _. True)" and "\<And>s'. index_inv H s' \<Longrightarrow> extends s s' \<Longrightarrow> keeps H s' rest R"
  shows "keeps H s (State_Monad.bind m (\<lambda>_. rest)) R"
  by (rule keeps_bind [OF assms(1)]) (rule assms(2))

lemma pointers_simps:
  "p \<in> pointers t \<longleftrightarrow> (\<exists>f \<in> set (st_Fields t). p = sf_Type f) \<or> (\<exists>v \<in> set (st_EnumVariants t). \<exists>f \<in> set (sv_Fields v). p = sf_Type f) \<or>
     (\<exists>m \<in> set (it_Methods t). p \<in> method_pointers m) \<or> (\<exists>b \<in> set (it_Where t). p = sb_Trait b)"
  by (auto simp: pointers_def)

lemma pointersI:
  "f \<in> set (st_Fields t) \<Longrightarrow> sf_Type f \<in> pointers t"
  "v \<in> set (st_EnumVariants t) \<Longrightarrow> f \<in> set (sv_Fields v) \<Longrightarrow> sf_Type f \<in> pointers t"
  "m \<in> set (it_Methods t) \<Longrightarrow> p \<in> method_pointers m \<Longrightarrow> p \<in> pointers t"
  "b \<in> set (it_Where t) \<Longrightarrow> sb_Trait b \<in> pointers t"
  by (auto simp: pointers_def)

lemma keeps_fill_members:
  assumes "valid s (Some concrete)" and "valid s (Some base)"
  shows "keeps H s (fill_members concrete base) (\<lambda>_ _. True)"
proof (rule keeps_inv)
  assume s: "index_inv H s"
  let ?b = "at s base"
  let ?subst = "substitutionFor ?b (it_TypeArgs (at s concrete))"
  have subst: "\<forall>n. valid s' (?subst n)" and base: "\<And>p. p \<in> pointers ?b \<Longrightarrow> valid s' p" and con: "valid s' (Some concrete)"
    if "extends s s'" for s'
    using extends_valid [OF that] substitutionFor_valid args_valid(1) [OF s assms(1)] pointers_valid [OF s assms(2)] assms(1) by blast+
  have fields: "keeps H s' (substituteFields (st_Fields ?b) ?subst \<bind> (\<lambda>fs. modify concrete (\<lambda>t. t\<lparr>st_Fields := fs\<rparr>))) (\<lambda>_ _. True)"
    and variants: "keeps H s' (substituteEnumVariants (st_EnumVariants ?b) ?subst \<bind> (\<lambda>vs. modify concrete (\<lambda>t. t\<lparr>st_EnumVariants := vs\<rparr>))) (\<lambda>_ _. True)"
    and methods: "keeps H s' (substituteMethods (it_Methods ?b) ?subst (Some concrete) \<bind> (\<lambda>ms. modify concrete (\<lambda>t. t\<lparr>it_Methods := ms\<rparr>))) (\<lambda>_ _. True)"
    and bounds: "keeps H s' (substituteBounds (it_Where ?b) ?subst \<bind> (\<lambda>bs. modify concrete (\<lambda>t. t\<lparr>it_Where := bs\<rparr>))) (\<lambda>_ _. True)"
    if e: "extends s s'" for s'
    by (rule keeps_fill [OF con [OF e] keeps_substituteFields [OF subst [OF e]]] keeps_fill [OF con [OF e] keeps_substituteEnumVariants [OF subst [OF e]]]
        keeps_fill [OF con [OF e] keeps_substituteMethods [OF subst [OF e]]] keeps_fill [OF con [OF e] keeps_substituteBounds [OF subst [OF e]]];
      auto simp: pointers_simps intro!: base [OF e] intro: pointersI)+
  have "keeps H s (do {
      substituteFields (st_Fields ?b) ?subst \<bind> (\<lambda>fs. modify concrete (\<lambda>t. t\<lparr>st_Fields := fs\<rparr>));
      (if st_Kind ?b = KindEnum then substituteEnumVariants (st_EnumVariants ?b) ?subst \<bind> (\<lambda>vs. modify concrete (\<lambda>t. t\<lparr>st_EnumVariants := vs\<rparr>))
       else State_Monad.return ());
      substituteMethods (it_Methods ?b) ?subst (Some concrete) \<bind> (\<lambda>ms. modify concrete (\<lambda>t. t\<lparr>it_Methods := ms\<rparr>));
      substituteBounds (it_Where ?b) ?subst \<bind> (\<lambda>bs. modify concrete (\<lambda>t. t\<lparr>it_Where := bs\<rparr>)) }) (\<lambda>_ _. True)"
    by (intro keeps_then fields bounds methods) (auto intro!: variants keeps_return intro: extends_trans)
  then show "keeps H s (fill_members concrete base) (\<lambda>_ _. True)"
    unfolding fill_members_def by (intro keeps_get) (simp add: Let_def)
qed

lemma keeps_checkConcreteBounds:
  assumes "valid s (Some concrete)"
  shows "keeps H s (checkConcreteBounds concrete) (\<lambda>_ _. True)"
proof (rule keeps_inv)
  assume s: "index_inv H s"
  show "keeps H s (checkConcreteBounds concrete) (\<lambda>_ _. True)"
  proof (cases "it_GenericOrigin (at s concrete)")
    case None
    then show ?thesis unfolding checkConcreteBounds_def by (intro keeps_get) (simp add: keeps_return)
  next
    case (Some origin)
    then have o: "valid s (Some origin)" using origin_of(1) [OF s assms] by simp
    let ?subst = "substitutionFor (at s origin) (it_TypeArgs (at s concrete))"
    have v: "\<forall>n. valid s' (?subst n)" "b \<in> set (it_Where (at s origin)) \<Longrightarrow> valid s' (sb_Trait b)" if "extends s s'" for s' b
      using extends_valid [OF that] substitutionFor_valid args_valid(1) [OF s assms] pointers_valid [OF s o] pointersI(4) by blast+
    show ?thesis
      unfolding checkConcreteBounds_def
      by (intro keeps_get, simp add: Some Let_def)
        (auto intro!: keeps_bind [OF keeps_traverse [where R = "\<lambda>_ _. True"]] keeps_bind [OF keeps_substituteType] keeps_get keeps_return simp: v)
  qed
qed

section \<open>Completion ends\<close>

definition possible_keys :: "(string \<times> string \<times> nat) set \<Rightarrow> string set" where
  "possible_keys H = (\<lambda>t. Key (Some t)) ` within H maxGenericInstantiationDepth"

lemma keeps_run:
  assumes "keeps H s m Q" and "index_inv H s"
  obtains x s' where "run_state m s = (x, s')" and "index_inv H s'" and "extends s s'" and "Q x s'"
  using assms by (auto simp: keeps_def split: prod.splits)

definition goes_well :: "(string \<times> string \<times> nat) set \<Rightarrow> SymIndex \<times> string set \<Rightarrow> (Diagnostic list \<times> SymIndex \<times> string set) option \<Rightarrow> bool" where
  "goes_well H st r \<longleftrightarrow> (case r of None \<Rightarrow> False
     | Some (ds, idx', visiting') \<Rightarrow> index_inv H idx' \<and> extends (fst st) idx' \<and> snd st \<subseteq> visiting')"

lemma complete_all_goes_well:
  assumes "\<And>key st. index_inv H (fst st) \<Longrightarrow> V \<subseteq> snd st \<Longrightarrow> goes_well H st (rec key st)"
    and "index_inv H (fst st)" and "V \<subseteq> snd st"
  shows "goes_well H st (complete_all rec ps st)"
  using assms(2,3)
proof (induction ps arbitrary: st)
  case Nil
  then show ?case by (auto simp: goes_well_def)
next
  case (Cons p ps)
  show ?case
  proof (cases "p = None \<or> it_GenericOrigin (at (fst st) (the p)) = None")
    case True
    then show ?thesis using Cons by (auto split: option.splits)
  next
    case False
    then obtain i where p: "p = Some i" by auto
    from assms(1) [OF Cons(2,3), of "Key (ident (fst st) p)"] obtain ds idx' v'
      where r: "rec (Key (ident (fst st) p)) st = Some (ds, idx', v')" "index_inv H idx'" "extends (fst st) idx'" "snd st \<subseteq> v'"
      by (auto simp: goes_well_def split: option.splits)
    have "goes_well H (idx', v') (complete_all rec ps (idx', v'))" using r Cons(3) by (intro Cons(1)) auto
    then obtain ds' idx'' v''
      where "complete_all rec ps (idx', v') = Some (ds', idx'', v'')" "index_inv H idx''" "extends idx' idx''" "v' \<subseteq> v''"
      by (auto simp: goes_well_def split: option.splits)
    then show ?thesis using r p False extends_trans [OF r(3)] by (auto simp: goes_well_def)
  qed
qed

lemma incomplete_key:
  assumes "index_inv H idx" and "map_of (Instantiations idx) key = Some p" and "\<not> it_Complete (at idx p)"
  shows "key \<in> possible_keys H"
proof -
  have p: "p < length (ix_Types idx)" "Key (ident idx (Some p)) = key" "typeArgumentDepth (st_Ident (at idx p)) \<le> maxGenericInstantiationDepth"
    using assms by (auto simp: index_inv_def wf_instantiations_def)
  with assms(1) have "st_Ident (at idx p) \<in> within H maxGenericInstantiationDepth" by (auto simp: within_def index_inv_def wf_types_def)
  then show ?thesis using p(2) by (auto simp: possible_keys_def ident_def)
qed

lemma completeInstantiation_returns:
  assumes "finite H" and "card (possible_keys H - snd st) < depth" and "index_inv H (fst st)"
  shows "goes_well H st (completeInstantiation depth key st) \<and>
    (\<forall>p. map_of (Instantiations (fst st)) key = Some p \<longrightarrow> key \<notin> snd st \<longrightarrow> it_Complete (at (fst (snd (the (completeInstantiation depth key st)))) p))"
  using assms(2,3)
proof (induction depth arbitrary: key st)
  case (Suc depth)
  obtain idx v where st: "st = (idx, v)" by fastforce
  have inv: "index_inv H idx" using Suc(3) st by simp
  show ?case
  proof (cases "\<exists>p b. map_of (Instantiations idx) key = Some p \<and> it_GenericOrigin (at idx p) = Some b \<and> \<not> it_Complete (at idx p) \<and> key \<notin> v")
    case False
    have "it_GenericOrigin (at idx p) \<noteq> None" if "map_of (Instantiations idx) key = Some p" for p
      using inv that by (auto simp: index_inv_def wf_instantiations_def)
    with False show ?thesis using inv st by (auto simp: goes_well_def split: option.splits)
  next
    case True
    then obtain p b where p: "map_of (Instantiations idx) key = Some p" "it_GenericOrigin (at idx p) = Some b" "\<not> it_Complete (at idx p)" "key \<notin> v" by blast
    have vp: "valid idx (Some p)" using inv p(1) by (auto simp: index_inv_def wf_instantiations_def valid_def)
    have vb: "valid idx (Some b)" using origin_of(1) [OF inv vp] p(2) by simp
    obtain u idx1 where 1: "run_state (fill_members p b) idx = (u, idx1)" "index_inv H idx1" "extends idx idx1"
      by (rule keeps_run [OF keeps_fill_members [OF vp vb] inv])
    have less: "card (possible_keys H - v') < depth" if "insert key v \<subseteq> v'" for v'
    proof -
      have "finite (possible_keys H)" using finite_within [OF assms(1)] by (simp add: possible_keys_def)
      then have "card (possible_keys H - v') < card (possible_keys H - v)"
        using incomplete_key [OF inv p(1,3)] p(4) that by (intro psubset_card_mono) auto
      then show ?thesis using Suc(2) st by simp
    qed
    have "goes_well H (idx1, insert key v) (complete_all (completeInstantiation depth) (member_types (at idx1 p)) (idx1, insert key v))"
      by (rule complete_all_goes_well [where V = "insert key v"]) (use Suc(1) less 1(2) in auto)
    then obtain ds idx2 v2 where 2: "complete_all (completeInstantiation depth) (member_types (at idx1 p)) (idx1, insert key v) = Some (ds, idx2, v2)"
        "index_inv H idx2" "extends idx1 idx2" "insert key v \<subseteq> v2"
      by (auto simp: goes_well_def split: option.splits)
    note e2 = extends_trans [OF 1(3) 2(3)]
    obtain bs idx3 where 3: "run_state (checkConcreteBounds p) idx2 = (bs, idx3)" "index_inv H idx3" "extends idx2 idx3"
      by (rule keeps_run [OF keeps_checkConcreteBounds [OF extends_valid [OF e2 vp]] 2(2)])
    note e3 = extends_trans [OF e2 3(3)]
    have v3: "valid idx3 (Some p)" by (rule extends_valid [OF e3 vp])
    have "keeps H idx3 (modify p (\<lambda>t. t\<lparr>it_Complete := True\<rparr>)) (\<lambda>_ s'. it_Complete (at s' p))"
      by (rule keeps_modify [OF v3]) (use pointers_valid [OF 3(2) v3] in \<open>auto simp: pointers_def\<close>)
    then obtain w idx4 where 4: "run_state (modify p (\<lambda>t. t\<lparr>it_Complete := True\<rparr>)) idx3 = (w, idx4)" "index_inv H idx4" "extends idx3 idx4" "it_Complete (at idx4 p)"
      by (rule keeps_run [OF _ 3(2)])
    show ?thesis using st p 1 2 3 4 extends_trans [OF e3 4(3)] by (auto simp: goes_well_def Let_def)
  qed
qed simp

lemma complete_keys_returns:
  assumes "finite H" and "card (possible_keys H) < depth" and "index_inv H idx"
  shows "\<exists>ds idx'. complete_keys depth keys idx = Some (ds, idx') \<and> index_inv H idx' \<and> extends idx idx' \<and>
    (\<forall>key \<in> set keys. \<forall>p. map_of (Instantiations idx) key = Some p \<longrightarrow> it_Complete (at idx' p))"
  using assms(3)
proof (induction keys arbitrary: idx)
  case (Cons key keys)
  have "card (possible_keys H - snd (idx, {})) < depth" "index_inv H (fst (idx, {}))" using assms(2) Cons(2) by simp_all
  from completeInstantiation_returns [OF assms(1) this, of key] obtain ds idx1 v
    where 1: "completeInstantiation depth key (idx, {}) = Some (ds, idx1, v)" "index_inv H idx1" "extends idx idx1"
      "\<forall>p. map_of (Instantiations idx) key = Some p \<longrightarrow> it_Complete (at idx1 p)"
    by (auto simp: goes_well_def split: option.splits)
  from Cons(1) [OF 1(2)] obtain ds' idx2 where 2: "complete_keys depth keys idx1 = Some (ds', idx2)" "index_inv H idx2" "extends idx1 idx2"
      "\<forall>key \<in> set keys. \<forall>p. map_of (Instantiations idx1) key = Some p \<longrightarrow> it_Complete (at idx2 p)" by blast
  have "it_Complete (at idx2 p)" if "map_of (Instantiations idx) k = Some p" "k \<in> set (key # keys)" for k p
  proof -
    have p: "map_of (Instantiations idx1) k = Some p" using 1(3) that(1) by (auto simp: extends_def map_le_def dom_def)
    then have "p < length (ix_Types idx1)" using 1(2) by (auto simp: index_inv_def wf_instantiations_def)
    then show ?thesis using that p 1(4) 2(3,4) by (auto simp: extends_def)
  qed
  then show ?case using 1 2 extends_trans [OF 1(3) 2(3)] by auto
qed simp

definition all_complete :: "SymIndex \<Rightarrow> bool" where
  "all_complete idx \<longleftrightarrow> list_all (\<lambda>t. it_GenericOrigin t = None \<or> it_Complete t) (ix_Types idx)"

lemma instantiation_facts:
  assumes "index_inv H s"
  shows "map_of (Instantiations s) key = Some p \<Longrightarrow> it_Complete (at s p) \<or> key \<in> set (InstantiationOrder s)"
    and "i < length (ix_Types s) \<Longrightarrow> it_GenericOrigin (at s i) \<noteq> None \<Longrightarrow> map_of (Instantiations s) (Key (ident s (Some i))) = Some i"
    and "key \<in> set (InstantiationOrder s) \<Longrightarrow> map_of (Instantiations s) key \<noteq> None"
  using assms unfolding index_inv_def wf_instantiations_def by blast+

lemma pass_complete:
  assumes "index_inv H idx" and "index_inv H idx'" and "extends idx idx'" and "length (InstantiationOrder idx') = length (InstantiationOrder idx)"
    and "\<forall>key \<in> set (InstantiationOrder idx). \<forall>p. map_of (Instantiations idx) key = Some p \<longrightarrow> it_Complete (at idx' p)"
  shows "all_complete idx'"
proof -
  have order: "InstantiationOrder idx' = InstantiationOrder idx" using assms(3,4) by (auto simp: extends_def)
  have "it_Complete (at idx' i)" if i: "i < length (ix_Types idx')" "it_GenericOrigin (at idx' i) \<noteq> None" for i
  proof (rule ccontr)
    assume n: "\<not> it_Complete (at idx' i)"
    let ?key = "Key (ident idx' (Some i))"
    have r: "map_of (Instantiations idx') ?key = Some i" by (rule instantiation_facts(2) [OF assms(2) i])
    have o: "?key \<in> set (InstantiationOrder idx)" using instantiation_facts(1) [OF assms(2) r] n order by simp
    then obtain p where p: "map_of (Instantiations idx) ?key = Some p" using instantiation_facts(3) [OF assms(1)] by blast
    have "map_of (Instantiations idx) \<subseteq>\<^sub>m map_of (Instantiations idx')" using assms(3) by (simp add: extends_def)
    then have "map_of (Instantiations idx') ?key = Some p" using p by (auto simp: map_le_def dom_def)
    with r assms(5) o p n show False by simp
  qed
  then show ?thesis unfolding all_complete_def list_all_length at_def by blast
qed

lemma completion_passes_returns:
  assumes "finite H" and "card (possible_keys H) < depth" and "index_inv H idx"
  shows "\<exists>ds idx'. completion_passes left depth seen idx = Some (ds, idx') \<and> index_inv H idx' \<and>
    (all_complete idx' \<or> list_ex (\<lambda>d. diag_Code d = ''SEM0098'') ds)"
  using assms(3)
proof (induction left arbitrary: seen idx)
  case 0
  then show ?case by (simp add: sem_error_def)
next
  case (Suc left)
  from complete_keys_returns [OF assms(1,2) Suc(2), of "sort (InstantiationOrder idx)"] obtain ds idx'
    where 1: "complete_keys depth (sort (InstantiationOrder idx)) idx = Some (ds, idx')" "index_inv H idx'" "extends idx idx'"
      "\<forall>key \<in> set (InstantiationOrder idx). \<forall>p. map_of (Instantiations idx) key = Some p \<longrightarrow> it_Complete (at idx' p)" by auto
  from Suc(1) [OF 1(2), of "max seen (length (InstantiationDiags idx'))"] obtain ds' idx''
    where 2: "completion_passes left depth (max seen (length (InstantiationDiags idx'))) idx' = Some (ds', idx'')" "index_inv H idx''"
      "all_complete idx'' \<or> list_ex (\<lambda>d. diag_Code d = ''SEM0098'') ds'" by blast
  show ?case
  proof (cases "length (InstantiationOrder idx') = length (InstantiationOrder idx)")
    case True
    then show ?thesis using 1(1,2) pass_complete [OF Suc(2) 1(2,3) True 1(4)] by (simp add: Let_def)
  next
    case False
    then show ?thesis using 1(1) 2 by (auto simp: Let_def)
  qed
qed

end
