(* ===== verification/Sem_Index_Inv.thy ===== *)
theory Sem_Index_Inv
  imports Sem_Completion
begin

text \<open>
  The invariant of the symbol index for \<open>BuildIndex\<close>: every pass over the modules keeps it, so that a built index exists for every program,
  its pointers are valid, equal instantiations are one type, and all of them are complete unless the depth limit was reported.
\<close>

section \<open>Lookups give valid types\<close>

lemma valid_Lookup: "index_inv H s \<Longrightarrow> Lookup s m n = Some i \<Longrightarrow> valid s (Some i)"
  by (auto simp: Lookup_def index_inv_def wf_tables_def split: option.splits)

lemma valid_resolveInScope: "index_inv H s \<Longrightarrow> valid s (resolveInScope s m n)"
  using valid_Lookup [of H s] by (auto simp: resolveInScope_def Let_def split: option.splits) (metis not_None_eq valid_None)

lemma valid_lookupBaseType: "index_inv H s \<Longrightarrow> lookupBaseType s m n = Some i \<Longrightarrow> valid s (Some i)"
  using valid_Lookup [of H s] valid_resolveInScope [of H s m n] by (auto simp: lookupBaseType_def split: option.splits)

lemma valid_MustType: "index_inv H s \<Longrightarrow> valid s (MustType s n)"
  by (auto simp: MustType_def index_inv_def wf_tables_def split: option.splits) (metis not_None_eq valid_None)+

definition params_ok :: "SymIndex \<Rightarrow> nat table \<Rightarrow> bool" where
  "params_ok s params \<longleftrightarrow> (\<forall>(n, i) \<in> set params. valid s (Some i))"

lemma set_update: "set (AList.update k v t) \<subseteq> insert (k, v) (set t)"
  by (induction t) auto

lemma params_ok_lookup: "params_ok s params \<Longrightarrow> map_of params n = Some i \<Longrightarrow> valid s (Some i)"
  by (auto simp: params_ok_def dest: map_of_SomeD)

lemma params_ok_Nil [simp]: "params_ok s []"
  by (simp add: params_ok_def)

lemma params_ok_extends: "extends s s' \<Longrightarrow> params_ok s params \<Longrightarrow> params_ok s' params"
  using extends_valid by (auto simp: params_ok_def)

lemma params_ok_update: "params_ok s params \<Longrightarrow> valid s (Some p) \<Longrightarrow> params_ok s (AList.update n p params)"
  using set_update [of n p params] by (auto simp: params_ok_def)

lemma params_ok_union: "params_ok s ps \<Longrightarrow> params_ok s params \<Longrightarrow> params_ok s (fold (\<lambda>(k, v) t. AList.update k v t) ps params)"
proof (induction ps arbitrary: params)
  case (Cons kv ps)
  obtain k v where kv: "kv = (k, v)" by fastforce
  have "params_ok s (AList.update k v params)" by (rule params_ok_update) (use Cons(2,3) kv in \<open>auto simp: params_ok_def\<close>)
  moreover have "params_ok s ps" using Cons(2) by (simp add: params_ok_def)
  ultimately show ?case using Cons(1) kv by simp
qed simp

lemma keeps_lookupTypeRef: "params_ok s params \<Longrightarrow> keeps UNIV s (lookupTypeRef m ref params inArg allow) (\<lambda>(p, ds) s'. valid s' p)"
  and keeps_lookupTypeArgs: "params_ok s params \<Longrightarrow> keeps UNIV s (lookupTypeArgs m refs params) (\<lambda>(ps, ds) s'. \<forall>p \<in> set ps. valid s' p)"
proof (induction m ref params inArg allow and m refs params arbitrary: s and s rule: lookupTypeRef_lookupTypeArgs.induct)
  case (1 m name refs sp params inArg allow)
  show ?case
  proof (rule keeps_inv)
    assume s: "index_inv UNIV s"
    show "keeps UNIV s (lookupTypeRef m (TypeRef name refs sp) params inArg allow) (\<lambda>(p, ds) s'. valid s' p)"
    proof (cases "map_of params name")
      case (Some found)
      then show ?thesis using params_ok_lookup [OF 1(2)] by (auto intro!: keeps_return)
    next
      case None
      have "keeps UNIV s (do { (args, ds) \<leftarrow> lookupTypeArgs m refs params; if ds \<noteq> [] then State_Monad.return (None, ds)
          else do { p \<leftarrow> registerInstantiation base args; State_Monad.return (Some p, []) } }) (\<lambda>(p, ds) s'. valid s' p)"
        if "lookupBaseType s m name = Some base" "\<not> (st_Kind (at s base) = KindTrait \<and> \<not> allow)" "length (it_TypeParams (at s base)) = length refs" "refs \<noteq> []" for base
        using valid_lookupBaseType [OF s that(1)] that(2)
        by (auto intro!: keeps_bind [OF 1(1) [OF None that(1) _ _ _ 1(2)]] keeps_return keeps_bind [OF keeps_registerInstantiation] simp: that(1,3,4) intro: extends_valid split: prod.splits)
      then show ?thesis using None valid_lookupBaseType [OF s, of m name]
        by (auto intro!: keeps_get keeps_return split: option.splits)
    qed
  qed
next
  case (2 m params)
  then show ?case by (simp add: keeps_return)
next
  case (3 m r rs params)
  show ?case
    unfolding lookupTypeArgs.simps
    by (rule keeps_bind [OF 3(1)]) (auto split: prod.splits intro!: keeps_return keeps_bind [OF 3(2)] simp: 3 params_ok_extends intro: extends_valid)
qed

section \<open>Members\<close>

lemma new_type_simps [simp]:
  "st_Ident (new_type m n kind) = TypeName m n []" "it_GenericOrigin (new_type m n kind) = None" "it_TypeArgs (new_type m n kind) = []" "pointers (new_type m n kind) = {}"
  by (simp_all add: new_type_def pointers_def)

lemma wf_new_type [simp]: "wf_type s i (new_type m n kind)"
  by (simp add: wf_type_def)

lemma keeps_buildTypeParamMap_from:
  "params_ok s out \<Longrightarrow> keeps UNIV s (buildTypeParamMap_from params out) (\<lambda>(t, ds) s'. params_ok s' t)"
proof (induction params arbitrary: s out)
  case (Cons p ps)
  show ?case
    by (auto intro!: keeps_bind [OF Cons(1)] keeps_return keeps_bind [OF keeps_alloc [where Q = "\<lambda>p s'. valid s' (Some p)"]] keeps_conseq [OF Cons(1)]
        params_ok_update intro: params_ok_extends simp: Cons(2) split: prod.splits)
qed (simp add: keeps_return)

lemma keeps_buildTypeParamMap: "keeps UNIV s (buildTypeParamMap params) (\<lambda>(t, ds) s'. params_ok s' t)"
  unfolding buildTypeParamMap_def by (rule keeps_buildTypeParamMap_from) simp

lemma keeps_LookupTypeRef: "params_ok s params \<Longrightarrow> keeps UNIV s (LookupTypeRef m ref params) (\<lambda>(p, ds) s'. valid s' p)"
  unfolding LookupTypeRef_def by (rule keeps_lookupTypeRef)

lemma keeps_LookupTraitRef: "params_ok s params \<Longrightarrow> keeps UNIV s (LookupTraitRef m ref params) (\<lambda>(p, ds) s'. valid s' p)"
  unfolding LookupTraitRef_def by (rule keeps_lookupTypeRef)

lemma keeps_buildFields:
  assumes "params_ok s params"
  shows "keeps UNIV s (buildFields m fs params) (\<lambda>(fs', ds) s'. \<forall>f \<in> set fs'. valid s' (sf_Type f))"
  unfolding buildFields_def
proof (rule keeps_bind [OF keeps_traverse [where R = "\<lambda>r s'. \<forall>f \<in> set (fst r). valid s' (sf_Type f)"]])
  fix f s' assume "extends s s'"
  then show "keeps UNIV s' (do { (typ, ds) \<leftarrow> LookupTypeRef m (field_Type f) params;
       State_Monad.return (if typ = None then [] else [\<lparr>sf_Name = field_Name f, sf_Type = typ, sf_Span = field_Span f\<rparr>], ds) }) (\<lambda>r s'. \<forall>f \<in> set (fst r). valid s' (sf_Type f))"
    by (auto intro!: keeps_bind [OF keeps_LookupTypeRef] keeps_return params_ok_extends [OF _ assms] split: prod.splits if_splits)
qed (auto intro!: keeps_return intro: extends_valid split: prod.splits)

lemma keeps_buildParams:
  assumes "params_ok s params"
  shows "keeps UNIV s (buildParams m fs params) (\<lambda>(fs', ds) s'. \<forall>f \<in> set fs'. valid s' (sf_Type f))"
  unfolding buildParams_def
proof (rule keeps_bind [OF keeps_traverse [where R = "\<lambda>r s'. \<forall>f \<in> set (fst r). valid s' (sf_Type f)"]])
  fix f s' assume "extends s s'"
  then show "keeps UNIV s' (if field_Name f = ''self'' \<and> type_Name (field_Type f) = []
       then State_Monad.return ([\<lparr>sf_Name = ''self'', sf_Type = None, sf_Span = field_Span f\<rparr>], [])
       else do { (typ, ds) \<leftarrow> LookupTypeRef m (field_Type f) params;
         State_Monad.return (if typ = None then [] else [\<lparr>sf_Name = field_Name f, sf_Type = typ, sf_Span = field_Span f\<rparr>], ds) }) (\<lambda>r s'. \<forall>f \<in> set (fst r). valid s' (sf_Type f))"
    by (auto intro!: keeps_bind [OF keeps_LookupTypeRef] keeps_return params_ok_extends [OF _ assms] split: prod.splits if_splits)
qed (auto intro!: keeps_return intro: extends_valid split: prod.splits)

lemma keeps_buildEnumVariants:
  assumes "params_ok s params"
  shows "keeps UNIV s (buildEnumVariants m vs params) (\<lambda>(vs', ds) s'. \<forall>v \<in> set vs'. \<forall>f \<in> set (sv_Fields v). valid s' (sf_Type f))"
  unfolding buildEnumVariants_def
proof (rule keeps_bind [OF keeps_traverse [where R = "\<lambda>r s'. \<forall>f \<in> set (sv_Fields (fst r)). valid s' (sf_Type f)"]])
  fix v s' assume "extends s s'"
  then show "keeps UNIV s' (do { (fs, ds) \<leftarrow> buildFields m (variant_Fields v) params;
       State_Monad.return (\<lparr>sv_Name = variant_Name v, sv_Fields = fs, sv_Span = variant_Span v\<rparr>, ds) }) (\<lambda>r s'. \<forall>f \<in> set (sv_Fields (fst r)). valid s' (sf_Type f))"
    by (auto intro!: keeps_bind [OF keeps_buildFields] keeps_return params_ok_extends [OF _ assms] split: prod.splits if_splits)
qed (auto intro!: keeps_return intro: extends_valid split: prod.splits)

lemma keeps_buildWhereBounds:
  assumes "params_ok s params"
  shows "keeps UNIV s (buildWhereBounds m bs params) (\<lambda>(bs', ds) s'. \<forall>b \<in> set bs'. valid s' (sb_Trait b))"
  unfolding buildWhereBounds_def
proof (rule keeps_bind [OF keeps_traverse [where R = "\<lambda>r s'. valid s' (sb_Trait (fst r))"]])
  fix b s' assume "extends s s'"
  then show "keeps UNIV s' (do { (trait, ds) \<leftarrow> LookupTraitRef m (bound_Trait b) params;
       State_Monad.return (\<lparr>sb_Param = bound_Param b, sb_Trait = trait, sb_Span = bound_Span b\<rparr>, ds) }) (\<lambda>r s'. valid s' (sb_Trait (fst r)))"
    by (auto intro!: keeps_bind [OF keeps_LookupTraitRef] keeps_return params_ok_extends [OF _ assms] split: prod.splits if_splits)
qed (auto intro!: keeps_return intro: extends_valid split: prod.splits)

lemma keeps_return_type: "params_ok s params \<Longrightarrow> keeps UNIV s (if type_Name ref = []
        then do { idx \<leftarrow> State_Monad.get; State_Monad.return (MustType idx ''void'', []) }
        else LookupTypeRef m ref params) (\<lambda>(p, ds) s'. valid s' p)"
  by (rule keeps_inv) (auto intro!: keeps_get keeps_return keeps_LookupTypeRef valid_MustType)

lemma keeps_buildMethod:
  assumes "params_ok s params"
  shows "keeps UNIV s (buildMethod m params d) (\<lambda>r s'. \<forall>p \<in> method_pointers (fst r). valid s' p)"
  unfolding buildMethod_def
  apply (rule keeps_bind [OF keeps_buildTypeParamMap])
  apply (clarsimp simp only: prod.case Let_def)
  apply (rule keeps_bind [OF keeps_buildWhereBounds])
   apply (erule (1) params_ok_union [OF _ params_ok_extends [OF _ assms]])
  apply (clarsimp simp only: prod.case)
  apply (rule keeps_bind [OF keeps_buildParams])
   apply (blast intro: params_ok_union params_ok_extends [OF _ assms] params_ok_extends extends_trans)
  apply (clarsimp simp only: prod.case)
  apply (rule keeps_bind [OF keeps_return_type])
   apply (blast intro: params_ok_union params_ok_extends [OF _ assms] params_ok_extends extends_trans)
  apply (clarsimp simp only: prod.case)
  apply (rule keeps_return)
  apply (clarsimp simp: method_pointers_def)
  apply (blast intro: extends_valid)
  done

lemma keeps_buildMethods:
  assumes "params_ok s params"
  shows "keeps UNIV s (buildMethods m ds params) (\<lambda>(ms, ds) s'. \<forall>d \<in> set ms. \<forall>p \<in> method_pointers d. valid s' p)"
  unfolding buildMethods_def
  by (rule keeps_bind [OF keeps_traverse [where R = "\<lambda>r s'. \<forall>p \<in> method_pointers (fst r). valid s' p"]])
    (auto intro!: keeps_buildMethod params_ok_extends [OF _ assms] keeps_return intro: extends_valid)

section \<open>Tables and implementations\<close>

lemma same_types_inv:
  assumes "index_inv H s" and "ix_Types s' = ix_Types s" and "Instantiations s' = Instantiations s" and "InstantiationOrder s' = InstantiationOrder s" and "wf_tables s'"
  shows "index_inv H s' \<and> extends s s'"
proof -
  have at: "at s' i = at s i" for i by (simp add: at_def assms(2))
  have "ident s' = ident s" "valid s' = valid s" by (simp_all add: fun_eq_iff ident_def valid_def at assms(2) split: option.splits)
  then have "wf_type s' = wf_type s" by (auto simp: fun_eq_iff wf_type_def at)
  moreover have e: "extends s s'" using assms by (simp add: extends_def at)
  ultimately show ?thesis
    using assms same_instantiations [OF _ e] by (simp add: index_inv_def wf_types_def at)
qed

lemma keeps_update:
  assumes "index_inv H s \<Longrightarrow> index_inv H (f s) \<and> extends s (f s)" and "index_inv H s \<Longrightarrow> Q () (f s)"
  shows "keeps H s (State_Monad.update f) Q"
  using assms by (simp add: keeps_def State_Monad.update_def)

lemma keeps_set:
  assumes "index_inv H s \<Longrightarrow> index_inv H s' \<and> extends s s'" and "Q () s'"
  shows "keeps H s (State_Monad.set s') Q"
  using assms by (simp add: keeps_def)

lemma keeps_implMethods:
  assumes "valid s p"
  shows "keeps H s (implMethods p) (\<lambda>ms s'. True)"
proof (rule keeps_inv)
  assume s: "index_inv H s"
  show "keeps H s (implMethods p) (\<lambda>ms s'. True)"
  proof (cases p)
    case None
    then show ?thesis by (simp add: implMethods_def keeps_return)
  next
    case (Some i)
    note v = assms [unfolded Some]
    have "keeps H s (substituteMethods (it_Methods (at s b)) (substitutionFor (at s b) (it_TypeArgs (at s i))) (Some i)) (\<lambda>_ _. True)"
      if "it_GenericOrigin (at s i) = Some b" for b
    proof (rule keeps_conseq [OF keeps_substituteMethods])
      show "\<forall>n. valid s (substitutionFor (at s b) (it_TypeArgs (at s i)) n)" using substitutionFor_valid args_valid(1) [OF s v] by blast
      have "valid s (Some b)" using origin_of(1) [OF s v] that by simp
      then show "\<forall>m \<in> set (it_Methods (at s b)). \<forall>p \<in> method_pointers m. valid s p" using pointers_valid [OF s] pointersI(3) by blast
    qed simp
    then show ?thesis
      unfolding implMethods_def Some by (auto intro!: keeps_get keeps_return split: option.splits)
  qed
qed

lemma keeps_validateImplSignatures:
  assumes "valid s (im_Trait impl)" and "valid s (im_For impl)"
  shows "keeps H s (validateImplSignatures impl) (\<lambda>ds s'. True)"
proof (rule keeps_inv)
  assume s: "index_inv H s"
  have rest: "keeps H s (do { wantMethods \<leftarrow> substituteMethods (tr_Methods decl) (substitutionFor b (it_TypeArgs (at s trait))) None;
      forMethods \<leftarrow> implMethods (im_For impl); idx \<leftarrow> State_Monad.get; State_Monad.return (g wantMethods forMethods idx) }) (\<lambda>ds s'. True)"
    if "im_Trait impl = Some trait" "map_of (Traits s) q = Some decl" for b decl trait q and g :: "_ \<Rightarrow> _ \<Rightarrow> _ \<Rightarrow> Diagnostic list"
  proof (rule keeps_bind [OF keeps_substituteMethods])
    have "valid s (Some trait)" using assms(1) that(1) by simp
    then show "\<forall>n. valid s (substitutionFor b (it_TypeArgs (at s trait)) n)" using substitutionFor_valid args_valid(1) [OF s] by blast
    show "\<forall>m \<in> set (tr_Methods decl). \<forall>p \<in> method_pointers m. valid s p" using s that(2) by (auto simp: index_inv_def wf_tables_def)
    fix x s' assume "extends s s'"
    then show "keeps H s' (do { forMethods \<leftarrow> implMethods (im_For impl); idx \<leftarrow> State_Monad.get; State_Monad.return (g x forMethods idx) }) (\<lambda>ds s'. True)"
      by (intro keeps_bind [OF keeps_implMethods] keeps_get keeps_return) (auto intro: extends_valid [OF _ assms(2)])
  qed
  show "keeps H s (validateImplSignatures impl) (\<lambda>ds s'. True)"
    unfolding validateImplSignatures_def
    by (auto intro!: keeps_get keeps_return rest simp: Let_def split: option.splits)
qed

lemma params_ok_zip: "\<forall>p \<in> set ps. valid s (Some p) \<Longrightarrow> params_ok s (zip names ps)"
  by (auto simp: params_ok_def dest: set_zip_rightD)

lemma keeps_add_impl:
  assumes "valid s (im_Trait impl)" and "valid s (im_For impl)"
  shows "keeps H s (State_Monad.set (s\<lparr>Impls := Impls s @ [impl]\<rparr>)) (\<lambda>_ _. True)"
proof (rule keeps_set)
  assume s: "index_inv H s"
  let ?s = "s\<lparr>Impls := Impls s @ [impl]\<rparr>"
  have "valid ?s = valid s" by (simp add: fun_eq_iff valid_def split: option.splits)
  with s assms have "wf_tables ?s" by (auto simp: index_inv_def wf_tables_def)
  then show "index_inv H ?s \<and> extends s ?s" using s by (intro same_types_inv) auto
qed simp

lemma keeps_if: "(P \<Longrightarrow> keeps H s a Q) \<Longrightarrow> (\<not> P \<Longrightarrow> keeps H s b Q) \<Longrightarrow> keeps H s (if P then a else b) Q"
  by simp

lemma keeps_processImpl: "keeps UNIV s (processImpl m d) (\<lambda>_ _. True)"
  unfolding processImpl_def
  apply (rule keeps_get)
  apply (simp only: Let_def)
  apply (rule keeps_bind [OF keeps_traverse [where R = "\<lambda>p s'. valid s' (Some p)"]])
    apply (rule keeps_alloc; simp)
   apply (erule (1) extends_valid)
  apply (rule keeps_bind [OF keeps_LookupTraitRef])
   apply (rule params_ok_union [OF params_ok_zip]; simp)
  apply (clarsimp simp only: prod.case)
  apply (rule keeps_bind [OF keeps_LookupTypeRef])
   apply (rule params_ok_extends, assumption)
   apply (rule params_ok_union [OF params_ok_zip]; simp)
  apply (clarsimp simp only: prod.case)
  apply (rule keeps_if)
   apply (rule keeps_return, simp)
  apply (rule keeps_get)
  apply (rule keeps_bind [OF keeps_add_impl])
    apply (simp add: extends_valid)
   apply simp
  apply (rule keeps_if)
   apply (rule keeps_return, simp)
  apply (rule keeps_bind [OF keeps_validateImplSignatures])
    apply (simp add: extends_valid)
   apply (simp add: extends_valid)
  apply (rule keeps_return, simp)
  done

section \<open>Declarations\<close>

lemma keeps_member:
  fixes m :: "('a \<times> 'b) sem"
  assumes "valid s (Some i)" and "keeps H s m (\<lambda>r s'. Q (fst r) s')"
    and "\<And>xs s' p. Q xs s' \<Longrightarrow> p \<in> pointers (f xs (at s' i)) \<Longrightarrow> p \<in> pointers (at s' i) \<or> valid s' p"
    and "\<And>xs t. st_Ident (f xs t) = st_Ident t \<and> it_TypeArgs (f xs t) = it_TypeArgs t \<and> it_GenericOrigin (f xs t) = it_GenericOrigin t \<and> (it_Complete t \<longrightarrow> it_Complete (f xs t))"
    and "\<And>xs s' s''. Q xs s' \<Longrightarrow> extends s' s'' \<Longrightarrow> Q xs s''"
    and "\<And>r s'. index_inv H s' \<Longrightarrow> extends s s' \<Longrightarrow> Q (fst r) s' \<Longrightarrow> keeps H s' (rest r) R"
  shows "keeps H s (do { r \<leftarrow> m; modify i (f (fst r)); rest r }) R"
proof (rule keeps_bind [OF assms(2)])
  fix r :: "'a \<times> 'b" and s' assume s': "index_inv H s'" "extends s s'" "Q (fst r) s'"
  have v: "valid s' (Some i)" by (rule extends_valid [OF s'(2) assms(1)])
  show "keeps H s' (do { modify i (f (fst r)); rest r }) R"
  proof (rule keeps_bind [OF keeps_modify [where Q = "\<lambda>_ _. True"]])
    show "\<forall>p \<in> pointers (f (fst r) (at s' i)). valid s' p" using assms(3) [OF s'(3)] pointers_valid [OF s'(1) v] by blast
    fix s'' assume "index_inv H s''" "extends s' s''"
    then show "keeps H s'' (rest r) R" using assms(5) [OF s'(3)] extends_trans [OF s'(2)] by (intro assms(6)) auto
  qed (use v assms(4) in auto)
qed

lemma keeps_set_params:
  assumes "valid s (Some i)" and "\<And>s'. index_inv H s' \<Longrightarrow> extends s s' \<Longrightarrow> keeps H s' rest R"
  shows "keeps H s (do { modify i (\<lambda>t. t\<lparr>it_TypeParams := ps\<rparr>); rest }) R"
proof (rule keeps_inv)
  assume s: "index_inv H s"
  show "keeps H s (do { modify i (\<lambda>t. t\<lparr>it_TypeParams := ps\<rparr>); rest }) R"
    by (rule keeps_bind [OF keeps_modify [OF assms(1), where Q = "\<lambda>_ _. True"]])
      (use pointers_valid [OF s assms(1)] assms(2) in \<open>auto simp: pointers_def\<close>)
qed

abbreviation fields_ok :: "SemField list \<Rightarrow> SymIndex \<Rightarrow> bool" where
  "fields_ok fs s \<equiv> \<forall>f \<in> set fs. valid s (sf_Type f)"

abbreviation methods_ok :: "SemMethod list \<Rightarrow> SymIndex \<Rightarrow> bool" where
  "methods_ok ms s \<equiv> \<forall>m \<in> set ms. \<forall>p \<in> method_pointers m. valid s p"

lemma keeps_build_fields:
  assumes "valid s (Some i)" and "params_ok s params" and "\<And>r s'. index_inv UNIV s' \<Longrightarrow> extends s s' \<Longrightarrow> keeps UNIV s' (rest r) R"
  shows "keeps UNIV s (do { r \<leftarrow> buildFields m fs params; modify i (\<lambda>t. t\<lparr>st_Fields := fst r\<rparr>); rest r }) R"
  by (rule keeps_member [where Q = fields_ok and f = "\<lambda>fs t. t\<lparr>st_Fields := fs\<rparr>", OF assms(1) keeps_conseq [OF keeps_buildFields [OF assms(2)]]])
    (use assms(3) in \<open>auto simp: pointers_simps intro: extends_valid\<close>)

lemma keeps_build_methods:
  assumes "valid s (Some i)" and "params_ok s params" and "\<And>r s'. index_inv UNIV s' \<Longrightarrow> extends s s' \<Longrightarrow> methods_ok (fst r) s' \<Longrightarrow> keeps UNIV s' (rest r) R"
  shows "keeps UNIV s (do { r \<leftarrow> buildMethods m ds params; modify i (\<lambda>t. t\<lparr>it_Methods := fst r\<rparr>); rest r }) R"
  by (rule keeps_member [where Q = methods_ok and f = "\<lambda>ms t. t\<lparr>it_Methods := ms\<rparr>", OF assms(1) keeps_conseq [OF keeps_buildMethods [OF assms(2)]]])
    (use assms(3) in \<open>auto simp: pointers_simps intro: extends_valid\<close>)

lemma keeps_build_bounds:
  assumes "valid s (Some i)" and "params_ok s params" and "\<And>r s'. index_inv UNIV s' \<Longrightarrow> extends s s' \<Longrightarrow> keeps UNIV s' (rest r) R"
  shows "keeps UNIV s (do { r \<leftarrow> buildWhereBounds m bs params; modify i (\<lambda>t. t\<lparr>it_Where := fst r\<rparr>); rest r }) R"
  by (rule keeps_member [where Q = "\<lambda>bs s. \<forall>b \<in> set bs. valid s (sb_Trait b)" and f = "\<lambda>bs t. t\<lparr>it_Where := bs\<rparr>", OF assms(1) keeps_conseq [OF keeps_buildWhereBounds [OF assms(2)]]])
    (use assms(3) in \<open>auto simp: pointers_simps intro: extends_valid\<close>)

lemma keeps_build_variants:
  assumes "valid s (Some i)" and "params_ok s params" and "\<And>r s'. index_inv UNIV s' \<Longrightarrow> extends s s' \<Longrightarrow> keeps UNIV s' (rest r) R"
  shows "keeps UNIV s (do { r \<leftarrow> buildEnumVariants m vs params; modify i (\<lambda>t. t\<lparr>st_EnumVariants := fst r\<rparr>); rest r }) R"
  by (rule keeps_member [where Q = "\<lambda>vs s. \<forall>v \<in> set vs. fields_ok (sv_Fields v) s" and f = "\<lambda>vs t. t\<lparr>st_EnumVariants := vs\<rparr>", OF assms(1) keeps_conseq [OF keeps_buildEnumVariants [OF assms(2)]]])
    (use assms(3) in \<open>auto simp: pointers_simps intro: extends_valid\<close>)

lemma keeps_build_composite: "valid s (Some i) \<Longrightarrow> keeps UNIV s (build_composite m i ps bs fs ms) (\<lambda>_ _. True)"
  unfolding build_composite_def split_beta
  by (rule keeps_bind [OF keeps_buildTypeParamMap], rule keeps_set_params, blast intro: extends_valid,
    rule keeps_build_bounds, blast intro: extends_valid, (simp add: split_beta, blast intro: params_ok_extends),
    rule keeps_build_fields, blast intro: extends_valid, (simp add: split_beta, blast intro: params_ok_extends),
    rule keeps_build_methods, blast intro: extends_valid, (simp add: split_beta, blast intro: params_ok_extends),
    rule keeps_return, simp)

lemma keeps_build_plain: "valid s (Some i) \<Longrightarrow> keeps UNIV s (build_plain m i fs ms) (\<lambda>_ _. True)"
  unfolding build_plain_def split_beta
  by (rule keeps_build_fields, assumption, simp, rule keeps_build_methods, blast intro: extends_valid, simp, rule keeps_return, simp)

lemma valid_same: "ix_Types s' = ix_Types s \<Longrightarrow> valid s' = valid s"
  by (simp add: fun_eq_iff valid_def split: option.splits)

lemma inv_tables:
  assumes "index_inv H s" and "ix_Types s' = ix_Types s" and "Instantiations s' = Instantiations s" and "InstantiationOrder s' = InstantiationOrder s"
    and "\<And>m n i. get2 (ByModule s') m n = Some i \<Longrightarrow> valid s (Some i)" and "\<And>m n i. get2 (ByImport s') m n = Some i \<Longrightarrow> valid s (Some i)"
    and "\<And>n i. map_of (primitives s') n = Some i \<Longrightarrow> valid s (Some i)"
    and "\<And>q t. map_of (Traits s') q = Some t \<Longrightarrow> methods_ok (tr_Methods t) s" and "Impls s' = Impls s"
  shows "index_inv H s' \<and> extends s s'"
proof (rule same_types_inv [OF assms(1-4)])
  show "wf_tables s'" using assms(1,5-9) by (simp add: wf_tables_def index_inv_def valid_same [OF assms(2)])
qed

lemma inv_lookups:
  assumes "index_inv H s"
  shows "get2 (ByModule s) m n = Some i \<Longrightarrow> valid s (Some i)" and "get2 (ByImport s) m n = Some i \<Longrightarrow> valid s (Some i)"
    and "map_of (primitives s) n = Some i \<Longrightarrow> valid s (Some i)" and "map_of (Traits s) q = Some t \<Longrightarrow> methods_ok (tr_Methods t) s"
  using assms unfolding index_inv_def wf_tables_def by blast+

lemma inv_same_tables:
  assumes "index_inv H s" and "ix_Types s' = ix_Types s" and "Instantiations s' = Instantiations s" and "InstantiationOrder s' = InstantiationOrder s"
    and "ByModule s' = ByModule s" and "ByImport s' = ByImport s" and "primitives s' = primitives s" and "Traits s' = Traits s" and "Impls s' = Impls s"
  shows "index_inv H s' \<and> extends s s'"
  using inv_lookups [OF assms(1)] by (intro inv_tables [OF assms(1-4)]) (simp_all add: assms(5-))

lemma keeps_build_trait:
  assumes "valid s (Some i)"
  shows "keeps UNIV s (do {
     r \<leftarrow> buildTypeParamMap ps;
     modify i (\<lambda>t. t\<lparr>it_TypeParams := tps\<rparr>);
     r' \<leftarrow> buildMethods m ms (fst r);
     modify i (\<lambda>t. t\<lparr>it_Methods := fst r'\<rparr>);
     State_Monad.update (\<lambda>idx. idx\<lparr>Traits := AList.update (q idx)
       \<lparr>tr_Module = m, tr_Name = n idx, tr_TypeParams = tp idx, tr_Methods = fst r', tr_Span = sp\<rparr> (Traits idx)\<rparr>);
     State_Monad.return (snd r @ snd r') }) (\<lambda>_ _. True)"
proof (rule keeps_bind [OF keeps_buildTypeParamMap], rule keeps_set_params, blast intro: extends_valid [OF _ assms],
    rule keeps_build_methods, blast intro: extends_valid [OF _ assms] extends_trans, goal_cases)
  case (1 r s1 s2)
  then show ?case by (auto intro: params_ok_extends)
next
  case (2 r s1 s2 r' s3)
  show ?case
    by (rule keeps_bind [OF keeps_update [where Q = "\<lambda>_ _. True"]], rule inv_tables)
      (use inv_lookups [OF 2(6)] 2(8) in \<open>auto intro: keeps_return simp: update_conv' split: if_splits\<close>)
qed

lemma keeps_build_members:
  assumes i: "valid s (Some i)"
  shows "keeps UNIV s (build_members m i decl) (\<lambda>_ _. True)"
proof (cases decl)
  case (TraitD d)
  show ?thesis unfolding build_members_def split_beta TraitD by (simp add: keeps_build_trait [OF i])
next
  case (EnumD d)
  show ?thesis unfolding build_members_def split_beta EnumD Decl.case
    by (rule keeps_bind [OF keeps_buildTypeParamMap], rule keeps_set_params, blast intro: extends_valid [OF _ i],
      rule keeps_build_variants, blast intro: extends_valid [OF _ i] extends_trans, (simp add: split_beta, blast intro: params_ok_extends), rule keeps_return, simp)
next
  case (EventD d)
  show ?thesis unfolding build_members_def split_beta EventD Decl.case
    by (rule keeps_build_fields [OF i], simp, rule keeps_return, simp)
next
  case (DriverPathD d)
  have set: "keeps UNIV s' (State_Monad.set (s'\<lparr>InterruptEvents := t\<rparr>)) (\<lambda>_ _. True)" for s' t
    by (rule keeps_set, rule inv_same_tables) simp_all
  show ?thesis unfolding build_members_def split_beta Let_def DriverPathD Decl.case
    by (rule keeps_bind [OF keeps_build_plain [OF i]], rule keeps_get, rule keeps_bind [OF set], rule keeps_return, simp)
next
  case (ExecutorD d)
  have set: "keeps UNIV s' (State_Monad.set (s'\<lparr>OnHandlers := t\<rparr>)) (\<lambda>_ _. True)" for s' t
    by (rule keeps_set, rule inv_same_tables) simp_all
  show ?thesis unfolding build_members_def split_beta Let_def ExecutorD Decl.case
    by (rule keeps_bind [OF keeps_build_plain [OF i]], rule keeps_get, rule keeps_bind [OF set], rule keeps_return, simp)
next
  case (ImageD d)
  have set: "keeps UNIV s (State_Monad.update (\<lambda>idx. idx\<lparr>Images := f idx\<rparr>)) (\<lambda>_ _. True)" for f
    by (rule keeps_update, rule inv_same_tables) simp_all
  show ?thesis unfolding build_members_def ImageD Decl.case by (rule keeps_bind [OF set], rule keeps_return, simp)
qed (simp_all add: build_members_def keeps_build_composite [OF i] keeps_return)

lemma keeps_build_decl: "keeps UNIV s (build_decl m decl) (\<lambda>_ _. True)"
proof (rule keeps_inv)
  assume s: "index_inv UNIV s"
  show "keeps UNIV s (build_decl m decl) (\<lambda>_ _. True)"
    unfolding build_decl_def
  proof (rule keeps_get, cases "resolveInScope s m (declarationName decl)")
    case None
    then show "keeps UNIV s (case resolveInScope s m (declarationName decl) of
        None \<Rightarrow> (case decl of ImplD d \<Rightarrow> processImpl m d | _ \<Rightarrow> State_Monad.return []) | Some typ \<Rightarrow> build_members m typ decl) (\<lambda>_ _. True)"
      by (auto intro: keeps_return keeps_processImpl split: Decl.splits)
  next
    case (Some i)
    then have "valid s (Some i)" using valid_resolveInScope [OF s, of m "declarationName decl"] by simp
    then show "keeps UNIV s (case resolveInScope s m (declarationName decl) of
        None \<Rightarrow> (case decl of ImplD d \<Rightarrow> processImpl m d | _ \<Rightarrow> State_Monad.return []) | Some typ \<Rightarrow> build_members m typ decl) (\<lambda>_ _. True)"
      using Some by (simp add: keeps_build_members)
  qed
qed

section \<open>The passes\<close>

lemma pointers_declared: "st_Ident (declared_type m kind decl) = TypeName m (declarationName decl) []" "it_GenericOrigin (declared_type m kind decl) = None"
  "it_TypeArgs (declared_type m kind decl) = []" "pointers (declared_type m kind decl) = {}"
  by (simp_all add: declared_type_def Let_def new_type_def pointers_def split: Decl.splits)

lemma keeps_declare_all: "keeps UNIV s (declare_all m decls seen) (\<lambda>_ _. True)"
proof (induction decls arbitrary: s seen)
  case (Cons decl decls)
  let ?name = "declarationName decl"
  have const: "keeps UNIV s (State_Monad.update (\<lambda>idx. idx\<lparr>Consts := f idx\<rparr>)) (\<lambda>_ _. True)" for f
    by (rule keeps_update, rule inv_same_tables) simp_all
  have "keeps UNIV s (do { p \<leftarrow> alloc (declared_type m kind decl); State_Monad.update (\<lambda>idx. idx\<lparr>ByModule := put2 m ?name p (ByModule idx)\<rparr>) }) (\<lambda>_ _. True)" for kind
  proof (rule keeps_bind [OF keeps_alloc [where Q = "\<lambda>p s'. valid s' (Some p)"]])
    fix p s' assume s': "index_inv UNIV s'" "valid s' (Some p)"
    show "keeps UNIV s' (State_Monad.update (\<lambda>idx. idx\<lparr>ByModule := put2 m ?name p (ByModule idx)\<rparr>)) (\<lambda>_ _. True)"
      by (rule keeps_update, rule inv_tables) (use inv_lookups [OF s'(1)] s'(2) in \<open>auto simp: get2_put2 split: if_splits\<close>)
  qed (auto simp: wf_type_def pointers_declared)
  then have "keeps UNIV s (case typeKind decl of
          None \<Rightarrow> (case decl of
              ConstD d \<Rightarrow> State_Monad.update (\<lambda>idx. idx\<lparr>Consts := put2 m (const_Name d) \<lparr>cv_Type = None, cv_Value = 0, cv_Span = const_Span d\<rparr> (Consts idx)\<rparr>)
            | _ \<Rightarrow> State_Monad.return ())
        | Some kind \<Rightarrow> do {
            p \<leftarrow> alloc (declared_type m kind decl);
            State_Monad.update (\<lambda>idx. idx\<lparr>ByModule := put2 m ?name p (ByModule idx)\<rparr>) }) (\<lambda>_ _. True)"
    by (cases "typeKind decl"; cases decl) (simp_all add: const keeps_return)
  then show ?case
    unfolding declare_all.simps Let_def
    by (intro keeps_if keeps_bind [OF Cons] Cons keeps_then keeps_return) auto
qed (simp add: keeps_return)

lemma import_all_inv:
  "index_inv H (fst st) \<Longrightarrow> import_all m imps st = (ds, st') \<Longrightarrow> index_inv H (fst st') \<and> extends (fst st) (fst st')"
proof (induction imps arbitrary: st ds st')
  case (Cons imp imps)
  have name: "index_inv H (fst st') \<and> extends (fst st) (fst st')" if i: "index_inv H (fst st)" and run: "import_name m imp n st = (ds, st')" for n st ds st'
  proof -
    obtain idx seen where st: "st = (idx, seen)" by fastforce
    note look = inv_lookups [OF i]
    consider "fst st' = fst st" | p where "get2 (ByModule idx) (import_Path imp) n = Some p" "fst st' = idx\<lparr>ByImport := put2 m n p (ByImport idx)\<rparr>"
      | cv where "fst st' = idx\<lparr>ConstImports := put2 m n cv (ConstImports idx)\<rparr>"
      using run st by (auto simp: import_name_def split: if_splits option.splits)
    then show ?thesis
    proof cases
      case 1
      then show ?thesis using i by simp
    next
      case 2
      then show ?thesis using look st by (intro inv_tables [OF i]) (auto simp: get2_put2 split: if_splits)
    next
      case 3
      then show ?thesis using st by (intro inv_same_tables [OF i]) auto
    qed
  qed
  have names: "index_inv H (fst st') \<and> extends (fst st) (fst st')" if "index_inv H (fst st)" "import_names m imp ns st = (ds, st')" for ns st ds st'
    using that
  proof (induction ns arbitrary: st ds st')
    case (Cons n ns)
    obtain ds1 st1 where 1: "import_name m imp n st = (ds1, st1)" by (rule prod.exhaust)
    obtain ds2 st2 where 2: "import_names m imp ns st1 = (ds2, st2)" by (rule prod.exhaust)
    from name [OF Cons(2) 1] Cons(1) [OF _ 2] Cons(3) 1 2 show ?case using extends_trans by auto
  qed auto
  obtain ds1 st1 where 1: "(if map_of (ix_Modules (fst st)) (import_Path imp) = None
      then ([sem_error (import_Span imp) ''SEM0002'' (''unknown imported module: '' @ import_Path imp)], st)
      else import_names m imp (import_Names imp) st) = (ds1, st1)" by (rule prod.exhaust)
  then have i1: "index_inv H (fst st1) \<and> extends (fst st) (fst st1)" using names [OF Cons(2)] Cons(2) by (auto split: if_splits)
  obtain ds2 st2 where 2: "import_all m imps st1 = (ds2, st2)" by (rule prod.exhaust)
  from i1 Cons(1) [OF _ 2] Cons(3) 1 2 show ?case using extends_trans by (auto simp: Let_def)
qed auto

lemma keeps_import_pass: "keeps UNIV s (import_pass md) (\<lambda>_ _. True)"
  using import_all_inv [of UNIV "(s, [])" "module_Name md" "module_Imports md"] unfolding keeps_def import_pass_def by (auto simp: Let_def split: prod.splits)

lemma get2_ensure: "get2 (ensure m t) m' n = get2 t m' n"
  by (auto simp: get2_def ensure_def update_conv' split: option.splits)

lemma add_modules_inv: "index_inv H s \<Longrightarrow> index_inv H (fold add_module mds s) \<and> extends s (fold add_module mds s)"
proof (induction mds arbitrary: s)
  case (Cons md mds)
  have "index_inv H (add_module md s) \<and> extends s (add_module md s)"
    by (rule inv_tables [OF Cons(2)]) (use inv_lookups [OF Cons(2)] in \<open>auto simp: add_module_def get2_ensure\<close>)
  with Cons(1) [of "add_module md s"] extends_trans show ?case by auto
qed simp

lemma mark_delegated_inv:
  assumes s: "index_inv H s"
  shows "index_inv H (mark_delegated m s) \<and> extends s (mark_delegated m s)"
proof -
  let ?s = "mark_delegated m s"
  have len: "length (ix_Types ?s) = length (ix_Types s)" by (simp add: mark_delegated_def Let_def)
  obtain f where at: "\<And>i. i < length (ix_Types s) \<Longrightarrow> at ?s i = (at s i)\<lparr>it_DelegatedOnly := f i\<rparr>"
  proof
    fix i assume "i < length (ix_Types s)"
    then show "at ?s i = (at s i)\<lparr>it_DelegatedOnly := it_DelegatedOnly (at ?s i)\<rparr>"
      by (auto simp: mark_delegated_def Let_def at_def)
  qed
  have ext: "extends s ?s" using at by (simp add: extends_def len) (simp add: mark_delegated_def Let_def)
  have "wf_type ?s i (at ?s i)" if "i < length (ix_Types s)" for i
  proof -
    have "wf_type s i (at ?s i)" using s that at [OF that] by (auto simp: index_inv_def wf_types_def wf_type_def pointers_def)
    then show ?thesis using wf_type_extends [OF ext] that by simp
  qed
  moreover have "wf_instantiations ?s"
    using s by (intro same_instantiations [OF _ ext len]) (auto simp: index_inv_def mark_delegated_def Let_def)
  moreover have "wf_tables ?s"
    using s by (intro tables_extends [OF _ ext]) (auto simp: index_inv_def mark_delegated_def Let_def)
  ultimately show ?thesis using s ext at by (simp add: index_inv_def wf_types_def len)
qed

lemma mark_all_inv: "index_inv H s \<Longrightarrow> index_inv H (fold (\<lambda>md. mark_delegated (module_Name md)) mds s) \<and> extends s (fold (\<lambda>md. mark_delegated (module_Name md)) mds s)"
proof (induction mds arbitrary: s)
  case (Cons md mds)
  with mark_delegated_inv [OF Cons(2), of "module_Name md"] Cons(1) [of "mark_delegated (module_Name md) s"] extends_trans show ?case by auto
qed simp

lemma keeps_add_primitive:
  assumes "st_Ident t = TypeName m n []" and "it_GenericOrigin t = None" and "it_TypeArgs t = []" and "\<forall>p \<in> pointers t. valid s p"
  shows "keeps UNIV s (add_primitive t) (\<lambda>_ _. True)"
  unfolding add_primitive_def
proof (rule keeps_bind [OF keeps_alloc [where Q = "\<lambda>p s'. valid s' (Some p)"]])
  fix p s' assume s': "index_inv UNIV s'" "valid s' (Some p)"
  show "keeps UNIV s' (State_Monad.update (\<lambda>idx. idx\<lparr>primitives := AList.update (tn_Name (st_Ident t)) p (primitives idx)\<rparr>)) (\<lambda>_ _. True)"
    by (rule keeps_update, rule inv_tables) (use inv_lookups [OF s'(1)] s'(2) in \<open>auto simp: update_conv' split: if_splits\<close>)
qed (use assms in \<open>auto simp: wf_type_def\<close>)

lemma keeps_buildPrimitives: "keeps UNIV s buildPrimitives (\<lambda>_ _. True)"
  unfolding buildPrimitives_def
proof (rule keeps_bind [OF keeps_traverse [where R = "\<lambda>_ _. True"]], goal_cases)
  case (1 n s')
  then show ?case by (intro keeps_add_primitive) auto
next
  case (3 x s')
  have "valid s' (map_of (primitives s') n)" for n using inv_lookups(3) [OF 3(1)] by (cases "map_of (primitives s') n") auto
  then show ?case by (intro keeps_get keeps_add_primitive) (auto simp: new_type_def pointers_def)
qed simp

lemma keeps_index_modules: "keeps UNIV s (index_modules mds) (\<lambda>_ _. True)"
proof -
  have decls: "keeps UNIV s (State_Monad.traverse_list (\<lambda>md. do { dss \<leftarrow> State_Monad.traverse_list (build_decl (module_Name md)) (module_Decls md); State_Monad.return (concat dss) }) mds) (\<lambda>_ _. True)" for s
    by (rule keeps_conseq [OF keeps_traverse [where R = "\<lambda>_ _. True"]])
      (auto intro!: keeps_bind [OF keeps_traverse [where R = "\<lambda>_ _. True"]] keeps_return keeps_build_decl)
  have declarations: "keeps UNIV s (State_Monad.traverse_list (\<lambda>md. declare_all (module_Name md) (module_Decls md) []) mds) (\<lambda>_ _. True)" for s
    by (rule keeps_conseq [OF keeps_traverse [where R = "\<lambda>_ _. True"]]) (auto intro: keeps_declare_all)
  have importing: "keeps UNIV s (State_Monad.traverse_list import_pass mds) (\<lambda>_ _. True)" for s
    by (rule keeps_conseq [OF keeps_traverse [where R = "\<lambda>_ _. True"]]) (auto intro: keeps_import_pass)
  have updates: "keeps UNIV s (State_Monad.update (fold add_module mds)) (\<lambda>_ _. True)"
    "keeps UNIV s (State_Monad.update (fold (\<lambda>md. mark_delegated (module_Name md)) mds)) (\<lambda>_ _. True)" for s
    by (rule keeps_update, erule add_modules_inv, simp, rule keeps_update, erule mark_all_inv, simp)
  show ?thesis
    unfolding index_modules_def
    by (rule keeps_then [OF keeps_buildPrimitives], rule keeps_then [OF updates(1)], rule keeps_bind [OF declarations], rule keeps_bind [OF importing],
      rule keeps_bind [OF decls], rule keeps_then [OF updates(2)], rule keeps_get, rule keeps_return, simp)
qed

lemma NewIndex_inv: "index_inv H NewIndex"
  by (simp add: index_inv_def wf_types_def wf_instantiations_def wf_tables_def NewIndex_def get2_def)

section \<open>Every program has an index\<close>

definition all_heads :: "SymIndex \<Rightarrow> (string \<times> string \<times> nat) set" where
  "all_heads idx = (\<Union>t \<in> set (ix_Types idx). heads (st_Ident t))"

lemma inv_all_heads: "index_inv H idx \<Longrightarrow> index_inv (all_heads idx) idx"
  by (auto simp: index_inv_def wf_types_def all_heads_def at_def intro: nth_mem)

lemma inv_UNIV: "index_inv H idx \<Longrightarrow> index_inv UNIV idx"
  by (auto simp: index_inv_def wf_types_def)

lemma instantiations_shared: "index_inv H idx \<Longrightarrow> inj_on (\<lambda>i. Key (ident idx (Some i))) {i. i < length (ix_Types idx) \<and> it_GenericOrigin (at idx i) \<noteq> None}"
proof (rule inj_onI)
  fix i j assume inv: "index_inv H idx" and i: "i \<in> {i. i < length (ix_Types idx) \<and> it_GenericOrigin (at idx i) \<noteq> None}"
    and j: "j \<in> {i. i < length (ix_Types idx) \<and> it_GenericOrigin (at idx i) \<noteq> None}" and eq: "Key (ident idx (Some i)) = Key (ident idx (Some j))"
  have "map_of (Instantiations idx) (Key (ident idx (Some i))) = Some i" using instantiation_facts(2) [OF inv, of i] i by blast
  moreover have "map_of (Instantiations idx) (Key (ident idx (Some j))) = Some j" using instantiation_facts(2) [OF inv, of j] j by blast
  ultimately show "i = j" unfolding eq by simp
qed

text \<open>
  C40. Building the symbol index returns for every list of modules: with a large enough bound on the depth of the recursion, which the code
  does not have, there is an index, and it satisfies the invariant: all pointers are valid, type arguments and
  generic origins are older than their types, and registered instantiations are found under their keys. Instantiations with the
  same key are one type, and all of them are complete unless the diagnostics say that the depth limit was exceeded.
\<close>

theorem BuildIndex_returns:
  "\<exists>bound. \<forall>depth \<ge> bound. \<exists>idx ds. BuildIndex depth modules = Some (idx, ds) \<and> index_inv UNIV idx \<and>
     inj_on (\<lambda>i. Key (ident idx (Some i))) {i. i < length (ix_Types idx) \<and> it_GenericOrigin (at idx i) \<noteq> None} \<and>
     (all_complete idx \<or> list_ex (\<lambda>d. diag_Code d = ''SEM0098'') ds)"
proof -
  obtain ds idx where i: "run_state (index_modules modules) NewIndex = (ds, idx)" "index_inv UNIV idx"
    by (rule keeps_run [OF keeps_index_modules NewIndex_inv])
  have "finite (all_heads idx)" by (simp add: all_heads_def finite_heads)
  note returns = completion_passes_returns [OF this _ inv_all_heads [OF i(2)], of _ maxGenericInstantiationDepth 0]
  have result: "\<exists>idx' ds'. BuildIndex depth modules = Some (idx', ds') \<and> index_inv UNIV idx' \<and>
     inj_on (\<lambda>i. Key (ident idx' (Some i))) {i. i < length (ix_Types idx') \<and> it_GenericOrigin (at idx' i) \<noteq> None} \<and>
     (all_complete idx' \<or> list_ex (\<lambda>d. diag_Code d = ''SEM0098'') ds')" if large: "Suc (card (possible_keys (all_heads idx))) \<le> depth" for depth
  proof -
    obtain ds' idx' where "completion_passes maxGenericInstantiationDepth depth 0 idx = Some (ds', idx')" "index_inv (all_heads idx) idx'"
      "all_complete idx' \<or> list_ex (\<lambda>d. diag_Code d = ''SEM0098'') ds'" using returns [of depth] large by auto
    then show ?thesis using i(1) inv_UNIV instantiations_shared by (auto simp: BuildIndex_def CompleteGenericInstantiations_def simp del: not_None_eq)
  qed
  show ?thesis by (rule exI [of _ "Suc (card (possible_keys (all_heads idx)))"]) (use result in blast)
qed

definition sample_data :: "string \<Rightarrow> string list \<Rightarrow> TypeRef \<Rightarrow> Decl" where
  "sample_data n params ref = DataD \<lparr>data_Name = n, data_TypeParams = map (\<lambda>p. \<lparr>typeparam_Name = p, typeparam_Span = no_span\<rparr>) params, data_Where = [],
     data_Fields = [\<lparr>field_Name = ''value'', field_Type = ref, field_Span = no_span\<rparr>], data_Methods = [], data_Span = no_span\<rparr>"

definition sample_modules :: "Module list" where
  "sample_modules = [\<lparr>module_Name = ''m'', module_Imports = [], module_Decls =
     [sample_data ''Box'' [''T''] (TypeRef ''T'' [] no_span), sample_data ''Use'' [] (TypeRef ''Box'' [TypeRef ''U8'' [] no_span] no_span)], module_Span = no_span\<rparr>]"

theorem BuildIndex_returns_witness:
  "\<exists>depth idx ds. BuildIndex depth sample_modules = Some (idx, ds) \<and> index_inv UNIV idx \<and> (all_complete idx \<or> list_ex (\<lambda>d. diag_Code d = ''SEM0098'') ds)"
proof -
  obtain bound where "\<forall>depth \<ge> bound. \<exists>idx ds. BuildIndex depth sample_modules = Some (idx, ds) \<and> index_inv UNIV idx \<and>
     inj_on (\<lambda>i. Key (ident idx (Some i))) {i. i < length (ix_Types idx) \<and> it_GenericOrigin (at idx i) \<noteq> None} \<and>
     (all_complete idx \<or> list_ex (\<lambda>d. diag_Code d = ''SEM0098'') ds)"
    using BuildIndex_returns [of sample_modules] by blast
  then show ?thesis by blast
qed

end
