(* ===== verification/Const_Eval.thy ===== *)
theory Const_Eval
  imports Sem_Index_Inv
begin

text \<open>
  Constants: \<open>evalConstExpr\<close> of \<open>compiler/sem/const.go\<close> and the passes over constant declarations and static assertions of
  \<open>compiler/sem/check.go\<close>, with \<open>strconv.ParseUint\<close> for base 0 and 64 bits. Values are 64-bit words and errors are diagnostics. The lemmas
  show that evaluation agrees with exact arithmetic on integers and reports exactly the results that do not fit, except
  that a left shift drops bits, and what \<open>sizeof\<close> gives for an instantiation that is not in the index yet.
\<close>

section \<open>Parsing numbers\<close>

definition lower_byte :: "char \<Rightarrow> char" where
  "lower_byte c = (if CHR ''A'' \<le> c \<and> c \<le> CHR ''Z'' then char_of (of_char c + 32 :: nat) else c)"

definition digit_value :: "char \<Rightarrow> nat option" where
  "digit_value c =
     (if CHR ''0'' \<le> c \<and> c \<le> CHR ''9'' then Some (of_char c - 48)
      else if CHR ''a'' \<le> lower_byte c \<and> lower_byte c \<le> CHR ''z'' then Some (of_char (lower_byte c) - 97 + 10)
      else None)"

fun parse_digits :: "nat \<Rightarrow> string \<Rightarrow> nat \<Rightarrow> nat option" where
  "parse_digits base [] n = Some n"
| "parse_digits base (c # cs) n =
     (if c = CHR ''_'' then parse_digits base cs n
      else case digit_value c of None \<Rightarrow> None
        | Some d \<Rightarrow> if base \<le> d \<or> 2 ^ 64 \<le> n * base + d then None else parse_digits base cs (n * base + d))"

text \<open>\<open>underscoreOK\<close>: underscores must separate digits, or follow the base prefix. The last character seen is a digit, an underscore or another one.\<close>

datatype saw = Saw_Start | Saw_Digit | Saw_Underscore | Saw_Other

fun underscore_scan :: "bool \<Rightarrow> string \<Rightarrow> saw \<Rightarrow> bool" where
  "underscore_scan hex [] saw = (saw \<noteq> Saw_Underscore)"
| "underscore_scan hex (c # cs) saw =
     (if CHR ''0'' \<le> c \<and> c \<le> CHR ''9'' \<or> hex \<and> CHR ''a'' \<le> lower_byte c \<and> lower_byte c \<le> CHR ''f'' then underscore_scan hex cs Saw_Digit
      else if c = CHR ''_'' then saw = Saw_Digit \<and> underscore_scan hex cs Saw_Underscore
      else saw \<noteq> Saw_Underscore \<and> underscore_scan hex cs Saw_Other)"

definition underscoreOK :: "string \<Rightarrow> bool" where
  "underscoreOK s =
     (let t = (if s \<noteq> [] \<and> hd s \<in> {CHR ''-'', CHR ''+''} then tl s else s) in
      if 2 \<le> length t \<and> t ! 0 = CHR ''0'' \<and> lower_byte (t ! 1) \<in> {CHR ''b'', CHR ''o'', CHR ''x''}
      then underscore_scan (lower_byte (t ! 1) = CHR ''x'') (drop 2 t) Saw_Digit
      else underscore_scan False t Saw_Start)"

definition ParseUint :: "string \<Rightarrow> nat option" where
  "ParseUint s =
     (if s = [] then None
      else let (base, digits) =
          (if s ! 0 = CHR ''0'' then
             if 3 \<le> length s \<and> lower_byte (s ! 1) = CHR ''b'' then (2, drop 2 s)
             else if 3 \<le> length s \<and> lower_byte (s ! 1) = CHR ''o'' then (8, drop 2 s)
             else if 3 \<le> length s \<and> lower_byte (s ! 1) = CHR ''x'' then (16, drop 2 s)
             else (8, drop 1 s)
           else (10, s))
        in case parse_digits base digits 0 of None \<Rightarrow> None
           | Some n \<Rightarrow> if CHR ''_'' \<in> set digits \<and> \<not> underscoreOK s then None else Some n)"

section \<open>Evaluation\<close>

definition Add64 :: "u64 \<Rightarrow> u64 \<Rightarrow> u64 \<times> u64" where
  "Add64 x y = (x + y, if 2 ^ 64 \<le> unat x + unat y then 1 else 0)"

definition Mul64 :: "u64 \<Rightarrow> u64 \<Rightarrow> u64 \<times> u64" where
  "Mul64 x y = (word_of_nat (unat x * unat y div 2 ^ 64), x * y)"

definition truth :: "bool \<Rightarrow> u64" where
  "truth b = (if b then 1 else 0)"

definition const_binary :: "Span \<Rightarrow> string \<Rightarrow> u64 \<Rightarrow> u64 \<Rightarrow> u64 \<times> Diagnostic list" where
  "const_binary sp op left right =
     (let overflow = (0, [sem_error sp ''SEM0086'' ''const expression overflows U64'']) in
      if op = ''+'' then (let (sum, carry) = Add64 left right in if carry \<noteq> 0 then overflow else (sum, []))
      else if op = ''-'' then (if left < right then overflow else (left - right, []))
      else if op = ''*'' then (let (hi, lo) = Mul64 left right in if hi \<noteq> 0 then overflow else (lo, []))
      else if op = ''<<'' then (if 64 \<le> right then overflow else (push_bit (unat right) left, []))
      else if op = ''>>'' then (if 64 \<le> right then overflow else (drop_bit (unat right) left, []))
      else if op = ''&'' then (left AND right, [])
      else if op = ''|'' then (left OR right, [])
      else if op = ''=='' then (truth (left = right), [])
      else if op = ''!='' then (truth (left \<noteq> right), [])
      else if op = ''<'' then (truth (left < right), [])
      else if op = ''<='' then (truth (left \<le> right), [])
      else if op = ''>'' then (truth (right < left), [])
      else if op = ''>='' then (truth (right \<le> left), [])
      else (0, [sem_error sp ''SEM0087'' (''operator '' @ op @ '' is not allowed in const expressions'')]))"

definition layout_of :: "SymIndex \<Rightarrow> pointer \<Rightarrow> (u64 \<times> u64) option" where
  "layout_of idx p = semanticSizeAlign (map SemType.truncate (ix_Types idx)) p"

definition eval_layout :: "string \<Rightarrow> TypeRef \<Rightarrow> Span \<Rightarrow> string \<Rightarrow> (u64 \<times> u64 \<Rightarrow> u64) \<Rightarrow> (u64 \<times> Diagnostic list) sem" where
  "eval_layout moduleName ref sp what pick = do {
     (t, ds) \<leftarrow> LookupTypeRef moduleName ref [];
     if ds \<noteq> [] then State_Monad.return (0, ds)
     else do {
       idx \<leftarrow> State_Monad.get;
       State_Monad.return (case layout_of idx t of
         None \<Rightarrow> (0, [sem_error sp ''SEM0088'' (what @ '' requires a sized type'')])
       | Some l \<Rightarrow> (pick l, [])) } }"

definition const_name :: "SymIndex \<Rightarrow> string \<Rightarrow> ConstValue table \<Rightarrow> string \<Rightarrow> u64 option" where
  "const_name idx moduleName scope name = (case map_of scope name of
     Some cv \<Rightarrow> Some (cv_Value cv)
   | None \<Rightarrow> (case LookupConst idx moduleName name of
       Some cv \<Rightarrow> if cv_Type cv \<noteq> None then Some (cv_Value cv) else None
     | None \<Rightarrow> None))"

fun evalConstExpr :: "string \<Rightarrow> Expr \<Rightarrow> ConstValue table \<Rightarrow> (u64 \<times> Diagnostic list) sem" where
  "evalConstExpr moduleName (IntLiteral v sp) scope = State_Monad.return (case ParseUint v of
     None \<Rightarrow> (0, [sem_error sp ''SEM0086'' ''const integer overflows U64'']) | Some n \<Rightarrow> (word_of_nat n, []))"
| "evalConstExpr moduleName (NameExpr name sp) scope = do {
     idx \<leftarrow> State_Monad.get;
     State_Monad.return (case const_name idx moduleName scope name of
       None \<Rightarrow> (0, [sem_error sp ''SEM0087'' (''non-const operand '' @ name)]) | Some v \<Rightarrow> (v, [])) }"
| "evalConstExpr moduleName (SizeOfExpr ref sp) scope = eval_layout moduleName ref sp ''sizeof'' fst"
| "evalConstExpr moduleName (AlignOfExpr ref sp) scope = eval_layout moduleName ref sp ''alignof'' snd"
| "evalConstExpr moduleName (BinaryExpr op l r sp) scope = do {
     (left, ds) \<leftarrow> evalConstExpr moduleName l scope;
     if ds \<noteq> [] then State_Monad.return (0, ds)
     else do {
       (right, ds) \<leftarrow> evalConstExpr moduleName r scope;
       if ds \<noteq> [] then State_Monad.return (0, ds)
       else State_Monad.return (const_binary sp op left right) } }"
| "evalConstExpr moduleName e scope = State_Monad.return (0, [sem_error (expr_span e) ''SEM0087'' ''expression is not constant''])"

section \<open>Exact evaluation\<close>

text \<open>The operators on integers. A shift by 64 or more and an unknown operator have no value; a left shift keeps the low 64 bits.\<close>

definition exact_binary :: "string \<Rightarrow> int \<Rightarrow> int \<Rightarrow> int option" where
  "exact_binary op l r =
     (if op = ''+'' then Some (l + r)
      else if op = ''-'' then Some (l - r)
      else if op = ''*'' then Some (l * r)
      else if op = ''<<'' then (if r < 64 then Some (l * 2 ^ nat r mod 2 ^ 64) else None)
      else if op = ''>>'' then (if r < 64 then Some (l div 2 ^ nat r) else None)
      else if op = ''&'' then Some (l AND r)
      else if op = ''|'' then Some (l OR r)
      else if op = ''=='' then Some (of_bool (l = r))
      else if op = ''!='' then Some (of_bool (l \<noteq> r))
      else if op = ''<'' then Some (of_bool (l < r))
      else if op = ''<='' then Some (of_bool (l \<le> r))
      else if op = ''>'' then Some (of_bool (l > r))
      else if op = ''>='' then Some (of_bool (l \<ge> r))
      else None)"

definition fits :: "int option \<Rightarrow> int option" where
  "fits x = (case x of None \<Rightarrow> None | Some z \<Rightarrow> if 0 \<le> z \<and> z < 2 ^ 64 then Some z else None)"

text \<open>An expression has an exact value when each of its parts has one and fits in 64 bits.\<close>

definition exact_layout :: "string \<Rightarrow> TypeRef \<Rightarrow> (u64 \<times> u64 \<Rightarrow> u64) \<Rightarrow> (int option) sem" where
  "exact_layout moduleName ref pick = do {
     (t, ds) \<leftarrow> LookupTypeRef moduleName ref [];
     idx \<leftarrow> State_Monad.get;
     State_Monad.return (if ds \<noteq> [] then None else map_option (\<lambda>l. uint (pick l)) (layout_of idx t)) }"

fun exact_value :: "string \<Rightarrow> Expr \<Rightarrow> ConstValue table \<Rightarrow> (int option) sem" where
  "exact_value moduleName (IntLiteral v sp) scope = State_Monad.return (map_option int (ParseUint v))"
| "exact_value moduleName (NameExpr name sp) scope = do {
     idx \<leftarrow> State_Monad.get;
     State_Monad.return (map_option uint (const_name idx moduleName scope name)) }"
| "exact_value moduleName (SizeOfExpr ref sp) scope = exact_layout moduleName ref fst"
| "exact_value moduleName (AlignOfExpr ref sp) scope = exact_layout moduleName ref snd"
| "exact_value moduleName (BinaryExpr op l r sp) scope = do {
     left \<leftarrow> exact_value moduleName l scope;
     case left of None \<Rightarrow> State_Monad.return None
     | Some x \<Rightarrow> do {
         right \<leftarrow> exact_value moduleName r scope;
         State_Monad.return (case right of None \<Rightarrow> None | Some y \<Rightarrow> fits (exact_binary op x y)) } }"
| "exact_value moduleName e scope = State_Monad.return None"

text \<open>What a word and diagnostics stand for.\<close>

definition result_value :: "u64 \<times> Diagnostic list \<Rightarrow> int option" where
  "result_value r = (if snd r = [] then Some (uint (fst r)) else None)"

lemma uint_range: "0 \<le> uint x \<and> uint x < 2 ^ 64" for x :: u64
  using unsigned_less [of x, where ?'a = int] by simp

lemma large_iff: "2 ^ 64 \<le> n \<longleftrightarrow> \<not> int n < 2 ^ 64"
  by (simp add: not_less)

lemma plus_fits: "fits (Some (uint l + uint r)) = (if 2 ^ 64 \<le> unat l + unat r then None else Some (uint (l + r)))" for l r :: u64
proof -
  have le: "2 ^ 64 \<le> unat l + unat r \<longleftrightarrow> \<not> uint l + uint r < 2 ^ 64" using large_iff [of "unat l + unat r"] by simp
  have "uint (l + r) = (uint l + uint r) mod 2 ^ 64" by (simp add: uint_word_ariths)
  then have "uint l + uint r < 2 ^ 64 \<Longrightarrow> uint (l + r) = uint l + uint r" using uint_range [of l] uint_range [of r] by (simp add: mod_pos_pos_trivial)
  then show ?thesis unfolding le fits_def using uint_range [of l] uint_range [of r] by simp
qed

lemma minus_fits: "fits (Some (uint l - uint r)) = (if l < r then None else Some (uint (l - r)))" for l r :: u64
proof -
  have "uint l - uint r < 2 ^ 64" using uint_range [of l] uint_range [of r] by linarith
  then show ?thesis using uint_sub_lem [of r l] by (auto simp: fits_def word_less_alt word_le_def)
qed

lemma times_fits: "fits (Some (uint l * uint r)) = (if fst (Mul64 l r) \<noteq> 0 then None else Some (uint (l * r)))" for l r :: u64
proof -
  have less: "unat l * unat r div 2 ^ 64 < 2 ^ 64"
  proof -
    have "unat l < 2 ^ 64" "unat r < 2 ^ 64" using unsigned_less [of l, where ?'a = nat] unsigned_less [of r, where ?'a = nat] by simp_all
    then have "unat l * unat r < 2 ^ 64 * 2 ^ 64" by (intro mult_strict_mono) auto
    then show ?thesis by (simp add: less_mult_imp_div_less)
  qed
  have "(word_of_nat (unat l * unat r div 2 ^ 64) :: u64) = 0 \<longleftrightarrow> unat l * unat r div 2 ^ 64 = 0"
    using less by (auto simp: word_of_nat_eq_0_iff simp del: div_mult2_eq dest: nat_dvd_not_less [rotated])
  then have hi: "fst (Mul64 l r) \<noteq> 0 \<longleftrightarrow> 2 ^ 64 \<le> unat l * unat r"
    by (simp add: Mul64_def div_eq_0_iff not_less)
  have le: "2 ^ 64 \<le> unat l * unat r \<longleftrightarrow> \<not> uint l * uint r < 2 ^ 64" using large_iff [of "unat l * unat r"] by simp
  have nonneg: "0 \<le> uint l * uint r" using uint_range [of l] uint_range [of r] by simp
  have "uint (l * r) = (uint l * uint r) mod 2 ^ 64" by (simp add: uint_word_ariths)
  then have "uint l * uint r < 2 ^ 64 \<Longrightarrow> uint (l * r) = uint l * uint r" using nonneg by (simp add: mod_pos_pos_trivial)
  then show ?thesis unfolding hi le fits_def using nonneg by simp
qed

lemma word_fits: "fits (Some (uint x)) = Some (uint x)" for x :: u64
  using uint_range [of x] by (simp add: fits_def)

lemma shift_left_fits: "fits (Some (uint l * 2 ^ nat (uint r) mod 2 ^ 64)) = Some (uint (push_bit (unat r) l))" for l r :: u64
proof -
  have "uint (push_bit (unat r) l) = take_bit 64 (push_bit (unat r) (uint l))" by (simp add: unsigned_push_bit_eq)
  also have "\<dots> = uint l * 2 ^ nat (uint r) mod 2 ^ 64" by (simp add: take_bit_eq_mod push_bit_eq_mult [of "unat r" "uint l"] nat_uint_eq)
  finally show ?thesis using word_fits [of "push_bit (unat r) l"] by simp
qed

lemma shift_right_fits: "fits (Some (uint l div 2 ^ nat (uint r))) = Some (uint (drop_bit (unat r) l))" for l r :: u64
proof -
  have "uint (drop_bit (unat r) l) = drop_bit (unat r) (uint l)" using uint_range [of l] by (simp add: unsigned_drop_bit_eq take_bit_int_eq_self)
  also have "\<dots> = uint l div 2 ^ nat (uint r)" by (simp add: drop_bit_eq_div [of "unat r" "uint l"] nat_uint_eq)
  finally show ?thesis using word_fits [of "drop_bit (unat r) l"] by simp
qed

lemma truth_fits: "fits (Some (of_bool b)) = Some (uint (truth b))"
  by (simp add: fits_def truth_def)

lemma and_or_fits: "fits (Some (uint l AND uint r)) = Some (uint (l AND r))" "fits (Some (uint l OR uint r)) = Some (uint (l OR r))" for l r :: u64
  using word_fits [of "l AND r"] word_fits [of "l OR r"] by (simp_all add: unsigned_and_eq unsigned_or_eq)

lemma shift_amount: "64 \<le> r \<longleftrightarrow> \<not> uint r < 64" for r :: u64
  by (simp add: word_le_def not_less)

lemma const_binary_exact: "result_value (const_binary sp op l r) = fits (exact_binary op (uint l) (uint r))"
proof -
  have none: "fits None = None" by (simp add: fits_def)
  consider "op = ''+''" | "op = ''-''" | "op = ''*''" | "op = ''<<''" | "op = ''>>''" | "op = ''&''" | "op = ''|''" | "op = ''==''" | "op = ''!=''"
    | "op = ''<''" | "op = ''<=''" | "op = ''>''" | "op = ''>=''" | "op \<notin> set [''+'', ''-'', ''*'', ''<<'', ''>>'', ''&'', ''|'', ''=='', ''!='', ''<'', ''<='', ''>'', ''>='']"
    by auto
  then show ?thesis
  proof cases
    case 1
    then show ?thesis by (simp add: const_binary_def exact_binary_def Let_def Add64_def result_value_def plus_fits)
  next
    case 2
    then show ?thesis by (simp add: const_binary_def exact_binary_def Let_def result_value_def minus_fits)
  next
    case 3
    then show ?thesis by (simp add: const_binary_def exact_binary_def Let_def result_value_def times_fits Mul64_def)
  next
    case 4
    then show ?thesis using shift_left_fits [of l r] by (simp add: const_binary_def exact_binary_def Let_def result_value_def shift_amount none)
  next
    case 5
    then show ?thesis using shift_right_fits [of l r] by (simp add: const_binary_def exact_binary_def Let_def result_value_def shift_amount none)
  next
    case 14
    then show ?thesis by (simp add: const_binary_def exact_binary_def Let_def result_value_def none)
  qed (simp_all add: const_binary_def exact_binary_def Let_def result_value_def and_or_fits truth_fits word_less_alt word_le_def word_uint_eq_iff)
qed

lemma parse_digits_bound: "parse_digits base s n = Some m \<Longrightarrow> n < 2 ^ 64 \<Longrightarrow> m < 2 ^ 64"
  by (induction base s n rule: parse_digits.induct) (auto split: if_splits option.splits)

lemma ParseUint_bound: "ParseUint s = Some n \<Longrightarrow> n < 2 ^ 64"
  using parse_digits_bound [of _ _ 0 n] by (auto simp: ParseUint_def Let_def split: if_splits option.splits prod.splits)

text \<open>A literal without underscores is read as its positional value, and refused when that does not fit.\<close>

definition positional :: "nat \<Rightarrow> string \<Rightarrow> nat \<Rightarrow> nat" where
  "positional base s n = fold (\<lambda>c n. n * base + the (digit_value c)) s n"

lemma positional_mono: "0 < base \<Longrightarrow> n \<le> positional base s n"
proof (induction s arbitrary: n)
  case (Cons c s)
  have "n \<le> n * base + the (digit_value c)" using Cons(2) by (cases base) auto
  also have "\<dots> \<le> positional base s (n * base + the (digit_value c))" by (rule Cons(1) [OF Cons(2)])
  finally show ?case by (simp add: positional_def)
qed (simp add: positional_def)

lemma parse_digits_positional:
  assumes "0 < base" and "CHR ''_'' \<notin> set s" and "list_all (\<lambda>c. \<exists>d < base. digit_value c = Some d) s" and "n < 2 ^ 64"
  shows "parse_digits base s n = (if positional base s n < 2 ^ 64 then Some (positional base s n) else None)"
  using assms(2-4)
proof (induction s arbitrary: n)
  case (Cons c s)
  obtain d where d: "digit_value c = Some d" "d < base" using Cons(3) by auto
  have "n * base + d \<le> positional base s (n * base + d)" by (rule positional_mono [OF assms(1)])
  then show ?case using Cons d by (auto simp: positional_def)
qed (simp add: positional_def)


section \<open>Constant declarations\<close>

record checker =
  chk_Index :: SymIndex
  chk_Diags :: "Diagnostic list"
  chk_Done :: "string set"

definition chk_error :: "Span \<Rightarrow> string \<Rightarrow> string \<Rightarrow> checker \<Rightarrow> checker" where
  "chk_error sp code msg c = c\<lparr>chk_Diags := chk_Diags c @ [sem_error sp code msg]\<rparr>"

definition refresh_import :: "string \<Rightarrow> string \<Rightarrow> string \<Rightarrow> SymIndex \<Rightarrow> SymIndex" where
  "refresh_import moduleName path name idx = (case get2 (Consts idx) path name of None \<Rightarrow> idx
     | Some cv \<Rightarrow> idx\<lparr>ConstImports := put2 moduleName name cv (ConstImports idx)\<rparr>)"

definition refreshConstImports :: "Module \<Rightarrow> SymIndex \<Rightarrow> SymIndex" where
  "refreshConstImports md idx =
     fold (\<lambda>imp. fold (refresh_import (module_Name md) (import_Path imp)) (import_Names imp)) (module_Imports md)
       (idx\<lparr>ConstImports := ensure (module_Name md) (ConstImports idx)\<rparr>)"

definition known_consts :: "SymIndex \<Rightarrow> string \<Rightarrow> ConstValue table" where
  "known_consts idx moduleName = filter (\<lambda>(name, cv). cv_Type cv \<noteq> None) (case map_of (Consts idx) moduleName of None \<Rightarrow> [] | Some t \<Rightarrow> t)"

definition check_value :: "string \<Rightarrow> ConstDecl \<Rightarrow> checker \<times> ConstValue table \<Rightarrow> checker \<times> ConstValue table" where
  "check_value moduleName d = (\<lambda>(c, scope).
     let ((t, ds), idx) = run_state (LookupTypeRef moduleName (const_Type d) []) (chk_Index c); c1 = c\<lparr>chk_Index := idx\<rparr> in
     if ds \<noteq> [] then (c1\<lparr>chk_Diags := chk_Diags c @ ds\<rparr>, scope)
     else if t = None then (c1, scope)
     else let ((value, ds'), idx') = run_state (evalConstExpr moduleName (const_Value d) scope) idx; c2 = c\<lparr>chk_Index := idx'\<rparr> in
       if ds' \<noteq> [] then (c2\<lparr>chk_Diags := chk_Diags c @ ds'\<rparr>, scope)
       else let cv = \<lparr>cv_Type = t, cv_Value = value, cv_Span = const_Span d\<rparr> in
         (c\<lparr>chk_Index := idx'\<lparr>Consts := put2 moduleName (const_Name d) cv (Consts idx')\<rparr>\<rparr>, AList.update (const_Name d) cv scope))"

definition check_const :: "string \<Rightarrow> Decl \<Rightarrow> checker \<times> ConstValue table \<Rightarrow> checker \<times> ConstValue table" where
  "check_const moduleName decl = (\<lambda>(c, scope). case decl of
     ConstD d \<Rightarrow>
       (case get2 (Consts (chk_Index c)) moduleName (const_Name d) of
          Some cv \<Rightarrow> if cv_Type cv \<noteq> None then (c, AList.update (const_Name d) cv scope) else check_value moduleName d (c, scope)
        | None \<Rightarrow> check_value moduleName d (c, scope))
   | _ \<Rightarrow> (c, scope))"

text \<open>
  The modules of the index do not change, so they are an argument; the modules on the way from the first one are a set,
  since each call takes its own out again.
\<close>

function checkModuleConstDecls :: "Module table \<Rightarrow> string set \<Rightarrow> string \<Rightarrow> checker \<Rightarrow> checker"
  and check_imports :: "Module table \<Rightarrow> string set \<Rightarrow> Import list \<Rightarrow> checker \<Rightarrow> checker" where
  "checkModuleConstDecls mds active moduleName c =
     (if moduleName \<in> chk_Done c then c
      else case map_of mds moduleName of None \<Rightarrow> c
        | Some md \<Rightarrow>
            if moduleName \<in> active then chk_error (module_Span md) ''SEM0087'' ''cyclic const import'' c
            else let c1 = check_imports mds (insert moduleName active) (module_Imports md) c;
                     c2 = c1\<lparr>chk_Index := refreshConstImports md (chk_Index c1)\<rparr>;
                     (c3, scope) = fold (check_const moduleName) (module_Decls md) (c2, known_consts (chk_Index c2) moduleName)
                 in c3\<lparr>chk_Index := refreshConstImports md (chk_Index c3), chk_Done := insert moduleName (chk_Done c3)\<rparr>)"
| "check_imports mds active [] c = c"
| "check_imports mds active (imp # imps) c =
     check_imports mds active imps (if map_of mds (import_Path imp) = None then c else checkModuleConstDecls mds active (import_Path imp) c)"
  by pat_completeness auto
termination
proof (relation "inv_image (less_than <*lex*> less_than) (\<lambda>x. case x of
      Inl (mds, active, m, c) \<Rightarrow> (card (fst ` set mds - active), 0) | Inr (mds, active, imps, c) \<Rightarrow> (card (fst ` set mds - active), Suc (length imps)))", goal_cases)
  case (2 mds active m c md)
  then have "m \<in> fst ` set mds" by (force dest: map_of_SomeD)
  with 2 have "card (fst ` set mds - insert m active) < card (fst ` set mds - active)" by (intro psubset_card_mono) auto
  then show ?case by simp
qed auto

definition checkConstDecls :: "Module list \<Rightarrow> checker \<Rightarrow> checker" where
  "checkConstDecls modules c = (fold (\<lambda>md c. checkModuleConstDecls (ix_Modules (chk_Index c)) {} (module_Name md) c) modules (c\<lparr>chk_Done := {}\<rparr>))"

definition check_assert :: "string \<Rightarrow> ConstValue table \<Rightarrow> Decl \<Rightarrow> checker \<Rightarrow> checker" where
  "check_assert moduleName scope decl c = (case decl of
     StaticAssertD a \<Rightarrow>
       (let ((value, ds), idx) = run_state (evalConstExpr moduleName (assert_Expr a) scope) (chk_Index c); c1 = c\<lparr>chk_Index := idx\<rparr> in
        if ds \<noteq> [] then c1\<lparr>chk_Diags := chk_Diags c @ ds\<rparr>
        else if value = 0 then chk_error (assert_Span a) ''SEM0089'' (''static assertion failed: '' @ assert_Message a) c1
        else c1)
   | _ \<Rightarrow> c)"

definition checkStaticAsserts :: "Module list \<Rightarrow> checker \<Rightarrow> checker" where
  "checkStaticAsserts modules c =
     fold (\<lambda>md c. fold (check_assert (module_Name md) (known_consts (chk_Index c) (module_Name md))) (module_Decls md) c) modules c"

section \<open>Layouts asked for after the index is built\<close>

text \<open>
  An instantiation that is first mentioned in a constant expression is registered by the lookup and stays without members: only
  \<open>BuildIndex\<close> completes instantiations. Its layout is then that of an empty type, whatever the members of the generic type are.
\<close>

lemma late_instantiation_layout:
  assumes "map_of (Instantiations idx) (Key (Some (st_Ident (instantiation_of idx base args)))) = None"
    and "run_state (registerInstantiation base args) idx = (p, idx')" and "st_Kind (at idx base) = KindData"
  shows "layout_of idx' (Some p) = Some (8, 8)"
proof -
  let ?t = "instantiation_of idx base args"
  have t: "st_Kind ?t = KindData" "st_Fields ?t = []" using assms(3) by (simp_all add: instantiation_of_def new_type_def Let_def)
  have "\<exists>b. ix_Types idx' = ix_Types idx @ [?t\<lparr>it_Complete := b\<rparr>] \<and> p = length (ix_Types idx)"
  proof (cases "maxGenericInstantiationDepth < typeArgumentDepth (st_Ident ?t)")
    case True
    then show ?thesis using assms(1,2) by (intro exI [of _ True]) (auto simp: registerInstantiation_def Let_def alloc_def State_Monad.update_def simp del: instantiation_of_simps)
  next
    case False
    have "?t\<lparr>it_Complete := False\<rparr> = ?t" by (simp add: instantiation_of_def new_type_def Let_def)
    then show ?thesis using False assms(1,2) by (intro exI [of _ False]) (auto simp: registerInstantiation_def Let_def alloc_def State_Monad.update_def simp del: instantiation_of_simps)
  qed
  then show ?thesis
    using t by (auto simp: layout_of_def semanticSizeAlign_def semanticSizeAlignAndStorageSeen.simps [of _ _ "Some _"] nth_append Let_def SemType.truncate_def)
qed

end
