(* ===== verification/Arena_Graph.thy ===== *)
theory Arena_Graph
  imports Const_Eval
begin

text \<open>
  The graph of memory arenas of an image, \<open>compiler/sem/memory_graph.go\<close>: reading the arguments of arena calls, placing the arenas and
  validating the graph. What the checker finds out about an expression elsewhere, the origin of a receiver and the label of
  an owner, are arguments. Offsets are 64-bit words. The lemmas show that arenas that are placed one after the other are aligned and
  apart as long as nothing wraps around, and which graphs the validation accepts.
\<close>

section \<open>Arguments of calls\<close>

definition namedArgExpr :: "NamedArg list \<Rightarrow> string \<Rightarrow> Expr option" where
  "namedArgExpr args name = map_option arg_Value (List.find (\<lambda>a. arg_Name a = name) args)"

definition constructorArg :: "Expr \<Rightarrow> string \<Rightarrow> Expr option" where
  "constructorArg e name = (case e of ConstructorExpr t args sp \<Rightarrow> namedArgExpr args name | _ \<Rightarrow> None)"

definition stringLiteralArg :: "NamedArg list \<Rightarrow> string \<Rightarrow> string option" where
  "stringLiteralArg args name = (case namedArgExpr args name of Some (StringLiteral v sp) \<Rightarrow> Some v | _ \<Rightarrow> None)"

definition unsignedIntegerLiteral :: "Expr option \<Rightarrow> u64 option" where
  "unsignedIntegerLiteral e = (case e of Some (IntLiteral v sp) \<Rightarrow> map_option word_of_nat (ParseUint v) | _ \<Rightarrow> None)"

definition isPowerOfTwo :: "u64 \<Rightarrow> bool" where
  "isPowerOfTwo value \<longleftrightarrow> value \<noteq> 0 \<and> value AND (value - 1) = 0"

definition arenaIdentityForArg :: "Expr option \<Rightarrow> string option" where
  "arenaIdentityForArg e = (case e of Some (ConstructorExpr t args sp) \<Rightarrow> stringLiteralArg args ''label'' | _ \<Rightarrow> None)"

definition queueIdentityForArg :: "Expr option \<Rightarrow> string option" where
  "queueIdentityForArg e = (case e of Some (ConstructorExpr t args sp) \<Rightarrow> stringLiteralArg args ''label'' | _ \<Rightarrow> None)"

definition arenaUnsignedIntArg :: "NamedArg list \<Rightarrow> string \<Rightarrow> u64 option" where
  "arenaUnsignedIntArg args name = unsignedIntegerLiteral (namedArgExpr args name)"

definition interruptOverflowPolicy :: "Expr option \<Rightarrow> string option" where
  "interruptOverflowPolicy e = (case e of
     Some (ConstructorExpr t args sp) \<Rightarrow> (case unsignedIntegerLiteral (namedArgExpr args ''mode'') of
         Some m \<Rightarrow> if m = 0 then Some ''drop_newest_and_set_flag'' else if m = 1 then Some ''drop_oldest_and_set_flag''
           else if m = 2 then Some ''set_flag_and_wake'' else if m = 3 then Some ''boot_fatal'' else None
       | None \<Rightarrow> None)
   | _ \<Rightarrow> None)"

definition interruptQueuePayloadBytes :: "u64 \<Rightarrow> u64 \<Rightarrow> u64 option" where
  "interruptQueuePayloadBytes capacity payloadSize =
     (if payloadSize \<noteq> 0 \<and> - 1 div payloadSize < capacity then None else Some (capacity * payloadSize))"

section \<open>Placing arenas\<close>

record ArenaNode =
  an_Label :: string
  an_Parent :: string
  an_Base :: u64
  an_Offset :: u64
  an_Bytes :: u64
  an_Align :: u64
  an_Owner :: string
  an_Kind :: string
  an_Span :: Span

record MemoryRootNode =
  mr_Label :: string
  mr_Base :: u64
  mr_Bytes :: u64
  mr_Span :: Span

record DMABufferNode =
  db_Label :: string
  db_OwnerDevice :: string
  db_Base :: u64
  db_Bytes :: u64
  db_Span :: Span

record PlacementDecisionNode =
  pd_SlotLabel :: string
  pd_Target :: string
  pd_Satisfied :: bool
  pd_Fallback :: string
  pd_Span :: Span

record ArenaGraph =
  MemoryRoots :: "MemoryRootNode list"
  Arenas :: "ArenaNode list"
  DMABuffers :: "DMABufferNode list"
  PlacementDecisions :: "PlacementDecisionNode list"

record arena_origin =
  ArenaLabel :: string
  ArenaBase :: u64
  ArenaBytes :: u64
  ArenaAlign :: u64

definition arenaHasStaticRange :: "ArenaNode \<Rightarrow> bool" where
  "arenaHasStaticRange arena \<longleftrightarrow> an_Kind arena \<in> {''child_arena'', ''executor_memory'', ''cache_memory'', ''dma_buffer'', ''interrupt_queue''}"

definition arenaRangesOverlap :: "ArenaNode \<Rightarrow> ArenaNode \<Rightarrow> bool" where
  "arenaRangesOverlap a b =
     (if \<not> arenaHasStaticRange a \<or> \<not> arenaHasStaticRange b then False
      else if an_Parent a = [] \<or> an_Parent b = [] \<or> an_Parent a \<noteq> an_Parent b then False
      else an_Offset a < an_Offset b + an_Bytes b \<and> an_Offset b < an_Offset a + an_Bytes a)"

definition alignArenaOffset :: "u64 \<Rightarrow> u64 \<Rightarrow> u64" where
  "alignArenaOffset offset align = (if align = 0 then offset else (offset + align - 1) AND (0 - align))"

definition next_end :: "string \<Rightarrow> ArenaNode \<Rightarrow> u64 \<Rightarrow> u64" where
  "next_end parent arena next =
     (if an_Parent arena \<noteq> parent \<or> \<not> arenaHasStaticRange arena then next
      else if next < an_Offset arena + an_Bytes arena then an_Offset arena + an_Bytes arena else next)"

definition nextImplicitArenaOffset :: "ArenaNode list \<Rightarrow> u64 \<Rightarrow> string \<Rightarrow> u64 \<Rightarrow> u64" where
  "nextImplicitArenaOffset arenas parentBase parent align =
     alignArenaOffset (parentBase + fold (next_end parent) arenas 0) align - parentBase"

definition implicitArenaAllocation :: "ArenaNode list \<Rightarrow> arena_origin \<Rightarrow> string \<Rightarrow> string \<Rightarrow> string \<Rightarrow> u64 \<Rightarrow> u64 \<Rightarrow> Span \<Rightarrow> ArenaNode" where
  "implicitArenaAllocation arenas origin label owner kind len align sp =
     (let offset = nextImplicitArenaOffset arenas (ArenaBase origin) (ArenaLabel origin) align in
      \<lparr>an_Label = label, an_Parent = ArenaLabel origin, an_Base = ArenaBase origin + offset, an_Offset = offset, an_Bytes = len, an_Align = align,
       an_Owner = owner, an_Kind = kind, an_Span = sp\<rparr>)"

definition or_zero :: "u64 option \<Rightarrow> u64" where "or_zero x = (case x of None \<Rightarrow> 0 | Some v \<Rightarrow> v)"

definition or_empty :: "string option \<Rightarrow> string" where "or_empty x = (case x of None \<Rightarrow> [] | Some v \<Rightarrow> v)"

definition add_arena :: "ArenaNode \<Rightarrow> ArenaGraph \<Rightarrow> ArenaGraph" where
  "add_arena arena g = g\<lparr>Arenas := Arenas g @ [arena]\<rparr>"

definition recordCreateArenaFromRegion :: "NamedArg list \<Rightarrow> Span \<Rightarrow> arena_origin \<Rightarrow> ArenaGraph \<Rightarrow> ArenaGraph" where
  "recordCreateArenaFromRegion args sp origin g = (let label = or_empty (arenaIdentityForArg (namedArgExpr args ''identity'')) in
     add_arena \<lparr>an_Label = label, an_Parent = [], an_Base = ArenaBase origin, an_Offset = 0, an_Bytes = ArenaBytes origin, an_Align = ArenaAlign origin,
         an_Owner = [], an_Kind = ''root_arena'', an_Span = sp\<rparr>
       (g\<lparr>MemoryRoots := MemoryRoots g @ [\<lparr>mr_Label = label, mr_Base = ArenaBase origin, mr_Bytes = ArenaBytes origin, mr_Span = sp\<rparr>]\<rparr>))"

text \<open>\<open>recordRootArenaChildAt\<close> and \<open>recordChildArenaChildAt\<close> have the same body.\<close>

definition recordRootArenaChildAt :: "NamedArg list \<Rightarrow> Span \<Rightarrow> arena_origin \<Rightarrow> ArenaGraph \<Rightarrow> ArenaGraph" where
  "recordRootArenaChildAt args sp origin g =
     (let label = arenaIdentityForArg (namedArgExpr args ''identity'');
          arena = \<lparr>an_Label = or_empty label, an_Parent = ArenaLabel origin, an_Base = 0, an_Offset = 0, an_Bytes = 0, an_Align = 0,
            an_Owner = [], an_Kind = ''child_arena'', an_Span = sp\<rparr>
      in add_arena (case (label, arenaUnsignedIntArg args ''offset'', arenaUnsignedIntArg args ''length'', arenaUnsignedIntArg args ''align'') of
           (Some l, Some offset, Some len, Some align) \<Rightarrow>
             (let base = alignArenaOffset (ArenaBase origin + offset) align in
              arena\<lparr>an_Base := base, an_Offset := base - ArenaBase origin, an_Bytes := len, an_Align := align\<rparr>)
         | _ \<Rightarrow> arena) g)"

definition recordChildArenaChildAt :: "NamedArg list \<Rightarrow> Span \<Rightarrow> arena_origin \<Rightarrow> ArenaGraph \<Rightarrow> ArenaGraph" where
  "recordChildArenaChildAt = recordRootArenaChildAt"

definition recordRootArenaExecutorMemory :: "NamedArg list \<Rightarrow> Span \<Rightarrow> string \<Rightarrow> arena_origin \<Rightarrow> ArenaGraph \<Rightarrow> ArenaGraph" where
  "recordRootArenaExecutorMemory args sp owner origin g =
     add_arena (implicitArenaAllocation (Arenas g) origin [] owner ''executor_memory'' (or_zero (arenaUnsignedIntArg args ''length'')) (or_zero (arenaUnsignedIntArg args ''align'')) sp) g"

text \<open>Near a processor of the placement plan no decision is recorded; otherwise it is satisfied when the target is known.\<close>

definition recordRootArenaExecutorMemoryNear :: "NamedArg list \<Rightarrow> Span \<Rightarrow> string \<Rightarrow> bool \<Rightarrow> bool \<Rightarrow> arena_origin \<Rightarrow> ArenaGraph \<Rightarrow> ArenaGraph" where
  "recordRootArenaExecutorMemoryNear args sp owner planned known origin g =
     (let g' = recordRootArenaExecutorMemory args sp owner origin g in
      if planned then g'
      else g'\<lparr>PlacementDecisions := PlacementDecisions g' @ [\<lparr>pd_SlotLabel = owner, pd_Target = ''cpu'', pd_Satisfied = known,
        pd_Fallback = (if known then [] else ''unknown_locality''), pd_Span = sp\<rparr>]\<rparr>)"

definition recordRootArenaCacheArena :: "NamedArg list \<Rightarrow> Span \<Rightarrow> arena_origin \<Rightarrow> ArenaGraph \<Rightarrow> ArenaGraph" where
  "recordRootArenaCacheArena args sp origin g =
     add_arena (implicitArenaAllocation (Arenas g) origin (or_empty (arenaIdentityForArg (namedArgExpr args ''identity''))) (ArenaLabel origin) ''cache_memory''
       (or_zero (arenaUnsignedIntArg args ''length'')) (or_zero (arenaUnsignedIntArg args ''align'')) sp) g"

definition recordRootArenaDMA :: "NamedArg list \<Rightarrow> Span \<Rightarrow> string \<Rightarrow> arena_origin \<Rightarrow> ArenaGraph \<Rightarrow> ArenaGraph" where
  "recordRootArenaDMA args sp owner origin g = (let label = or_empty (arenaIdentityForArg (namedArgExpr args ''identity'')) in
     add_arena (implicitArenaAllocation (Arenas g) origin label owner ''dma_buffer''
         (or_zero (arenaUnsignedIntArg args ''length'')) (or_zero (arenaUnsignedIntArg args ''align'')) sp)
       (g\<lparr>DMABuffers := DMABuffers g @ [\<lparr>db_Label = label, db_OwnerDevice = owner, db_Base = 0, db_Bytes = 0, db_Span = sp\<rparr>]\<rparr>))"

definition recordArenaGraphCall :: "string \<Rightarrow> string \<Rightarrow> NamedArg list \<Rightarrow> Span \<Rightarrow> arena_origin \<Rightarrow> string \<Rightarrow> string \<Rightarrow> bool \<Rightarrow> bool \<Rightarrow> ArenaGraph \<Rightarrow> ArenaGraph" where
  "recordArenaGraphCall receiverType callee args sp origin slotOwner dmaOwner planned known g =
     (if receiverType = ''platform.hardware.memory.PhysicalRegionAuthority'' then
        if callee = ''create_arena'' then recordCreateArenaFromRegion args sp origin g else g
      else if receiverType = ''platform.hardware.memory.RootArena'' then
        if callee = ''child_at'' then recordRootArenaChildAt args sp origin g
        else if callee = ''executor_memory'' then recordRootArenaExecutorMemory args sp slotOwner origin g
        else if callee = ''executor_memory_near'' then recordRootArenaExecutorMemoryNear args sp slotOwner planned known origin g
        else if callee = ''cache_arena'' then recordRootArenaCacheArena args sp origin g
        else if callee = ''dma_buffer'' then recordRootArenaDMA args sp dmaOwner origin g
        else g
      else if receiverType = ''platform.hardware.memory.ChildArena'' then
        if callee = ''child_at'' then recordChildArenaChildAt args sp origin g else g
      else g)"

section \<open>Validation\<close>

fun duplicate_labels :: "string list \<Rightarrow> ArenaNode list \<Rightarrow> Diagnostic list" where
  "duplicate_labels seen [] = []"
| "duplicate_labels seen (a # as) =
     (if an_Label a = [] then duplicate_labels seen as
      else (if an_Label a \<in> set seen then [sem_error (an_Span a) ''SEM0057'' (''duplicate arena identity '' @ an_Label a)] else []) @
        duplicate_labels (an_Label a # seen) as)"

fun overlaps :: "ArenaNode list \<Rightarrow> Diagnostic list" where
  "overlaps [] = []"
| "overlaps (a # as) =
     map (\<lambda>b. sem_error (an_Span b) ''SEM0058'' ''statically overlapping arena placement'') (filter (arenaRangesOverlap a) as) @ overlaps as"

definition validateArenaGraph :: "ArenaNode list \<Rightarrow> Diagnostic list" where
  "validateArenaGraph arenas = duplicate_labels [] arenas @ overlaps arenas"

section \<open>Alignment\<close>

lemma and_parts: "x = (x AND y) + (x AND NOT y)" for x y :: u64
proof -
  have "x = (x AND y) OR (x AND NOT y)" by (simp flip: bit.conj_disj_distrib)
  also have "\<dots> = (x AND y) + (x AND NOT y)" by (rule disjunctive_add_eq_or [symmetric]) (simp add: bit_eq_iff bit_simps)
  finally show ?thesis .
qed

lemma unat_and_le: "unat (x AND y) \<le> unat y" for x y :: u64
  by (simp flip: word_le_nat_alt add: word_and_le1)

lemma unat_and_parts: "unat x = unat (x AND y) + unat (x AND NOT y)" for x y :: u64
proof -
  have "x AND NOT y \<le> x" by (rule word_and_le2)
  moreover have "x AND y = x - (x AND NOT y)" using and_parts [of x y] by (simp add: algebra_simps)
  ultimately show ?thesis by (simp add: unat_sub word_le_nat_alt)
qed

text \<open>
  For a power of two the routine is the masking one of the other packages; for any other alignment it still gives an offset that is
  not below the one it gets.
\<close>

lemma alignArenaOffset_mask: "align \<noteq> 0 \<Longrightarrow> alignArenaOffset offset align = mask_up offset align"
  by (simp add: alignArenaOffset_def mask_up_def minus_eq_not_minus_1)

interpretation arena_align: aligner "\<lambda>v a. unat (alignArenaOffset (of_nat v) (of_nat a))" mask_up_ok
proof -
  have "unat (alignArenaOffset (of_nat v) (of_nat a)) = unat (mask_up (of_nat v) (of_nat a))" if ok: "mask_up_ok v a" for v a
  proof -
    obtain k where k: "k < 64" "a = 2 ^ k" using ok by (auto simp: mask_up_ok_def)
    have "a < 2 ^ 64" unfolding k(2) by (intro power_strict_increasing k(1)) simp
    then have "unat (of_nat a :: u64) = a" by (rule unat_of_nat_u64)
    then have "(of_nat a :: u64) \<noteq> 0" using k(2) by (metis power_eq_0_iff unat_0 zero_neq_numeral)
    then show ?thesis by (simp add: alignArenaOffset_mask)
  qed
  then show "aligner (\<lambda>v a. unat (alignArenaOffset (of_nat v) (of_nat a))) mask_up_ok"
    using mask_up_aligner unfolding aligner_def by simp
qed

lemma alignArenaOffset_bounds:
  assumes "unat offset + unat align < 2 ^ 64"
  shows "unat offset \<le> unat (alignArenaOffset offset align)" and "unat (alignArenaOffset offset align) \<le> unat offset + unat align"
proof -
  have "unat offset \<le> unat (alignArenaOffset offset align) \<and> unat (alignArenaOffset offset align) \<le> unat offset + unat align"
  proof (cases "align = 0")
    case False
    then have a: "1 \<le> unat align" by (simp add: Suc_le_eq word_neq_0_conv [symmetric] unat_gt_0)
    have sum: "unat (offset + align) = unat offset + unat align" using assms by (simp add: unat_word_ariths)
    then have "1 \<le> offset + align" using a by (simp add: word_le_nat_alt)
    then have x: "unat (offset + align - 1) = unat offset + unat align - 1" using sum by (simp add: unat_sub)
    have m: "unat (align - 1) = unat align - 1" using a by (simp add: unat_sub word_le_nat_alt)
    have "unat (offset + align - 1) = unat ((offset + align - 1) AND (align - 1)) + unat (alignArenaOffset offset align)"
      using unat_and_parts [of "offset + align - 1" "align - 1"] alignArenaOffset_mask [OF False] by (simp add: mask_up_def)
    moreover have "unat ((offset + align - 1) AND (align - 1)) \<le> unat align - 1" using unat_and_le [of "offset + align - 1" "align - 1"] m by simp
    ultimately show ?thesis using x a by linarith
  qed (simp add: alignArenaOffset_def)
  then show "unat offset \<le> unat (alignArenaOffset offset align)" "unat (alignArenaOffset offset align) \<le> unat offset + unat align" by simp_all
qed

lemma power_of_two_nat: "0 < n \<Longrightarrow> n AND (n - 1) = (0 :: nat) \<Longrightarrow> \<exists>k. n = 2 ^ k"
proof (induction n rule: less_induct)
  case (less n)
  have rec: "n AND (n - 1) = of_bool (odd n \<and> odd (n - 1)) + 2 * ((n div 2) AND ((n - 1) div 2))" by (rule and_rec)
  show ?case
  proof (cases "even n")
    case True
    then obtain w where w: "n = 2 * w" by (elim evenE)
    with less(2) have "0 < w" "(n - 1) div 2 = w - 1" by auto
    with rec less(3) w have "w AND (w - 1) = 0" by simp
    with less(1) [of w] \<open>0 < w\<close> w obtain k where "w = 2 ^ k" by auto
    with w show ?thesis by (intro exI [of _ "Suc k"]) simp
  next
    case False
    then obtain w where w: "n = 2 * w + 1" by (elim oddE)
    with rec less(3) have "w = 0" by simp
    with w show ?thesis by (intro exI [of _ 0]) simp
  qed
qed

lemma isPowerOfTwo_iff: "isPowerOfTwo v \<longleftrightarrow> (\<exists>k < 64. unat v = 2 ^ k)"
proof
  assume p: "isPowerOfTwo v"
  then have v: "0 < unat v" by (simp add: isPowerOfTwo_def unat_gt_0)
  then have "unat (v - 1) = unat v - 1" by (simp add: unat_sub word_le_nat_alt)
  with p have "unat v AND (unat v - 1) = 0" unfolding isPowerOfTwo_def by (metis unat_0 unsigned_and_eq)
  with power_of_two_nat [OF v] obtain k where k: "unat v = 2 ^ k" by auto
  have "(2 :: nat) ^ k < 2 ^ 64" using unat_u64_less [of v] k by simp
  then have "k < 64" by (rule power_less_imp_less_exp [rotated]) simp
  with k show "\<exists>k < 64. unat v = 2 ^ k" by auto
next
  assume "\<exists>k < 64. unat v = 2 ^ k"
  then obtain k where k: "k < 64" "unat v = 2 ^ k" by auto
  have "v = of_nat (unat v)" by simp
  also have "\<dots> = 2 ^ k" by (simp only: k(2) of_nat_power of_nat_numeral)
  finally have v: "v = 2 ^ k" .
  have "v AND (v - 1) = 0" unfolding v by (rule bit_word_eqI) (auto simp: bit_simps mask_eq_decr_exp [symmetric])
  moreover have "v \<noteq> 0" using k(2) by auto
  ultimately show "isPowerOfTwo v" by (simp add: isPowerOfTwo_def)
qed

section \<open>Arenas placed one after the other\<close>

record arena_request =
  rq_Label :: string
  rq_Owner :: string
  rq_Kind :: string
  rq_Length :: u64
  rq_Align :: u64
  rq_Span :: Span

definition place :: "arena_origin \<Rightarrow> arena_request \<Rightarrow> ArenaNode list \<Rightarrow> ArenaNode list" where
  "place origin r arenas = arenas @ [implicitArenaAllocation arenas origin (rq_Label r) (rq_Owner r) (rq_Kind r) (rq_Length r) (rq_Align r) (rq_Span r)]"

definition demand :: "arena_request list \<Rightarrow> nat" where
  "demand rs = sum_list (map (\<lambda>r. unat (rq_Length r) + unat (rq_Align r)) rs)"

abbreviation arena_end :: "ArenaNode \<Rightarrow> nat" where
  "arena_end a \<equiv> unat (an_Offset a) + unat (an_Bytes a)"

definition placed_arena :: "arena_origin \<Rightarrow> nat \<Rightarrow> ArenaNode \<Rightarrow> bool" where
  "placed_arena origin S a \<longleftrightarrow> an_Parent a = ArenaLabel origin \<and> arenaHasStaticRange a \<and> an_Base a = ArenaBase origin + an_Offset a \<and> arena_end a \<le> S \<and>
     (\<forall>k < 64. unat (an_Align a) = 2 ^ k \<longrightarrow> 2 ^ k dvd unat (an_Base a))"

definition apart :: "ArenaNode list \<Rightarrow> bool" where
  "apart arenas \<longleftrightarrow> sorted_wrt (\<lambda>a b. arena_end a \<le> unat (an_Offset b)) arenas"

lemma next_end_fold:
  assumes "\<forall>a \<in> set as. arena_end a \<le> S" and "S < 2 ^ 64" and "unat n \<le> S"
  shows "unat (fold (next_end parent) as n) \<le> S \<and> unat n \<le> unat (fold (next_end parent) as n) \<and>
    (\<forall>a \<in> set as. an_Parent a = parent \<longrightarrow> arenaHasStaticRange a \<longrightarrow> arena_end a \<le> unat (fold (next_end parent) as n))"
  using assms(1,3)
proof (induction as arbitrary: n)
  case (Cons a as)
  have e: "unat (an_Offset a + an_Bytes a) = arena_end a" using Cons(2) assms(2) by (simp add: unat_word_ariths)
  let ?n = "next_end parent a n"
  have n: "unat ?n \<le> S" "unat n \<le> unat ?n" "an_Parent a = parent \<longrightarrow> arenaHasStaticRange a \<longrightarrow> arena_end a \<le> unat ?n"
    using e Cons(2,3) by (auto simp: next_end_def word_less_nat_alt)
  with Cons(1) [of ?n] Cons(2) show ?case by (auto intro: le_trans)
qed simp

lemma place_step:
  assumes "list_all (placed_arena origin S) arenas" and "apart arenas"
    and "unat (ArenaBase origin) + S + unat (rq_Length r) + unat (rq_Align r) < 2 ^ 64"
    and "rq_Kind r \<in> {''executor_memory'', ''cache_memory'', ''dma_buffer''}"
  shows "list_all (placed_arena origin (S + (unat (rq_Length r) + unat (rq_Align r)))) (place origin r arenas) \<and> apart (place origin r arenas)"
proof -
  let ?next = "fold (next_end (ArenaLabel origin)) arenas 0"
  let ?aligned = "alignArenaOffset (ArenaBase origin + ?next) (rq_Align r)"
  let ?new = "implicitArenaAllocation arenas origin (rq_Label r) (rq_Owner r) (rq_Kind r) (rq_Length r) (rq_Align r) (rq_Span r)"
  have old: "\<forall>a \<in> set arenas. arena_end a \<le> S" using assms(1) by (auto simp: placed_arena_def list_all_iff)
  have next_le: "unat ?next \<le> S" and ends: "\<And>a. a \<in> set arenas \<Longrightarrow> arena_end a \<le> unat ?next"
    using next_end_fold [OF old, of 0 "ArenaLabel origin"] assms(1,3) by (auto simp: placed_arena_def list_all_iff)
  have sum: "unat (ArenaBase origin + ?next) = unat (ArenaBase origin) + unat ?next" using next_le assms(3) by (simp add: unat_word_ariths)
  have b: "unat (ArenaBase origin) + unat ?next \<le> unat ?aligned" "unat ?aligned \<le> unat (ArenaBase origin) + unat ?next + unat (rq_Align r)"
    using alignArenaOffset_bounds [of "ArenaBase origin + ?next" "rq_Align r"] sum next_le assms(3) by linarith+
  then have off: "unat (an_Offset ?new) = unat ?aligned - unat (ArenaBase origin)"
    by (simp add: implicitArenaAllocation_def nextImplicitArenaOffset_def Let_def unat_sub word_le_nat_alt)
  have base: "an_Base ?new = ?aligned" by (simp add: implicitArenaAllocation_def nextImplicitArenaOffset_def Let_def)
  have dvd: "2 ^ k dvd unat ?aligned" if "k < 64" "unat (rq_Align r) = 2 ^ k" for k
  proof -
    have "mask_up_ok (unat (ArenaBase origin + ?next)) (unat (rq_Align r))" using that sum next_le assms(3) by (auto simp: mask_up_ok_def)
    from arena_align.up_dvd [OF this] have "unat (rq_Align r) dvd unat ?aligned" by simp
    with that(2) show ?thesis by (rule subst)
  qed
  have "placed_arena origin (S + (unat (rq_Length r) + unat (rq_Align r))) ?new"
    unfolding placed_arena_def
  proof (intro conjI allI impI)
    show "arena_end ?new \<le> S + (unat (rq_Length r) + unat (rq_Align r))"
      using off b next_le by (simp add: implicitArenaAllocation_def Let_def)
    show "2 ^ k dvd unat (an_Base ?new)" if "k < 64" "unat (an_Align ?new) = 2 ^ k" for k
      unfolding base by (rule dvd) (use that in \<open>simp_all add: implicitArenaAllocation_def Let_def\<close>)
  qed (use assms(4) in \<open>auto simp: implicitArenaAllocation_def Let_def arenaHasStaticRange_def\<close>)
  moreover have "arena_end a \<le> unat (an_Offset ?new)" if "a \<in> set arenas" for a
    using ends [OF that] off b by linarith
  moreover have "placed_arena origin (S + (unat (rq_Length r) + unat (rq_Align r))) a" if "a \<in> set arenas" for a
    using assms(1) that by (fastforce simp: list_all_iff placed_arena_def)
  ultimately show ?thesis using assms(2) by (auto simp: place_def apart_def sorted_wrt_append list_all_iff)
qed

lemma place_all:
  assumes "unat (ArenaBase origin) + S + demand rs < 2 ^ 64" and "list_all (\<lambda>r. rq_Kind r \<in> {''executor_memory'', ''cache_memory'', ''dma_buffer''}) rs"
    and "list_all (placed_arena origin S) arenas" and "apart arenas"
  shows "list_all (placed_arena origin (S + demand rs)) (fold (place origin) rs arenas) \<and> apart (fold (place origin) rs arenas)"
  using assms
proof (induction rs arbitrary: S arenas)
  case (Cons r rs)
  let ?S = "S + (unat (rq_Length r) + unat (rq_Align r))"
  have "list_all (placed_arena origin ?S) (place origin r arenas) \<and> apart (place origin r arenas)"
    by (rule place_step) (use Cons(2-) in \<open>auto simp: demand_def\<close>)
  then show ?case using Cons(1) [of ?S "place origin r arenas"] Cons(2,3) by (simp add: demand_def add.assoc)
qed (simp add: demand_def)

lemma apart_no_overlap:
  assumes "apart arenas" and "\<forall>a \<in> set arenas. arena_end a < 2 ^ 64"
  shows "overlaps arenas = []"
  using assms
proof (induction arenas)
  case (Cons a as)
  have "\<not> arenaRangesOverlap a b" if "b \<in> set as" for b
  proof -
    have "arena_end a \<le> unat (an_Offset b)" using Cons(2) that by (auto simp: apart_def)
    moreover have "unat (an_Offset a + an_Bytes a) = arena_end a" using Cons(3) by (simp add: unat_word_ariths)
    ultimately show ?thesis by (auto simp: arenaRangesOverlap_def word_less_nat_alt)
  qed
  then show ?case using Cons by (auto simp: apart_def filter_empty_conv)
qed simp

text \<open>
  C25. Executor memories, cache arenas and DMA buffers that are placed one after the other in a parent arena lie apart, in the order of the calls, each at
  an address that is a multiple of its alignment when that is a power of two, and the validation of the graph reports no overlap
  among them, as long as the base and all lengths and alignments together stay below 2 to the 64. The alignments need not be
  powers of two for the arenas to be apart.
\<close>

theorem implicit_arenas_apart:
  assumes "unat (ArenaBase origin) + demand rs < 2 ^ 64" and "list_all (\<lambda>r. rq_Kind r \<in> {''executor_memory'', ''cache_memory'', ''dma_buffer''}) rs"
  shows "apart (fold (place origin) rs []) \<and> list_all (placed_arena origin (demand rs)) (fold (place origin) rs []) \<and> overlaps (fold (place origin) rs []) = []"
proof -
  let ?arenas = "fold (place origin) rs []"
  have p: "list_all (placed_arena origin (demand rs)) ?arenas" "apart ?arenas"
    using place_all [of origin 0 rs "[]"] assms by (auto simp: apart_def)
  have "\<forall>a \<in> set ?arenas. arena_end a < 2 ^ 64" using p(1) assms(1) by (fastforce simp: list_all_iff placed_arena_def)
  from apart_no_overlap [OF p(2) this] p show ?thesis by simp
qed

definition sample_requests :: "arena_request list" where
  "sample_requests =
    [\<lparr>rq_Label = [], rq_Owner = ''executor_slot.0'', rq_Kind = ''executor_memory'', rq_Length = 100, rq_Align = 64, rq_Span = no_span\<rparr>,
     \<lparr>rq_Label = ''rx'', rq_Owner = ''nic'', rq_Kind = ''dma_buffer'', rq_Length = 512, rq_Align = 4096, rq_Span = no_span\<rparr>]"

definition sample_origin :: arena_origin where
  "sample_origin = \<lparr>ArenaLabel = ''root'', ArenaBase = 1032, ArenaBytes = 65536, ArenaAlign = 4096\<rparr>"

theorem implicit_arenas_apart_witness:
  "apart (fold (place sample_origin) sample_requests []) \<and> overlaps (fold (place sample_origin) sample_requests []) = [] \<and>
   map (\<lambda>a. (an_Base a, an_Offset a)) (fold (place sample_origin) sample_requests []) = [(1088, 56), (4096, 3064)]"
proof -
  have "unat (ArenaBase sample_origin) + demand sample_requests < 2 ^ 64" by (simp add: sample_origin_def sample_requests_def demand_def)
  moreover have "list_all (\<lambda>r. rq_Kind r \<in> {''executor_memory'', ''cache_memory'', ''dma_buffer''}) sample_requests" by (simp add: sample_requests_def)
  moreover have "map (\<lambda>a. (an_Base a, an_Offset a)) (fold (place sample_origin) sample_requests []) = [(1088, 56), (4096, 3064)]"
    by (simp add: sample_requests_def sample_origin_def place_def implicitArenaAllocation_def nextImplicitArenaOffset_def alignArenaOffset_def next_end_def arenaHasStaticRange_def Let_def)
  ultimately show ?thesis using implicit_arenas_apart [of sample_origin sample_requests] by simp
qed

section \<open>What the validation accepts\<close>

lemma duplicate_labels_empty:
  "duplicate_labels seen as = [] \<longleftrightarrow> distinct (filter (\<lambda>l. l \<noteq> []) (map an_Label as)) \<and> set (filter (\<lambda>l. l \<noteq> []) (map an_Label as)) \<inter> set seen = {}"
  by (induction as arbitrary: seen) auto

definition siblings :: "ArenaNode \<Rightarrow> ArenaNode \<Rightarrow> bool" where
  "siblings a b \<longleftrightarrow> arenaHasStaticRange a \<and> arenaHasStaticRange b \<and> an_Parent a \<noteq> [] \<and> an_Parent a = an_Parent b"

text \<open>A graph whose ranges do not wrap around is accepted exactly when labels are unique and of two arenas in one parent one ends before the other begins.\<close>

lemma validateArenaGraph_iff:
  assumes "\<forall>a \<in> set arenas. arena_end a < 2 ^ 64"
  shows "validateArenaGraph arenas = [] \<longleftrightarrow> distinct (filter (\<lambda>l. l \<noteq> []) (map an_Label arenas)) \<and>
    sorted_wrt (\<lambda>a b. siblings a b \<longrightarrow> arena_end a \<le> unat (an_Offset b) \<or> arena_end b \<le> unat (an_Offset a)) arenas"
proof -
  have "overlaps arenas = [] \<longleftrightarrow> sorted_wrt (\<lambda>a b. siblings a b \<longrightarrow> arena_end a \<le> unat (an_Offset b) \<or> arena_end b \<le> unat (an_Offset a)) arenas"
    using assms
  proof (induction arenas)
    case (Cons a as)
    have "arenaRangesOverlap a b \<longleftrightarrow> siblings a b \<and> \<not> (arena_end a \<le> unat (an_Offset b) \<or> arena_end b \<le> unat (an_Offset a))" if "b \<in> set as" for b
    proof -
      have "unat (an_Offset a + an_Bytes a) = arena_end a" "unat (an_Offset b + an_Bytes b) = arena_end b"
        using Cons(2) that by (auto simp: unat_word_ariths)
      then show ?thesis by (auto simp: arenaRangesOverlap_def siblings_def word_less_nat_alt not_le)
    qed
    then show ?case using Cons by (auto simp: filter_empty_conv)
  qed simp
  then show ?thesis by (simp add: validateArenaGraph_def duplicate_labels_empty)
qed

text \<open>Ends of ranges are not checked for overflow, and a range that wraps around hides an overlap.\<close>

lemma overlap_hidden_by_wrap:
  fixes a b :: ArenaNode
  defines "a \<equiv> \<lparr>an_Label = [], an_Parent = ''root'', an_Base = 8, an_Offset = 8, an_Bytes = 16, an_Align = 8, an_Owner = [], an_Kind = ''child_arena'', an_Span = no_span\<rparr>"
    and "b \<equiv> \<lparr>an_Label = [], an_Parent = ''root'', an_Base = 16, an_Offset = 16, an_Bytes = - 10, an_Align = 8, an_Owner = [], an_Kind = ''child_arena'', an_Span = no_span\<rparr>"
  shows "siblings a b \<and> unat (an_Offset b) < arena_end a \<and> unat (an_Offset a) < arena_end b \<and> validateArenaGraph [a, b] = []"
  unfolding assms by (simp add: siblings_def arenaHasStaticRange_def validateArenaGraph_def arenaRangesOverlap_def)

text \<open>The size of an interrupt queue in bytes is given exactly when it does not overflow.\<close>

lemma interruptQueuePayloadBytes_exact:
  "interruptQueuePayloadBytes capacity payloadSize = (if unat capacity * unat payloadSize < 2 ^ 64 then Some (capacity * payloadSize) else None)"
proof (cases "payloadSize = 0")
  case False
  then have p: "0 < unat payloadSize" by (simp add: unat_gt_0)
  have m: "unat (- 1 :: u64) = 2 ^ 64 - 1" by (simp add: unsigned_minus_1_eq_mask mask_eq_exp_minus_1)
  have "- 1 div payloadSize < capacity \<longleftrightarrow> (2 ^ 64 - 1) div unat payloadSize < unat capacity"
    by (simp add: word_less_nat_alt unat_div m)
  also have "\<dots> \<longleftrightarrow> 2 ^ 64 - 1 < unat capacity * unat payloadSize" using p by (simp only: div_less_iff_less_mult)
  finally show ?thesis using False by (auto simp: interruptQueuePayloadBytes_def)
qed (simp add: interruptQueuePayloadBytes_def)

end
