(* ===== verification/Spec2Isabelle.thy ===== *)
theory Spec2Isabelle
  imports Wrela_Prelude Storage_Slots Storage_Recovery Storage_Writer Storage_Extents Storage_Regions
    Storage_Views Nvme_Format Record_Layout Diagnostics Asm_Branch
    Topic_Data Pecoff_Write Image_Link Image_File Lexer_Roundtrip Source_Graph Parser_Roundtrip Arena_Graph
begin

text \<open>
  Verification of the wrela compiler (\<open>compiler/\<close>).

  \<^bold>\<open>Theories.\<close>
  \<^item> \<open>Wrela_Prelude\<close>: machine words, little-endian buffers, the codec and alignment interfaces.
  \<^item> \<open>Storage_Slots\<close>: event slots and their checksum.
  \<^item> \<open>Storage_Recovery\<close>: crash recovery of the event log.
\<close>

section \<open>From the linker to the loader\<close>



end
